(* ===== verification/Toolkit_Prelude.thy ===== *)
theory Toolkit_Prelude
  imports Main "HOL-Library.Word"
begin

text \<open>
  Shared vocabulary of the development: the integer types of the C++ sources, the
  \<^verbatim>\<open>Error\<close> struct of \<^verbatim>\<open>pico_core/include/error.hpp\<close>, the result type that stands for
  \<^verbatim>\<open>std::tuple<T, std::optional<Error>>\<close>, the byte reads of a \<^verbatim>\<open>std::span\<close>, the
  reinterpretation of \<^verbatim>\<open>std::string\<close> as bytes, and the lemma collections the component
  theories use.

  Besides the errors the program returns, the result type has two faults that are not
  values of the program: \<open>OutOfBounds\<close> marks a read or write outside an array and
  \<open>NullDeref\<close> a dereference of a null pointer. C++ leaves both undefined; here they are
  branches of the model, so that memory safety is a theorem (no fault is reached) and not
  an assumption.
\<close>

unbundle bit_operations_syntax

section \<open>Integer types\<close>

type_synonym u8 = "8 word"
type_synonym u16 = "16 word"
type_synonym u32 = "32 word"

text \<open>
  Sizes and offsets (\<^verbatim>\<open>size_t\<close>, 32 bits wide on the RP2040) are natural numbers; the one
  operation on them that can leave the range, subtraction, wraps around as in C++.
\<close>

definition size_sub :: "nat \<Rightarrow> nat \<Rightarrow> nat" where
  "size_sub a b = (if b \<le> a then a - b else a + 2 ^ 32 - b)"

lemma size_sub_le [simp]: "b \<le> a \<Longrightarrow> size_sub a b = a - b"
  by (simp add: size_sub_def)

section \<open>Errors and results\<close>

datatype Error = Error (message: string) | OutOfBounds | NullDeref

type_synonym 'a result = "Error + 'a"

definition bindE :: "'a result \<Rightarrow> ('a \<Rightarrow> 'b result) \<Rightarrow> 'b result" where
  "bindE m f = (case m of Inl e \<Rightarrow> Inl e | Inr a \<Rightarrow> f a)"

lemma bindE_simps [simp]:
  "bindE (Inl e) f = Inl e"
  "bindE (Inr a) f = f a"
  by (simp_all add: bindE_def)

lemma bindE_Inr_iff [simp]: "bindE m f = Inr b \<longleftrightarrow> (\<exists>a. m = Inr a \<and> f a = Inr b)"
  by (cases m) simp_all

lemma bindE_cong: "(\<And>a. m = Inr a \<Longrightarrow> f a = g a) \<Longrightarrow> bindE m f = bindE m g"
  by (cases m) simp_all

lemma guard_Inr_iff [simp]: "(if c then Inl e else x) = Inr b \<longleftrightarrow> \<not> c \<and> x = Inr b"
  by simp

text \<open>
  A guard is an early return of the source; \<open>guard_Inr_iff\<close> and \<open>bindE_Inr_iff\<close> turn a
  successful run into the conjunction of the conditions it has passed.
\<close>

fun is_fault :: "Error \<Rightarrow> bool" where
  "is_fault (Error msg) = False"
| "is_fault OutOfBounds = True"
| "is_fault NullDeref = True"

fun fault_free :: "'a result \<Rightarrow> bool" where
  "fault_free (Inl e) = (\<not> is_fault e)"
| "fault_free (Inr a) = True"

named_theorems fault_free_intros \<open>how a run without faults is composed\<close>

lemma fault_free_bindE [fault_free_intros]:
  "\<lbrakk> fault_free m; \<And>a. m = Inr a \<Longrightarrow> fault_free (f a) \<rbrakk> \<Longrightarrow> fault_free (bindE m f)"
  by (cases m) simp_all

lemma fault_free_guard [fault_free_intros]:
  "\<lbrakk> c \<Longrightarrow> fault_free x; \<not> c \<Longrightarrow> fault_free y \<rbrakk> \<Longrightarrow> fault_free (if c then x else y)"
  by simp

section \<open>Reading arrays\<close>

definition read_at :: "'a list \<Rightarrow> nat \<Rightarrow> 'a result" where
  "read_at d i = (if i < length d then Inr (d ! i) else Inl OutOfBounds)"

definition read_range :: "'a list \<Rightarrow> nat \<Rightarrow> nat \<Rightarrow> 'a list result" where
  "read_range d off n =
     (if off + n \<le> length d then Inr (take n (drop off d)) else Inl OutOfBounds)"

lemma read_at_Inr_iff:
  "read_at d i = Inr b \<longleftrightarrow> i < length d \<and> drop i d = b # drop (Suc i) d"
  by (auto simp: read_at_def Cons_nth_drop_Suc [symmetric])

lemma read_at_fault_free [fault_free_intros]: "i < length d \<Longrightarrow> fault_free (read_at d i)"
  by (simp add: read_at_def)

lemma read_range_fault_free [fault_free_intros]:
  "off + n \<le> length d \<Longrightarrow> fault_free (read_range d off n)"
  by (simp add: read_range_def)

lemma read_range_Inr_iff:
  "read_range d off n = Inr bs \<longleftrightarrow>
     off + n \<le> length d \<and> length bs = n \<and> drop off d = bs @ drop (off + n) d"
proof
  assume "read_range d off n = Inr bs"
  then have "off + n \<le> length d" and "bs = take n (drop off d)"
    by (auto simp: read_range_def split: if_splits)
  then show "off + n \<le> length d \<and> length bs = n \<and> drop off d = bs @ drop (off + n) d"
    by (simp add: add.commute flip: drop_drop)
next
  assume r: "off + n \<le> length d \<and> length bs = n \<and> drop off d = bs @ drop (off + n) d"
  then have "take n (drop off d) = take n (bs @ drop (off + n) d)" by simp
  with r show "read_range d off n = Inr bs" by (simp add: read_range_def)
qed

lemma nth_take_drop_eq: "drop i d = b # r \<Longrightarrow> i < length d \<and> d ! i = b"
  by (metis drop_eq_Nil list.discI linorder_not_le nth_via_drop)

lemma drop_SucI: "drop i d = b # r \<Longrightarrow> drop (Suc i) d = r"
  by (metis drop_Suc tl_drop list.sel(3))

lemma drop_appendD: "drop i d = xs @ r \<Longrightarrow> drop (i + length xs) d = r"
  by (metis add.commute append_eq_conv_conj drop_drop)

lemma drop_length_le: "drop i d = xs @ r \<Longrightarrow> i \<le> length d \<Longrightarrow> i + length xs + length r = length d"
  by (metis add.assoc le_add_diff_inverse length_append length_drop)

section \<open>Writing arrays\<close>

text \<open>\<^verbatim>\<open>memcpy\<close> into an array, and an assignment to one element.\<close>

definition write_range :: "'a list \<Rightarrow> nat \<Rightarrow> 'a list \<Rightarrow> 'a list result" where
  "write_range d off bs =
     (if off + length bs \<le> length d
      then Inr (take off d @ bs @ drop (off + length bs) d) else Inl OutOfBounds)"

definition write_at :: "'a list \<Rightarrow> nat \<Rightarrow> 'a \<Rightarrow> 'a list result" where
  "write_at d i b = (if i < length d then Inr (d[i := b]) else Inl OutOfBounds)"

lemma write_range_Inr: "off + length bs \<le> length d \<Longrightarrow>
    write_range d off bs = Inr (take off d @ bs @ drop (off + length bs) d)"
  by (simp add: write_range_def)

lemma write_at_range: "write_at d i b = write_range d i [b]"
  by (auto simp: write_at_def write_range_def upd_conv_take_nth_drop)

text \<open>An array with \<open>R\<close> written over it from \<open>off\<close> on.\<close>

definition patched :: "'a list \<Rightarrow> nat \<Rightarrow> 'a list \<Rightarrow> 'a list" where
  "patched xs off R = take off xs @ R @ drop (off + length R) xs"

lemma patched_Nil [simp]: "patched xs off [] = xs"
  by (simp add: patched_def)

lemma length_patched [simp]: "off + length R \<le> length xs \<Longrightarrow> length (patched xs off R) = length xs"
  by (simp add: patched_def)

lemma write_range_patched:
  assumes "off + length R + length bs \<le> length xs" and "i = off + length R"
  shows "write_range (patched xs off R) i bs = Inr (patched xs off (R @ bs))"
  using assms by (simp add: write_range_def patched_def add.commute add.left_commute)

lemma write_at_patched:
  assumes "off + length R < length xs" and "i = off + length R"
  shows "write_at (patched xs off R) i b = Inr (patched xs off (R @ [b]))"
  using assms by (simp add: write_at_range write_range_patched)

section \<open>Strings as bytes\<close>

text \<open>
  A \<^verbatim>\<open>std::string\<close> is a list of characters; the sources move between characters and
  bytes with \<^verbatim>\<open>reinterpret_cast\<close>.
\<close>

definition byte_of_char :: "char \<Rightarrow> u8" where
  "byte_of_char c = of_nat (of_char c)"

definition char_of_byte :: "u8 \<Rightarrow> char" where
  "char_of_byte b = char_of (unat b)"

abbreviation bytes_of_string :: "string \<Rightarrow> u8 list" where
  "bytes_of_string s \<equiv> map byte_of_char s"

abbreviation string_of_bytes :: "u8 list \<Rightarrow> string" where
  "string_of_bytes bs \<equiv> map char_of_byte bs"

lemma char_of_byte_of_char [simp]: "char_of_byte (byte_of_char c) = c"
  by (simp add: char_of_byte_def byte_of_char_def unat_of_nat)

lemma byte_of_char_of_byte [simp]: "byte_of_char (char_of_byte b) = b"
proof -
  have "unat b < 2 ^ LENGTH(8)" by (rule unsigned_less)
  then have "unat b mod 256 = unat b" by simp
  then show ?thesis by (simp add: byte_of_char_def char_of_byte_def)
qed

lemma char_byte_comp [simp]:
  "char_of_byte \<circ> byte_of_char = id" "byte_of_char \<circ> char_of_byte = id"
  by (simp_all add: fun_eq_iff)

lemma string_of_bytes_of_string [simp]: "string_of_bytes (bytes_of_string s) = s"
  by (induction s) simp_all

lemma bytes_of_string_of_bytes [simp]: "bytes_of_string (string_of_bytes bs) = bs"
  by (induction bs) simp_all

lemma string_of_bytes_eq_iff: "string_of_bytes bs = s \<longleftrightarrow> bs = bytes_of_string s"
  by (metis string_of_bytes_of_string bytes_of_string_of_bytes)

section \<open>Big-endian 16-bit integers\<close>

definition u16_hi :: "u16 \<Rightarrow> u8" where
  "u16_hi v = ucast (drop_bit 8 v AND 0xFF)"

definition u16_lo :: "u16 \<Rightarrow> u8" where
  "u16_lo v = ucast (v AND 0xFF)"

definition u16_join :: "u8 \<Rightarrow> u8 \<Rightarrow> u16" where
  "u16_join hi lo = push_bit 8 (ucast hi) OR ucast lo"

lemma bit_0xFF [simp]: "bit (0xFF :: int) n \<longleftrightarrow> n < 8"
proof -
  have m: "(0xFF :: int) = mask 8" by (simp add: mask_eq_exp_minus_1)
  show ?thesis by (subst m, simp only: bit_mask_iff possible_bit_def) simp
qed

lemma bit_0x80 [simp]: "bit (0x80 :: int) n \<longleftrightarrow> n = 7"
proof -
  have m: "(0x80 :: int) = 2 ^ 7" by simp
  show ?thesis by (subst m, simp only: bit_exp_iff possible_bit_def) simp
qed

lemma bit_u8_range [simp]: "bit (b :: u8) (8 + n) = False"
  using bit_imp_le_length [of b "8 + n"] by auto

lemma u16_join_split [simp]: "u16_join (u16_hi v) (u16_lo v) = v"
proof (rule bit_word_eqI)
  fix n assume "n < LENGTH(16)"
  then show "bit (u16_join (u16_hi v) (u16_lo v)) n = bit v n"
    by (cases "n < 8") (auto simp: u16_join_def u16_hi_def u16_lo_def bit_simps)
qed

lemma u16_hi_join [simp]: "u16_hi (u16_join a b) = a"
  by (rule bit_word_eqI) (auto simp: u16_join_def u16_hi_def bit_simps)

lemma u16_lo_join [simp]: "u16_lo (u16_join a b) = b"
  by (rule bit_word_eqI) (auto simp: u16_join_def u16_lo_def bit_simps)

section \<open>Bytes bit by bit\<close>

lemma word8_eq_iff:
  "(a :: u8) = b \<longleftrightarrow> (bit a 0 = bit b 0 \<and> bit a 1 = bit b 1 \<and> bit a 2 = bit b 2 \<and>
     bit a 3 = bit b 3 \<and> bit a 4 = bit b 4 \<and> bit a 5 = bit b 5 \<and> bit a 6 = bit b 6 \<and>
     bit a 7 = bit b 7)"
proof -
  have "{..<8::nat} = {0, 1, 2, 3, 4, 5, 6, 7}" by auto
  then have "(\<forall>n<8. bit a n = bit b n) \<longleftrightarrow> (\<forall>n\<in>{0, 1, 2, 3, 4, 5, 6, 7}. bit a n = bit b n)"
    by (metis lessThan_iff)
  moreover have "a = b \<longleftrightarrow> (\<forall>n<8. bit a n = bit b n)"
    by (auto intro: bit_word_eqI)
  ultimately show ?thesis by simp
qed

end
