(* ===== verification/Mqtt_Message.thy ===== *)
theory Mqtt_Message
  imports Toolkit_Prelude
begin

text \<open>
  The data of \<^verbatim>\<open>pico_mqtt/include/mqtt_message.hpp\<close>: one record per message struct. Record
  fields share one name space, so a field carries its struct's name as a prefix
  (\<^verbatim>\<open>MqttPubackMessage::packet_identifier\<close> is \<open>puback_packet_identifier\<close>).

  A \<^verbatim>\<open>std::span<const std::byte>\<close> that a function only reads is modelled by the bytes it
  denotes. \<^verbatim>\<open>MqttPublishMessage::payload\<close> is such a span, and the client keeps it in a
  queue while the buffer behind it changes; the record is therefore polymorphic in the
  payload, which is the bytes themselves in the parser and the encoder, and a position in
  the receive buffer in the client's queue.
\<close>

section \<open>Control packets\<close>

datatype MqttMessageType =
    CONNECT | CONNACK | PUBLISH | PUBACK | PUBREC | PUBREL | PUBCOMP
  | SUBSCRIBE | SUBACK | UNSUBSCRIBE | UNSUBACK | PINGREQ | PINGRESP | DISCONNECT

text \<open>The enumerators' values, and the cast back from the underlying \<^verbatim>\<open>uint8_t\<close>.\<close>

fun message_type_code :: "MqttMessageType \<Rightarrow> u8" where
  "message_type_code CONNECT = 0x1"
| "message_type_code CONNACK = 0x2"
| "message_type_code PUBLISH = 0x3"
| "message_type_code PUBACK = 0x4"
| "message_type_code PUBREC = 0x5"
| "message_type_code PUBREL = 0x6"
| "message_type_code PUBCOMP = 0x7"
| "message_type_code SUBSCRIBE = 0x8"
| "message_type_code SUBACK = 0x9"
| "message_type_code UNSUBSCRIBE = 0xA"
| "message_type_code UNSUBACK = 0xB"
| "message_type_code PINGREQ = 0xC"
| "message_type_code PINGRESP = 0xD"
| "message_type_code DISCONNECT = 0xE"

definition message_type_of_code :: "u8 \<Rightarrow> MqttMessageType option" where
  "message_type_of_code c =
     (if c = 0x1 then Some CONNECT else if c = 0x2 then Some CONNACK
      else if c = 0x3 then Some PUBLISH else if c = 0x4 then Some PUBACK
      else if c = 0x5 then Some PUBREC else if c = 0x6 then Some PUBREL
      else if c = 0x7 then Some PUBCOMP else if c = 0x8 then Some SUBSCRIBE
      else if c = 0x9 then Some SUBACK else if c = 0xA then Some UNSUBSCRIBE
      else if c = 0xB then Some UNSUBACK else if c = 0xC then Some PINGREQ
      else if c = 0xD then Some PINGRESP else if c = 0xE then Some DISCONNECT
      else None)"

lemma message_type_of_code_code [simp]:
  "message_type_of_code (message_type_code t) = Some t"
  by (cases t) (simp_all add: message_type_of_code_def)

lemma message_type_of_code_SomeD:
  "message_type_of_code c = Some t \<Longrightarrow> c = message_type_code t"
  by (auto simp: message_type_of_code_def split: if_splits)

record MqttFixedHeader =
  header_type :: MqttMessageType
  header_flags :: u8
  header_remaining_length :: u32

record MqttControlPacket =
  fixed_header :: MqttFixedHeader
  packet_body :: "u8 list"

record MqttEncodedPacket =
  packet_bytes :: "u8 list"

section \<open>CONNECT and CONNACK\<close>

record MqttWillMessage =
  will_topic :: string
  will_message :: string
  will_qos :: u8
  will_retain :: bool

record MqttConnectMessage =
  connect_clean_session :: bool
  connect_keep_alive :: u16
  connect_client_id :: string
  connect_will :: "MqttWillMessage option"
  connect_username :: "string option"
  connect_password :: "string option"

text \<open>
  The two return-code enumerations have the fixed underlying type \<^verbatim>\<open>uint8_t\<close>, so an
  object of either type may hold any byte (the encoder checks for it); the enumerators
  are named values.
\<close>

datatype MqttConnackReturnCode = MqttConnackReturnCode (connack_code: u8)

abbreviation "ACCEPTED \<equiv> MqttConnackReturnCode 0"
abbreviation "UNACCEPTABLE_PROTOCOL_VERSION \<equiv> MqttConnackReturnCode 1"
abbreviation "IDENTIFIER_REJECTED \<equiv> MqttConnackReturnCode 2"
abbreviation "SERVER_UNAVAILABLE \<equiv> MqttConnackReturnCode 3"
abbreviation "BAD_USERNAME_OR_PASSWORD \<equiv> MqttConnackReturnCode 4"
abbreviation "NOT_AUTHORIZED \<equiv> MqttConnackReturnCode 5"

record MqttConnackMessage =
  connack_session_present :: bool
  connack_return_code :: MqttConnackReturnCode

section \<open>PUBLISH and its acknowledgements\<close>

record 'p MqttPublishMessage =
  publish_dup :: bool
  publish_qos :: u8
  publish_retain :: bool
  publish_topic_name :: string
  publish_packet_identifier :: "u16 option"
  publish_payload :: 'p

record MqttPubackMessage =
  puback_packet_identifier :: u16

record MqttPubrecMessage =
  pubrec_packet_identifier :: u16

record MqttPubrelMessage =
  pubrel_packet_identifier :: u16

record MqttPubcompMessage =
  pubcomp_packet_identifier :: u16

section \<open>Subscriptions\<close>

record MqttSubscribeTopic =
  topic_filter :: string
  topic_qos :: u8

record MqttSubscribeMessage =
  subscribe_packet_identifier :: u16
  subscribe_topics :: "MqttSubscribeTopic list"

datatype MqttSubackReturnCode = MqttSubackReturnCode (suback_code: u8)

abbreviation "SUCCESS_QOS_0 \<equiv> MqttSubackReturnCode 0x00"
abbreviation "SUCCESS_QOS_1 \<equiv> MqttSubackReturnCode 0x01"
abbreviation "SUCCESS_QOS_2 \<equiv> MqttSubackReturnCode 0x02"
abbreviation "FAILURE \<equiv> MqttSubackReturnCode 0x80"

record MqttSubackMessage =
  suback_packet_identifier :: u16
  suback_return_codes :: "MqttSubackReturnCode list"

record MqttUnsubscribeMessage =
  unsubscribe_packet_identifier :: u16
  unsubscribe_topic_filters :: "string list"

record MqttUnsubackMessage =
  unsuback_packet_identifier :: u16

section \<open>Messages without content\<close>

datatype MqttPingreqMessage = MqttPingreqMessage
datatype MqttPingrespMessage = MqttPingrespMessage
datatype MqttDisconnectMessage = MqttDisconnectMessage

end
