(* ===== verification/Mqtt_Encoder.thy ===== *)
theory Mqtt_Encoder
  imports Mqtt_Message
begin

text \<open>
  \<^verbatim>\<open>MqttEncoder\<close> (\<^verbatim>\<open>pico_mqtt/src/mqtt_encoder.cpp\<close>). A \<^verbatim>\<open>std::vector<std::byte> &out\<close>
  parameter is passed and returned; a message encodes to a packet or to the error the
  source returns, in the source's order of checks.
\<close>

section \<open>Writing fields\<close>

definition write_u8 :: "u8 list \<Rightarrow> u8 \<Rightarrow> u8 list" where
  "write_u8 out value = out @ [value]"

definition write_u16 :: "u8 list \<Rightarrow> u16 \<Rightarrow> u8 list" where
  "write_u16 out value =
     (out @ [ucast (drop_bit 8 value AND 0xFF)]) @ [ucast (value AND 0xFF)]"

text \<open>The cast of the length to \<^verbatim>\<open>uint16_t\<close> keeps its low 16 bits.\<close>

definition write_string :: "u8 list \<Rightarrow> string \<Rightarrow> u8 list" where
  "write_string out value =
     write_u16 out (of_nat (length value)) @ bytes_of_string value"

definition write_binary :: "u8 list \<Rightarrow> u8 list \<Rightarrow> u8 list" where
  "write_binary out value = write_u16 out (of_nat (length value)) @ value"

function write_remaining_length :: "u8 list \<Rightarrow> u32 \<Rightarrow> u8 list" where
  "write_remaining_length out value =
     (let encoded_byte = (ucast (value mod 128) :: u8);
          value' = value div 128;
          encoded_byte' = (if value' > 0 then encoded_byte OR 128 else encoded_byte);
          out' = write_u8 out encoded_byte'
      in if value' > 0 then write_remaining_length out' value' else out')"
  by pat_completeness auto
termination
proof (relation "measure (\<lambda>(out, value). unat value)", simp, clarsimp)
  fix v :: u32
  assume "0 < v div 128"
  then have "0 < unat (v div 128)" by (simp add: unat_gt_0)
  then show "unat (v div 128) < unat v" by (simp add: unat_div)
qed

declare write_remaining_length.simps [simp del]

definition validate_packet_identifier :: "u16 \<Rightarrow> Error option" where
  "validate_packet_identifier packet_identifier =
     (if packet_identifier = 0
      then Some (Error ''MQTT packet identifier must not be zero'') else None)"

definition make_packet ::
  "MqttMessageType \<Rightarrow> u8 \<Rightarrow> u8 list \<Rightarrow> MqttEncodedPacket result" where
  "make_packet type flags body =
     (if length body > 268435455 then Inl (Error ''MQTT packet too large'')
      else
        let first_byte = push_bit 4 (message_type_code type) OR (flags AND 0x0F);
            out = write_u8 [] first_byte;
            out = write_remaining_length out (of_nat (length body))
        in Inr \<lparr>packet_bytes = out @ body\<rparr>)"

section \<open>CONNECT and CONNACK\<close>

definition connect_flags :: "MqttConnectMessage \<Rightarrow> u8" where
  "connect_flags msg =
     (let f = 0;
          f = (if connect_username msg \<noteq> None then f OR 0x80 else f);
          f = (if connect_password msg \<noteq> None then f OR 0x40 else f);
          f = (case connect_will msg of
                 None \<Rightarrow> f
               | Some will \<Rightarrow>
                   let f = f OR 0x04;
                       f = f OR push_bit 3 (will_qos will AND 3)
                   in if will_retain will then f OR 0x20 else f)
      in if connect_clean_session msg then f OR 0x02 else f)"

definition connect_body :: "MqttConnectMessage \<Rightarrow> u8 list" where
  "connect_body msg =
     (let out = write_string [] ''MQTT'';
          out = write_u8 out 0x04;
          out = write_u8 out (connect_flags msg);
          out = write_u16 out (connect_keep_alive msg);
          out = write_string out (connect_client_id msg);
          out = (case connect_will msg of
                   None \<Rightarrow> out
                 | Some will \<Rightarrow>
                     write_binary (write_string out (will_topic will))
                       (bytes_of_string (will_message will)));
          out = (case connect_username msg of
                   None \<Rightarrow> out | Some username \<Rightarrow> write_string out username)
      in case connect_password msg of
           None \<Rightarrow> out | Some password \<Rightarrow> write_binary out (bytes_of_string password))"

definition encode_connect :: "MqttConnectMessage \<Rightarrow> MqttEncodedPacket result" where
  "encode_connect msg =
     (if connect_client_id msg = [] \<and> \<not> connect_clean_session msg
      then Inl (Error ''MQTT CONNECT with empty client_id requires clean_session=true'')
      else if (case connect_will msg of None \<Rightarrow> False | Some will \<Rightarrow> will_qos will > 2)
      then Inl (Error ''MQTT will QoS must be 0, 1, or 2'')
      else if connect_password msg \<noteq> None \<and> connect_username msg = None
      then Inl (Error ''MQTT password requires username'')
      else make_packet CONNECT 0x00 (connect_body msg))"

definition encode_connack :: "MqttConnackMessage \<Rightarrow> MqttEncodedPacket result" where
  "encode_connack msg =
     (let return_code = connack_code (connack_return_code msg)
      in if return_code > 5 then Inl (Error ''MQTT CONNACK invalid return code'')
         else
           let ack_flags = (if connack_session_present msg then 0x01 else 0x00);
               out = write_u8 [] ack_flags;
               out = write_u8 out return_code
           in make_packet CONNACK 0x00 out)"

section \<open>PUBLISH\<close>

definition publish_flags :: "'p MqttPublishMessage \<Rightarrow> u8" where
  "publish_flags msg =
     (let f = 0;
          f = (if publish_dup msg then f OR 0x8 else f);
          f = f OR push_bit 1 (publish_qos msg AND 3)
      in if publish_retain msg then f OR 0x1 else f)"

text \<open>
  The packet identifier is dereferenced where the quality of service is positive; the
  checks before it make sure it is there, and the model reports the dereference of an
  empty optional as a fault.
\<close>

definition encode_publish :: "u8 list MqttPublishMessage \<Rightarrow> MqttEncodedPacket result" where
  "encode_publish msg =
     (if publish_topic_name msg = []
      then Inl (Error ''MQTT PUBLISH topic name must not be empty'')
      else if publish_qos msg > 2
      then Inl (Error ''MQTT PUBLISH QoS must be 0, 1, or 2'')
      else if publish_qos msg = 0 \<and> publish_packet_identifier msg \<noteq> None
      then Inl (Error ''MQTT PUBLISH QoS 0 must not include packet identifier'')
      else if publish_qos msg > 0 \<and> publish_packet_identifier msg = None
      then Inl (Error ''MQTT PUBLISH QoS > 0 requires packet identifier'')
      else if publish_packet_identifier msg = Some 0
      then Inl (Error ''MQTT PUBLISH packet identifier must not be zero'')
      else
        let out = write_string [] (publish_topic_name msg)
        in bindE (if publish_qos msg > 0
                  then (case publish_packet_identifier msg of
                          None \<Rightarrow> Inl NullDeref
                        | Some packet_identifier \<Rightarrow> Inr (write_u16 out packet_identifier))
                  else Inr out)
             (\<lambda>out. make_packet PUBLISH (publish_flags msg) (out @ publish_payload msg)))"

section \<open>Packets that carry an identifier only\<close>

definition encode_identifier ::
  "MqttMessageType \<Rightarrow> u8 \<Rightarrow> u16 \<Rightarrow> MqttEncodedPacket result" where
  "encode_identifier type flags packet_identifier =
     (case validate_packet_identifier packet_identifier of
        Some err \<Rightarrow> Inl err
      | None \<Rightarrow> make_packet type flags (write_u16 [] packet_identifier))"

definition encode_puback :: "MqttPubackMessage \<Rightarrow> MqttEncodedPacket result" where
  "encode_puback msg = encode_identifier PUBACK 0x00 (puback_packet_identifier msg)"

definition encode_pubrec :: "MqttPubrecMessage \<Rightarrow> MqttEncodedPacket result" where
  "encode_pubrec msg = encode_identifier PUBREC 0x00 (pubrec_packet_identifier msg)"

definition encode_pubrel :: "MqttPubrelMessage \<Rightarrow> MqttEncodedPacket result" where
  "encode_pubrel msg = encode_identifier PUBREL 0x02 (pubrel_packet_identifier msg)"

definition encode_pubcomp :: "MqttPubcompMessage \<Rightarrow> MqttEncodedPacket result" where
  "encode_pubcomp msg = encode_identifier PUBCOMP 0x00 (pubcomp_packet_identifier msg)"

definition encode_unsuback :: "MqttUnsubackMessage \<Rightarrow> MqttEncodedPacket result" where
  "encode_unsuback msg = encode_identifier UNSUBACK 0x00 (unsuback_packet_identifier msg)"

section \<open>Subscriptions\<close>

fun encode_topics :: "u8 list \<Rightarrow> MqttSubscribeTopic list \<Rightarrow> u8 list result" where
  "encode_topics out [] = Inr out"
| "encode_topics out (topic # topics) =
     (if topic_filter topic = []
      then Inl (Error ''MQTT SUBSCRIBE topic filter must not be empty'')
      else if topic_qos topic > 2
      then Inl (Error ''MQTT SUBSCRIBE QoS must be 0, 1, or 2'')
      else encode_topics (write_u8 (write_string out (topic_filter topic)) (topic_qos topic))
             topics)"

definition encode_subscribe :: "MqttSubscribeMessage \<Rightarrow> MqttEncodedPacket result" where
  "encode_subscribe msg =
     (case validate_packet_identifier (subscribe_packet_identifier msg) of
        Some err \<Rightarrow> Inl err
      | None \<Rightarrow>
          if subscribe_topics msg = []
          then Inl (Error ''MQTT SUBSCRIBE must contain at least one topic'')
          else bindE (encode_topics (write_u16 [] (subscribe_packet_identifier msg))
                        (subscribe_topics msg))
                 (\<lambda>out. make_packet SUBSCRIBE 0x02 out))"

fun encode_return_codes :: "u8 list \<Rightarrow> MqttSubackReturnCode list \<Rightarrow> u8 list result" where
  "encode_return_codes out [] = Inr out"
| "encode_return_codes out (code # codes) =
     (let raw = suback_code code
      in if raw \<noteq> 0x00 \<and> raw \<noteq> 0x01 \<and> raw \<noteq> 0x02 \<and> raw \<noteq> 0x80
         then Inl (Error ''MQTT SUBACK invalid return code'')
         else encode_return_codes (write_u8 out raw) codes)"

definition encode_suback :: "MqttSubackMessage \<Rightarrow> MqttEncodedPacket result" where
  "encode_suback msg =
     (case validate_packet_identifier (suback_packet_identifier msg) of
        Some err \<Rightarrow> Inl err
      | None \<Rightarrow>
          if suback_return_codes msg = []
          then Inl (Error ''MQTT SUBACK must contain at least one return code'')
          else bindE (encode_return_codes (write_u16 [] (suback_packet_identifier msg))
                        (suback_return_codes msg))
                 (\<lambda>out. make_packet SUBACK 0x00 out))"

fun encode_topic_filters :: "u8 list \<Rightarrow> string list \<Rightarrow> u8 list result" where
  "encode_topic_filters out [] = Inr out"
| "encode_topic_filters out (tf # tfs) =
     (if tf = [] then Inl (Error ''MQTT UNSUBSCRIBE topic filter must not be empty'')
      else encode_topic_filters (write_string out tf) tfs)"

definition encode_unsubscribe :: "MqttUnsubscribeMessage \<Rightarrow> MqttEncodedPacket result" where
  "encode_unsubscribe msg =
     (case validate_packet_identifier (unsubscribe_packet_identifier msg) of
        Some err \<Rightarrow> Inl err
      | None \<Rightarrow>
          if unsubscribe_topic_filters msg = []
          then Inl (Error ''MQTT UNSUBSCRIBE must contain at least one topic filter'')
          else bindE (encode_topic_filters (write_u16 [] (unsubscribe_packet_identifier msg))
                        (unsubscribe_topic_filters msg))
                 (\<lambda>out. make_packet UNSUBSCRIBE 0x02 out))"

section \<open>Packets without a body\<close>

definition encode_pingreq :: "MqttEncodedPacket result" where
  "encode_pingreq = make_packet PINGREQ 0x00 []"

definition encode_pingresp :: "MqttEncodedPacket result" where
  "encode_pingresp = make_packet PINGRESP 0x00 []"

definition encode_disconnect :: "MqttEncodedPacket result" where
  "encode_disconnect = make_packet DISCONNECT 0x00 []"

end
