(* ===== verification/Mqtt_Parser.thy ===== *)
theory Mqtt_Parser
  imports Mqtt_Message
begin

text \<open>
  \<^verbatim>\<open>MqttParser\<close> (\<^verbatim>\<open>pico_mqtt/src/mqtt_parser.cpp\<close>). The parameter \<^verbatim>\<open>size_t &offset\<close> is
  passed and returned with the value read; after an error every caller returns at once,
  so no offset is returned with an error. Reads of the span go through \<open>read_at\<close> and
  \<open>read_range\<close>, which report an access outside it as a fault. The bound checks
  \<^verbatim>\<open>data.size() - offset < n\<close> are the source's, with the wrap-around of \<^verbatim>\<open>size_t\<close>.
\<close>

section \<open>Reading fields\<close>

text \<open>
  The loop of \<^verbatim>\<open>decode_remaining_length\<close>. The source accumulates into \<^verbatim>\<open>out_length\<close>, a
  name it does not declare; it is taken as the local \<^verbatim>\<open>uint32_t\<close> that the return type asks
  for.
\<close>

function decode_remaining_length_loop ::
  "u8 list \<Rightarrow> nat \<Rightarrow> u32 \<Rightarrow> u32 \<Rightarrow> u8 \<Rightarrow> (u32 \<times> nat) result" where
  "decode_remaining_length_loop data offset multiplier out_length count =
     (if offset \<ge> length data
      then Inl (Error ''MQTT remaining length exceeds packet size'')
      else bindE (read_at data offset) (\<lambda>encoded_byte.
        let offset = offset + 1;
            out_length = out_length + ucast (encoded_byte AND 127) * multiplier;
            multiplier = multiplier * 128;
            count = count + 1
        in if count > 4
           then Inl (Error ''MQTT remaining length exceeds maximum of 4 bytes'')
           else if encoded_byte AND 128 \<noteq> 0
           then decode_remaining_length_loop data offset multiplier out_length count
           else Inr (out_length, offset)))"
  by pat_completeness auto
termination
  by (relation "measure (\<lambda>(data, offset, _). length data - offset)") auto

declare decode_remaining_length_loop.simps [simp del]

definition decode_remaining_length :: "u8 list \<Rightarrow> nat \<Rightarrow> (u32 \<times> nat) result" where
  "decode_remaining_length data offset = decode_remaining_length_loop data offset 1 0 0"

definition validate_fixed_header_flags :: "MqttMessageType \<Rightarrow> u8 \<Rightarrow> bool" where
  "validate_fixed_header_flags type flags =
     (case type of
        PUBLISH \<Rightarrow> True
      | PUBREL \<Rightarrow> flags = 2
      | SUBSCRIBE \<Rightarrow> flags = 2
      | UNSUBSCRIBE \<Rightarrow> flags = 2
      | _ \<Rightarrow> flags = 0)"

definition read_u16 :: "u8 list \<Rightarrow> nat \<Rightarrow> (u16 \<times> nat) result" where
  "read_u16 data offset =
     (if size_sub (length data) offset < 2
      then Inl (Error ''MQTT packet too short while reading uint16'')
      else bindE (read_at data offset) (\<lambda>hi.
           bindE (read_at data (offset + 1)) (\<lambda>lo.
             Inr (push_bit 8 (ucast hi) OR ucast lo, offset + 2))))"

definition read_string :: "u8 list \<Rightarrow> nat \<Rightarrow> (string \<times> nat) result" where
  "read_string data offset =
     bindE (read_u16 data offset) (\<lambda>(len, offset).
       if size_sub (length data) offset < unat len
       then Inl (Error ''MQTT string length exceeds packet size'')
       else bindE (read_range data offset (unat len)) (\<lambda>chars.
         Inr (string_of_bytes chars, offset + unat len)))"

definition read_binary :: "u8 list \<Rightarrow> nat \<Rightarrow> (u8 list \<times> nat) result" where
  "read_binary data offset =
     bindE (read_u16 data offset) (\<lambda>(len, offset).
       if size_sub (length data) offset < unat len
       then Inl (Error ''MQTT binary length exceeds packet size'')
       else bindE (read_range data offset (unat len)) (\<lambda>chars.
         Inr (chars, offset + unat len)))"

section \<open>The fixed header\<close>

definition parse_control_packet :: "u8 list \<Rightarrow> MqttControlPacket result" where
  "parse_control_packet data =
     (if length data < 2 then Inl (Error ''MQTT packet too short'')
      else bindE (read_at data 0) (\<lambda>first.
        let flags = first AND 0x0F
        in case message_type_of_code (drop_bit 4 first) of
             None \<Rightarrow> Inl (Error ''Invalid MQTT message type'')
           | Some type \<Rightarrow>
               if \<not> validate_fixed_header_flags type flags
               then Inl (Error ''Invalid MQTT fixed header flags'')
               else bindE (decode_remaining_length data 1) (\<lambda>(remaining_length, offset).
                 if size_sub (length data) offset < unat remaining_length
                 then Inl (Error ''Incomplete MQTT packet'')
                 else bindE (read_range data offset (unat remaining_length)) (\<lambda>body.
                   Inr \<lparr>fixed_header = \<lparr>header_type = type, header_flags = flags,
                                         header_remaining_length = remaining_length\<rparr>,
                        packet_body = body\<rparr>))))"

text \<open>\<^verbatim>\<open>packet.fixed_header.type\<close>, which every parser checks first.\<close>

abbreviation packet_type :: "MqttControlPacket \<Rightarrow> MqttMessageType" where
  "packet_type p \<equiv> header_type (fixed_header p)"

abbreviation packet_flags :: "MqttControlPacket \<Rightarrow> u8" where
  "packet_flags p \<equiv> header_flags (fixed_header p)"

section \<open>CONNECT and CONNACK\<close>

definition parse_will :: "u8 list \<Rightarrow> nat \<Rightarrow> u8 \<Rightarrow> bool \<Rightarrow> (MqttWillMessage \<times> nat) result" where
  "parse_will body offset qos retain =
     bindE (read_string body offset) (\<lambda>(topic, offset).
     bindE (read_binary body offset) (\<lambda>(payload, offset).
       Inr (\<lparr>will_topic = topic, will_message = string_of_bytes payload,
             will_qos = qos, will_retain = retain\<rparr>, offset)))"

text \<open>A field of the payload that is there when its flag is set.\<close>

definition when_flag :: "bool \<Rightarrow> nat \<Rightarrow> ('a \<times> nat) result \<Rightarrow> ('a option \<times> nat) result" where
  "when_flag flag offset r =
     (if flag then bindE r (\<lambda>(a, offset). Inr (Some a, offset)) else Inr (None, offset))"

definition parse_connect :: "MqttControlPacket \<Rightarrow> MqttConnectMessage result" where
  "parse_connect packet =
     (let body = packet_body packet in
      if packet_type packet \<noteq> CONNECT then Inl (Error ''MQTT packet is not CONNECT'')
      else if length body < 10 then Inl (Error ''CONNECT packet too short'')
      else bindE (read_string body 0) (\<lambda>(protocol_name, offset).
        if protocol_name \<noteq> ''MQTT'' then Inl (Error ''Invalid MQTT protocol name'')
        else if size_sub (length body) offset < 1
        then Inl (Error ''Missing MQTT protocol level'')
        else bindE (read_at body offset) (\<lambda>protocol_level.
        let offset = offset + 1 in
        if protocol_level \<noteq> 4 then Inl (Error ''Unsupported MQTT protocol level'')
        else if size_sub (length body) offset < 1
        then Inl (Error ''Missing CONNECT flags'')
        else bindE (read_at body offset) (\<lambda>flags.
        let offset = offset + 1;
            username_flag = (flags AND 0x80 \<noteq> 0);
            password_flag = (flags AND 0x40 \<noteq> 0);
            will_retain = (flags AND 0x20 \<noteq> 0);
            will_qos = drop_bit 3 (flags AND 0x18);
            will_flag = (flags AND 0x04 \<noteq> 0);
            clean_session = (flags AND 0x02 \<noteq> 0);
            reserved = (flags AND 0x01 \<noteq> 0)
        in
        if reserved then Inl (Error ''CONNECT reserved flag must be zero'')
        else if password_flag \<and> \<not> username_flag
        then Inl (Error ''CONNECT password flag requires username flag'')
        else if \<not> will_flag \<and> (will_retain \<or> will_qos \<noteq> 0)
        then Inl (Error ''CONNECT will flags set without will flag'')
        else if will_qos = 3 then Inl (Error ''CONNECT will QoS must not be 3'')
        else bindE (read_u16 body offset) (\<lambda>(keep_alive, offset).
        bindE (read_string body offset) (\<lambda>(client_id, offset).
        if client_id = [] \<and> \<not> clean_session
        then Inl (Error ''Empty client id requires clean session'')
        else bindE (when_flag will_flag offset (parse_will body offset will_qos will_retain))
          (\<lambda>(will, offset).
        bindE (when_flag username_flag offset (read_string body offset)) (\<lambda>(username, offset).
        bindE (when_flag password_flag offset (read_binary body offset))
          (\<lambda>(password_bytes, offset).
        if offset \<noteq> length body then Inl (Error ''CONNECT packet contains trailing bytes'')
        else Inr \<lparr>connect_clean_session = clean_session,
                  connect_keep_alive = keep_alive,
                  connect_client_id = client_id,
                  connect_will = will,
                  connect_username = username,
                  connect_password = map_option string_of_bytes password_bytes\<rparr>)))))))))"

definition parse_connack :: "MqttControlPacket \<Rightarrow> MqttConnackMessage result" where
  "parse_connack packet =
     (let body = packet_body packet in
      if packet_type packet \<noteq> CONNACK then Inl (Error ''MQTT packet is not CONNACK'')
      else if length body \<noteq> 2 then Inl (Error ''Invalid CONNACK length'')
      else bindE (read_at body 0) (\<lambda>ack_flags.
      bindE (read_at body 1) (\<lambda>return_code.
        if ack_flags AND 0xFE \<noteq> 0 then Inl (Error ''Invalid CONNACK acknowledge flags'')
        else if return_code > 5 then Inl (Error ''Invalid CONNACK return code'')
        else Inr \<lparr>connack_session_present = (ack_flags AND 0x01 \<noteq> 0),
                  connack_return_code = MqttConnackReturnCode return_code\<rparr>)))"

section \<open>PUBLISH\<close>

definition parse_publish :: "MqttControlPacket \<Rightarrow> u8 list MqttPublishMessage result" where
  "parse_publish packet =
     (let body = packet_body packet in
      if packet_type packet \<noteq> PUBLISH then Inl (Error ''MQTT packet is not PUBLISH'')
      else bindE (read_string body 0) (\<lambda>(topic_name, offset).
        if topic_name = [] then Inl (Error ''PUBLISH topic name must not be empty'')
        else
        let flags = packet_flags packet;
            qos = drop_bit 1 (flags AND 0x6)
        in
        if qos = 3 then Inl (Error ''PUBLISH QoS must not be 3'')
        else bindE
          (if qos > 0
           then bindE (read_u16 body offset) (\<lambda>(packet_id, offset).
             if packet_id = 0
             then Inl (Error ''PUBLISH packet identifier must not be zero'')
             else Inr (Some packet_id, offset))
           else Inr (None, offset))
          (\<lambda>(packet_identifier, offset).
        bindE (read_range body offset (size_sub (length body) offset)) (\<lambda>payload.
        Inr \<lparr>publish_dup = (flags AND 0x8 \<noteq> 0), publish_qos = qos,
             publish_retain = (flags AND 0x1 \<noteq> 0), publish_topic_name = topic_name,
             publish_packet_identifier = packet_identifier,
             publish_payload = payload\<rparr>))))"

section \<open>Packets that carry an identifier only\<close>

text \<open>
  Five parsers share one body up to the message type and the texts of their errors: the
  type, the length 2, the identifier, the identifier not zero.
\<close>

definition parse_identifier ::
  "MqttMessageType \<Rightarrow> string \<Rightarrow> MqttControlPacket \<Rightarrow> u16 result" where
  "parse_identifier type name packet =
     (if packet_type packet \<noteq> type then Inl (Error (''MQTT packet is not '' @ name))
      else if length (packet_body packet) \<noteq> 2
      then Inl (Error (''Invalid '' @ name @ '' length''))
      else bindE (read_u16 (packet_body packet) 0) (\<lambda>(packet_id, offset).
        if packet_id = 0
        then Inl (Error (name @ '' packet identifier must not be zero''))
        else Inr packet_id))"

definition parse_puback :: "MqttControlPacket \<Rightarrow> MqttPubackMessage result" where
  "parse_puback packet =
     bindE (parse_identifier PUBACK ''PUBACK'' packet) (\<lambda>packet_id.
       Inr \<lparr>puback_packet_identifier = packet_id\<rparr>)"

definition parse_pubrec :: "MqttControlPacket \<Rightarrow> MqttPubrecMessage result" where
  "parse_pubrec packet =
     bindE (parse_identifier PUBREC ''PUBREC'' packet) (\<lambda>packet_id.
       Inr \<lparr>pubrec_packet_identifier = packet_id\<rparr>)"

definition parse_pubrel :: "MqttControlPacket \<Rightarrow> MqttPubrelMessage result" where
  "parse_pubrel packet =
     bindE (parse_identifier PUBREL ''PUBREL'' packet) (\<lambda>packet_id.
       Inr \<lparr>pubrel_packet_identifier = packet_id\<rparr>)"

definition parse_pubcomp :: "MqttControlPacket \<Rightarrow> MqttPubcompMessage result" where
  "parse_pubcomp packet =
     bindE (parse_identifier PUBCOMP ''PUBCOMP'' packet) (\<lambda>packet_id.
       Inr \<lparr>pubcomp_packet_identifier = packet_id\<rparr>)"

definition parse_unsuback :: "MqttControlPacket \<Rightarrow> MqttUnsubackMessage result" where
  "parse_unsuback packet =
     bindE (parse_identifier UNSUBACK ''UNSUBACK'' packet) (\<lambda>packet_id.
       Inr \<lparr>unsuback_packet_identifier = packet_id\<rparr>)"

section \<open>Subscriptions\<close>

text \<open>
  The three loops over the rest of the body. Each iteration moves the offset forward, so
  they end; the lists they return are in the order of the body.
\<close>

lemma read_u16_offset: "read_u16 data offset = Inr (v, offset') \<Longrightarrow> offset' = offset + 2"
  by (auto simp: read_u16_def)

lemma read_string_offset: "read_string data offset = Inr (s, offset') \<Longrightarrow> offset < offset'"
  by (auto simp: read_string_def dest: read_u16_offset)

function parse_topics ::
  "u8 list \<Rightarrow> nat \<Rightarrow> MqttSubscribeTopic list \<Rightarrow> MqttSubscribeTopic list result" where
  "parse_topics body offset topics =
     (if offset < length body then
        (case read_string body offset of
           Inl e \<Rightarrow> Inl e
         | Inr (tf, offset) \<Rightarrow>
             if tf = [] then Inl (Error ''SUBSCRIBE topic filter must not be empty'')
             else if offset \<ge> length body
             then Inl (Error ''SUBSCRIBE missing requested QoS'')
             else case read_at body offset of
                Inl e \<Rightarrow> Inl e
              | Inr qos \<Rightarrow>
                  if qos AND 0xFC \<noteq> 0
                  then Inl (Error ''SUBSCRIBE requested QoS reserved bits must be zero'')
                  else if qos AND 0x03 > 2
                  then Inl (Error ''SUBSCRIBE requested QoS must be 0, 1, or 2'')
                  else parse_topics body (offset + 1)
                         (topics @ [\<lparr>topic_filter = tf, topic_qos = qos AND 0x03\<rparr>]))
      else Inr topics)"
  by pat_completeness auto
termination
  by (relation "measure (\<lambda>(body, offset, _). length body - offset)")
     (auto dest: read_string_offset)

function parse_return_codes ::
  "u8 list \<Rightarrow> nat \<Rightarrow> MqttSubackReturnCode list \<Rightarrow> MqttSubackReturnCode list result" where
  "parse_return_codes body offset codes =
     (if offset < length body then
        (case read_at body offset of
           Inl e \<Rightarrow> Inl e
         | Inr code \<Rightarrow>
             if code \<noteq> 0x00 \<and> code \<noteq> 0x01 \<and> code \<noteq> 0x02 \<and> code \<noteq> 0x80
             then Inl (Error ''Invalid SUBACK return code'')
             else parse_return_codes body (offset + 1) (codes @ [MqttSubackReturnCode code]))
      else Inr codes)"
  by pat_completeness auto
termination
  by (relation "measure (\<lambda>(body, offset, _). length body - offset)") auto

function parse_topic_filters :: "u8 list \<Rightarrow> nat \<Rightarrow> string list \<Rightarrow> string list result" where
  "parse_topic_filters body offset filters =
     (if offset < length body then
        (case read_string body offset of
           Inl e \<Rightarrow> Inl e
         | Inr (tf, offset) \<Rightarrow>
             if tf = [] then Inl (Error ''UNSUBSCRIBE topic filter must not be empty'')
             else parse_topic_filters body offset (filters @ [tf]))
      else Inr filters)"
  by pat_completeness auto
termination
  by (relation "measure (\<lambda>(body, offset, _). length body - offset)")
     (auto dest: read_string_offset)

declare parse_topics.simps [simp del] parse_return_codes.simps [simp del]
  parse_topic_filters.simps [simp del]

definition parse_subscribe :: "MqttControlPacket \<Rightarrow> MqttSubscribeMessage result" where
  "parse_subscribe packet =
     (let body = packet_body packet in
      if packet_type packet \<noteq> SUBSCRIBE then Inl (Error ''MQTT packet is not SUBSCRIBE'')
      else if length body < 5 then Inl (Error ''Invalid SUBSCRIBE length'')
      else bindE (read_u16 body 0) (\<lambda>(packet_id, offset).
        if packet_id = 0
        then Inl (Error ''SUBSCRIBE packet identifier must not be zero'')
        else bindE (parse_topics body offset []) (\<lambda>topics.
        if topics = []
        then Inl (Error ''SUBSCRIBE must contain at least one topic filter'')
        else Inr \<lparr>subscribe_packet_identifier = packet_id, subscribe_topics = topics\<rparr>)))"

definition parse_suback :: "MqttControlPacket \<Rightarrow> MqttSubackMessage result" where
  "parse_suback packet =
     (let body = packet_body packet in
      if packet_type packet \<noteq> SUBACK then Inl (Error ''MQTT packet is not SUBACK'')
      else if length body < 3 then Inl (Error ''Invalid SUBACK length'')
      else bindE (read_u16 body 0) (\<lambda>(packet_id, offset).
        if packet_id = 0
        then Inl (Error ''SUBACK packet identifier must not be zero'')
        else bindE (parse_return_codes body offset []) (\<lambda>codes.
        if codes = []
        then Inl (Error ''SUBACK must contain at least one return code'')
        else Inr \<lparr>suback_packet_identifier = packet_id, suback_return_codes = codes\<rparr>)))"

definition parse_unsubscribe :: "MqttControlPacket \<Rightarrow> MqttUnsubscribeMessage result" where
  "parse_unsubscribe packet =
     (let body = packet_body packet in
      if packet_type packet \<noteq> UNSUBSCRIBE
      then Inl (Error ''MQTT packet is not UNSUBSCRIBE'')
      else if length body < 4 then Inl (Error ''Invalid UNSUBSCRIBE length'')
      else bindE (read_u16 body 0) (\<lambda>(packet_id, offset).
        if packet_id = 0
        then Inl (Error ''UNSUBSCRIBE packet identifier must not be zero'')
        else bindE (parse_topic_filters body offset []) (\<lambda>filters.
        if filters = []
        then Inl (Error ''UNSUBSCRIBE must contain at least one topic filter'')
        else Inr \<lparr>unsubscribe_packet_identifier = packet_id,
                  unsubscribe_topic_filters = filters\<rparr>)))"

section \<open>Packets without a body\<close>

definition parse_empty :: "MqttMessageType \<Rightarrow> string \<Rightarrow> MqttControlPacket \<Rightarrow> unit result" where
  "parse_empty type name packet =
     (if packet_type packet \<noteq> type then Inl (Error (''MQTT packet is not '' @ name))
      else if packet_body packet \<noteq> [] then Inl (Error (name @ '' body must be empty''))
      else Inr ())"

definition parse_pingreq :: "MqttControlPacket \<Rightarrow> MqttPingreqMessage result" where
  "parse_pingreq packet =
     bindE (parse_empty PINGREQ ''PINGREQ'' packet) (\<lambda>_. Inr MqttPingreqMessage)"

definition parse_pingresp :: "MqttControlPacket \<Rightarrow> MqttPingrespMessage result" where
  "parse_pingresp packet =
     bindE (parse_empty PINGRESP ''PINGRESP'' packet) (\<lambda>_. Inr MqttPingrespMessage)"

definition parse_disconnect :: "MqttControlPacket \<Rightarrow> MqttDisconnectMessage result" where
  "parse_disconnect packet =
     bindE (parse_empty DISCONNECT ''DISCONNECT'' packet) (\<lambda>_. Inr MqttDisconnectMessage)"

end
