(* ===== verification/Mqtt_Fields.thy ===== *)
theory Mqtt_Fields
  imports Mqtt_Encoder Mqtt_Parser
begin

text \<open>
  The laws of the field readers and writers, in both directions: what a writer appends is
  what the reader of the same field takes, and what a reader has taken is what the writer
  would append. The cursor predicate \<open>reads data off xs off'\<close> says that the array holds
  \<open>xs\<close> at offset \<open>off\<close> and that \<open>off'\<close> is the offset behind it; readers are
  characterised by it, and a run of readers composes by \<open>reads_append\<close>.
\<close>

section \<open>The cursor\<close>

definition reads :: "u8 list \<Rightarrow> nat \<Rightarrow> u8 list \<Rightarrow> nat \<Rightarrow> bool" where
  "reads d off xs off' \<longleftrightarrow>
     off' = off + length xs \<and> off' \<le> length d \<and> take (length xs) (drop off d) = xs"

lemma reads_bounds: "reads d off xs off' \<Longrightarrow> off \<le> off' \<and> off' \<le> length d"
  by (simp add: reads_def)

lemma reads_le: "reads d off xs off' \<Longrightarrow> off' \<le> length d"
  by (simp add: reads_def)

lemma reads_append:
  "reads d a (xs @ ys) c \<longleftrightarrow> reads d a xs (a + length xs) \<and> reads d (a + length xs) ys c"
  by (auto simp: reads_def take_add add.assoc add.commute)

lemma reads_append_trans: "reads d a xs b \<Longrightarrow> reads d b ys c \<Longrightarrow> reads d a (xs @ ys) c"
  by (auto simp: reads_append) (simp_all add: reads_def)

lemma reads_all [simp]: "reads d 0 xs (length d) \<longleftrightarrow> d = xs"
  by (auto simp: reads_def)

lemma reads_Nil [simp]: "reads d a [] b \<longleftrightarrow> b = a \<and> a \<le> length d"
  by (auto simp: reads_def)

lemma reads_prefix: "reads (xs @ ys) 0 xs (length xs)"
  by (simp add: reads_def)

lemma reads_drop: "reads d a xs b \<Longrightarrow> drop a d = xs @ drop b d"
  by (simp add: reads_def) (metis append_take_drop_id drop_drop add.commute)

lemma reads_of_drop:
  assumes "drop a d = xs @ r" "a \<le> length d"
  shows "reads d a xs (a + length xs)" "drop (a + length xs) d = r"
  using assms drop_length_le [OF assms] drop_appendD [OF assms(1)] by (simp_all add: reads_def)

lemma reads_rest: "a \<le> length d \<Longrightarrow> reads d a (drop a d) (length d)"
  by (simp add: reads_def)

section \<open>Bytes, integers, strings, binary data\<close>

definition u16_bytes :: "u16 \<Rightarrow> u8 list" where
  "u16_bytes v = [u16_hi v, u16_lo v]"

definition binary_field :: "u8 list \<Rightarrow> u8 list" where
  "binary_field bs = u16_bytes (of_nat (length bs)) @ bs"

abbreviation string_field :: "string \<Rightarrow> u8 list" where
  "string_field s \<equiv> binary_field (bytes_of_string s)"

definition fits16 :: "'a list \<Rightarrow> bool" where
  "fits16 s \<longleftrightarrow> length s < 65536"

named_theorems writer_simps \<open>the writers as appended fields\<close>

lemma write_u8_eq [writer_simps]: "write_u8 out v = out @ [v]"
  by (simp add: write_u8_def)

lemma write_u16_eq [writer_simps]: "write_u16 out v = out @ u16_bytes v"
  by (simp add: write_u16_def u16_bytes_def u16_hi_def u16_lo_def)

lemma write_string_eq [writer_simps]: "write_string out s = out @ string_field s"
  by (simp add: write_string_def binary_field_def write_u16_eq)

lemma write_binary_eq [writer_simps]: "write_binary out b = out @ binary_field b"
  by (simp add: write_binary_def binary_field_def write_u16_eq)

lemma length_u16_bytes [simp]: "length (u16_bytes v) = 2"
  by (simp add: u16_bytes_def)

lemma length_binary_field [simp]: "length (binary_field b) = 2 + length b"
  by (simp add: binary_field_def)

lemma unat_length_fits16: "fits16 s \<Longrightarrow> unat (of_nat (length s) :: u16) = length s"
  by (simp add: fits16_def unat_of_nat)

lemma fits16_map [simp]: "fits16 (map f s) = fits16 s"
  by (simp add: fits16_def)

lemma read_at_iff: "read_at d off = Inr b \<longleftrightarrow> reads d off [b] (Suc off)"
proof (cases "off < length d")
  case True
  then have "drop off d = d ! off # drop (Suc off) d" by (simp add: Cons_nth_drop_Suc)
  with True show ?thesis by (auto simp: read_at_def reads_def)
qed (simp add: read_at_def reads_def)

lemma read_range_iff: "read_range d off n = Inr bs \<longleftrightarrow> length bs = n \<and> reads d off bs (off + n)"
  by (auto simp: read_range_def reads_def)

lemma read_u16_iff:
  assumes "off \<le> length d"
  shows "read_u16 d off = Inr (v, off') \<longleftrightarrow> reads d off (u16_bytes v) off'"
proof -
  have j: "push_bit 8 (ucast a) OR ucast b = u16_join a b" for a b :: u8
    by (simp add: u16_join_def)
  have split: "reads d off (u16_bytes v) off' \<longleftrightarrow>
      reads d off [u16_hi v] (Suc off) \<and> reads d (Suc off) [u16_lo v] off'" for v
    using reads_append [of d off "[u16_hi v]" "[u16_lo v]" off'] by (simp add: u16_bytes_def)
  have far: "reads d (Suc off) [b] off' \<Longrightarrow> off' = off + 2 \<and> \<not> size_sub (length d) off < 2" for b
    using assms by (auto simp: reads_def)
  have near: "reads d (Suc off) [b] (off + 2) \<longleftrightarrow> reads d (Suc off) [b] (Suc (Suc off))" for b
    by simp
  show ?thesis
    unfolding read_u16_def split
    by (auto simp: read_at_iff j near dest: far)
       (metis far add_2_eq_Suc' u16_join_split)+
qed

lemma read_binary_iff:
  assumes "off \<le> length d"
  shows "read_binary d off = Inr (b, off') \<longleftrightarrow> fits16 b \<and> reads d off (binary_field b) off'"
proof
  assume "read_binary d off = Inr (b, off')"
  then obtain len o1 where
      len: "read_u16 d off = Inr (len, o1)"
    and b: "read_range d o1 (unat len) = Inr b" and off': "off' = o1 + unat len"
    by (auto simp: read_binary_def)
  from len have o1: "o1 = off + 2" by (rule read_u16_offset)
  note len = len [unfolded o1] and b = b [unfolded o1] and off' = off' [unfolded o1]
  have rl: "reads d off (u16_bytes len) (off + 2)" using len assms by (simp add: read_u16_iff)
  have rb: "length b = unat len" "reads d (off + 2) b off'"
    using b off' by (simp_all add: read_range_iff)
  have "unat len < 2 ^ LENGTH(16)" by (rule unsigned_less)
  then have "fits16 b" and "of_nat (length b) = len"
    using rb(1) by (simp_all add: fits16_def)
  with rl rb(2) show "fits16 b \<and> reads d off (binary_field b) off'"
    by (auto simp: binary_field_def intro: reads_append_trans)
next
  assume r: "fits16 b \<and> reads d off (binary_field b) off'"
  let ?len = "of_nat (length b) :: u16"
  have u: "unat ?len = length b" using r by (simp add: unat_length_fits16)
  have rl: "reads d off (u16_bytes ?len) (off + 2)" and rb: "reads d (off + 2) b off'"
    using r reads_append [of d off "u16_bytes ?len" b off'] by (simp_all add: binary_field_def)
  have "off + 2 \<le> length d" and "off' = off + 2 + length b" and "off' \<le> length d"
    using rl rb by (auto simp: reads_def)
  moreover have "read_u16 d off = Inr (?len, off + 2)" using rl assms by (simp add: read_u16_iff)
  moreover have "read_range d (off + 2) (unat ?len) = Inr b"
    using rb u by (simp add: read_range_iff reads_def)
  ultimately show "read_binary d off = Inr (b, off')"
    by (simp add: read_binary_def u)
qed

text \<open>A string is read as the same bytes, reinterpreted.\<close>

lemma read_string_binary:
  "read_string d off = Inr (s, off') \<longleftrightarrow> read_binary d off = Inr (bytes_of_string s, off')"
  by (auto simp: read_string_def read_binary_def string_of_bytes_eq_iff
      size_sub_def split: if_splits)

lemma read_string_iff:
  "off \<le> length d \<Longrightarrow>
     read_string d off = Inr (s, off') \<longleftrightarrow> fits16 s \<and> reads d off (string_field s) off'"
  by (simp add: read_string_binary read_binary_iff)

section \<open>The remaining length\<close>

definition varint :: "u32 \<Rightarrow> u8 list" where
  "varint v = write_remaining_length [] v"

lemma write_remaining_length_prefix:
  "write_remaining_length (pre @ out) v = pre @ write_remaining_length out v"
proof (induction out v rule: write_remaining_length.induct)
  case (1 out v)
  show ?case
    using "1.IH" by (subst (1 2) write_remaining_length.simps) (simp add: Let_def write_u8_eq)
qed

lemma write_remaining_length_append: "write_remaining_length out v = out @ varint v"
  using write_remaining_length_prefix [of out "[]" v] by (simp add: varint_def)

lemma varint_unfold:
  "varint v = (if v div 128 > 0 then (ucast (v mod 128) OR 128) # varint (v div 128)
               else [ucast (v mod 128)])"
proof -
  have "varint v = write_remaining_length [] v" by (simp add: varint_def)
  also have "\<dots> = (if v div 128 > 0 then (ucast (v mod 128) OR 128) # varint (v div 128)
               else [ucast (v mod 128)])"
    by (subst write_remaining_length.simps)
       (simp add: Let_def write_u8_eq write_remaining_length_append [where out = "[b]" for b])
  finally show ?thesis .
qed

lemma varint_byte:
  fixes v :: u32
  defines "b \<equiv> (ucast (v mod 128) :: u8)"
  shows "(ucast ((b OR 128) AND 127) :: u32) = v mod 128" "(b OR 128) AND 128 \<noteq> 0"
    "(ucast (b AND 127) :: u32) = v mod 128" "b AND 128 = 0"
proof -
  have m: "v mod 128 = take_bit 7 v" by (simp add: take_bit_eq_mod)
  have b: "b = take_bit 7 (ucast v)"
    unfolding b_def m by (rule bit_word_eqI) (auto simp: bit_simps)
  have k: "(127 :: u8) = mask 7" "(128 :: u8) = push_bit 7 1"
    by (simp_all add: mask_eq_exp_minus_1 push_bit_eq_mult)
  show "(ucast ((b OR 128) AND 127) :: u32) = v mod 128"
    unfolding b k m by (rule bit_word_eqI) (auto simp: bit_simps)
  show "(ucast (b AND 127) :: u32) = v mod 128"
    unfolding b k m by (rule bit_word_eqI) (auto simp: bit_simps)
  show "b AND 128 = 0"
    unfolding b k by (rule bit_word_eqI) (auto simp: bit_simps)
  have "bit ((b OR 128) AND 128) 7" unfolding b k by (simp add: bit_simps)
  then show "(b OR 128) AND 128 \<noteq> 0" by auto
qed

lemma varint_neq_Nil [simp]: "varint v \<noteq> []"
  by (subst varint_unfold) simp

text \<open>One iteration of the decoder, and the decoder on an encoded value.\<close>

lemma varint_length_le:
  "unat v < 128 ^ n \<Longrightarrow> 0 < n \<Longrightarrow> length (varint v) \<le> n"
proof (induction n arbitrary: v)
  case (Suc n)
  show ?case
  proof (cases "v div 128 > 0")
    case True
    then have "unat (v div 128) > 0" by (simp add: unat_gt_0)
    moreover have "unat (v div 128) < 128 ^ n"
      using Suc.prems(1) by (simp add: unat_div less_mult_imp_div_less mult.commute)
    ultimately have "0 < n" by (cases n) auto
    with Suc.IH [of "v div 128"] \<open>unat (v div 128) < 128 ^ n\<close> True
    show ?thesis by (simp add: varint_unfold [of v])
  next
    case False
    then show ?thesis by (simp add: varint_unfold [of v])
  qed
qed simp

lemma varint_length: "unat v < 2 ^ 28 \<Longrightarrow> length (varint v) \<le> 4"
  by (rule varint_length_le) simp_all

lemma decode_step:
  assumes "off < length d" and "drop off d = b # r"
  shows "decode_remaining_length_loop d off multiplier acc count =
    (let acc = acc + ucast (b AND 127) * multiplier in
     if count + 1 > 4 then Inl (Error ''MQTT remaining length exceeds maximum of 4 bytes'')
     else if b AND 128 \<noteq> 0
     then decode_remaining_length_loop d (off + 1) (multiplier * 128) acc (count + 1)
     else Inr (acc, off + 1))"
proof -
  have "read_at d off = Inr b" using assms by (auto simp: read_at_def dest: nth_via_drop)
  with assms(1) show ?thesis
    by (subst decode_remaining_length_loop.simps) (simp add: Let_def)
qed

lemma u8_count_step:
  fixes count :: u8
  assumes "unat count < 4"
  shows "unat (count + 1) = unat count + 1" and "\<not> count + 1 > 4"
proof -
  show u: "unat (count + 1) = unat count + 1"
    using assms by (simp add: unat_word_ariths)
  show "\<not> count + 1 > 4"
    using assms u by (simp add: word_less_nat_alt)
qed

lemma decode_varint_loop:
  assumes "reads d off (varint v) off'" and "unat count < 4" and "unat v < 128 ^ (4 - unat count)"
  shows "decode_remaining_length_loop d off multiplier acc count = Inr (acc + v * multiplier, off')"
  using assms
proof (induction "unat v" arbitrary: v off multiplier acc count rule: less_induct)
  case less
  note count = u8_count_step [OF less.prems(2)]
  have off: "off < length d"
    using less.prems(1) by (auto simp: reads_def) (metis add_leD1 le_neq_implies_less
      length_0_conv not_add_less1 varint_neq_Nil add.right_neutral nat_add_left_cancel_le leD le_zero_eq)
  have split: "v = v div 128 * 128 + v mod 128" by (simp only: div_mult_mod_eq)
  show ?case
  proof (cases "v div 128 > 0")
    case False
    then have z: "v div 128 = 0" by (simp add: word_neq_0_conv [symmetric])
    have "v mod 128 = v" using split unfolding z by simp
    moreover have "varint v = [ucast (v mod 128)]" using False by (simp add: varint_unfold [of v])
    ultimately have "varint v = [ucast (v mod 128)]" and "v mod 128 = v" by simp_all
    then show ?thesis
      using decode_step [OF off, of "ucast (v mod 128)" "drop off' d" multiplier acc count] count
        reads_drop [OF less.prems(1)] varint_byte(3,4) [of v] less.prems(1)
      by (simp add: Let_def reads_def)
  next
    case True
    let ?b = "ucast (v mod 128) OR 128 :: u8"
    have v: "varint v = ?b # varint (v div 128)" using True by (simp add: varint_unfold [of v])
    have "unat (v div 128) > 0" using True by (simp add: unat_gt_0)
    then have big: "unat v \<ge> 128" by (simp add: unat_div)
    then have "unat count \<noteq> 3" using less.prems(3) by auto
    then have c: "unat (count + 1) < 4" using count less.prems(2) by simp
    have lt: "unat (v div 128) < unat v" using big by (simp add: unat_div)
    have "(128::nat) ^ (4 - unat count) = 128 * 128 ^ (4 - unat (count + 1))"
    proof -
      have "4 - unat count = Suc (4 - unat (count + 1))" using less.prems(2) count(1) by simp
      then show ?thesis by simp
    qed
    then have bound: "unat (v div 128) < 128 ^ (4 - unat (count + 1))"
      using less.prems(3) by (simp add: unat_div less_mult_imp_div_less mult.commute)
    have r: "reads d off [?b] (off + 1)" "reads d (off + 1) (varint (v div 128)) off'"
      using less.prems(1) reads_append [of d off "[?b]" "varint (v div 128)" off'] v by simp_all
    have IH: "decode_remaining_length_loop d (Suc off) (multiplier * 128) acc' (count + 1) =
        Inr (acc' + v div 128 * (multiplier * 128), off')" for acc'
      using less.hyps [OF lt r(2) c bound] by simp
    have sum: "acc + v mod 128 * multiplier + v div 128 * (multiplier * 128) =
        acc + v * multiplier"
      by (subst (3) split) (simp only: algebra_simps)
    show ?thesis
      using decode_step [OF off, of ?b "drop (off + 1) d" multiplier acc count] count
        reads_drop [OF r(1)] varint_byte(1,2) [of v]
      by (simp add: Let_def IH sum del: add.assoc)
  qed
qed

lemma decode_varint:
  "reads d off (varint v) off' \<Longrightarrow> unat v < 2 ^ 28 \<Longrightarrow>
     decode_remaining_length d off = Inr (v, off')"
  by (simp add: decode_remaining_length_def decode_varint_loop)

text \<open>What a successful decode has read: at most four bytes, and a value below \<open>2 ^ 28\<close>.\<close>

lemma decode_loop_offset:
  "decode_remaining_length_loop d off multiplier acc count = Inr (v, off') \<Longrightarrow>
     off < off' \<and> off' \<le> length d"
proof (induction d off multiplier acc count rule: decode_remaining_length_loop.induct)
  case (1 d off multiplier acc count)
  from "1.prems" show ?case
    by (subst (asm) decode_remaining_length_loop.simps)
       (auto simp: Let_def split: if_splits dest!: "1.IH" [rotated -1])
qed

lemma decode_remaining_length_offset:
  "decode_remaining_length d off = Inr (v, off') \<Longrightarrow> off < off' \<and> off' \<le> length d"
  by (auto simp: decode_remaining_length_def dest: decode_loop_offset)

lemma decode_loop_fault_free:
  "fault_free (decode_remaining_length_loop d off multiplier acc count)"
proof (induction d off multiplier acc count rule: decode_remaining_length_loop.induct)
  case (1 d off multiplier acc count)
  show ?case
    by (subst decode_remaining_length_loop.simps)
       (auto simp: Let_def intro!: fault_free_intros "1.IH")
qed

lemma u32_add_scaled_bound:
  fixes acc multiplier x :: u32
  assumes "unat acc < 128 ^ k" "multiplier = 128 ^ k" "unat x < 128" "k < 4"
  shows "unat (acc + x * multiplier) < 128 ^ (k + 1)"
proof -
  have "k \<in> {0, 1, 2, 3}" using assms(4) by auto
  then have m: "unat multiplier = 128 ^ k" using assms(2) by auto
  have "unat x * 128 ^ k \<le> 127 * 128 ^ k" using assms(3) by (intro mult_le_mono1) simp
  then have "unat acc + unat x * 128 ^ k < 128 ^ (k + 1)"
    using assms(1) by (simp only: power_add power_one_right)
  moreover have "unat (acc + x * multiplier) \<le> unat acc + unat x * unat multiplier"
    by (simp add: unat_word_ariths mod_add_right_eq)
  ultimately show ?thesis unfolding m by linarith
qed

lemma decode_loop_count4: "decode_remaining_length_loop d off multiplier acc 4 \<noteq> Inr r"
  by (subst decode_remaining_length_loop.simps) (auto simp: Let_def)

lemma decode_loop_value:
  "\<lbrakk> decode_remaining_length_loop d off multiplier acc count = Inr (v, off');
     unat count < 4; multiplier = 128 ^ unat count; unat acc < 128 ^ unat count \<rbrakk> \<Longrightarrow>
   unat v < 128 ^ 4"
proof (induction d off multiplier acc count rule: decode_remaining_length_loop.induct)
  case (1 d off multiplier acc count)
  note count = u8_count_step [OF "1.prems"(2)]
  have off: "off < length d"
    using "1.prems"(1) by (subst (asm) decode_remaining_length_loop.simps) (auto split: if_splits)
  define b where "b = d ! off"
  have b: "drop off d = b # drop (Suc off) d" "read_at d off = Inr b"
    using off by (simp_all add: b_def Cons_nth_drop_Suc read_at_def)
  define acc' where "acc' = acc + ucast (b AND 127) * multiplier"
  have "unat (ucast (b AND 127) :: u32) < 128"
  proof -
    have le: "unat (b AND 127) \<le> unat (127 :: u8)"
      by (rule word_and_le1 [THEN word_le_nat_alt [THEN iffD1]])
    then have "unat (ucast (b AND 127) :: u32) = unat (b AND 127)"
      by (simp add: unsigned_ucast_eq take_bit_nat_eq_self)
    with le show ?thesis by simp
  qed
  then have acc': "unat acc' < 128 ^ (unat count + 1)"
    unfolding acc'_def by (rule u32_add_scaled_bound [OF "1.prems"(4,3) _ "1.prems"(2)])
  show ?case
  proof (cases "b AND 128 \<noteq> 0")
    case False
    then have v: "v = acc'"
      using "1.prems"(1) decode_step [OF off b(1), of multiplier acc count] count(2)
      by (simp add: Let_def acc'_def)
    have "(128::nat) ^ (unat count + 1) \<le> 128 ^ 4"
      using "1.prems"(2) by (intro power_increasing) auto
    with acc' show ?thesis unfolding v by (rule less_le_trans)
  next
    case True
    then have step: "decode_remaining_length_loop d (off + 1) (multiplier * 128) acc' (count + 1)
        = Inr (v, off')"
      using "1.prems"(1) decode_step [OF off b(1), of multiplier acc count] count(2)
      by (simp add: Let_def acc'_def)
    then have "count + 1 \<noteq> 4" using decode_loop_count4 by metis
    then have "unat count \<noteq> 3" using count(1) by (auto simp: word_unat_eq_iff)
    with "1.prems"(2) have c: "unat (count + 1) < 4" using count(1) by simp
    have m: "multiplier * 128 = 128 ^ unat (count + 1)" using "1.prems"(3) count(1) by simp
    have a: "unat acc' < 128 ^ unat (count + 1)" using acc' count(1) by simp
    show ?thesis
      by (rule "1.IH" [OF _ refl _ refl refl _ True step c m a])
         (use off count(2) in \<open>simp_all add: acc'_def\<close>)
  qed
qed

end
