(* ===== verification/Mqtt_Codec.thy ===== *)
theory Mqtt_Codec
  imports Mqtt_Fields
begin

text \<open>
  The contract between \<^verbatim>\<open>MqttEncoder\<close> and \<^verbatim>\<open>MqttParser\<close>. A locale states, for one message
  type, that the encoder's packets are the packets the parser accepts; it is interpreted
  for all fourteen message types. What follows from it (the round trip through a byte
  stream, injectivity of the encoder, the parser accepting exactly the encoder's range) is
  proved once inside the locale.
\<close>

section \<open>Packets with a valid fixed header\<close>

definition valid_packet :: "MqttControlPacket \<Rightarrow> bool" where
  "valid_packet p \<longleftrightarrow>
     validate_fixed_header_flags (packet_type p) (packet_flags p)
     \<and> packet_flags p AND 0x0F = packet_flags p
     \<and> length (packet_body p) \<le> 268435455
     \<and> header_remaining_length (fixed_header p) = of_nat (length (packet_body p))"

definition mk_packet :: "MqttMessageType \<Rightarrow> u8 \<Rightarrow> u8 list \<Rightarrow> MqttControlPacket" where
  "mk_packet type flags body =
     \<lparr>fixed_header = \<lparr>header_type = type, header_flags = flags,
                      header_remaining_length = of_nat (length body)\<rparr>,
      packet_body = body\<rparr>"

definition repack :: "MqttControlPacket \<Rightarrow> MqttEncodedPacket result" where
  "repack p = make_packet (packet_type p) (packet_flags p) (packet_body p)"

definition frame_bytes :: "MqttMessageType \<Rightarrow> u8 \<Rightarrow> u8 list \<Rightarrow> u8 list" where
  "frame_bytes type flags body =
     (push_bit 4 (message_type_code type) OR (flags AND 0x0F))
       # varint (of_nat (length body)) @ body"

lemma mk_packet_sel [simp]:
  "packet_type (mk_packet t f b) = t" "packet_flags (mk_packet t f b) = f"
  "packet_body (mk_packet t f b) = b"
  "header_remaining_length (fixed_header (mk_packet t f b)) = of_nat (length b)"
  by (simp_all add: mk_packet_def)

lemma mk_packet_eq:
  "valid_packet p \<Longrightarrow> p = mk_packet (packet_type p) (packet_flags p) (packet_body p)"
  by (simp add: valid_packet_def mk_packet_def)

lemma make_packet_eq:
  "make_packet t f b =
     (if length b > 268435455 then Inl (Error ''MQTT packet too large'')
      else Inr \<lparr>packet_bytes = frame_bytes t f b\<rparr>)"
  by (simp add: make_packet_def frame_bytes_def write_remaining_length_append write_u8_eq Let_def)

lemma make_packet_Inr_iff:
  "make_packet t f b = Inr e \<longleftrightarrow>
     length b \<le> 268435455 \<and> e = \<lparr>packet_bytes = frame_bytes t f b\<rparr>"
  by (auto simp: make_packet_eq)

lemma repack_valid:
  "valid_packet p \<Longrightarrow>
     repack p = Inr \<lparr>packet_bytes = frame_bytes (packet_type p) (packet_flags p) (packet_body p)\<rparr>"
  by (simp add: repack_def make_packet_eq valid_packet_def)

section \<open>The frame: fixed header and body\<close>

lemma first_byte_fields:
  fixes f :: u8
  shows "drop_bit 4 (push_bit 4 (message_type_code t) OR (f AND 0x0F)) = message_type_code t"
    and "(push_bit 4 (message_type_code t) OR (f AND 0x0F)) AND 0x0F = f AND 0x0F"
proof -
  have m: "(0x0F :: u8) = mask 4" by (simp add: mask_eq_exp_minus_1)
  have code: "message_type_code t = take_bit 4 (message_type_code t)"
    by (cases t) (simp_all add: take_bit_eq_mod)
  then have c: "bit (message_type_code t) n \<Longrightarrow> n < 4" for n
    by (metis bit_take_bit_iff)
  show "drop_bit 4 (push_bit 4 (message_type_code t) OR (f AND 0x0F)) = message_type_code t"
    unfolding m by (rule bit_word_eqI) (auto simp: bit_simps dest: c)
  show "(push_bit 4 (message_type_code t) OR (f AND 0x0F)) AND 0x0F = f AND 0x0F"
    unfolding m by (rule bit_word_eqI) (auto simp: bit_simps)
qed

lemma parse_frame:
  assumes "valid_packet (mk_packet t f b)"
  shows "parse_control_packet (frame_bytes t f b @ rest) = Inr (mk_packet t f b)"
proof -
  let ?len = "of_nat (length b) :: u32"
  let ?first = "push_bit 4 (message_type_code t) OR (f AND 0x0F)"
  let ?d = "frame_bytes t f b @ rest"
  let ?off = "1 + length (varint ?len)"
  have len: "unat ?len = length b" using assms by (simp add: valid_packet_def unat_of_nat)
  have "reads ?d 0 (?first # varint ?len) ?off" and rb: "reads ?d ?off b (?off + length b)"
    by (simp_all add: reads_def frame_bytes_def)
  then have rv: "reads ?d 1 (varint ?len) ?off"
    using reads_append [of ?d 0 "[?first]" "varint ?len" ?off] by simp
  have "decode_remaining_length ?d 1 = Inr (?len, ?off)"
    using assms by (intro decode_varint [OF rv]) (simp add: len valid_packet_def)
  moreover have "read_range ?d ?off (unat ?len) = Inr b"
    using rb by (simp add: read_range_iff len)
  moreover have "length ?d \<ge> 2"
    by (cases "varint ?len") (simp_all add: frame_bytes_def)
  moreover have "?off + length b \<le> length ?d" using rb by (simp add: reads_def)
  ultimately show ?thesis
    using assms len first_byte_fields [of t f]
    by (simp add: parse_control_packet_def read_at_def frame_bytes_def valid_packet_def
        mk_packet_def Let_def)
qed

lemma decode_remaining_length_value:
  "decode_remaining_length d off = Inr (v, off') \<Longrightarrow> unat v < 2 ^ 28"
  unfolding decode_remaining_length_def
  using decode_loop_value [of d off 1 0 0 v off'] by simp

lemma parse_control_packet_valid:
  assumes "parse_control_packet d = Inr p"
  shows "valid_packet p"
    and "\<exists>off. 2 \<le> off \<and> reads d off (packet_body p) (off + length (packet_body p))"
proof -
  obtain t len off b where t: "message_type_of_code (drop_bit 4 (d ! 0)) = Some t"
    and fl: "validate_fixed_header_flags t (d ! 0 AND 0x0F)"
    and dec: "decode_remaining_length d 1 = Inr (len, off)"
    and rb: "read_range d off (unat len) = Inr b"
    and p: "p = \<lparr>fixed_header = \<lparr>header_type = t, header_flags = d ! 0 AND 0x0F,
                  header_remaining_length = len\<rparr>, packet_body = b\<rparr>"
    using assms
    by (auto simp: parse_control_packet_def read_at_def Let_def split: if_splits option.splits)
  have "length b = unat len" and r: "reads d off b (off + length b)"
    using rb by (auto simp: read_range_iff)
  moreover have "unat len < 2 ^ 28" using dec by (rule decode_remaining_length_value)
  ultimately show "valid_packet p"
    using fl by (auto simp: valid_packet_def p and.assoc)
  show "\<exists>off. 2 \<le> off \<and> reads d off (packet_body p) (off + length (packet_body p))"
    using r decode_remaining_length_offset [OF dec] by (intro exI [of _ off]) (simp add: p)
qed

lemma valid_packet_cong:
  "valid_packet p \<Longrightarrow> valid_packet q \<Longrightarrow> repack p = repack q \<Longrightarrow> p = q"
proof -
  assume p: "valid_packet p" and q: "valid_packet q" and eq: "repack p = repack q"
  let ?f = "\<lambda>p. frame_bytes (packet_type p) (packet_flags p) (packet_body p)"
  have "?f p = ?f q" using eq p q by (simp add: repack_valid)
  then have "parse_control_packet (?f p @ []) = parse_control_packet (?f q @ [])" by simp
  then have "mk_packet (packet_type p) (packet_flags p) (packet_body p)
      = mk_packet (packet_type q) (packet_flags q) (packet_body q)"
    using parse_frame [of "packet_type p" "packet_flags p" "packet_body p" "[]"]
      parse_frame [of "packet_type q" "packet_flags q" "packet_body q" "[]"]
      p q by (metis Inr_inject mk_packet_eq)
  then show "p = q" using p q by (metis mk_packet_eq)
qed

section \<open>The contract of a message type\<close>

locale message_codec =
  fixes enc :: "'m \<Rightarrow> MqttEncodedPacket result"
    and parse :: "MqttControlPacket \<Rightarrow> 'm result"
    and fits :: "'m \<Rightarrow> bool"
  assumes enc_parses: "\<lbrakk> enc m = Inr e; fits m \<rbrakk> \<Longrightarrow>
      \<exists>p. valid_packet p \<and> repack p = Inr e \<and> parse p = Inr m"
    and parse_encodes: "\<lbrakk> valid_packet p; parse p = Inr m \<rbrakk> \<Longrightarrow> fits m \<and> enc m = repack p"
begin

text \<open>The round trip through the wire, with any bytes after the frame.\<close>

lemma round_trip:
  assumes "enc m = Inr e" and "fits m"
  shows "\<exists>p. parse_control_packet (packet_bytes e @ rest) = Inr p \<and> parse p = Inr m"
proof -
  obtain p where p: "valid_packet p" "repack p = Inr e" "parse p = Inr m"
    using enc_parses [OF assms] by blast
  then have "packet_bytes e = frame_bytes (packet_type p) (packet_flags p) (packet_body p)"
    by (auto simp: repack_valid)
  then have "parse_control_packet (packet_bytes e @ rest) = Inr p"
    using parse_frame [of "packet_type p" "packet_flags p" "packet_body p" rest] p(1)
    by (simp flip: mk_packet_eq)
  with p(3) show ?thesis by blast
qed

lemma round_trip_ex:
  assumes "\<exists>e. enc m = Inr e" and "fits m"
  shows "\<exists>e p. enc m = Inr e \<and> parse_control_packet (packet_bytes e @ rest) = Inr p \<and> parse p = Inr m"
  using assms round_trip by blast

text \<open>Conversely, a message that comes back from the wire fitted its length fields.\<close>

lemma round_trip_iff:
  assumes "enc m = Inr e"
  shows "(\<exists>p. parse_control_packet (packet_bytes e @ rest) = Inr p \<and> parse p = Inr m) \<longleftrightarrow> fits m"
  using round_trip [OF assms] parse_encodes parse_control_packet_valid(1) by blast

lemma enc_inj:
  assumes "enc m = Inr e" "enc m' = Inr e" "fits m" "fits m'"
  shows "m = m'"
  using round_trip [OF assms(1,3), of "[]"] round_trip [OF assms(2,4), of "[]"] by auto

text \<open>The parser accepts a packet exactly when it is an encoding of the message.\<close>

lemma parse_iff:
  assumes "valid_packet p"
  shows "parse p = Inr m \<longleftrightarrow> fits m \<and> enc m = repack p"
proof
  assume "parse p = Inr m"
  then show "fits m \<and> enc m = repack p" by (rule parse_encodes [OF assms])
next
  assume r: "fits m \<and> enc m = repack p"
  then obtain e where e: "enc m = Inr e" using assms by (simp add: repack_valid)
  then obtain q where q: "valid_packet q" "repack q = Inr e" "parse q = Inr m"
    using enc_parses r by blast
  then have "q = p" using r e assms by (intro valid_packet_cong) simp_all
  with q(3) show "parse p = Inr m" by simp
qed

end

end
