(* ===== verification/Mqtt_Roundtrip.thy ===== *)
theory Mqtt_Roundtrip
  imports Mqtt_Codec
begin

text \<open>
  Every message type meets the contract \<open>message_codec\<close>: for each encoder a lemma says
  when it succeeds and with which body, for each parser a lemma says which bodies it
  accepts, and the interpretations put the two together.
\<close>

section \<open>How a contract is established\<close>

lemma message_codecI:
  assumes enc: "\<And>m e. enc m = Inr e \<longleftrightarrow> ok m \<and> make_packet t (f m) (b m) = Inr e"
    and flags: "\<And>m. ok m \<Longrightarrow> validate_fixed_header_flags t (f m) \<and> f m AND 0x0F = f m"
    and parse: "\<And>p m. valid_packet p \<Longrightarrow> parse p = Inr m \<longleftrightarrow>
      fits m \<and> ok m \<and> packet_type p = t \<and> packet_flags p = f m \<and> packet_body p = b m"
  shows "message_codec enc parse fits"
proof
  fix m e assume e: "enc m = Inr e" and fits: "fits m"
  let ?p = "mk_packet t (f m) (b m)"
  have m: "ok m" "make_packet t (f m) (b m) = Inr e" using e enc by auto
  then have v: "valid_packet ?p" using flags [of m] by (simp add: valid_packet_def make_packet_Inr_iff)
  moreover have "repack ?p = Inr e" using m by (simp add: repack_def)
  moreover have "parse ?p = Inr m" using parse [OF v] m fits by simp
  ultimately show "\<exists>p. valid_packet p \<and> repack p = Inr e \<and> parse p = Inr m" by blast
next
  fix p m assume p: "valid_packet p" and m: "parse p = Inr m"
  have c: "fits m \<and> ok m \<and> packet_type p = t \<and> packet_flags p = f m \<and> packet_body p = b m"
    using parse [OF p, of m] m by blast
  then have "repack p = make_packet t (f m) (b m)" by (simp add: repack_def)
  moreover from this obtain e where "make_packet t (f m) (b m) = Inr e"
    using p by (metis repack_valid)
  ultimately show "fits m \<and> enc m = repack p" using c enc [of m e] by simp
qed

text \<open>The flags of a valid packet, by its type.\<close>

lemma valid_packet_flags:
  "valid_packet p \<Longrightarrow> packet_type p = t \<Longrightarrow> t \<noteq> PUBLISH \<Longrightarrow>
     packet_flags p = (if t = PUBREL \<or> t = SUBSCRIBE \<or> t = UNSUBSCRIBE then 2 else 0)"
  by (cases t) (auto simp: valid_packet_def validate_fixed_header_flags_def)

definition all_fit :: "'m \<Rightarrow> bool" where
  "all_fit m \<longleftrightarrow> True"

section \<open>Identifier packets\<close>

lemma encode_identifier_iff:
  "encode_identifier t f i = Inr e \<longleftrightarrow> i \<noteq> 0 \<and> make_packet t f (u16_bytes i) = Inr e"
  by (simp add: encode_identifier_def validate_packet_identifier_def write_u16_eq)

lemma parse_identifier_iff:
  "parse_identifier t n p = Inr i \<longleftrightarrow>
     packet_type p = t \<and> packet_body p = u16_bytes i \<and> i \<noteq> 0"
proof -
  let ?b = "packet_body p"
  have "(length ?b = 2 \<and> (\<exists>o'. read_u16 ?b 0 = Inr (i, o'))) \<longleftrightarrow> ?b = u16_bytes i"
    by (auto simp: read_u16_iff) (metis reads_all length_u16_bytes reads_def add_0)+
  then show ?thesis by (auto simp: parse_identifier_def)
qed

interpretation puback: message_codec encode_puback parse_puback all_fit
  by (rule message_codecI [where ok = "\<lambda>m. puback_packet_identifier m \<noteq> 0" and t = PUBACK
        and f = "\<lambda>_. 0" and b = "\<lambda>m. u16_bytes (puback_packet_identifier m)"])
     (auto simp: encode_puback_def encode_identifier_iff parse_puback_def parse_identifier_iff
        validate_fixed_header_flags_def all_fit_def dest: valid_packet_flags)

interpretation pubrec: message_codec encode_pubrec parse_pubrec all_fit
  by (rule message_codecI [where ok = "\<lambda>m. pubrec_packet_identifier m \<noteq> 0" and t = PUBREC
        and f = "\<lambda>_. 0" and b = "\<lambda>m. u16_bytes (pubrec_packet_identifier m)"])
     (auto simp: encode_pubrec_def encode_identifier_iff parse_pubrec_def parse_identifier_iff
        validate_fixed_header_flags_def all_fit_def dest: valid_packet_flags)

interpretation pubrel: message_codec encode_pubrel parse_pubrel all_fit
  by (rule message_codecI [where ok = "\<lambda>m. pubrel_packet_identifier m \<noteq> 0" and t = PUBREL
        and f = "\<lambda>_. 2" and b = "\<lambda>m. u16_bytes (pubrel_packet_identifier m)"])
     (auto simp: encode_pubrel_def encode_identifier_iff parse_pubrel_def parse_identifier_iff
        validate_fixed_header_flags_def all_fit_def dest: valid_packet_flags)

interpretation pubcomp: message_codec encode_pubcomp parse_pubcomp all_fit
  by (rule message_codecI [where ok = "\<lambda>m. pubcomp_packet_identifier m \<noteq> 0" and t = PUBCOMP
        and f = "\<lambda>_. 0" and b = "\<lambda>m. u16_bytes (pubcomp_packet_identifier m)"])
     (auto simp: encode_pubcomp_def encode_identifier_iff parse_pubcomp_def parse_identifier_iff
        validate_fixed_header_flags_def all_fit_def dest: valid_packet_flags)

interpretation unsuback: message_codec encode_unsuback parse_unsuback all_fit
  by (rule message_codecI [where ok = "\<lambda>m. unsuback_packet_identifier m \<noteq> 0" and t = UNSUBACK
        and f = "\<lambda>_. 0" and b = "\<lambda>m. u16_bytes (unsuback_packet_identifier m)"])
     (auto simp: encode_unsuback_def encode_identifier_iff parse_unsuback_def parse_identifier_iff
        validate_fixed_header_flags_def all_fit_def dest: valid_packet_flags)

section \<open>Packets without a body\<close>

lemma empty_message_eq:
  "MqttPingreqMessage = m1" "MqttPingrespMessage = m2" "MqttDisconnectMessage = m3"
  by (cases m1, simp) (cases m2, simp, cases m3, simp)

lemma parse_empty_iff:
  "parse_empty t n p = Inr u \<longleftrightarrow> packet_type p = t \<and> packet_body p = []"
  by (auto simp: parse_empty_def)

interpretation pingreq: message_codec "\<lambda>_. encode_pingreq" parse_pingreq all_fit
  by (rule message_codecI [where ok = "\<lambda>_. True" and t = PINGREQ and f = "\<lambda>_. 0" and b = "\<lambda>_. []"])
     (auto simp: encode_pingreq_def parse_pingreq_def parse_empty_iff
        validate_fixed_header_flags_def all_fit_def
        intro: empty_message_eq dest: valid_packet_flags)

interpretation pingresp: message_codec "\<lambda>_. encode_pingresp" parse_pingresp all_fit
  by (rule message_codecI [where ok = "\<lambda>_. True" and t = PINGRESP and f = "\<lambda>_. 0" and b = "\<lambda>_. []"])
     (auto simp: encode_pingresp_def parse_pingresp_def parse_empty_iff
        validate_fixed_header_flags_def all_fit_def intro: empty_message_eq
        dest: valid_packet_flags)

interpretation disconnect: message_codec "\<lambda>_. encode_disconnect" parse_disconnect all_fit
  by (rule message_codecI [where ok = "\<lambda>_. True" and t = DISCONNECT and f = "\<lambda>_. 0" and b = "\<lambda>_. []"])
     (auto simp: encode_disconnect_def parse_disconnect_def parse_empty_iff
        validate_fixed_header_flags_def all_fit_def intro: empty_message_eq
        dest: valid_packet_flags)

section \<open>CONNACK\<close>

definition connack_ok :: "MqttConnackMessage \<Rightarrow> bool" where
  "connack_ok m \<longleftrightarrow> connack_code (connack_return_code m) \<le> 5"

definition connack_body :: "MqttConnackMessage \<Rightarrow> u8 list" where
  "connack_body m =
     [if connack_session_present m then 0x01 else 0x00, connack_code (connack_return_code m)]"

lemma and_0xFE_eq_0: "(b :: u8) AND 0xFE = 0 \<longleftrightarrow> b = 0 \<or> b = 1"
  by (auto simp: word8_eq_iff bit_simps)

lemma length_2_iff: "length xs = 2 \<longleftrightarrow> xs = [xs ! 0, xs ! 1]"
  by (cases xs; cases "tl xs") (auto simp: length_Suc_conv)

lemma parse_connack_iff:
  "parse_connack p = Inr m \<longleftrightarrow>
     connack_ok m \<and> packet_type p = CONNACK \<and> packet_body p = connack_body m"
proof (cases "length (packet_body p) = 2")
  case True
  then obtain x y where b: "packet_body p = [x, y]" by (metis length_2_iff)
  show ?thesis
    by (cases m; cases "connack_return_code m")
       (auto simp: parse_connack_def b read_at_def and_0xFE_eq_0 connack_ok_def connack_body_def
          Let_def not_less)
next
  case False
  then show ?thesis by (auto simp: parse_connack_def connack_body_def Let_def)
qed

lemma encode_connack_iff:
  "encode_connack m = Inr e \<longleftrightarrow> connack_ok m \<and> make_packet CONNACK 0 (connack_body m) = Inr e"
  by (simp add: encode_connack_def connack_ok_def connack_body_def Let_def write_u8_eq not_less)

interpretation connack: message_codec encode_connack parse_connack all_fit
  by (rule message_codecI [where ok = connack_ok and t = CONNACK and f = "\<lambda>_. 0" and b = connack_body])
     (auto simp: encode_connack_iff parse_connack_iff validate_fixed_header_flags_def all_fit_def
        dest: valid_packet_flags)

section \<open>SUBACK\<close>

definition suback_code_ok :: "MqttSubackReturnCode \<Rightarrow> bool" where
  "suback_code_ok c \<longleftrightarrow> suback_code c \<in> {0x00, 0x01, 0x02, 0x80}"

lemma encode_return_codes_iff:
  "encode_return_codes out cs = Inr out' \<longleftrightarrow>
     list_all suback_code_ok cs \<and> out' = out @ map suback_code cs"
  by (induction out cs rule: encode_return_codes.induct)
     (auto simp: Let_def suback_code_ok_def write_u8_eq)

lemma parse_return_codes_iff:
  "off \<le> length d \<Longrightarrow> parse_return_codes d off acc = Inr cs' \<longleftrightarrow>
     (\<exists>cs. cs' = acc @ cs \<and> list_all suback_code_ok cs \<and> drop off d = map suback_code cs)"
proof (induction d off acc rule: parse_return_codes.induct)
  case (1 d off acc)
  show ?case
  proof (cases "off < length d")
    case False
    with "1.prems" show ?thesis by (subst parse_return_codes.simps) auto
  next
    case True
    define c where "c = d ! off"
    have d: "drop off d = c # drop (Suc off) d" and r: "read_at d off = Inr c"
      using True by (simp_all add: c_def Cons_nth_drop_Suc read_at_def)
    show ?thesis
    proof (cases "suback_code_ok (MqttSubackReturnCode c)")
      case False
      then show ?thesis
        using True r by (subst parse_return_codes.simps)
          (auto simp: suback_code_ok_def d Cons_eq_map_conv list_all_iff)
    next
      case ok: True
      then have cond: "\<not> (c \<noteq> 0x00 \<and> c \<noteq> 0x01 \<and> c \<noteq> 0x02 \<and> c \<noteq> 0x80)"
        by (auto simp: suback_code_ok_def)
      have "parse_return_codes d off acc =
          parse_return_codes d (Suc off) (acc @ [MqttSubackReturnCode c])"
        using True r cond by (subst parse_return_codes.simps) auto
      moreover have "parse_return_codes d (Suc off) (acc @ [MqttSubackReturnCode c]) = Inr cs' \<longleftrightarrow>
          (\<exists>cs. cs' = (acc @ [MqttSubackReturnCode c]) @ cs \<and> list_all suback_code_ok cs \<and>
             drop (Suc off) d = map suback_code cs)"
        using "1.IH" [OF True r cond] True by simp
      moreover have "\<dots> \<longleftrightarrow> (\<exists>cs. cs' = acc @ cs \<and> list_all suback_code_ok cs \<and>
             drop off d = map suback_code cs)"
        using ok d by (auto simp: Cons_eq_map_conv)
      ultimately show ?thesis by simp
    qed
  qed
qed

definition suback_ok :: "MqttSubackMessage \<Rightarrow> bool" where
  "suback_ok m \<longleftrightarrow> suback_packet_identifier m \<noteq> 0 \<and> suback_return_codes m \<noteq> [] \<and>
     list_all suback_code_ok (suback_return_codes m)"

definition suback_body :: "MqttSubackMessage \<Rightarrow> u8 list" where
  "suback_body m =
     u16_bytes (suback_packet_identifier m) @ map suback_code (suback_return_codes m)"

lemma encode_suback_iff:
  "encode_suback m = Inr e \<longleftrightarrow> suback_ok m \<and> make_packet SUBACK 0 (suback_body m) = Inr e"
  by (auto simp: encode_suback_def suback_ok_def suback_body_def validate_packet_identifier_def
      write_u16_eq encode_return_codes_iff)

text \<open>
  The head of a body: an identifier in front of the rest. All three list packets begin so.
\<close>

lemma read_u16_head:
  "(\<exists>o1. read_u16 d 0 = Inr (i, o1) \<and> P o1) \<longleftrightarrow>
     (\<exists>r. d = u16_bytes i @ r) \<and> P 2"
proof -
  have "read_u16 d 0 = Inr (i, o1) \<longleftrightarrow> o1 = 2 \<and> (\<exists>r. d = u16_bytes i @ r)" for o1
    using reads_drop [of d 0 "u16_bytes i" o1]
    by (auto simp: read_u16_iff reads_def)
  then show ?thesis by auto
qed

lemma parse_suback_iff:
  "parse_suback p = Inr m \<longleftrightarrow>
     suback_ok m \<and> packet_type p = SUBACK \<and> packet_body p = suback_body m"
proof -
  let ?d = "packet_body p"
  have "parse_suback p = Inr m \<longleftrightarrow>
      packet_type p = SUBACK \<and> 3 \<le> length ?d \<and> suback_packet_identifier m \<noteq> 0 \<and>
      suback_return_codes m \<noteq> [] \<and>
      (\<exists>o1. read_u16 ?d 0 = Inr (suback_packet_identifier m, o1) \<and>
        parse_return_codes ?d o1 [] = Inr (suback_return_codes m))"
    by (cases m) (auto simp: parse_suback_def Let_def)
  also have "\<dots> \<longleftrightarrow> suback_ok m \<and> packet_type p = SUBACK \<and> ?d = suback_body m"
    unfolding read_u16_head
    by (auto simp: parse_return_codes_iff suback_ok_def suback_body_def Suc_le_eq)
  finally show ?thesis .
qed

interpretation suback: message_codec encode_suback parse_suback all_fit
  by (rule message_codecI [where ok = suback_ok and t = SUBACK and f = "\<lambda>_. 0" and b = suback_body])
     (auto simp: encode_suback_iff parse_suback_iff validate_fixed_header_flags_def all_fit_def
        dest: valid_packet_flags)

section \<open>SUBSCRIBE and UNSUBSCRIBE\<close>

definition topic_bytes :: "MqttSubscribeTopic \<Rightarrow> u8 list" where
  "topic_bytes t = string_field (topic_filter t) @ [topic_qos t]"

definition topic_ok :: "MqttSubscribeTopic \<Rightarrow> bool" where
  "topic_ok t \<longleftrightarrow> topic_filter t \<noteq> [] \<and> topic_qos t \<le> 2"

definition topic_fits :: "MqttSubscribeTopic \<Rightarrow> bool" where
  "topic_fits t \<longleftrightarrow> fits16 (topic_filter t)"

lemma qos_le_2_iff: "(q :: u8) \<le> 2 \<longleftrightarrow> q = 0 \<or> q = 1 \<or> q = 2"
proof
  assume "q \<le> 2"
  then have "unat q \<le> 2" by (simp add: word_le_nat_alt)
  then have "unat q = unat (0::u8) \<or> unat q = unat (1::u8) \<or> unat q = unat (2::u8)" by auto
  then show "q = 0 \<or> q = 1 \<or> q = 2" by (simp only: word_unat_eq_iff)
qed auto

lemma requested_qos_iff: "(q :: u8) AND 0xFC = 0 \<and> \<not> q AND 0x03 > 2 \<longleftrightarrow> q \<le> 2"
proof -
  have "q AND 0xFC = 0 \<longleftrightarrow> q AND 0x03 = q" by (auto simp: word8_eq_iff bit_simps)
  moreover have "q \<le> 2 \<Longrightarrow> q AND 0x03 = q" by (auto simp: qos_le_2_iff)
  ultimately show ?thesis by (metis linorder_not_less)
qed

lemma requested_qos_id: "(q :: u8) \<le> 2 \<Longrightarrow> q AND 0x03 = q"
  by (auto simp: qos_le_2_iff)

lemma encode_topics_iff:
  "encode_topics out ts = Inr out' \<longleftrightarrow>
     list_all topic_ok ts \<and> out' = out @ concat (map topic_bytes ts)"
  by (induction out ts rule: encode_topics.induct)
     (auto simp: topic_ok_def topic_bytes_def writer_simps not_less)

lemma encode_topic_filters_iff:
  "encode_topic_filters out fs = Inr out' \<longleftrightarrow>
     list_all (\<lambda>f. f \<noteq> []) fs \<and> out' = out @ concat (map string_field fs)"
  by (induction out fs rule: encode_topic_filters.induct) (auto simp: writer_simps)

lemma parse_topics_sound:
  "parse_topics d off acc = Inr ts' \<Longrightarrow> off \<le> length d \<Longrightarrow>
     \<exists>ts. ts' = acc @ ts \<and> list_all topic_ok ts \<and> list_all topic_fits ts \<and>
       drop off d = concat (map topic_bytes ts)"
proof (induction d off acc rule: parse_topics.induct)
  case (1 d off acc)
  show ?case
  proof (cases "off < length d")
    case False
    with "1.prems" show ?thesis by (subst (asm) parse_topics.simps) simp
  next
    case True
    from "1.prems"(1) True obtain s o1 q where
      s: "read_string d off = Inr (s, o1)" "s \<noteq> []" and o1: "\<not> o1 \<ge> length d"
      and q: "read_at d o1 = Inr q" "\<not> q AND 0xFC \<noteq> 0" "\<not> q AND 0x03 > 2"
      and rec: "parse_topics d (o1 + 1) (acc @ [\<lparr>topic_filter = s, topic_qos = q AND 0x03\<rparr>]) = Inr ts'"
      by (subst (asm) parse_topics.simps) (auto split: sum.splits prod.splits if_splits)
    let ?t = "\<lparr>topic_filter = s, topic_qos = q AND 0x03\<rparr>"
    have le: "q \<le> 2" using q(2,3) requested_qos_iff by blast
    have "o1 + 1 \<le> length d" using o1 by simp
    then obtain ts where ts: "ts' = (acc @ [?t]) @ ts" "list_all topic_ok ts" "list_all topic_fits ts"
        "drop (o1 + 1) d = concat (map topic_bytes ts)"
      using "1.IH" [OF True s(1) refl s(2) o1 q rec] by blast
    have rs: "fits16 s" "reads d off (string_field s) o1"
      using s(1) "1.prems"(2) by (simp_all add: read_string_iff)
    have "drop off d = string_field s @ q # drop (o1 + 1) d"
      using reads_drop [OF rs(2)] q(1) by (auto simp: read_at_iff dest: reads_drop)
    then have "drop off d = concat (map topic_bytes (?t # ts))"
      using ts(4) le by (simp add: topic_bytes_def requested_qos_id)
    moreover have "topic_ok ?t" "topic_fits ?t"
      using s(2) le rs(1) by (simp_all add: topic_ok_def topic_fits_def requested_qos_id)
    ultimately show ?thesis using ts(1-3) by (intro exI [of _ "?t # ts"]) simp
  qed
qed

lemma parse_topics_complete:
  "\<lbrakk> drop off d = concat (map topic_bytes ts); off \<le> length d;
     list_all topic_ok ts; list_all topic_fits ts \<rbrakk> \<Longrightarrow>
   parse_topics d off acc = Inr (acc @ ts)"
proof (induction ts arbitrary: off acc)
  case Nil
  then show ?case by (subst parse_topics.simps) simp
next
  case (Cons t ts)
  let ?s = "topic_filter t" and ?q = "topic_qos t"
  let ?o1 = "off + length (string_field ?s)"
  have t: "?s \<noteq> []" "?q \<le> 2" "fits16 ?s"
    using Cons.prems(3,4) by (simp_all add: topic_ok_def topic_fits_def)
  have d: "drop off d = string_field ?s @ ?q # concat (map topic_bytes ts)"
    using Cons.prems(1) by (simp add: topic_bytes_def [of t])
  have rs: "reads d off (string_field ?s) ?o1" and d1: "drop ?o1 d = ?q # concat (map topic_bytes ts)"
    using reads_of_drop [OF d Cons.prems(2)] by simp_all
  have "off < length d" using d by (metis binary_field_def append_is_Nil_conv drop_eq_Nil
    length_u16_bytes list.size(3) not_less zero_neq_numeral)
  moreover have "read_string d off = Inr (?s, ?o1)"
    using rs t(3) Cons.prems(2) by (simp add: read_string_iff)
  moreover have "?o1 < length d" "read_at d ?o1 = Inr ?q"
    using d1 nth_take_drop_eq [OF d1] by (auto simp: read_at_def)
  moreover have "?q AND 0xFC = 0" "\<not> ?q AND 0x03 > 2" "?q AND 0x03 = ?q"
    using t(2) requested_qos_iff requested_qos_id by blast+
  moreover have "\<lparr>topic_filter = ?s, topic_qos = ?q\<rparr> = t" by (cases t) simp
  then have "parse_topics d (?o1 + 1) (acc @ [\<lparr>topic_filter = ?s, topic_qos = ?q\<rparr>])
      = Inr ((acc @ [t]) @ ts)"
    using Cons.IH [of "?o1 + 1" "acc @ [t]"] Cons.prems(3,4) drop_SucI [OF d1] \<open>?o1 < length d\<close>
    by (simp only:) simp
  ultimately show ?case
    using t(1) by (subst parse_topics.simps) simp
qed

lemma parse_topics_iff:
  "off \<le> length d \<Longrightarrow> parse_topics d off [] = Inr ts \<longleftrightarrow>
     list_all topic_ok ts \<and> list_all topic_fits ts \<and> drop off d = concat (map topic_bytes ts)"
  using parse_topics_sound [of d off "[]" ts] parse_topics_complete [of off d ts "[]"] by auto

lemma parse_topic_filters_sound:
  "parse_topic_filters d off acc = Inr fs' \<Longrightarrow> off \<le> length d \<Longrightarrow>
     \<exists>fs. fs' = acc @ fs \<and> list_all (\<lambda>f. f \<noteq> []) fs \<and> list_all fits16 fs \<and>
       drop off d = concat (map string_field fs)"
proof (induction d off acc rule: parse_topic_filters.induct)
  case (1 d off acc)
  show ?case
  proof (cases "off < length d")
    case False
    with "1.prems" show ?thesis by (subst (asm) parse_topic_filters.simps) simp
  next
    case True
    from "1.prems"(1) True obtain s o1 where
      s: "read_string d off = Inr (s, o1)" "s \<noteq> []"
      and rec: "parse_topic_filters d o1 (acc @ [s]) = Inr fs'"
      by (subst (asm) parse_topic_filters.simps) (auto split: sum.splits prod.splits if_splits)
    have rs: "fits16 s" "reads d off (string_field s) o1"
      using s(1) "1.prems"(2) by (simp_all add: read_string_iff)
    then obtain fs where fs: "fs' = (acc @ [s]) @ fs" "list_all (\<lambda>f. f \<noteq> []) fs"
        "list_all fits16 fs" "drop o1 d = concat (map string_field fs)"
      using "1.IH" [OF True s(1) refl s(2) rec] reads_le [OF rs(2)] by blast
    then show ?thesis
      using reads_drop [OF rs(2)] s(2) rs(1) by (intro exI [of _ "s # fs"]) simp
  qed
qed

lemma parse_topic_filters_complete:
  "\<lbrakk> drop off d = concat (map string_field fs); off \<le> length d;
     list_all (\<lambda>f. f \<noteq> []) fs; list_all fits16 fs \<rbrakk> \<Longrightarrow>
   parse_topic_filters d off acc = Inr (acc @ fs)"
proof (induction fs arbitrary: off acc)
  case Nil
  then show ?case by (subst parse_topic_filters.simps) simp
next
  case (Cons f fs)
  let ?o1 = "off + length (string_field f)"
  have d: "drop off d = string_field f @ concat (map string_field fs)"
    using Cons.prems(1) by simp
  note r = reads_of_drop [OF d Cons.prems(2)]
  have "read_string d off = Inr (f, ?o1)"
    using r(1) Cons.prems(2,4) by (simp add: read_string_iff)
  moreover have "off < length d" using r(1) by (simp add: reads_def)
  moreover have "parse_topic_filters d ?o1 (acc @ [f]) = Inr ((acc @ [f]) @ fs)"
    using Cons.prems(3,4) by (intro Cons.IH r(2) reads_le [OF r(1)]) simp_all
  ultimately show ?case
    using Cons.prems(3) by (subst parse_topic_filters.simps) simp
qed

lemma parse_topic_filters_iff:
  "off \<le> length d \<Longrightarrow> parse_topic_filters d off [] = Inr fs \<longleftrightarrow>
     list_all (\<lambda>f. f \<noteq> []) fs \<and> list_all fits16 fs \<and> drop off d = concat (map string_field fs)"
  using parse_topic_filters_sound [of d off "[]" fs] parse_topic_filters_complete [of off d fs "[]"]
  by auto

definition subscribe_ok :: "MqttSubscribeMessage \<Rightarrow> bool" where
  "subscribe_ok m \<longleftrightarrow> subscribe_packet_identifier m \<noteq> 0 \<and> subscribe_topics m \<noteq> [] \<and>
     list_all topic_ok (subscribe_topics m)"

definition subscribe_fits :: "MqttSubscribeMessage \<Rightarrow> bool" where
  "subscribe_fits m \<longleftrightarrow> list_all topic_fits (subscribe_topics m)"

definition subscribe_body :: "MqttSubscribeMessage \<Rightarrow> u8 list" where
  "subscribe_body m =
     u16_bytes (subscribe_packet_identifier m) @ concat (map topic_bytes (subscribe_topics m))"

lemma encode_subscribe_iff:
  "encode_subscribe m = Inr e \<longleftrightarrow>
     subscribe_ok m \<and> make_packet SUBSCRIBE 2 (subscribe_body m) = Inr e"
  by (auto simp: encode_subscribe_def subscribe_ok_def subscribe_body_def
      validate_packet_identifier_def write_u16_eq encode_topics_iff)

lemma length_concat_topics:
  "ts \<noteq> [] \<Longrightarrow> list_all topic_ok ts \<Longrightarrow> 3 < length (concat (map topic_bytes ts))"
  by (cases ts) (auto simp: topic_bytes_def topic_ok_def)

lemma length_concat_filters:
  "fs \<noteq> [] \<Longrightarrow> list_all (\<lambda>f. f \<noteq> []) fs \<Longrightarrow> 2 < length (concat (map string_field fs))"
  by (cases fs) auto

lemma parse_subscribe_iff:
  "parse_subscribe p = Inr m \<longleftrightarrow>
     subscribe_fits m \<and> subscribe_ok m \<and> packet_type p = SUBSCRIBE \<and>
     packet_body p = subscribe_body m"
proof -
  let ?d = "packet_body p" and ?ts = "subscribe_topics m"
  have "parse_subscribe p = Inr m \<longleftrightarrow>
      packet_type p = SUBSCRIBE \<and> 5 \<le> length ?d \<and> subscribe_packet_identifier m \<noteq> 0 \<and> ?ts \<noteq> [] \<and>
      (\<exists>o1. read_u16 ?d 0 = Inr (subscribe_packet_identifier m, o1) \<and>
        parse_topics ?d o1 [] = Inr ?ts)"
    by (cases m) (auto simp: parse_subscribe_def Let_def)
  also have "\<dots> \<longleftrightarrow> subscribe_fits m \<and> subscribe_ok m \<and> packet_type p = SUBSCRIBE \<and>
      ?d = subscribe_body m"
    unfolding read_u16_head
    using length_concat_topics [of ?ts]
    by (auto simp: parse_topics_iff subscribe_ok_def subscribe_fits_def subscribe_body_def)
  finally show ?thesis .
qed

interpretation subscribe: message_codec encode_subscribe parse_subscribe subscribe_fits
  by (rule message_codecI [where ok = subscribe_ok and t = SUBSCRIBE and f = "\<lambda>_. 2"
        and b = subscribe_body])
     (auto simp: encode_subscribe_iff parse_subscribe_iff validate_fixed_header_flags_def
        dest: valid_packet_flags)

definition unsubscribe_ok :: "MqttUnsubscribeMessage \<Rightarrow> bool" where
  "unsubscribe_ok m \<longleftrightarrow> unsubscribe_packet_identifier m \<noteq> 0 \<and>
     unsubscribe_topic_filters m \<noteq> [] \<and> list_all (\<lambda>f. f \<noteq> []) (unsubscribe_topic_filters m)"

definition unsubscribe_fits :: "MqttUnsubscribeMessage \<Rightarrow> bool" where
  "unsubscribe_fits m \<longleftrightarrow> list_all fits16 (unsubscribe_topic_filters m)"

definition unsubscribe_body :: "MqttUnsubscribeMessage \<Rightarrow> u8 list" where
  "unsubscribe_body m = u16_bytes (unsubscribe_packet_identifier m) @
     concat (map string_field (unsubscribe_topic_filters m))"

lemma encode_unsubscribe_iff:
  "encode_unsubscribe m = Inr e \<longleftrightarrow>
     unsubscribe_ok m \<and> make_packet UNSUBSCRIBE 2 (unsubscribe_body m) = Inr e"
  by (auto simp: encode_unsubscribe_def unsubscribe_ok_def unsubscribe_body_def
      validate_packet_identifier_def write_u16_eq encode_topic_filters_iff)

lemma parse_unsubscribe_iff:
  "parse_unsubscribe p = Inr m \<longleftrightarrow>
     unsubscribe_fits m \<and> unsubscribe_ok m \<and> packet_type p = UNSUBSCRIBE \<and>
     packet_body p = unsubscribe_body m"
proof -
  let ?d = "packet_body p" and ?fs = "unsubscribe_topic_filters m"
  have "parse_unsubscribe p = Inr m \<longleftrightarrow>
      packet_type p = UNSUBSCRIBE \<and> 4 \<le> length ?d \<and> unsubscribe_packet_identifier m \<noteq> 0 \<and>
      ?fs \<noteq> [] \<and>
      (\<exists>o1. read_u16 ?d 0 = Inr (unsubscribe_packet_identifier m, o1) \<and>
        parse_topic_filters ?d o1 [] = Inr ?fs)"
    by (cases m) (auto simp: parse_unsubscribe_def Let_def)
  also have "\<dots> \<longleftrightarrow> unsubscribe_fits m \<and> unsubscribe_ok m \<and> packet_type p = UNSUBSCRIBE \<and>
      ?d = unsubscribe_body m"
    unfolding read_u16_head
    using length_concat_filters [of ?fs]
    by (auto simp: parse_topic_filters_iff unsubscribe_ok_def unsubscribe_fits_def
        unsubscribe_body_def)
  finally show ?thesis .
qed

interpretation unsubscribe: message_codec encode_unsubscribe parse_unsubscribe unsubscribe_fits
  by (rule message_codecI [where ok = unsubscribe_ok and t = UNSUBSCRIBE and f = "\<lambda>_. 2"
        and b = unsubscribe_body])
     (auto simp: encode_unsubscribe_iff parse_unsubscribe_iff validate_fixed_header_flags_def
        dest: valid_packet_flags)

section \<open>PUBLISH\<close>

definition publish_ok :: "u8 list MqttPublishMessage \<Rightarrow> bool" where
  "publish_ok m \<longleftrightarrow> publish_topic_name m \<noteq> [] \<and> publish_qos m \<le> 2 \<and>
     (publish_qos m = 0 \<longleftrightarrow> publish_packet_identifier m = None) \<and>
     publish_packet_identifier m \<noteq> Some 0"

definition publish_fits :: "'p MqttPublishMessage \<Rightarrow> bool" where
  "publish_fits m \<longleftrightarrow> fits16 (publish_topic_name m)"

definition publish_body :: "u8 list MqttPublishMessage \<Rightarrow> u8 list" where
  "publish_body m = string_field (publish_topic_name m) @
     (case publish_packet_identifier m of None \<Rightarrow> [] | Some i \<Rightarrow> u16_bytes i) @ publish_payload m"

lemma encode_publish_iff:
  "encode_publish m = Inr e \<longleftrightarrow>
     publish_ok m \<and> make_packet PUBLISH (publish_flags m) (publish_body m) = Inr e"
  by (cases "publish_packet_identifier m")
     (auto simp: encode_publish_def publish_ok_def publish_body_def writer_simps
        not_less word_neq_0_conv [symmetric])

lemma publish_flags_bits:
  assumes "publish_qos m \<le> 2"
  shows "publish_flags m AND 0x0F = publish_flags m"
    and "(publish_flags m AND 0x8 \<noteq> 0) = publish_dup m"
    and "(publish_flags m AND 0x1 \<noteq> 0) = publish_retain m"
    and "drop_bit 1 (publish_flags m AND 0x6) = publish_qos m"
  using assms unfolding qos_le_2_iff
  by (auto simp: publish_flags_def Let_def)

text \<open>Flag bytes are put together from single flags and a two-bit field.\<close>

lemma single_bit_flag:
  fixes f :: u8
  shows "f AND 0x80 = (if f AND 0x80 \<noteq> 0 then 0x80 else 0)"
    "f AND 0x40 = (if f AND 0x40 \<noteq> 0 then 0x40 else 0)"
    "f AND 0x20 = (if f AND 0x20 \<noteq> 0 then 0x20 else 0)"
    "f AND 0x08 = (if f AND 0x08 \<noteq> 0 then 0x08 else 0)"
    "f AND 0x04 = (if f AND 0x04 \<noteq> 0 then 0x04 else 0)"
    "f AND 0x02 = (if f AND 0x02 \<noteq> 0 then 0x02 else 0)"
    "f AND 0x01 = (if f AND 0x01 \<noteq> 0 then 0x01 else 0)"
  by (auto simp: word8_eq_iff bit_simps)

lemma two_bit_field:
  fixes f :: u8
  shows "push_bit 1 (drop_bit 1 (f AND 0x06) AND 3) = f AND 0x06"
    and "push_bit 3 (drop_bit 3 (f AND 0x18) AND 3) = f AND 0x18"
proof -
  have m: "(3 :: u8) = mask 2" by (simp add: mask_eq_exp_minus_1)
  show "push_bit 1 (drop_bit 1 (f AND 0x06) AND 3) = f AND 0x06"
    unfolding m word8_eq_iff
    by (simp only: bit_simps possible_bit_word) (auto simp: bit_simps numeral_2_eq_2)
  show "push_bit 3 (drop_bit 3 (f AND 0x18) AND 3) = f AND 0x18"
    unfolding m word8_eq_iff
    by (simp only: bit_simps possible_bit_word) (auto simp: bit_simps)
qed

lemma publish_flags_eqI:
  fixes f :: u8
  assumes f: "f AND 0x0F = f"
    and m: "publish_dup m = (f AND 0x8 \<noteq> 0)" "publish_retain m = (f AND 0x1 \<noteq> 0)"
      "publish_qos m = drop_bit 1 (f AND 0x6)"
  shows "publish_flags m = f"
proof -
  have "publish_flags m = (f AND 0x8) OR (f AND 0x6) OR (f AND 0x1)"
    unfolding publish_flags_def Let_def m two_bit_field
    using single_bit_flag(4,7) [of f]
    by (cases "f AND 0x8 = 0"; cases "f AND 0x1 = 0") (simp_all add: or.assoc)
  also have "\<dots> = f AND 0x0F" by (auto simp: word8_eq_iff bit_simps)
  finally show ?thesis using f by simp
qed

lemma read_tail:
  "off \<le> length d \<Longrightarrow> read_range d off (size_sub (length d) off) = Inr r \<longleftrightarrow> r = drop off d"
  by (auto simp: read_range_def)

lemma publish_qos_field:
  fixes f :: u8
  shows "drop_bit 1 (f AND 0x6) \<noteq> 3 \<longleftrightarrow> drop_bit 1 (f AND 0x6) \<le> 2"
proof -
  have "drop_bit 1 (f AND 0x6) = 0 \<or> drop_bit 1 (f AND 0x6) = 1 \<or>
      drop_bit 1 (f AND 0x6) = 2 \<or> drop_bit 1 (f AND 0x6) = 3"
    by (cases "bit f 1"; cases "bit f 2")
       (simp_all add: word8_eq_iff bit_simps numeral_2_eq_2)
  then show ?thesis by (auto simp: qos_le_2_iff)
qed

text \<open>The topic, the identifier where there is one, and the payload: the rest of the body.\<close>

lemma parse_publish_unfold:
  "parse_publish p = Inr m \<longleftrightarrow>
     packet_type p = PUBLISH \<and>
     (\<exists>o1. read_string (packet_body p) 0 = Inr (publish_topic_name m, o1) \<and>
       publish_topic_name m \<noteq> [] \<and> publish_qos m \<le> 2 \<and>
       publish_qos m = drop_bit 1 (packet_flags p AND 0x6) \<and>
       publish_dup m = (packet_flags p AND 0x8 \<noteq> 0) \<and>
       publish_retain m = (packet_flags p AND 0x1 \<noteq> 0) \<and>
       (case publish_packet_identifier m of
          None \<Rightarrow> publish_qos m = 0 \<and>
            read_range (packet_body p) o1 (size_sub (length (packet_body p)) o1)
              = Inr (publish_payload m)
        | Some i \<Rightarrow> publish_qos m > 0 \<and> i \<noteq> 0 \<and> (\<exists>o2. read_u16 (packet_body p) o1 = Inr (i, o2) \<and>
            read_range (packet_body p) o2 (size_sub (length (packet_body p)) o2)
              = Inr (publish_payload m))))"
  by (cases m) (auto simp: parse_publish_def Let_def publish_qos_field [simplified]
      word_neq_0_conv [symmetric] split: option.splits if_splits)

lemma parse_publish_iff:
  assumes "packet_flags p AND 0x0F = packet_flags p"
  shows "parse_publish p = Inr m \<longleftrightarrow>
     publish_fits m \<and> publish_ok m \<and> packet_type p = PUBLISH \<and>
     packet_flags p = publish_flags m \<and> packet_body p = publish_body m"
proof
  assume "parse_publish p = Inr m"
  then obtain o1 where t: "packet_type p = PUBLISH"
    and s: "read_string (packet_body p) 0 = Inr (publish_topic_name m, o1)"
    and m: "publish_topic_name m \<noteq> []" "publish_qos m \<le> 2"
      "publish_qos m = drop_bit 1 (packet_flags p AND 0x6)"
      "publish_dup m = (packet_flags p AND 0x8 \<noteq> 0)"
      "publish_retain m = (packet_flags p AND 0x1 \<noteq> 0)"
    and r: "case publish_packet_identifier m of
          None \<Rightarrow> publish_qos m = 0 \<and>
            read_range (packet_body p) o1 (size_sub (length (packet_body p)) o1)
              = Inr (publish_payload m)
        | Some i \<Rightarrow> publish_qos m > 0 \<and> i \<noteq> 0 \<and> (\<exists>o2. read_u16 (packet_body p) o1 = Inr (i, o2) \<and>
            read_range (packet_body p) o2 (size_sub (length (packet_body p)) o2)
              = Inr (publish_payload m))"
    unfolding parse_publish_unfold by blast
  have rs: "publish_fits m" "reads (packet_body p) 0 (string_field (publish_topic_name m)) o1"
    using s by (simp_all add: read_string_iff publish_fits_def)
  note o1 = reads_le [OF rs(2)] and d = reads_drop [OF rs(2)]
  have "publish_ok m \<and> packet_body p = publish_body m"
  proof (cases "publish_packet_identifier m")
    case None
    from r [unfolded None option.case read_tail [OF o1]] m(1,2) None d
    show ?thesis by (simp add: publish_ok_def publish_body_def)
  next
    case (Some i)
    then obtain o2 where i: "publish_qos m > 0" "i \<noteq> 0" "read_u16 (packet_body p) o1 = Inr (i, o2)"
      and b: "read_range (packet_body p) o2 (size_sub (length (packet_body p)) o2)
              = Inr (publish_payload m)"
      using r by auto
    have "reads (packet_body p) o1 (u16_bytes i) o2" using i(3) o1 by (simp add: read_u16_iff)
    note o2 = reads_le [OF this] and d2 = reads_drop [OF this]
    show ?thesis
      using i(1,2) b [unfolded read_tail [OF o2]] m(1,2) d d2 Some
      by (simp add: publish_ok_def publish_body_def)
  qed
  with rs(1) t m publish_flags_eqI [OF assms m(4,5,3)]
  show "publish_fits m \<and> publish_ok m \<and> packet_type p = PUBLISH \<and>
     packet_flags p = publish_flags m \<and> packet_body p = publish_body m" by simp
next
  assume a: "publish_fits m \<and> publish_ok m \<and> packet_type p = PUBLISH \<and>
     packet_flags p = publish_flags m \<and> packet_body p = publish_body m"
  let ?d = "packet_body p" and ?s = "string_field (publish_topic_name m)"
  let ?i = "case publish_packet_identifier m of None \<Rightarrow> [] | Some i \<Rightarrow> u16_bytes i"
  have d: "?d = ?s @ ?i @ publish_payload m" using a by (simp add: publish_body_def)
  then have d0: "drop 0 ?d = ?s @ ?i @ publish_payload m" by simp
  note r = reads_of_drop [OF d0 le0, simplified add_0]
  have s: "read_string ?d 0 = Inr (publish_topic_name m, length ?s)"
    using r(1) a by (simp only: read_string_iff publish_fits_def)
  have le: "length ?s \<le> length ?d" using d by simp
  note ri = reads_of_drop [OF r(2) le]
  have q: "publish_qos m \<le> 2" using a by (simp add: publish_ok_def)
  show "parse_publish p = Inr m"
  proof (cases "publish_packet_identifier m")
    case None
    have "read_range ?d (length ?s) (size_sub (length ?d) (length ?s)) = Inr (publish_payload m)"
      unfolding read_tail [OF le] using r(2) None by simp
    with None show ?thesis
      unfolding parse_publish_unfold
      using a s publish_flags_bits [OF q]
      by (intro conjI exI [of _ "length ?s"]) (simp_all add: publish_ok_def)
  next
    case (Some i)
    let ?o2 = "length ?s + 2"
    have "read_u16 ?d (length ?s) = Inr (i, ?o2)"
      using ri(1) le Some by (simp only: read_u16_iff option.case length_u16_bytes)
    moreover have le2: "?o2 \<le> length ?d" using reads_le [OF ri(1)] Some by simp
    have "read_range ?d ?o2 (size_sub (length ?d) ?o2) = Inr (publish_payload m)"
      unfolding read_tail [OF le2] using ri(2) Some by simp
    ultimately show ?thesis
      unfolding parse_publish_unfold
      using a s Some publish_flags_bits [OF q]
      by (intro conjI exI [of _ "length ?s"])
         (simp_all add: publish_ok_def word_neq_0_conv [symmetric])
  qed
qed

interpretation publish: message_codec encode_publish parse_publish publish_fits
  by (rule message_codecI [where ok = publish_ok and t = PUBLISH and f = publish_flags
        and b = publish_body])
     (auto simp: encode_publish_iff parse_publish_iff validate_fixed_header_flags_def
        valid_packet_def publish_ok_def publish_flags_bits)

section \<open>CONNECT\<close>

definition opt_bytes :: "('a \<Rightarrow> u8 list) \<Rightarrow> 'a option \<Rightarrow> u8 list" where
  "opt_bytes f x = (case x of None \<Rightarrow> [] | Some a \<Rightarrow> f a)"

definition opt_fits :: "('a \<Rightarrow> bool) \<Rightarrow> 'a option \<Rightarrow> bool" where
  "opt_fits F x = (case x of None \<Rightarrow> True | Some a \<Rightarrow> F a)"

definition will_bytes :: "MqttWillMessage \<Rightarrow> u8 list" where
  "will_bytes w = string_field (will_topic w) @ string_field (will_message w)"

definition will_fits :: "MqttWillMessage \<Rightarrow> bool" where
  "will_fits w \<longleftrightarrow> fits16 (will_topic w) \<and> fits16 (will_message w)"

definition connect_ok :: "MqttConnectMessage \<Rightarrow> bool" where
  "connect_ok m \<longleftrightarrow>
     (connect_client_id m = [] \<longrightarrow> connect_clean_session m)
     \<and> opt_fits (\<lambda>w. will_qos w \<le> 2) (connect_will m)
     \<and> (connect_password m \<noteq> None \<longrightarrow> connect_username m \<noteq> None)"

definition connect_fits :: "MqttConnectMessage \<Rightarrow> bool" where
  "connect_fits m \<longleftrightarrow> fits16 (connect_client_id m) \<and> opt_fits will_fits (connect_will m)
     \<and> opt_fits fits16 (connect_username m) \<and> opt_fits fits16 (connect_password m)"

lemma opt_simps [simp]:
  "opt_bytes f None = []" "opt_bytes f (Some a) = f a" "opt_fits F None" "opt_fits F (Some a) = F a"
  by (simp_all add: opt_bytes_def opt_fits_def)

lemma connect_body_eq:
  "connect_body m = string_field ''MQTT'' @ [4] @ [connect_flags m] @
     u16_bytes (connect_keep_alive m) @ string_field (connect_client_id m) @
     opt_bytes will_bytes (connect_will m) @ opt_bytes string_field (connect_username m) @
     opt_bytes string_field (connect_password m)"
  by (auto simp: connect_body_def Let_def writer_simps will_bytes_def split: option.splits)

lemma encode_connect_iff:
  "encode_connect m = Inr e \<longleftrightarrow> connect_ok m \<and> make_packet CONNECT 0 (connect_body m) = Inr e"
  by (auto simp: encode_connect_def connect_ok_def not_less split: option.splits)

lemma connect_flags_bits:
  assumes "opt_fits (\<lambda>w. will_qos w \<le> 2) (connect_will m)"
  shows "connect_flags m AND 0x01 = 0"
    and "(connect_flags m AND 0x80 \<noteq> 0) = (connect_username m \<noteq> None)"
    and "(connect_flags m AND 0x40 \<noteq> 0) = (connect_password m \<noteq> None)"
    and "(connect_flags m AND 0x04 \<noteq> 0) = (connect_will m \<noteq> None)"
    and "(connect_flags m AND 0x02 \<noteq> 0) = connect_clean_session m"
    and "(connect_flags m AND 0x20 \<noteq> 0) =
      (case connect_will m of None \<Rightarrow> False | Some w \<Rightarrow> will_retain w)"
    and "drop_bit 3 (connect_flags m AND 0x18) =
      (case connect_will m of None \<Rightarrow> 0 | Some w \<Rightarrow> will_qos w)"
  using assms
  by (cases "connect_will m"; cases "connect_username m = None"; cases "connect_password m = None";
      auto simp: connect_flags_def Let_def qos_le_2_iff)+

lemma connect_flags_eqI:
  fixes fl :: u8
  assumes r: "fl AND 0x01 = 0"
    and u: "(connect_username m \<noteq> None) = (fl AND 0x80 \<noteq> 0)"
    and p: "(connect_password m \<noteq> None) = (fl AND 0x40 \<noteq> 0)"
    and c: "connect_clean_session m = (fl AND 0x02 \<noteq> 0)"
    and w: "(fl AND 0x04 \<noteq> 0) = (connect_will m \<noteq> None)"
      "(fl AND 0x20 \<noteq> 0) = (case connect_will m of None \<Rightarrow> False | Some w \<Rightarrow> will_retain w)"
      "drop_bit 3 (fl AND 0x18) = (case connect_will m of None \<Rightarrow> 0 | Some w \<Rightarrow> will_qos w)"
  shows "connect_flags m = fl"
proof -
  define base where "base = (fl AND 0x80) OR (fl AND 0x40)"
  have b: "(let f = 0; f = (if connect_username m \<noteq> None then f OR 0x80 else f)
      in if connect_password m \<noteq> None then f OR 0x40 else f) = base"
    unfolding base_def u p Let_def using single_bit_flag(1,2) [of fl]
    by (cases "fl AND 0x80 = 0"; cases "fl AND 0x40 = 0") simp_all
  have w': "(case connect_will m of None \<Rightarrow> base | Some will \<Rightarrow>
        let f = base OR 0x04; f = f OR push_bit 3 (will_qos will AND 3)
        in if will_retain will then f OR 0x20 else f)
      = base OR (fl AND 0x04) OR (fl AND 0x18) OR (fl AND 0x20)"
    using w single_bit_flag(3,5) [of fl] two_bit_field(2) [of fl]
    by (cases "connect_will m") (auto simp: Let_def or.assoc)
  have "connect_flags m = base OR (fl AND 0x04) OR (fl AND 0x18) OR (fl AND 0x20) OR (fl AND 0x02)"
    unfolding connect_flags_def Let_def b [unfolded Let_def] w' [unfolded Let_def]
    using c single_bit_flag(6) [of fl] by (cases "fl AND 0x02 = 0") (simp_all add: or.assoc)
  also have "\<dots> = fl" using r unfolding base_def by (auto simp: word8_eq_iff bit_simps)
  finally show ?thesis .
qed

lemma when_flag_iff:
  assumes "\<And>a o'. r = Inr (a, o') \<longleftrightarrow> F a \<and> reads d off (f a) o'" and "off \<le> length d"
  shows "when_flag fl off r = Inr (x, o') \<longleftrightarrow>
     (fl \<longleftrightarrow> x \<noteq> None) \<and> opt_fits F x \<and> reads d off (opt_bytes f x) o'"
  using assms by (cases x) (auto simp: when_flag_def)

lemma parse_will_iff:
  assumes "off \<le> length d"
  shows "parse_will d off q r = Inr (w, o') \<longleftrightarrow>
     (will_fits w \<and> will_qos w = q \<and> will_retain w = r) \<and> reads d off (will_bytes w) o'"
proof
  assume "parse_will d off q r = Inr (w, o')"
  then obtain o1 b where t: "read_string d off = Inr (will_topic w, o1)"
    and b: "read_binary d o1 = Inr (b, o')" and w: "will_message w = string_of_bytes b"
      "will_qos w = q" "will_retain w = r"
    by (auto simp: parse_will_def)
  have rt: "fits16 (will_topic w)" "reads d off (string_field (will_topic w)) o1"
    using t assms by (simp_all add: read_string_iff)
  have rb: "fits16 b" "reads d o1 (binary_field b) o'"
    using b reads_le [OF rt(2)] by (simp_all add: read_binary_iff)
  show "(will_fits w \<and> will_qos w = q \<and> will_retain w = r) \<and> reads d off (will_bytes w) o'"
    using rt rb w by (auto simp: will_fits_def will_bytes_def intro: reads_append_trans)
next
  assume a: "(will_fits w \<and> will_qos w = q \<and> will_retain w = r) \<and> reads d off (will_bytes w) o'"
  let ?o1 = "off + length (string_field (will_topic w))"
  have r: "reads d off (string_field (will_topic w)) ?o1"
      "reads d ?o1 (string_field (will_message w)) o'"
    using a by (simp_all only: will_bytes_def reads_append)
  have "read_string d off = Inr (will_topic w, ?o1)"
    using r(1) a assms by (simp only: read_string_iff will_fits_def)
  moreover have "read_binary d ?o1 = Inr (bytes_of_string (will_message w), o')"
    using r(2) a reads_le [OF r(1)] by (simp only: read_binary_iff will_fits_def fits16_map)
  ultimately show "parse_will d off q r = Inr (w, o')"
    using a by (cases w) (simp add: parse_will_def)
qed

lemma map_string_of_bytes_opt:
  "map_option string_of_bytes x = y \<longleftrightarrow> x = map_option bytes_of_string y"
  by (cases x; cases y) (auto simp: string_of_bytes_eq_iff)

lemma map_option_bytes_string [simp]:
  "map_option bytes_of_string (map_option string_of_bytes x) = x"
  "map_option string_of_bytes (map_option bytes_of_string y) = y"
  by (cases x, simp_all) (cases y, simp_all)

text \<open>The payload of CONNECT: what is read behind the flags, in their order.\<close>

definition connect_payload_reads ::
  "u8 list \<Rightarrow> u8 \<Rightarrow> nat \<Rightarrow> MqttConnectMessage \<Rightarrow> bool" where
  "connect_payload_reads d fl off m \<longleftrightarrow>
     (\<exists>o4 o5 o6 o7.
        read_u16 d off = Inr (connect_keep_alive m, o4) \<and>
        read_string d o4 = Inr (connect_client_id m, o5) \<and>
        when_flag (fl AND 0x04 \<noteq> 0) o5
          (parse_will d o5 (drop_bit 3 (fl AND 0x18)) (fl AND 0x20 \<noteq> 0)) = Inr (connect_will m, o6) \<and>
        when_flag (fl AND 0x80 \<noteq> 0) o6 (read_string d o6) = Inr (connect_username m, o7) \<and>
        when_flag (fl AND 0x40 \<noteq> 0) o7 (read_binary d o7)
          = Inr (map_option bytes_of_string (connect_password m), length d))"

lemma parse_connect_unfold:
  "parse_connect p = Inr m \<longleftrightarrow>
     packet_type p = CONNECT \<and> 10 \<le> length (packet_body p) \<and>
     (\<exists>o1 fl. read_string (packet_body p) 0 = Inr (''MQTT'', o1) \<and>
       \<not> size_sub (length (packet_body p)) o1 < 1 \<and> read_at (packet_body p) o1 = Inr 4 \<and>
       \<not> size_sub (length (packet_body p)) (o1 + 1) < 1 \<and>
       read_at (packet_body p) (o1 + 1) = Inr fl \<and>
       fl AND 0x01 = 0 \<and> (fl AND 0x40 \<noteq> 0 \<longrightarrow> fl AND 0x80 \<noteq> 0) \<and>
       (fl AND 0x04 = 0 \<longrightarrow> fl AND 0x20 = 0 \<and> drop_bit 3 (fl AND 0x18) = 0) \<and>
       drop_bit 3 (fl AND 0x18) \<noteq> 3 \<and> connect_clean_session m = (fl AND 0x02 \<noteq> 0) \<and>
       (connect_client_id m = [] \<longrightarrow> connect_clean_session m) \<and>
       connect_payload_reads (packet_body p) fl (o1 + 1 + 1) m)"
  (is "?L \<longleftrightarrow> ?R")
proof
  assume ?L
  then show ?R
    unfolding parse_connect_def connect_payload_reads_def
    by (clarsimp simp: Let_def simp del: option.map_comp)
next
  assume ?R
  then show ?L
    unfolding parse_connect_def connect_payload_reads_def
    by (cases m) (clarsimp simp: Let_def simp del: option.map_comp)
qed

definition connect_payload :: "MqttConnectMessage \<Rightarrow> u8 list" where
  "connect_payload m =
     u16_bytes (connect_keep_alive m) @ string_field (connect_client_id m) @
     opt_bytes will_bytes (connect_will m) @ opt_bytes string_field (connect_username m) @
     opt_bytes string_field (connect_password m)"

definition connect_flags_match :: "u8 \<Rightarrow> MqttConnectMessage \<Rightarrow> bool" where
  "connect_flags_match fl m \<longleftrightarrow>
     (fl AND 0x04 \<noteq> 0) = (connect_will m \<noteq> None) \<and>
     opt_fits (\<lambda>w. will_qos w = drop_bit 3 (fl AND 0x18) \<and> will_retain w = (fl AND 0x20 \<noteq> 0))
       (connect_will m) \<and>
     (fl AND 0x80 \<noteq> 0) = (connect_username m \<noteq> None) \<and>
     (fl AND 0x40 \<noteq> 0) = (connect_password m \<noteq> None)"

lemma opt_map_bytes:
  "opt_bytes f (map_option g x) = opt_bytes (\<lambda>a. f (g a)) x"
  "opt_fits F (map_option g x) = opt_fits (\<lambda>a. F (g a)) x"
  by (cases x; simp)+

lemma opt_fits_conj:
  "opt_fits (\<lambda>a. F a \<and> G a) x \<longleftrightarrow> opt_fits F x \<and> opt_fits G x"
  by (cases x) auto

lemma connect_payload_reads_iff:
  assumes "off \<le> length d"
  shows "connect_payload_reads d fl off m \<longleftrightarrow>
     connect_flags_match fl m \<and> connect_fits m \<and> reads d off (connect_payload m) (length d)"
proof
  let ?qos = "drop_bit 3 (fl AND 0x18)" and ?ret = "fl AND 0x20 \<noteq> 0"
  assume "connect_payload_reads d fl off m"
  then obtain o4 o5 o6 o7 where
    r: "read_u16 d off = Inr (connect_keep_alive m, o4)"
      "read_string d o4 = Inr (connect_client_id m, o5)"
      "when_flag (fl AND 0x04 \<noteq> 0) o5 (parse_will d o5 ?qos ?ret) = Inr (connect_will m, o6)"
      "when_flag (fl AND 0x80 \<noteq> 0) o6 (read_string d o6) = Inr (connect_username m, o7)"
      "when_flag (fl AND 0x40 \<noteq> 0) o7 (read_binary d o7)
          = Inr (map_option bytes_of_string (connect_password m), length d)"
    unfolding connect_payload_reads_def by blast
  have 4: "reads d off (u16_bytes (connect_keep_alive m)) o4" using r(1) assms by (simp add: read_u16_iff)
  have 5: "fits16 (connect_client_id m)" "reads d o4 (string_field (connect_client_id m)) o5"
    using r(2) reads_le [OF 4] by (simp_all add: read_string_iff)
  note 6 = r(3) [unfolded when_flag_iff [OF parse_will_iff [OF reads_le [OF 5(2)]] reads_le [OF 5(2)]]]
  then have 66: "reads d o5 (opt_bytes will_bytes (connect_will m)) o6" by blast
  note 7 = r(4) [unfolded when_flag_iff [OF read_string_iff [OF reads_le [OF 66]] reads_le [OF 66]]]
  then have 77: "reads d o6 (opt_bytes string_field (connect_username m)) o7" by blast
  note 8 = r(5) [unfolded when_flag_iff [OF read_binary_iff [OF reads_le [OF 77]] reads_le [OF 77]]]
  have "reads d off (connect_payload m) (length d)"
    unfolding connect_payload_def
    using 4 5(2) 66 77 8 by (auto simp: opt_map_bytes intro!: reads_append_trans)
  with 5(1) 6 7 8 show "connect_flags_match fl m \<and> connect_fits m \<and>
      reads d off (connect_payload m) (length d)"
    by (auto simp: connect_flags_match_def connect_fits_def opt_fits_conj opt_map_bytes)
next
  let ?qos = "drop_bit 3 (fl AND 0x18)" and ?ret = "fl AND 0x20 \<noteq> 0"
  let ?keep = "u16_bytes (connect_keep_alive m)" and ?cid = "string_field (connect_client_id m)"
    and ?will = "opt_bytes will_bytes (connect_will m)"
    and ?user = "opt_bytes string_field (connect_username m)"
    and ?pass = "opt_bytes string_field (connect_password m)"
  let ?o4 = "off + length ?keep" let ?o5 = "?o4 + length ?cid" let ?o6 = "?o5 + length ?will"
  let ?o7 = "?o6 + length ?user"
  assume a: "connect_flags_match fl m \<and> connect_fits m \<and> reads d off (connect_payload m) (length d)"
  then have r: "reads d off ?keep ?o4" "reads d ?o4 ?cid ?o5" "reads d ?o5 ?will ?o6"
      "reads d ?o6 ?user ?o7" "reads d ?o7 ?pass (length d)"
    by (simp_all only: connect_payload_def reads_append)
  have "read_u16 d off = Inr (connect_keep_alive m, ?o4)"
    using r(1) assms by (simp only: read_u16_iff)
  moreover have "read_string d ?o4 = Inr (connect_client_id m, ?o5)"
    using r(2) reads_le [OF r(1)] a by (simp only: read_string_iff connect_fits_def)
  moreover have "when_flag (fl AND 0x04 \<noteq> 0) ?o5 (parse_will d ?o5 ?qos ?ret) = Inr (connect_will m, ?o6)"
    unfolding when_flag_iff [OF parse_will_iff [OF reads_le [OF r(2)]] reads_le [OF r(2)]]
    using a r(3) by (simp only: connect_flags_match_def connect_fits_def opt_fits_conj)
  moreover have "when_flag (fl AND 0x80 \<noteq> 0) ?o6 (read_string d ?o6) = Inr (connect_username m, ?o7)"
    unfolding when_flag_iff [OF read_string_iff [OF reads_le [OF r(3)]] reads_le [OF r(3)]]
    using a r(4) by (simp only: connect_flags_match_def connect_fits_def)
  moreover have "when_flag (fl AND 0x40 \<noteq> 0) ?o7 (read_binary d ?o7)
      = Inr (map_option bytes_of_string (connect_password m), length d)"
    unfolding when_flag_iff [OF read_binary_iff [OF reads_le [OF r(4)]] reads_le [OF r(4)]]
    using a r(5) by (simp add: connect_flags_match_def connect_fits_def opt_map_bytes)
  ultimately show "connect_payload_reads d fl off m"
    unfolding connect_payload_reads_def by blast
qed

lemma will_qos_field:
  fixes f :: u8
  shows "drop_bit 3 (f AND 0x18) \<noteq> 3 \<longleftrightarrow> drop_bit 3 (f AND 0x18) \<le> 2"
proof -
  have "drop_bit 3 (f AND 0x18) = 0 \<or> drop_bit 3 (f AND 0x18) = 1 \<or>
      drop_bit 3 (f AND 0x18) = 2 \<or> drop_bit 3 (f AND 0x18) = 3"
    by (cases "bit f 3"; cases "bit f 4") (simp_all add: word8_eq_iff bit_simps)
  then show ?thesis by (auto simp: qos_le_2_iff)
qed

lemma connect_flags_match_flags:
  "connect_ok m \<Longrightarrow> connect_flags_match (connect_flags m) m"
proof -
  assume ok: "connect_ok m"
  then have "opt_fits (\<lambda>w. will_qos w \<le> 2) (connect_will m)" by (simp add: connect_ok_def)
  note bits = connect_flags_bits [OF this]
  show ?thesis
    unfolding connect_flags_match_def using bits
    by (cases "connect_will m") simp_all
qed

lemma parse_connect_sound:
  assumes "parse_connect p = Inr m"
  shows "connect_fits m \<and> connect_ok m \<and> packet_type p = CONNECT \<and> packet_body p = connect_body m"
proof -
  let ?d = "packet_body p"
  obtain o1 fl where t: "packet_type p = CONNECT" and n: "read_string ?d 0 = Inr (''MQTT'', o1)"
    and l: "read_at ?d o1 = Inr 4" and f: "read_at ?d (o1 + 1) = Inr fl"
    and fl: "fl AND 0x01 = 0" "fl AND 0x40 \<noteq> 0 \<longrightarrow> fl AND 0x80 \<noteq> 0"
      "fl AND 0x04 = 0 \<longrightarrow> fl AND 0x20 = 0 \<and> drop_bit 3 (fl AND 0x18) = 0"
      "drop_bit 3 (fl AND 0x18) \<noteq> 3" "connect_clean_session m = (fl AND 0x02 \<noteq> 0)"
      "connect_client_id m = [] \<longrightarrow> connect_clean_session m"
    and r: "connect_payload_reads ?d fl (o1 + 1 + 1) m"
    using assms unfolding parse_connect_unfold by blast
  have rn: "reads ?d 0 (string_field ''MQTT'') o1" using n by (simp add: read_string_iff)
  have rl: "reads ?d o1 [4] (o1 + 1)" and rf: "reads ?d (o1 + 1) [fl] (o1 + 1 + 1)"
    using l f by (simp_all add: read_at_iff)
  have m: "connect_flags_match fl m" "connect_fits m" "reads ?d (o1 + 1 + 1) (connect_payload m) (length ?d)"
    using r unfolding connect_payload_reads_iff [OF reads_le [OF rf]] by simp_all
  have eq: "connect_flags m = fl"
    using m(1) fl by (intro connect_flags_eqI; cases "connect_will m")
      (auto simp: connect_flags_match_def)
  have "reads ?d 0 (string_field ''MQTT'' @ [4] @ [fl] @ connect_payload m) (length ?d)"
    using rn rl rf m(3) by (blast intro: reads_append_trans)
  then have "?d = connect_body m" by (simp add: connect_body_eq connect_payload_def eq)
  moreover have "connect_ok m"
    using m(1) fl will_qos_field [of fl]
    by (cases "connect_will m") (auto simp: connect_ok_def connect_flags_match_def)
  ultimately show ?thesis using t m(2) by simp
qed

lemma parse_connect_complete:
  assumes "connect_fits m" "connect_ok m" "packet_type p = CONNECT" "packet_body p = connect_body m"
  shows "parse_connect p = Inr m"
proof -
  let ?d = "packet_body p" and ?fl = "connect_flags m" and ?n = "string_field ''MQTT''"
  let ?o1 = "0 + length ?n" let ?o2 = "?o1 + length [4 :: u8]" let ?o3 = "?o2 + length [?fl]"
  have d: "?d = ?n @ [4] @ [?fl] @ connect_payload m"
    using assms(4) by (simp add: connect_body_eq connect_payload_def)
  then have "reads ?d 0 (?n @ [4] @ [?fl] @ connect_payload m) (length ?d)" by (simp only: reads_all)
  then have r: "reads ?d 0 ?n ?o1" "reads ?d ?o1 [4] ?o2" "reads ?d ?o2 [?fl] ?o3"
      "reads ?d ?o3 (connect_payload m) (length ?d)"
    by (simp_all only: reads_append)
  have len: "length ?d \<ge> 10" using d by (simp add: connect_payload_def)
  have "read_string ?d 0 = Inr (''MQTT'', ?o1)"
    using r(1) by (simp only: read_string_iff) (simp add: fits16_def)
  moreover have "read_at ?d ?o1 = Inr 4" "read_at ?d (?o1 + 1) = Inr ?fl"
    using r(2,3) by (simp_all add: read_at_iff)
  moreover have "\<not> size_sub (length ?d) ?o1 < 1" "\<not> size_sub (length ?d) (?o1 + 1) < 1"
    using len by simp_all
  moreover have "connect_payload_reads ?d ?fl (?o1 + 1 + 1) m"
    using connect_payload_reads_iff [OF reads_le [OF r(3)], of ?fl m] r(4) assms(1)
      connect_flags_match_flags [OF assms(2)] by simp
  moreover have "opt_fits (\<lambda>w. will_qos w \<le> 2) (connect_will m)"
    using assms(2) by (simp add: connect_ok_def)
  note bits = connect_flags_bits [OF this]
  have "drop_bit 3 (?fl AND 0x18) \<le> 2"
    using assms(2) bits(7) by (auto simp: connect_ok_def split: option.splits)
  then have "drop_bit 3 (?fl AND 0x18) \<noteq> 3" by (simp only: will_qos_field)
  moreover have "?fl AND 0x40 \<noteq> 0 \<longrightarrow> ?fl AND 0x80 \<noteq> 0"
    using assms(2) bits(2,3) by (simp only: connect_ok_def) blast
  moreover have "?fl AND 0x04 = 0 \<longrightarrow> ?fl AND 0x20 = 0 \<and> drop_bit 3 (?fl AND 0x18) = 0"
    using bits(4,6,7) by (cases "connect_will m") auto
  moreover have "connect_client_id m = [] \<longrightarrow> connect_clean_session m"
    using assms(2) by (simp add: connect_ok_def)
  ultimately show ?thesis
    unfolding parse_connect_unfold using assms(3) len bits(1,5) by blast
qed

interpretation connect: message_codec encode_connect parse_connect connect_fits
  by (rule message_codecI [where ok = connect_ok and t = CONNECT and f = "\<lambda>_. 0" and b = connect_body])
     (auto simp: encode_connect_iff validate_fixed_header_flags_def
        dest: valid_packet_flags parse_connect_sound intro: parse_connect_complete)

end
