(* ===== verification/Mqtt_Safety.thy ===== *)
theory Mqtt_Safety
  imports Mqtt_Codec
begin

text \<open>
  Memory safety of the MQTT parser and encoder: on every input, well-formed or not, no read
  leaves the span, no empty optional is dereferenced, and no cursor passes the end of the
  body. The reads are bounded by checks \<^verbatim>\<open>data.size() - offset < n\<close> on unsigned numbers,
  which only bound them as long as the offset is at most the size; the cursor lemmas below
  carry that invariant from field to field.
\<close>

named_theorems safe_reads \<open>fields whose read is free of faults\<close>
named_theorems cursor_bounds \<open>fields whose read keeps the cursor in range\<close>

lemma fault_free_bind_iff:
  "fault_free (bindE r f) \<longleftrightarrow> fault_free r \<and> (\<forall>a. r = Inr a \<longrightarrow> fault_free (f a))"
  by (cases r) simp_all

lemma fault_free_if:
  "fault_free (if c then x else y) \<longleftrightarrow> (c \<longrightarrow> fault_free x) \<and> (\<not> c \<longrightarrow> fault_free y)"
  by simp

lemmas run_simps = fault_free_bind_iff fault_free_if

section \<open>Fields\<close>

lemma read_at_safe [safe_reads]: "fault_free (read_at d i) \<longleftrightarrow> i < length d"
  by (simp add: read_at_def)

lemma read_range_safe [safe_reads]: "fault_free (read_range d i n) \<longleftrightarrow> i + n \<le> length d"
  by (simp add: read_range_def)

lemma read_u16_bound [cursor_bounds]:
  "read_u16 d off = Inr (v, off') \<Longrightarrow> off \<le> length d \<Longrightarrow> off' \<le> length d"
  by (simp add: read_u16_iff reads_le)

lemma read_string_bound [cursor_bounds]:
  "read_string d off = Inr (v, off') \<Longrightarrow> off \<le> length d \<Longrightarrow> off' \<le> length d"
  by (auto simp: read_string_iff dest: reads_le)

lemma read_binary_bound [cursor_bounds]:
  "read_binary d off = Inr (v, off') \<Longrightarrow> off \<le> length d \<Longrightarrow> off' \<le> length d"
  by (auto simp: read_binary_iff dest: reads_le)

lemma read_u16_safe [safe_reads]: "off \<le> length d \<Longrightarrow> fault_free (read_u16 d off)"
  by (auto simp: read_u16_def size_sub_def run_simps safe_reads)

lemma read_string_safe [safe_reads]: "off \<le> length d \<Longrightarrow> fault_free (read_string d off)"
  by (auto simp: read_string_def size_sub_def run_simps safe_reads dest!: read_u16_bound)

lemma read_binary_safe [safe_reads]: "off \<le> length d \<Longrightarrow> fault_free (read_binary d off)"
  by (auto simp: read_binary_def size_sub_def run_simps safe_reads dest!: read_u16_bound)

lemma parse_will_bound [cursor_bounds]:
  "parse_will d off q r = Inr (w, off') \<Longrightarrow> off \<le> length d \<Longrightarrow> off' \<le> length d"
  by (auto simp: parse_will_def dest!: read_string_bound read_binary_bound)

lemma parse_will_safe [safe_reads]: "off \<le> length d \<Longrightarrow> fault_free (parse_will d off q r)"
  by (auto simp: parse_will_def run_simps safe_reads dest!: read_string_bound)

lemma when_flag_safe [safe_reads]: "fault_free (when_flag c off r) \<longleftrightarrow> (c \<longrightarrow> fault_free r)"
  by (auto simp: when_flag_def run_simps)

lemma when_flag_bound [cursor_bounds]:
  "when_flag c off (parse_will d off q r) = Inr (w, off') \<Longrightarrow> off \<le> length d \<Longrightarrow> off' \<le> length d"
  "when_flag c off (read_string d off) = Inr (s, off') \<Longrightarrow> off \<le> length d \<Longrightarrow> off' \<le> length d"
  by (auto simp: when_flag_def split: if_splits dest: parse_will_bound read_string_bound)

section \<open>The loops\<close>

lemma parse_topics_safe [safe_reads]: "off \<le> length d \<Longrightarrow> fault_free (parse_topics d off acc)"
proof (induction d off acc rule: parse_topics.induct)
  case (1 d off acc)
  have f: "fault_free (read_string d off)" using "1.prems" by (rule read_string_safe)
  have ih: "fault_free (parse_topics d (off' + 1)
      (acc @ [\<lparr>topic_filter = tf, topic_qos = d ! off' AND 0x03\<rparr>]))"
    if "off < length d" "read_string d off = Inr (tf, off')" "tf \<noteq> []" "off' < length d"
      "d ! off' AND 0xFC = 0" "\<not> d ! off' AND 0x03 > 2" for tf off'
    using that by (intro "1.IH" [OF that(1,2) refl]) (simp_all add: read_at_def)
  show ?case
    by (subst parse_topics.simps) (use f ih in \<open>auto simp: read_at_def split: sum.split\<close>)
qed

lemma parse_return_codes_safe [safe_reads]: "fault_free (parse_return_codes d off acc)"
proof (induction d off acc rule: parse_return_codes.induct)
  case (1 d off acc)
  have ih: "fault_free (parse_return_codes d (off + 1) (acc @ [MqttSubackReturnCode (d ! off)]))"
    if "off < length d" "\<not> (d ! off \<noteq> 0x00 \<and> d ! off \<noteq> 0x01 \<and> d ! off \<noteq> 0x02 \<and> d ! off \<noteq> 0x80)"
    using that by (intro "1.IH") (simp_all add: read_at_def)
  show ?case
    by (subst parse_return_codes.simps) (use ih in \<open>simp add: read_at_def\<close>)
qed

lemma parse_topic_filters_safe [safe_reads]:
  "off \<le> length d \<Longrightarrow> fault_free (parse_topic_filters d off acc)"
proof (induction d off acc rule: parse_topic_filters.induct)
  case (1 d off acc)
  have f: "fault_free (read_string d off)" using "1.prems" by (rule read_string_safe)
  have ih: "fault_free (parse_topic_filters d off' (acc @ [tf]))"
    if "off < length d" "read_string d off = Inr (tf, off')" "tf \<noteq> []" for tf off'
    using that read_string_bound [OF that(2) "1.prems"] by (intro "1.IH" [OF that(1,2) refl])
  show ?case
    by (subst parse_topic_filters.simps) (use f ih in \<open>auto split: sum.split\<close>)
qed

section \<open>The parsers\<close>

lemma parse_control_packet_safe: "fault_free (parse_control_packet d)"
  by (auto simp: parse_control_packet_def Let_def run_simps safe_reads size_sub_def
      decode_remaining_length_def decode_loop_fault_free
      dest!: decode_loop_offset split: option.split)

lemma parse_connect_safe: "fault_free (parse_connect p)"
  by (auto simp: parse_connect_def Let_def run_simps safe_reads size_sub_def
      dest!: cursor_bounds)

lemma parse_connack_safe: "fault_free (parse_connack p)"
  by (simp add: parse_connack_def Let_def run_simps safe_reads)

lemma parse_publish_safe: "fault_free (parse_publish p)"
  by (auto simp: parse_publish_def Let_def run_simps safe_reads size_sub_def
      dest: cursor_bounds split: if_splits)

lemma parse_identifier_safe: "fault_free (parse_identifier t n p)"
  by (auto simp: parse_identifier_def run_simps safe_reads)

lemma parse_subscribe_safe: "fault_free (parse_subscribe p)"
  by (auto simp: parse_subscribe_def Let_def run_simps safe_reads dest: cursor_bounds)

lemma parse_suback_safe: "fault_free (parse_suback p)"
  by (auto simp: parse_suback_def Let_def run_simps safe_reads dest: cursor_bounds)

lemma parse_unsubscribe_safe: "fault_free (parse_unsubscribe p)"
  by (auto simp: parse_unsubscribe_def Let_def run_simps safe_reads dest: cursor_bounds)

lemma parse_empty_safe: "fault_free (parse_empty t n p)"
  by (simp add: parse_empty_def)

lemma parse_pingresp_safe: "fault_free (parse_pingresp p)"
  by (simp add: parse_pingresp_def run_simps parse_empty_safe)

lemma encode_publish_fault_free: "fault_free (encode_publish m)"
  by (auto simp: encode_publish_def Let_def run_simps make_packet_eq word_neq_0_conv [symmetric]
      split: option.split)

end
