(* ===== verification/Mqtt_Wire.thy ===== *)
theory Mqtt_Wire
  imports Mqtt_Roundtrip Mqtt_Safety
begin

text \<open>
  What the MQTT codec promises to its users, read off the interpretations of
  \<open>message_codec\<close> and the safety lemmas: round trips through the byte stream, the parser
  accepting exactly what the encoder produces, memory safety on every input, and what the
  encoder does with a field longer than its 16-bit length can say.
\<close>

lemmas codec_eval = make_packet_eq frame_bytes_def varint_unfold writer_simps u16_bytes_def
  u16_hi_def u16_lo_def binary_field_def byte_of_char_def

section \<open>CONNECT\<close>

text \<open>
  C12: an encoded CONNECT message comes back unchanged from the parser, whatever bytes follow
  the packet in the stream, exactly when its strings fit their 16-bit length fields.
\<close>

theorem connect_round_trip:
  assumes "encode_connect m = Inr e"
  shows "(\<exists>p. parse_control_packet (packet_bytes e @ rest) = Inr p \<and> parse_connect p = Inr m)
    \<longleftrightarrow> connect_fits m"
  using assms by (rule connect.round_trip_iff)

definition sample_connect :: MqttConnectMessage where
  "sample_connect =
     \<lparr>connect_clean_session = False, connect_keep_alive = 300, connect_client_id = ''pico'',
      connect_will = Some \<lparr>will_topic = ''t'', will_message = ''bye'', will_qos = 1, will_retain = True\<rparr>,
      connect_username = Some ''u'', connect_password = Some ''pw''\<rparr>"

lemma sample_connect_encoded:
  "encode_connect sample_connect = Inr \<lparr>packet_bytes =
     [0x10, 31, 0, 4, 77, 81, 84, 84, 4, 0xEC, 1, 44, 0, 4, 112, 105, 99, 111,
      0, 1, 116, 0, 3, 98, 121, 101, 0, 1, 117, 0, 2, 112, 119]\<rparr>"
  by (simp add: encode_connect_def sample_connect_def connect_body_def connect_flags_def codec_eval)

lemma sample_connect_fits: "connect_fits sample_connect"
  by (simp add: sample_connect_def connect_fits_def will_fits_def fits16_def)

theorem connect_round_trip_witness:
  "\<exists>p. parse_control_packet
      [0x10, 31, 0, 4, 77, 81, 84, 84, 4, 0xEC, 1, 44, 0, 4, 112, 105, 99, 111,
       0, 1, 116, 0, 3, 98, 121, 101, 0, 1, 117, 0, 2, 112, 119, 0xC0, 0] = Inr p
     \<and> parse_connect p = Inr sample_connect"
  using connect_round_trip [OF sample_connect_encoded, of "[0xC0, 0]"] sample_connect_fits by simp

text \<open>
  C27: of the packets with a valid fixed header, the CONNECT parser accepts exactly the
  encodings of messages that fit, and returns the message that was encoded.
\<close>

theorem parse_connect_accepts:
  assumes "parse_control_packet d = Inr p"
  shows "parse_connect p = Inr m \<longleftrightarrow>
    connect_fits m \<and> encode_connect m = make_packet (packet_type p) (packet_flags p) (packet_body p)"
  using connect.parse_iff [OF parse_control_packet_valid(1) [OF assms]] by (simp add: repack_def)

lemma parse_control_packet_connect_frame:
  "parse_control_packet [0x10, 13, 0, 4, 77, 81, 84, 84, 4, 2, 0, 60, 0, 1, 97]
     = Inr (mk_packet CONNECT 0 [0, 4, 77, 81, 84, 84, 4, 2, 0, 60, 0, 1, 97])"
  using parse_frame [of CONNECT 0 "[0, 4, 77, 81, 84, 84, 4, 2, 0, 60, 0, 1, 97]" "[]"]
  by (simp add: valid_packet_def validate_fixed_header_flags_def codec_eval)

theorem parse_connect_accepts_witness:
  "parse_connect (mk_packet CONNECT 0 [0, 4, 77, 81, 84, 84, 4, 2, 0, 60, 0, 1, 97])
     = Inr \<lparr>connect_clean_session = True, connect_keep_alive = 60, connect_client_id = ''a'',
            connect_will = None, connect_username = None, connect_password = None\<rparr>"
  by (subst parse_connect_accepts [OF parse_control_packet_connect_frame])
     (simp add: connect_fits_def fits16_def encode_connect_def connect_body_def connect_flags_def
        codec_eval)

section \<open>PUBLISH\<close>

text \<open>
  C28: an encoded PUBLISH message comes back unchanged from the parser, payload, quality of
  service, flags and identifier included, exactly when its topic name is shorter than 65536.
\<close>

theorem publish_round_trip:
  assumes "encode_publish m = Inr e"
  shows "(\<exists>p. parse_control_packet (packet_bytes e @ rest) = Inr p \<and> parse_publish p = Inr m)
    \<longleftrightarrow> length (publish_topic_name m) < 65536"
  using publish.round_trip_iff [OF assms] by (simp add: publish_fits_def fits16_def)

lemma sample_publish_encoded:
  "encode_publish \<lparr>publish_dup = True, publish_qos = 2, publish_retain = True,
      publish_topic_name = ''a/b'', publish_packet_identifier = Some 513, publish_payload = [1, 2]\<rparr>
     = Inr \<lparr>packet_bytes = [0x3D, 9, 0, 3, 97, 47, 98, 2, 1, 1, 2]\<rparr>"
  by (simp add: encode_publish_def publish_flags_def codec_eval)

theorem publish_round_trip_witness:
  "\<exists>p. parse_control_packet [0x3D, 9, 0, 3, 97, 47, 98, 2, 1, 1, 2, 9] = Inr p \<and>
     parse_publish p = Inr \<lparr>publish_dup = True, publish_qos = 2, publish_retain = True,
      publish_topic_name = ''a/b'', publish_packet_identifier = Some 513, publish_payload = [1, 2]\<rparr>"
  using publish_round_trip [OF sample_publish_encoded, of "[9]"] by simp

text \<open>
  Of the packets with a valid fixed header, the PUBLISH parser accepts exactly the
  encodings of messages whose topic fits, and returns the message that was encoded.
\<close>

lemma parse_publish_accepts:
  assumes "parse_control_packet d = Inr p"
  shows "parse_publish p = Inr m \<longleftrightarrow>
    length (publish_topic_name m) < 65536 \<and>
    encode_publish m = make_packet (packet_type p) (packet_flags p) (packet_body p)"
  using publish.parse_iff [OF parse_control_packet_valid(1) [OF assms]]
  by (simp add: repack_def publish_fits_def fits16_def)

lemma parse_control_packet_publish_frame:
  "parse_control_packet [0x30, 5, 0, 1, 116, 7, 8] = Inr (mk_packet PUBLISH 0 [0, 1, 116, 7, 8])"
  using parse_frame [of PUBLISH 0 "[0, 1, 116, 7, 8]" "[]"]
  by (simp add: valid_packet_def validate_fixed_header_flags_def codec_eval)

lemma sample_publish_parsed:
  "parse_publish (mk_packet PUBLISH 0 [0, 1, 116, 7, 8])
     = Inr \<lparr>publish_dup = False, publish_qos = 0, publish_retain = False,
            publish_topic_name = ''t'', publish_packet_identifier = None, publish_payload = [7, 8]\<rparr>"
  by (subst publish.parse_iff)
     (simp_all add: valid_packet_def validate_fixed_header_flags_def publish_fits_def fits16_def
        encode_publish_def publish_flags_def repack_def codec_eval)

section \<open>Subscriptions\<close>

text \<open>
  An encoded SUBSCRIBE message comes back from the parser with the same topic filters and
  requested qualities of service in the same order, exactly when every filter is shorter than
  65536.
\<close>

lemma subscribe_round_trip:
  assumes "encode_subscribe m = Inr e"
  shows "(\<exists>p. parse_control_packet (packet_bytes e @ rest) = Inr p \<and> parse_subscribe p = Inr m)
    \<longleftrightarrow> list_all (\<lambda>t. length (topic_filter t) < 65536) (subscribe_topics m)"
  using subscribe.round_trip_iff [OF assms]
  by (simp add: subscribe_fits_def topic_fits_def [abs_def] fits16_def)

text \<open>
  The same for UNSUBSCRIBE and SUBACK; a SUBACK always comes back, its return codes in
  order.
\<close>

lemma unsubscribe_suback_round_trip:
  assumes "encode_unsubscribe u = Inr eu" and "encode_suback a = Inr ea"
  shows "((\<exists>p. parse_control_packet (packet_bytes eu @ rest) = Inr p \<and> parse_unsubscribe p = Inr u)
      \<longleftrightarrow> list_all (\<lambda>t. length t < 65536) (unsubscribe_topic_filters u))
    \<and> (\<exists>p. parse_control_packet (packet_bytes ea @ rest) = Inr p \<and> parse_suback p = Inr a)"
  using unsubscribe.round_trip_iff [OF assms(1)] suback.round_trip_iff [OF assms(2)]
  by (simp add: unsubscribe_fits_def all_fit_def fits16_def [abs_def])

section \<open>Acknowledgements and pings\<close>

text \<open>
  The identifier packets and the packets without a body are encoded for every non-zero
  identifier, and every one of them comes back from the parser.
\<close>

lemma acknowledgements_round_trip:
  assumes "i \<noteq> 0"
  shows "(\<exists>e p. encode_puback \<lparr>puback_packet_identifier = i\<rparr> = Inr e \<and>
        parse_control_packet (packet_bytes e @ rest) = Inr p \<and>
        parse_puback p = Inr \<lparr>puback_packet_identifier = i\<rparr>)
    \<and> (\<exists>e p. encode_pubrec \<lparr>pubrec_packet_identifier = i\<rparr> = Inr e \<and>
        parse_control_packet (packet_bytes e @ rest) = Inr p \<and>
        parse_pubrec p = Inr \<lparr>pubrec_packet_identifier = i\<rparr>)
    \<and> (\<exists>e p. encode_pubrel \<lparr>pubrel_packet_identifier = i\<rparr> = Inr e \<and>
        parse_control_packet (packet_bytes e @ rest) = Inr p \<and>
        parse_pubrel p = Inr \<lparr>pubrel_packet_identifier = i\<rparr>)
    \<and> (\<exists>e p. encode_pubcomp \<lparr>pubcomp_packet_identifier = i\<rparr> = Inr e \<and>
        parse_control_packet (packet_bytes e @ rest) = Inr p \<and>
        parse_pubcomp p = Inr \<lparr>pubcomp_packet_identifier = i\<rparr>)
    \<and> (\<exists>e p. encode_unsuback \<lparr>unsuback_packet_identifier = i\<rparr> = Inr e \<and>
        parse_control_packet (packet_bytes e @ rest) = Inr p \<and>
        parse_unsuback p = Inr \<lparr>unsuback_packet_identifier = i\<rparr>)
    \<and> (\<exists>e p. encode_pingreq = Inr e \<and> parse_control_packet (packet_bytes e @ rest) = Inr p \<and>
        parse_pingreq p = Inr MqttPingreqMessage)
    \<and> (\<exists>e p. encode_pingresp = Inr e \<and> parse_control_packet (packet_bytes e @ rest) = Inr p \<and>
        parse_pingresp p = Inr MqttPingrespMessage)
    \<and> (\<exists>e p. encode_disconnect = Inr e \<and> parse_control_packet (packet_bytes e @ rest) = Inr p \<and>
        parse_disconnect p = Inr MqttDisconnectMessage)"
proof -
  have ok: "\<exists>e. encode_identifier t f i = Inr e" for t f
    using assms by (simp add: encode_identifier_iff make_packet_eq)
  have empty: "\<exists>e. make_packet t f [] = Inr e" for t f
    by (simp add: make_packet_eq)
  show ?thesis
    by (intro conjI puback.round_trip_ex pubrec.round_trip_ex pubrel.round_trip_ex
        pubcomp.round_trip_ex unsuback.round_trip_ex pingreq.round_trip_ex pingresp.round_trip_ex
        disconnect.round_trip_ex)
      (simp_all add: ok empty all_fit_def encode_puback_def encode_pubrec_def encode_pubrel_def
        encode_pubcomp_def encode_unsuback_def encode_pingreq_def encode_pingresp_def
        encode_disconnect_def)
qed

section \<open>The remaining length\<close>

text \<open>
  The variable-length encoding of every length a packet can have (below \<open>2 ^ 28\<close>) takes
  at most four bytes and is decoded to the same length, at any offset of a buffer, with the
  offset moved past it.
\<close>

lemma remaining_length_round_trip:
  assumes "unat v < 2 ^ 28"
  shows "length (write_remaining_length [] v) \<le> 4 \<and>
    decode_remaining_length (pre @ write_remaining_length [] v @ rest) (length pre)
      = Inr (v, length pre + length (write_remaining_length [] v))"
proof -
  let ?d = "pre @ varint v @ rest"
  have "reads ?d (length pre) (varint v) (length pre + length (varint v))"
    by (simp add: reads_def)
  with assms have "decode_remaining_length ?d (length pre) = Inr (v, length pre + length (varint v))"
    by (intro decode_varint)
  then show ?thesis using varint_length [OF assms] by (simp add: varint_def)
qed

section \<open>Safety on every input\<close>

text \<open>
  C13: no input, however malformed, makes the packet parser or one of the fourteen message
  parsers read outside the packet.
\<close>

theorem mqtt_parser_memory_safe:
  "fault_free (parse_control_packet d) \<and> fault_free (parse_connect p) \<and> fault_free (parse_connack p)
   \<and> fault_free (parse_publish p) \<and> fault_free (parse_puback p) \<and> fault_free (parse_pubrec p)
   \<and> fault_free (parse_pubrel p) \<and> fault_free (parse_pubcomp p) \<and> fault_free (parse_subscribe p)
   \<and> fault_free (parse_suback p) \<and> fault_free (parse_unsubscribe p) \<and> fault_free (parse_unsuback p)
   \<and> fault_free (parse_pingreq p) \<and> fault_free (parse_pingresp p) \<and> fault_free (parse_disconnect p)"
  unfolding parse_puback_def parse_pubrec_def parse_pubrel_def parse_pubcomp_def parse_unsuback_def
    parse_pingreq_def parse_pingresp_def parse_disconnect_def
  by (simp add: run_simps parse_control_packet_safe parse_connect_safe parse_connack_safe
      parse_publish_safe parse_identifier_safe parse_subscribe_safe parse_suback_safe
      parse_unsubscribe_safe parse_empty_safe)

text \<open>
  The PUBLISH encoder accepts exactly the messages with a topic, a quality of service up
  to 2 and an identifier exactly when the quality of service asks for one, unless the packet is
  too large; it never dereferences an absent identifier.
\<close>

lemma encode_publish_accepts:
  "fault_free (encode_publish m) \<and>
   ((\<exists>e. encode_publish m = Inr e) \<longleftrightarrow>
      publish_topic_name m \<noteq> [] \<and> publish_qos m \<le> 2 \<and>
      (publish_qos m = 0 \<longleftrightarrow> publish_packet_identifier m = None) \<and>
      publish_packet_identifier m \<noteq> Some 0 \<and>
      2 + length (publish_topic_name m) + (if publish_qos m = 0 then 0 else 2)
        + length (publish_payload m) \<le> 268435455)"
proof
  show "fault_free (encode_publish m)"
    by (rule encode_publish_fault_free)
  have "length (publish_body m) = 2 + length (publish_topic_name m)
      + (if publish_qos m = 0 then 0 else 2) + length (publish_payload m)" if "publish_ok m"
    using that by (auto simp: publish_body_def publish_ok_def split: option.split)
  then show "(\<exists>e. encode_publish m = Inr e) \<longleftrightarrow>
      publish_topic_name m \<noteq> [] \<and> publish_qos m \<le> 2 \<and>
      (publish_qos m = 0 \<longleftrightarrow> publish_packet_identifier m = None) \<and>
      publish_packet_identifier m \<noteq> Some 0 \<and>
      2 + length (publish_topic_name m) + (if publish_qos m = 0 then 0 else 2)
        + length (publish_payload m) \<le> 268435455"
    unfolding encode_publish_iff make_packet_Inr_iff publish_ok_def by auto
qed

text \<open>
  A topic of 65536 characters or more is encoded without an error, with the low 16 bits of its
  length, to a packet that is not read back as the message.
\<close>

lemma publish_long_topic_corrupted:
  assumes "length (publish_topic_name m) \<ge> 65536" and "encode_publish m = Inr e"
    and "parse_control_packet (packet_bytes e @ rest) = Inr p"
  shows "parse_publish p \<noteq> Inr m"
  using publish.round_trip_iff [OF assms(2), of rest] assms(1,3)
  by (auto simp: publish_fits_def fits16_def)

section \<open>Well-formed messages\<close>

definition yields :: "('m \<Rightarrow> bool) \<Rightarrow> 'm result \<Rightarrow> bool" where
  "yields ok r = (case r of Inl err \<Rightarrow> True | Inr m \<Rightarrow> ok m)"

text \<open>What an encoder makes has a well-formed message, and what a parser returns is encoded so.\<close>

lemma encoded_yields:
  assumes "valid_packet p" and "\<And>m. parse p = Inr m \<Longrightarrow> enc m = repack p" and "\<And>m e. enc m = Inr e \<Longrightarrow> ok m"
  shows "yields ok (parse p)"
  using assms repack_valid by (fastforce simp: yields_def split: sum.split)

lemma encodes_iff:
  assumes "\<And>e. enc m = Inr e \<longleftrightarrow> ok m \<and> make_packet t f b = Inr e"
  shows "isl (enc m) \<longleftrightarrow> \<not> ok m \<or> length b > 268435455"
  using assms make_packet_eq [of t f b] by (cases "enc m") (auto split: if_splits)



end
