(* ===== verification/Mqtt_Frame.thy ===== *)
theory Mqtt_Frame
  imports Mqtt_Wire
begin

text \<open>
  \<^verbatim>\<open>MqttClient::mqtt_frame_info\<close> (\<^verbatim>\<open>pico_mqtt/src/mqtt_client.cpp\<close>): how the client finds
  the end of a packet in the bytes received so far. It decodes the remaining length a second
  time, independently of the parser; the lemmas show that the two agree: a frame reported
  complete is exactly one packet to the parser, and bytes are reported incomplete only while
  the parser would have to wait for more.
\<close>

section \<open>The function\<close>

record MqttFrameInfo =
  frame_complete :: bool
  frame_total_size :: nat
  frame_error :: "Error option"

definition incomplete_frame :: MqttFrameInfo where
  "incomplete_frame = \<lparr>frame_complete = False, frame_total_size = 0, frame_error = None\<rparr>"

text \<open>The loop returns early with a frame info, or leaves with the offset and the length.\<close>

function mqtt_frame_loop ::
  "u8 list \<Rightarrow> nat \<Rightarrow> u32 \<Rightarrow> u32 \<Rightarrow> MqttFrameInfo + (nat \<times> u32)" where
  "mqtt_frame_loop data offset multiplier remaining_length =
     (if offset \<ge> length data then Inl incomplete_frame
      else
        let encoded_byte = data ! offset;
            offset = offset + 1;
            remaining_length = remaining_length + ucast (encoded_byte AND 127) * multiplier
        in if encoded_byte AND 128 = 0 then Inr (offset, remaining_length)
           else
             let multiplier = multiplier * 128
             in if multiplier > 128 * 128 * 128
                then Inl \<lparr>frame_complete = False, frame_total_size = 0,
                          frame_error = Some (Error ''Malformed MQTT remaining length'')\<rparr>
                else mqtt_frame_loop data offset multiplier remaining_length)"
  by pat_completeness auto
termination
  by (relation "measure (\<lambda>(data, offset, _). length data - offset)") auto

declare mqtt_frame_loop.simps [simp del]

definition mqtt_frame_info :: "u8 list \<Rightarrow> MqttFrameInfo" where
  "mqtt_frame_info data =
     (if length data < 2 then incomplete_frame
      else case mqtt_frame_loop data 1 1 0 of
        Inl info \<Rightarrow> info
      | Inr (header_size, remaining_length) \<Rightarrow>
          let total_size = header_size + unat remaining_length
          in if length data < total_size then incomplete_frame
             else \<lparr>frame_complete = True, frame_total_size = total_size, frame_error = None\<rparr>)"

section \<open>Agreement with the parser\<close>

text \<open>
  Both loops read the byte at the same offset with the same multiplier; the parser counts
  iterations where the client compares the multiplier, which is \<open>128 ^ count\<close>.
\<close>

lemma frame_loop_step:
  assumes "off < length d"
  shows "mqtt_frame_loop d off mul acc =
    (let r = acc + ucast (d ! off AND 127) * mul
     in if d ! off AND 128 = 0 then Inr (off + 1, r)
        else if mul * 128 > 2097152
        then Inl \<lparr>frame_complete = False, frame_total_size = 0,
                  frame_error = Some (Error ''Malformed MQTT remaining length'')\<rparr>
        else mqtt_frame_loop d (off + 1) (mul * 128) r)"
  using assms by (subst mqtt_frame_loop.simps) (simp add: Let_def)

lemma u8_count_nat:
  assumes "k < 4"
  shows "of_nat k + 1 = (of_nat (Suc k) :: u8)" "\<not> (of_nat k + 1 :: u8) > 4"
    "of_nat k < (4 :: u8)"
proof -
  have "k = 0 \<or> k = 1 \<or> k = 2 \<or> k = 3" using assms by auto
  then show "of_nat k + 1 = (of_nat (Suc k) :: u8)" "\<not> (of_nat k + 1 :: u8) > 4"
    "of_nat k < (4 :: u8)" by auto
qed

lemma multiplier_bound:
  assumes "k < 4"
  shows "(128 :: u32) ^ k * 128 > 2097152 \<longleftrightarrow> k = 3"
proof -
  have "k = 0 \<or> k = 1 \<or> k = 2 \<or> k = 3" using assms by auto
  then show ?thesis by auto
qed

lemma frame_loop_agrees:
  assumes "k < 4"
  shows "case mqtt_frame_loop d off (128 ^ k) acc of
      Inr (off', v) \<Rightarrow> decode_remaining_length_loop d off (128 ^ k) acc (of_nat k) = Inr (v, off')
    | Inl info \<Rightarrow> \<not> frame_complete info \<and>
        (\<exists>e. decode_remaining_length_loop d off (128 ^ k) acc (of_nat k) = Inl e)"
  using assms
proof (induction "4 - k" arbitrary: k off acc)
  case (Suc j)
  show ?case
  proof (cases "off < length d")
    case False
    then show ?thesis
      by (subst mqtt_frame_loop.simps, subst decode_remaining_length_loop.simps)
         (simp add: incomplete_frame_def)
  next
    case True
    then have d: "drop off d = d ! off # drop (off + 1) d" by (simp add: Cons_nth_drop_Suc)
    note step = frame_loop_step [OF True] decode_step [OF True d] u8_count_nat [OF Suc.prems]
      multiplier_bound [OF Suc.prems]
    show ?thesis
    proof (cases "k = 3")
      case True
      have four: "(of_nat k + 1 :: u8) = 4" using True by simp
      obtain e where "decode_remaining_length_loop d (off + 1) (128 ^ k * 128)
          (acc + ucast (d ! off AND 127) * 128 ^ k) 4 = Inl e"
        using decode_loop_count4 by (metis sum.exhaust)
      then show ?thesis
        using step True four by (simp add: Let_def del: u8_count_nat)
    next
      case False
      then have "Suc k < 4" and j: "j = 4 - Suc k" using Suc.prems Suc.hyps(2) by auto
      from Suc.hyps(1) [OF this(2,1), of "off + 1" "acc + ucast (d ! off AND 127) * 128 ^ k"]
      have IH: "case mqtt_frame_loop d (off + 1) (128 ^ k * 128) (acc + ucast (d ! off AND 127) * 128 ^ k) of
          Inr (off', v) \<Rightarrow> decode_remaining_length_loop d (off + 1) (128 ^ k * 128)
            (acc + ucast (d ! off AND 127) * 128 ^ k) (of_nat (Suc k)) = Inr (v, off')
        | Inl info \<Rightarrow> \<not> frame_complete info \<and> (\<exists>e. decode_remaining_length_loop d (off + 1)
            (128 ^ k * 128) (acc + ucast (d ! off AND 127) * 128 ^ k) (of_nat (Suc k)) = Inl e)"
        by (simp only: power_Suc2)
      show ?thesis
        unfolding step(1,2) using step(3-) False IH
        by (auto simp: Let_def simp del: of_nat_Suc split: sum.splits)
    qed
  qed
qed simp

text \<open>So the client finds a length exactly when the parser does, and the same one.\<close>

lemma frame_loop_decode:
  "mqtt_frame_loop d 1 1 0 = Inr (off, v) \<longleftrightarrow> decode_remaining_length d 1 = Inr (v, off)"
  using frame_loop_agrees [of 0 d 1 0]
  by (auto simp: decode_remaining_length_def split: sum.splits)

lemma frame_loop_not_complete:
  "mqtt_frame_loop d 1 1 0 = Inl info \<Longrightarrow> \<not> frame_complete info"
  using frame_loop_agrees [of 0 d 1 0] by (auto split: sum.splits)

lemma frame_info_loop:
  "mqtt_frame_info d =
     (if length d < 2 then incomplete_frame
      else case decode_remaining_length d 1 of
        Inl e \<Rightarrow> (case mqtt_frame_loop d 1 1 0 of Inl info \<Rightarrow> info | Inr _ \<Rightarrow> incomplete_frame)
      | Inr (v, off) \<Rightarrow>
          if length d < off + unat v then incomplete_frame
          else \<lparr>frame_complete = True, frame_total_size = off + unat v, frame_error = None\<rparr>)"
proof (cases "decode_remaining_length d 1")
  case (Inl e)
  then have "mqtt_frame_loop d 1 1 0 \<noteq> Inr (off, v)" for off v
    by (simp only: frame_loop_decode) simp
  then obtain info where "mqtt_frame_loop d 1 1 0 = Inl info"
    by (cases "mqtt_frame_loop d 1 1 0") auto
  with Inl show ?thesis by (simp add: mqtt_frame_info_def)
next
  case (Inr r)
  then obtain v off where "decode_remaining_length d 1 = Inr (v, off)" by (cases r) simp
  moreover from this have "mqtt_frame_loop d 1 1 0 = Inr (off, v)" by (simp only: frame_loop_decode)
  ultimately show ?thesis by (simp add: mqtt_frame_info_def Let_def)
qed

lemma frame_info_completeD:
  assumes "frame_complete (mqtt_frame_info d)"
  obtains v off where "2 \<le> length d" "decode_remaining_length d 1 = Inr (v, off)"
    "frame_total_size (mqtt_frame_info d) = off + unat v" "off + unat v \<le> length d"
    "frame_error (mqtt_frame_info d) = None"
proof (cases "decode_remaining_length d 1")
  case (Inl e)
  with assms frame_loop_not_complete [of d] show ?thesis
    by (auto simp: frame_info_loop incomplete_frame_def split: if_splits sum.splits)
next
  case (Inr r)
  with assms that show ?thesis
    by (cases r) (auto simp: frame_info_loop incomplete_frame_def split: if_splits)
qed

lemma frame_info_size:
  assumes "frame_complete (mqtt_frame_info d)"
  shows "2 \<le> frame_total_size (mqtt_frame_info d)" "frame_total_size (mqtt_frame_info d) \<le> length d"
  using assms by (auto elim!: frame_info_completeD dest!: decode_remaining_length_offset)

section \<open>The parser on a complete frame\<close>

lemma decode_loop_take:
  "decode_remaining_length_loop d off mul acc count = Inr (v, off') \<Longrightarrow> off' \<le> n \<Longrightarrow>
     decode_remaining_length_loop (take n d) off mul acc count = Inr (v, off')"
proof (induction d off mul acc count rule: decode_remaining_length_loop.induct)
  case (1 d off mul acc count)
  have off: "off < length d" and "off < off'"
    using "1.prems"(1) decode_loop_offset [OF "1.prems"(1)]
    by (simp_all add: decode_remaining_length_loop.simps [of d])
  then have d: "drop off d = d ! off # drop (off + 1) d" by (simp add: Cons_nth_drop_Suc)
  have off_n: "off < length (take n d)" using off \<open>off < off'\<close> "1.prems"(2) by simp
  have nth: "take n d ! off = d ! off" using off_n by simp
  have d': "drop off (take n d) = d ! off # drop (off + 1) (take n d)"
    using Cons_nth_drop_Suc [OF off_n] by (simp add: nth)
  note IH = "1.IH" [OF _ refl refl refl refl]
  show ?case
    using "1.prems" IH off unfolding decode_step [OF off d] decode_step [OF off_n d']
    by (auto simp: Let_def split: if_splits)
qed

lemma parse_complete_frame:
  assumes "frame_complete (mqtt_frame_info d)"
  defines "n \<equiv> frame_total_size (mqtt_frame_info d)"
  shows "parse_control_packet (take n d) = parse_control_packet d"
    and "parse_control_packet d = Inl e \<Longrightarrow>
      e = Error ''Invalid MQTT message type'' \<or> e = Error ''Invalid MQTT fixed header flags''"
    and "parse_control_packet d = Inr p \<Longrightarrow>
      length (packet_body p) + 2 \<le> n \<and> packet_body p = drop (n - length (packet_body p)) (take n d)"
proof -
  obtain v off where d: "2 \<le> length d" "decode_remaining_length d 1 = Inr (v, off)"
    and n: "n = off + unat v" "n \<le> length d"
    using assms by (auto elim: frame_info_completeD)
  have off: "2 \<le> off" using decode_remaining_length_offset [OF d(2)] by simp
  have dn: "decode_remaining_length (take n d) 1 = Inr (v, off)"
    using d(2) n(1) by (simp add: decode_remaining_length_def decode_loop_take)
  have first: "take n d ! 0 = d ! 0" using off n by simp
  show "parse_control_packet (take n d) = parse_control_packet d"
    using d dn n off first
    by (auto simp: parse_control_packet_def read_at_def read_range_def Let_def drop_take
        simp del: One_nat_def split: option.split)
  show "parse_control_packet d = Inl e \<Longrightarrow>
      e = Error ''Invalid MQTT message type'' \<or> e = Error ''Invalid MQTT fixed header flags''"
    using d n by (auto simp: parse_control_packet_def read_at_def read_range_def Let_def
        split: if_splits option.splits)
  show "length (packet_body p) + 2 \<le> n \<and> packet_body p = drop (n - length (packet_body p)) (take n d)"
    if "parse_control_packet d = Inr p"
    using that d n off by (auto simp: parse_control_packet_def read_at_def read_range_def Let_def
        drop_take split: if_splits option.splits)
qed

section \<open>Packets in a stream\<close>

lemma decode_loop_extend:
  "decode_remaining_length_loop d off mul acc count = Inr r \<Longrightarrow>
     decode_remaining_length_loop (d @ y) off mul acc count = Inr r"
proof (induction d off mul acc count rule: decode_remaining_length_loop.induct)
  case (1 d off mul acc count)
  have off: "off < length d"
    using "1.prems" by (simp add: decode_remaining_length_loop.simps [of d])
  then have d: "drop off d = d ! off # drop (off + 1) d" by (simp add: Cons_nth_drop_Suc)
  have off_y: "off < length (d @ y)" using off by simp
  have d': "drop off (d @ y) = d ! off # drop (off + 1) d @ y" using d off by simp
  note IH = "1.IH" [OF _ refl refl refl refl]
  show ?case
    using "1.prems" IH off unfolding decode_step [OF off d] decode_step [OF off_y d']
    by (auto simp: Let_def split: if_splits)
qed

text \<open>Bytes that arrive after a complete frame change neither the frame nor its packet.\<close>

lemma frame_info_extend:
  assumes "frame_complete (mqtt_frame_info d)"
  shows "mqtt_frame_info (d @ y) = mqtt_frame_info d"
proof -
  obtain v off where d: "2 \<le> length d" "decode_remaining_length d 1 = Inr (v, off)"
      "off + unat v \<le> length d"
    using assms by (rule frame_info_completeD) 
  then have "decode_remaining_length (d @ y) 1 = Inr (v, off)"
    by (simp add: decode_remaining_length_def decode_loop_extend)
  with d show ?thesis by (simp add: frame_info_loop)
qed

lemma parse_extend:
  assumes "frame_complete (mqtt_frame_info d)"
  shows "parse_control_packet (d @ y) = parse_control_packet d"
  using parse_complete_frame(1) [OF assms] parse_complete_frame(1) [of "d @ y"] frame_info_size(2) [OF assms]
  by (simp add: frame_info_extend [OF assms] assms)

lemma frame_loop_cut:
  "\<lbrakk> j < length (varint v); length (varint v) + k \<le> 4 \<rbrakk> \<Longrightarrow>
     mqtt_frame_loop (pre @ take j (varint v)) (length pre) (128 ^ k) acc = Inl incomplete_frame"
proof (induction j arbitrary: pre v k acc)
  case 0
  then show ?case by (subst mqtt_frame_loop.simps) simp
next
  case (Suc j)
  let ?b = "ucast (v mod 128) OR 128 :: u8"
  have v: "varint v = ?b # varint (v div 128)"
    using Suc.prems(1) by (simp add: varint_unfold [of v] split: if_splits)
  have j: "j < length (varint (v div 128))" and k: "length (varint (v div 128)) + Suc k \<le> 4"
    using Suc.prems v by simp_all
  from k have "k < 4" and "k \<noteq> 3" by (auto simp: Suc_le_eq)
  then have small: "\<not> (128 :: u32) ^ k * 128 > 2097152" by (simp add: multiplier_bound)
  let ?d = "pre @ take (Suc j) (varint v)"
  have at: "length pre < length ?d" "?d ! length pre = ?b" using v by simp_all
  have IH: "mqtt_frame_loop ((pre @ [?b]) @ take j (varint (v div 128))) (length (pre @ [?b]))
      (128 ^ Suc k) acc' = Inl incomplete_frame" for acc'
    by (rule Suc.IH [OF j k])
  have rec: "mqtt_frame_loop ?d (length pre + 1) (128 ^ k * 128) acc' = Inl incomplete_frame" for acc'
    using IH [of acc'] by (simp add: v mult.commute)
  show ?case
    using small rec varint_byte(2) [of v] by (simp only: frame_loop_step [OF at(1)] at(2) Let_def if_False)
qed

lemma frame_info_frame:
  assumes "length b \<le> 268435455"
  shows "mqtt_frame_info (frame_bytes t f b @ rest) =
    \<lparr>frame_complete = True, frame_total_size = length (frame_bytes t f b), frame_error = None\<rparr>"
proof -
  let ?v = "of_nat (length b) :: u32" and ?d = "frame_bytes t f b @ rest"
  have u: "unat ?v = length b" using assms by (simp add: unat_of_nat)
  have "reads ?d 1 (varint ?v) (1 + length (varint ?v))"
    by (simp add: reads_def frame_bytes_def)
  then have "decode_remaining_length ?d 1 = Inr (?v, 1 + length (varint ?v))"
    using assms by (intro decode_varint) (simp_all add: u)
  moreover have "2 \<le> length ?d" by (cases "varint ?v") (simp_all add: frame_bytes_def)
  ultimately show ?thesis by (simp add: frame_info_loop frame_bytes_def u)
qed

lemma frame_info_cut:
  assumes "length b \<le> 268435455" and "k < length (frame_bytes t f b)"
  shows "mqtt_frame_info (take k (frame_bytes t f b)) = incomplete_frame"
proof -
  let ?v = "of_nat (length b) :: u32" and ?d = "take k (frame_bytes t f b)"
  let ?first = "push_bit 4 (message_type_code t) OR (f AND 0x0F)"
  have u: "unat ?v = length b" using assms by (simp add: unat_of_nat)
  consider "k < 2" | "2 \<le> k" "k - 1 < length (varint ?v)" | "2 \<le> k" "length (varint ?v) \<le> k - 1"
    by linarith
  then show ?thesis
  proof cases
    case 1
    then show ?thesis by (simp add: mqtt_frame_info_def)
  next
    case 2
    have "length (varint ?v) \<le> 4" using assms(1) by (intro varint_length) (simp add: u)
    moreover have "?d = [?first] @ take (k - 1) (varint ?v)"
      using 2 by (simp add: frame_bytes_def take_Cons')
    ultimately have "mqtt_frame_loop ?d 1 1 0 = Inl incomplete_frame"
      using frame_loop_cut [of "k - 1" ?v 0 "[?first]" 0] 2 by simp
    then show ?thesis by (simp add: mqtt_frame_info_def)
  next
    case 3
    have "reads ?d 1 (varint ?v) (1 + length (varint ?v))"
      using 3 assms(2) by (simp add: reads_def frame_bytes_def take_Cons')
    then have "decode_remaining_length ?d 1 = Inr (?v, 1 + length (varint ?v))"
      using assms(1) by (intro decode_varint) (simp_all add: u)
    then show ?thesis using 3 assms(2) by (simp add: frame_info_loop frame_bytes_def u)
  qed
qed

end
