(* ===== verification/Net_Interface.thy ===== *)
theory Net_Interface
  imports Toolkit_Prelude
begin

text \<open>
  The interfaces between the network layer and its clients: addresses
  (\<^verbatim>\<open>pico_net/include/address.hpp\<close>), the abstract class \<^verbatim>\<open>Connection\<close>
  (\<^verbatim>\<open>pico_net/include/connection.hpp\<close>) as the record of its virtual functions, and the
  clock of the Pico SDK, which is not part of the repository, as a record of parameters.

  A virtual function takes the object \<open>'c\<close> and the rest of the world \<open>'w\<close> (the other objects,
  lwIP, the radio driver and the clock) and returns both updated. A call that fills a buffer
  returns the bytes it has written to it, and a call that may block forever returns \<open>None\<close>
  when it does.
\<close>

section \<open>Addresses\<close>

record Address =
  address_network :: string
  address_ip :: string
  address_port :: u16

section \<open>The clock\<close>

text \<open>
  \<^verbatim>\<open>absolute_time_t\<close> is opaque in the SDK; it counts microseconds since boot in 64 bits,
  which do not run out, and is a natural number here.
\<close>

type_synonym absolute_time_t = nat

record 'w Platform =
  nil_time :: absolute_time_t
  get_absolute_time :: "'w \<Rightarrow> absolute_time_t \<times> 'w"
  make_timeout_time_ms :: "u32 \<Rightarrow> 'w \<Rightarrow> absolute_time_t \<times> 'w"
  absolute_time_diff_us :: "absolute_time_t \<Rightarrow> absolute_time_t \<Rightarrow> int"
  sleep_ms :: "u32 \<Rightarrow> 'w \<Rightarrow> 'w"

text \<open>
  What the SDK documents of the clock, over a reading \<open>now\<close> of the world: readings follow
  it, it does not run backwards, sleeping takes at least the time asked for, and the
  difference of two times is positive exactly when the second is later.
\<close>

definition clock_law :: "'w Platform \<Rightarrow> ('w \<Rightarrow> nat) \<Rightarrow> bool" where
  "clock_law pf now \<longleftrightarrow>
     (\<forall>w. now w \<le> fst (get_absolute_time pf w) \<and>
          fst (get_absolute_time pf w) \<le> now (snd (get_absolute_time pf w))) \<and>
     (\<forall>ms w. now w \<le> now (snd (make_timeout_time_ms pf ms w))) \<and>
     (\<forall>t until. absolute_time_diff_us pf t until \<le> 0 \<longleftrightarrow> until \<le> t) \<and>
     (\<forall>ms w. now w + 1000 * unat ms \<le> now (sleep_ms pf ms w))"

lemma clock_lawD:
  assumes "clock_law pf now"
  shows "now w \<le> fst (get_absolute_time pf w)"
    "fst (get_absolute_time pf w) \<le> now (snd (get_absolute_time pf w))"
    "now w \<le> now (snd (make_timeout_time_ms pf ms w))"
    "absolute_time_diff_us pf t until \<le> 0 \<longleftrightarrow> until \<le> t"
    "now w + 1000 * unat ms \<le> now (sleep_ms pf ms w)"
  using assms by (simp_all add: clock_law_def)

section \<open>The class Connection\<close>

text \<open>
  The virtual functions (\<^verbatim>\<open>pico_net/include/connection.hpp\<close>); \<open>'c\<close> is the object, or the pointer to
  it when the world holds the object.
\<close>

record ('c, 'w) Connection =
  conn_destroy :: "'c \<Rightarrow> 'w \<Rightarrow> 'w"
  conn_read :: "nat \<Rightarrow> 'c \<Rightarrow> 'w \<Rightarrow> (u8 list result \<times> 'c \<times> 'w) option"
  conn_write :: "u8 list \<Rightarrow> 'c \<Rightarrow> 'w \<Rightarrow> nat result \<times> 'c \<times> 'w"
  conn_close :: "'c \<Rightarrow> 'w \<Rightarrow> Error option \<times> 'c \<times> 'w"
  conn_local_address :: "'c \<Rightarrow> 'w \<Rightarrow> Address result"
  conn_remote_address :: "'c \<Rightarrow> 'w \<Rightarrow> Address result"
  conn_set_deadline :: "u32 \<Rightarrow> 'c \<Rightarrow> 'w \<Rightarrow> Error option \<times> 'c \<times> 'w"
  conn_set_read_deadline :: "u32 \<Rightarrow> 'c \<Rightarrow> 'w \<Rightarrow> Error option \<times> 'c \<times> 'w"
  conn_set_write_deadline :: "u32 \<Rightarrow> 'c \<Rightarrow> 'w \<Rightarrow> Error option \<times> 'c \<times> 'w"
  conn_read_nonblocking :: "nat \<Rightarrow> 'c \<Rightarrow> 'w \<Rightarrow> u8 list result \<times> 'c \<times> 'w"

text \<open>A member function of an object that does not touch the world.\<close>

definition on_object :: "('c \<Rightarrow> 'a \<times> 'c) \<Rightarrow> 'c \<Rightarrow> 'w \<Rightarrow> 'a \<times> 'c \<times> 'w" where
  "on_object f c w = (let (a, c) = f c in (a, c, w))"

text \<open>
  The contract of an implementation: a read returns at most the bytes asked for, and a write
  that returns \<open>n\<close> has passed on exactly the first \<open>n\<close> bytes of the buffer; neither commits a
  memory fault. \<open>sent\<close> is what the connection has passed on so far. \<^verbatim>\<open>TcpConnection\<close> and \<^verbatim>\<open>UdpConnection\<close> are shown to
  meet it in their own theories.
\<close>

locale connection =
  fixes ops :: "('c, 'w) Connection"
    and sent :: "'c \<Rightarrow> 'w \<Rightarrow> u8 list"
  assumes write_bound: "conn_write ops bs c w = (Inr n, c', w') \<Longrightarrow> n \<le> length bs"
    and write_sent: "conn_write ops bs c w = (Inr n, c', w') \<Longrightarrow>
      sent c' w' = sent c w @ take n bs"
    and write_safe: "fault_free (fst (conn_write ops bs c w))"
    and read_safe: "fault_free (fst (conn_read_nonblocking ops n c w))"
    and read_bound: "conn_read_nonblocking ops n c w = (Inr bs, c', w') \<Longrightarrow> length bs \<le> n"

text \<open>A client that also looks at the clock relies on the clock leaving the connection alone.\<close>

locale timed_connection = connection ops sent
  for ops :: "('c, 'w) Connection" and sent :: "'c \<Rightarrow> 'w \<Rightarrow> u8 list" +
  fixes pf :: "'w Platform"
  assumes clock_sent: "sent c (snd (get_absolute_time pf w)) = sent c w"

section \<open>Blocking calls\<close>

text \<open>
  The loop of \<^verbatim>\<open>read\<close>, the same in both connections: \<open>until\<close> is \<open>None\<close> without a deadline,
  when it may wait forever.
\<close>

partial_function (option) read_loop ::
  "'w Platform \<Rightarrow> (nat \<Rightarrow> 'c \<Rightarrow> 'w \<Rightarrow> u8 list result \<times> 'c \<times> 'w) \<Rightarrow> nat \<Rightarrow> absolute_time_t option \<Rightarrow> 'c \<Rightarrow> 'w \<Rightarrow>
     (u8 list result \<times> 'c \<times> 'w) option" where
  "read_loop pf read_nonblocking n until c w =
     (case read_nonblocking n c w of (r, c, w) \<Rightarrow>
        (case r of
           Inl err \<Rightarrow> Some (Inl err, c, w)
         | Inr bs \<Rightarrow>
             if bs \<noteq> [] then Some (Inr bs, c, w)
             else
               (case until of
                  None \<Rightarrow> read_loop pf read_nonblocking n until c (sleep_ms pf 10 w)
                | Some t \<Rightarrow>
                    (case get_absolute_time pf (sleep_ms pf 10 w) of
                       (now, w) \<Rightarrow>
                         if absolute_time_diff_us pf now t \<le> 0
                         then Some (Inl (Error ''read timeout''), c, w)
                         else read_loop pf read_nonblocking n until c w))))"

text \<open>\<^verbatim>\<open>read\<close> of a connection with the given deadline.\<close>

definition blocking_read ::
  "'w Platform \<Rightarrow> (nat \<Rightarrow> 'c \<Rightarrow> 'w \<Rightarrow> u8 list result \<times> 'c \<times> 'w) \<Rightarrow> u32 option \<Rightarrow> nat \<Rightarrow> 'c \<Rightarrow> 'w \<Rightarrow>
     (u8 list result \<times> 'c \<times> 'w) option" where
  "blocking_read pf read_nonblocking deadline_ms n c w =
     (if n = 0 then Some (Inr [], c, w)
      else case deadline_ms of
        None \<Rightarrow> read_loop pf read_nonblocking n None c w
      | Some ms \<Rightarrow>
          let (until, w) = make_timeout_time_ms pf ms w
          in read_loop pf read_nonblocking n (Some until) c w)"

lemma read_loop_returns:
  assumes clock: "clock_law pf now"
    and reads: "\<And>c w r c' w'. read_nonblocking n c w = (r, c', w') \<Longrightarrow> now w \<le> now w'"
  shows "read_loop pf read_nonblocking n (Some t) c w \<noteq> None"
proof (induction "t - now w" arbitrary: c w rule: less_induct)
  case less
  obtain r c1 w1 where r: "read_nonblocking n c w = (r, c1, w1)" by (cases "read_nonblocking n c w")
  let ?w2 = "sleep_ms pf 10 w1"
  let ?now = "fst (get_absolute_time pf ?w2)" and ?w3 = "snd (get_absolute_time pf ?w2)"
  note law = clock_lawD [OF clock]
  have t: "now w1 < ?now" "?now \<le> now ?w3" "absolute_time_diff_us pf ?now t \<le> 0 \<longleftrightarrow> t \<le> ?now"
    using law(5) [of w1 10] law(1,2) [of ?w2] law(4) [of ?now t] by simp_all
  have IH: "read_loop pf read_nonblocking n (Some t) c1 ?w3 \<noteq> None" if "\<not> t \<le> ?now"
    using reads [OF r] t(1,2) that by (intro less) simp
  show ?case
    by (subst read_loop.simps)
      (use IH t(3) in \<open>simp add: r case_prod_beta del: not_None_eq split: sum.split\<close>)
qed

lemma blocking_read_returns:
  assumes "clock_law pf now" and "\<And>c w r c' w'. read_nonblocking n c w = (r, c', w') \<Longrightarrow> now w \<le> now w'"
    and "deadline_ms \<noteq> None"
  shows "blocking_read pf read_nonblocking deadline_ms n c w \<noteq> None"
proof -
  have "read_loop pf read_nonblocking n (Some t) c w \<noteq> None" for t c w
    by (rule read_loop_returns [OF assms(1)]) (rule assms(2))
  then show ?thesis
    using assms(3) by (simp add: blocking_read_def case_prod_beta Let_def del: not_None_eq split: option.split)
qed

text \<open>What a read returns is what its last try returned, or the timeout; what tries and waiting keep
  holds at the end.\<close>

lemma read_loop_result:
  assumes "read_loop pf read_nonblocking n until c w = Some (r, c', w')"
    and "\<And>c w r c' w'. I c w \<Longrightarrow> read_nonblocking n c w = (r, c', w') \<Longrightarrow> I c' w' \<and> (r \<noteq> Inr [] \<longrightarrow> Q r)"
    and "\<And>c w. I c w \<Longrightarrow> I c (sleep_ms pf 10 w)" and "\<And>c w. I c w \<Longrightarrow> I c (snd (get_absolute_time pf w))"
    and "I c w" and "Q (Inl (Error ''read timeout''))"
  shows "I c' w' \<and> Q r"
proof -
  have "pf' = pf \<longrightarrow> tries = read_nonblocking \<longrightarrow> m = n \<longrightarrow> I c w \<longrightarrow> I (fst (snd y)) (snd (snd y)) \<and> Q (fst y)"
    if "read_loop pf' tries m until c w = Some y" for pf' tries m until c w y
    using that
  proof (induction rule: read_loop.raw_induct [rotated, consumes 1, case_names step])
    case (step loop pf' tries m until c w y)
    show ?case
    proof (intro impI)
      assume eq: "pf' = pf" "tries = read_nonblocking" "m = n" and I: "I c w"
      obtain r1 c1 w1 where t: "read_nonblocking n c w = (r1, c1, w1)" by (metis prod_cases3)
      have I1: "I c1 w1" "r1 \<noteq> Inr [] \<Longrightarrow> Q r1" using assms(2) [OF I t] by auto
      have I2: "I c1 (sleep_ms pf 10 w1)" using assms(3) [OF I1(1)] .
      show "I (fst (snd y)) (snd (snd y)) \<and> Q (fst y)"
      proof (cases "r1 = Inr []")
        case False
        then have "y = (r1, c1, w1)" using step(2) t eq by (cases r1) auto
        then show ?thesis using I1 False by simp
      next
        case True
        show ?thesis
        proof (cases until)
          case None
          then have "loop pf read_nonblocking n until c1 (sleep_ms pf 10 w1) = Some y"
            using step(2) t eq True by simp
          from step(1) [OF this] I2 show ?thesis by simp
        next
          case (Some limit)
          obtain now w3 where g: "get_absolute_time pf (sleep_ms pf 10 w1) = (now, w3)" by fastforce
          have I3: "I c1 w3" using assms(4) [OF I2] g by simp
          show ?thesis
          proof (cases "absolute_time_diff_us pf now limit \<le> 0")
            case over: True
            then have "y = (Inl (Error ''read timeout''), c1, w3)" using step(2) t eq True Some g by simp
            then show ?thesis using I3 assms(6) by simp
          next
            case False
            then have "loop pf read_nonblocking n until c1 w3 = Some y" using step(2) t eq True Some g by simp
            from step(1) [OF this] I3 show ?thesis by simp
          qed
        qed
      qed
    qed
  qed
  from this [OF assms(1)] assms(5) show ?thesis by simp
qed

text \<open>The loop of \<^verbatim>\<open>accept\<close>, the same in both listeners; it sleeps between two tries, and waits
  forever for a connection.\<close>

partial_function (option) accept_loop ::
  "('w \<Rightarrow> 'w) \<Rightarrow> ('l \<Rightarrow> 'w \<Rightarrow> 'c option result \<times> 'l \<times> 'w) \<Rightarrow> 'l \<Rightarrow> 'w \<Rightarrow> ('c result \<times> 'l \<times> 'w) option" where
  "accept_loop sleep accept_nonblocking l w =
     (case accept_nonblocking l w of (r, l, w) \<Rightarrow>
        (case r of
           Inl err \<Rightarrow> Some (Inl err, l, w)
         | Inr None \<Rightarrow> accept_loop sleep accept_nonblocking l (sleep w)
         | Inr (Some conn) \<Rightarrow> Some (Inr conn, l, w)))"

section \<open>The class Listener\<close>

text \<open>
  The virtual functions of a listener (\<^verbatim>\<open>pico_net/include/listener.hpp\<close>); \<open>'l\<close> is the object, or
  the pointer to it.
\<close>

record ('l, 'c, 'w) Listener =
  lst_accept :: "'l \<Rightarrow> 'w \<Rightarrow> ('c result \<times> 'l \<times> 'w) option"
  lst_close :: "'l \<Rightarrow> 'w \<Rightarrow> Error option \<times> 'l \<times> 'w"
  lst_address :: "'l \<Rightarrow> 'w \<Rightarrow> Address result"
  lst_accept_nonblocking :: "'l \<Rightarrow> 'w \<Rightarrow> 'c option result \<times> 'l \<times> 'w"

text \<open>
  The contract: as long as the listener is in order, trying to accept and closing commit no memory
  fault and leave it in order; and \<^verbatim>\<open>accept\<close> is the loop over the tries. Both listeners meet it.
\<close>

locale listener =
  fixes ops :: "('l, 'c, 'w) Listener"
    and ok :: "'l \<Rightarrow> 'w \<Rightarrow> bool"
    and sleep :: "'w \<Rightarrow> 'w"
  assumes accept_is_loop: "lst_accept ops l w = accept_loop sleep (lst_accept_nonblocking ops) l w"
    and try_keeps: "ok l w \<Longrightarrow> lst_accept_nonblocking ops l w = (r, l', w') \<Longrightarrow> fault_free r \<and> ok l' w'"
    and close_keeps: "ok l w \<Longrightarrow> lst_close ops l w = (e, l', w') \<Longrightarrow>
      (case e of None \<Rightarrow> True | Some err \<Rightarrow> \<not> is_fault err) \<and> ok l' w'"
    and sleep_keeps: "ok l w \<Longrightarrow> ok l (sleep w)"
begin

lemma accept_safe:
  assumes "lst_accept ops l w = Some (r, l', w')" and "ok l w"
  shows "fault_free r" "ok l' w'"
proof -
  have "tries = lst_accept_nonblocking ops \<longrightarrow> snooze = sleep \<longrightarrow> ok l w \<longrightarrow>
      fault_free (fst y) \<and> ok (fst (snd y)) (snd (snd y))"
    if "accept_loop snooze tries l w = Some y" for snooze tries l w y
    using that
  proof (induction rule: accept_loop.raw_induct [rotated, consumes 1, case_names step])
    case (step loop snooze tries l w y)
    show ?case
    proof (intro impI)
      assume eq: "tries = lst_accept_nonblocking ops" "snooze = sleep" and ok: "ok l w"
      obtain r l1 w1 where t: "lst_accept_nonblocking ops l w = (r, l1, w1)" by (metis prod_cases3)
      note keeps = try_keeps [OF ok t]
      show "fault_free (fst y) \<and> ok (fst (snd y)) (snd (snd y))"
      proof (cases "r = Inr None")
        case True
        then have "loop sleep (lst_accept_nonblocking ops) l1 (sleep w1) = Some y"
          using step(2) t eq by simp
        from step(1) [OF this] sleep_keeps keeps show ?thesis by simp
      next
        case False
        then show ?thesis using step(2) t eq keeps by (cases r) (auto split: option.splits)
      qed
    qed
  qed
  from this [OF assms(1) [unfolded accept_is_loop]] assms(2) show "fault_free r" "ok l' w'" by simp_all
qed

end

end
