(* ===== verification/Mqtt_Client.thy ===== *)
theory Mqtt_Client
  imports Mqtt_Frame Net_Interface
begin

text \<open>
  \<^verbatim>\<open>MqttClient\<close> (\<^verbatim>\<open>pico_mqtt/src/mqtt_client.cpp\<close>): the state of the class, and one
  definition per member function. A member function takes the client and the world and
  returns its result with both updated. The connection is reached through the virtual
  functions of \<open>Connection\<close> only, \<^verbatim>\<open>Network::dial_tcp\<close> is an argument of \<open>connect\<close>, and the
  clock is the \<open>Platform\<close> record.
\<close>

section \<open>State\<close>

datatype MqttClientState = DISCONNECTED | CONNECTING | CONNECTED | DISCONNECTING

text \<open>
  The payload of a queued message is a \<^verbatim>\<open>std::span\<close> into the receive buffer, which the client
  goes on changing: in the queue it is the position and the length of the bytes in that buffer.
\<close>

record span =
  span_offset :: nat
  span_size :: nat

record 'c MqttClient =
  conn :: "'c option"
  client_state :: MqttClientState
  next_packet_identifier :: u16
  keep_alive_seconds :: u16
  waiting_for_pingresp :: bool
  last_tx :: absolute_time_t
  last_rx :: absolute_time_t
  rx_buffer :: "u8 list"
  incoming_messages :: "span MqttPublishMessage list"

definition new_MqttClient :: "'w Platform \<Rightarrow> 'c MqttClient" where
  "new_MqttClient pf =
     \<lparr>conn = None, client_state = DISCONNECTED, next_packet_identifier = 1,
      keep_alive_seconds = 60, waiting_for_pingresp = False,
      last_tx = nil_time pf, last_rx = nil_time pf,
      rx_buffer = [], incoming_messages = []\<rparr>"

section \<open>Private member functions\<close>

definition allocate_packet_identifier :: "'c MqttClient \<Rightarrow> u16 \<times> 'c MqttClient" where
  "allocate_packet_identifier cl =
     (let id = next_packet_identifier cl;
          cl = cl\<lparr>next_packet_identifier := next_packet_identifier cl + 1\<rparr>;
          cl = (if next_packet_identifier cl = 0 then cl\<lparr>next_packet_identifier := 1\<rparr> else cl)
      in (id, cl))"

text \<open>The result of \<^verbatim>\<open>conn->close()\<close> is ignored; \<^verbatim>\<open>conn.reset()\<close> runs the destructor.\<close>

definition cleanup_connection ::
  "('c, 'w) Connection \<Rightarrow> 'c MqttClient \<Rightarrow> 'w \<Rightarrow> 'c MqttClient \<times> 'w" where
  "cleanup_connection ops cl w =
     (let (cl, w) =
        (case conn cl of
           None \<Rightarrow> (cl, w)
         | Some c \<Rightarrow>
             let (ignored, c, w) = conn_close ops c w
             in (cl\<lparr>conn := None\<rparr>, conn_destroy ops c w))
      in (cl\<lparr>waiting_for_pingresp := False, rx_buffer := [], incoming_messages := [],
             client_state := DISCONNECTED\<rparr>, w))"

text \<open>Close the connection and return the error: how every failing path of the client ends.\<close>

definition fail_with ::
  "('c, 'w) Connection \<Rightarrow> Error \<Rightarrow> 'c MqttClient \<Rightarrow> 'w \<Rightarrow> Error option \<times> 'c MqttClient \<times> 'w" where
  "fail_with ops err cl w = (let (cl, w) = cleanup_connection ops cl w in (Some err, cl, w))"

text \<open>
  The parsed payload is the tail of the packet span, which begins at the start of the receive
  buffer and ends at \<^verbatim>\<open>info.total_size\<close>.
\<close>

definition queued_message :: "nat \<Rightarrow> u8 list MqttPublishMessage \<Rightarrow> span MqttPublishMessage" where
  "queued_message total_size msg =
     \<lparr>publish_dup = publish_dup msg, publish_qos = publish_qos msg,
      publish_retain = publish_retain msg, publish_topic_name = publish_topic_name msg,
      publish_packet_identifier = publish_packet_identifier msg,
      publish_payload = \<lparr>span_offset = total_size - length (publish_payload msg),
                         span_size = length (publish_payload msg)\<rparr>\<rparr>"

definition handle_packet ::
  "nat \<Rightarrow> MqttControlPacket \<Rightarrow> 'c MqttClient \<Rightarrow> Error option \<times> 'c MqttClient" where
  "handle_packet total_size packet cl =
     (case packet_type packet of
        PUBLISH \<Rightarrow>
          (case parse_publish packet of
             Inl err \<Rightarrow> (Some err, cl)
           | Inr msg \<Rightarrow>
               if publish_qos msg > 0
               then (Some (Error ''MQTT client currently supports incoming QoS 0 only''), cl)
               else (None, cl\<lparr>incoming_messages :=
                                incoming_messages cl @ [queued_message total_size msg]\<rparr>))
      | PINGRESP \<Rightarrow>
          (case parse_pingresp packet of
             Inl err \<Rightarrow> (Some err, cl)
           | Inr msg \<Rightarrow> (None, cl\<lparr>waiting_for_pingresp := False\<rparr>))
      | SUBACK \<Rightarrow>
          (case parse_suback packet of
             Inl err \<Rightarrow> (Some err, cl)
           | Inr msg \<Rightarrow>
               (case suback_return_codes msg of
                  [] \<Rightarrow> (Some (Error ''MQTT SUBACK must contain at least one return code''), cl)
                | code # codes \<Rightarrow>
                    if code = FAILURE then (Some (Error ''MQTT broker rejected subscription''), cl)
                    else (None, cl)))
      | _ \<Rightarrow> (None, cl))"

lemma handle_packet_keeps:
  "rx_buffer (snd (handle_packet n packet cl)) = rx_buffer cl"
  "conn (snd (handle_packet n packet cl)) = conn cl"
  "client_state (snd (handle_packet n packet cl)) = client_state cl"
  "next_packet_identifier (snd (handle_packet n packet cl)) = next_packet_identifier cl"
  "last_tx (snd (handle_packet n packet cl)) = last_tx cl"
  "last_rx (snd (handle_packet n packet cl)) = last_rx cl"
  "keep_alive_seconds (snd (handle_packet n packet cl)) = keep_alive_seconds cl"
  by (auto simp: handle_packet_def
      split: MqttMessageType.split sum.split list.split)

function process_rx_buffer ::
  "('c, 'w) Connection \<Rightarrow> 'c MqttClient \<Rightarrow> 'w \<Rightarrow> Error option \<times> 'c MqttClient \<times> 'w" where
  "process_rx_buffer ops cl w =
     (let info = mqtt_frame_info (rx_buffer cl)
      in case frame_error info of
        Some err \<Rightarrow> fail_with ops err cl w
      | None \<Rightarrow>
          if \<not> frame_complete info then (None, cl, w)
          else case parse_control_packet (take (frame_total_size info) (rx_buffer cl)) of
            Inl packet_err \<Rightarrow> fail_with ops packet_err cl w
          | Inr packet \<Rightarrow>
              let r = handle_packet (frame_total_size info) packet cl
              in case fst r of
                Some handle_err \<Rightarrow> fail_with ops handle_err (snd r) w
              | None \<Rightarrow>
                  process_rx_buffer ops
                    ((snd r)\<lparr>rx_buffer := drop (frame_total_size info) (rx_buffer (snd r))\<rparr>) w)"
  by pat_completeness auto
termination
proof (relation "measure (\<lambda>(ops, cl, w). length (rx_buffer cl))", simp)
  fix cl :: "'c MqttClient" and info
  assume "info = mqtt_frame_info (rx_buffer cl)" and "\<not> \<not> frame_complete info"
  then have "2 \<le> frame_total_size info" "frame_total_size info \<le> length (rx_buffer cl)"
    using frame_info_size [of "rx_buffer cl"] by simp_all
  then show "((ops, (snd r)\<lparr>rx_buffer := drop (frame_total_size info) (rx_buffer (snd r))\<rparr>, w), ops, cl, w)
      \<in> measure (\<lambda>(ops, cl, w). length (rx_buffer cl))"
    if "r = handle_packet (frame_total_size info) packet cl" for r packet ops w
    using that by (simp add: handle_packet_keeps)
qed

declare process_rx_buffer.simps [simp del]

text \<open>The write loop of \<^verbatim>\<open>send_encoded\<close>, which ends because an empty write is an error.\<close>

function send_loop ::
  "('c, 'w) Connection \<Rightarrow> u8 list \<Rightarrow> nat \<Rightarrow> 'c MqttClient \<Rightarrow> 'w \<Rightarrow> Error option \<times> 'c MqttClient \<times> 'w" where
  "send_loop ops bytes total_written cl w =
     (if total_written < length bytes then
        (case conn cl of
           None \<Rightarrow> (Some NullDeref, cl, w)
         | Some c \<Rightarrow>
             let r = conn_write ops (drop total_written bytes) c w;
                 cl = cl\<lparr>conn := Some (fst (snd r))\<rparr>;
                 w = snd (snd r)
             in case fst r of
                  Inl err \<Rightarrow> fail_with ops err cl w
                | Inr written \<Rightarrow>
                    if written = 0
                    then fail_with ops (Error ''MQTT packet could not be fully written'') cl w
                    else send_loop ops bytes (total_written + written) cl w)
      else (None, cl, w))"
  by pat_completeness auto
termination
  by (relation "measure (\<lambda>(ops, bytes, total_written, cl, w). length bytes - total_written)") auto

declare send_loop.simps [simp del]

definition send_encoded ::
  "'w Platform \<Rightarrow> ('c, 'w) Connection \<Rightarrow> MqttEncodedPacket \<Rightarrow> 'c MqttClient \<Rightarrow> 'w \<Rightarrow>
     Error option \<times> 'c MqttClient \<times> 'w" where
  "send_encoded pf ops packet cl w =
     (if conn cl = None then fail_with ops (Error ''MQTT client is not connected'') cl w
      else
        let (err, cl, w) = send_loop ops (packet_bytes packet) 0 cl w
        in case err of
             Some err \<Rightarrow> (Some err, cl, w)
           | None \<Rightarrow>
               let (now, w) = get_absolute_time pf w
               in (None, cl\<lparr>last_tx := now\<rparr>, w))"

section \<open>connect\<close>

text \<open>
  What \<open>connect\<close> does with the bytes of one read: \<open>Some\<close> outcome when it returns, \<open>None\<close>
  when it goes on waiting.
\<close>

definition fail_connect ::
  "('c, 'w) Connection \<Rightarrow> Error \<Rightarrow> 'c MqttClient \<Rightarrow> 'w \<Rightarrow> Error option option \<times> 'c MqttClient \<times> 'w" where
  "fail_connect ops err cl w =
     (let (cl, w) = cleanup_connection ops cl w in (Some (Some err), cl, w))"

definition connect_received ::
  "'w Platform \<Rightarrow> ('c, 'w) Connection \<Rightarrow> u8 list \<Rightarrow> 'c MqttClient \<Rightarrow> 'w \<Rightarrow>
     Error option option \<times> 'c MqttClient \<times> 'w" where
  "connect_received pf ops buffer cl w =
     (let (now, w) = get_absolute_time pf w;
          cl = cl\<lparr>last_rx := now, rx_buffer := rx_buffer cl @ buffer\<rparr>;
          info = mqtt_frame_info (rx_buffer cl)
      in case frame_error info of
           Some err \<Rightarrow> fail_connect ops err cl w
         | None \<Rightarrow>
             if \<not> frame_complete info then (None, cl, w)
             else case parse_control_packet (take (frame_total_size info) (rx_buffer cl)) of
               Inl packet_err \<Rightarrow> fail_connect ops packet_err cl w
             | Inr packet \<Rightarrow>
                 if packet_type packet \<noteq> CONNACK
                 then fail_connect ops (Error ''MQTT expected CONNACK during connect'') cl w
                 else case parse_connack packet of
                   Inl connack_err \<Rightarrow> fail_connect ops connack_err cl w
                 | Inr connack \<Rightarrow>
                     let cl = cl\<lparr>rx_buffer := drop (frame_total_size info) (rx_buffer cl)\<rparr>
                     in if connack_return_code connack \<noteq> ACCEPTED
                        then fail_connect ops (Error ''MQTT broker rejected connection'') cl w
                        else
                          let (now, w) = get_absolute_time pf w
                          in (Some None, cl\<lparr>last_rx := now, last_tx := now,
                                            client_state := CONNECTED\<rparr>, w))"

text \<open>
  One round of the loop that waits for the CONNACK: \<open>Inl\<close> when \<^verbatim>\<open>connect\<close> returns, \<open>Inr\<close> when
  the loop goes on. The loop may not end when the clock stands still.
\<close>

definition connect_round ::
  "'w Platform \<Rightarrow> ('c, 'w) Connection \<Rightarrow> absolute_time_t \<Rightarrow> 'c MqttClient \<Rightarrow> 'w \<Rightarrow>
     (Error option \<times> 'c MqttClient \<times> 'w) + ('c MqttClient \<times> 'w)" where
  "connect_round pf ops until cl w =
     (case conn cl of
        None \<Rightarrow> Inl (Some NullDeref, cl, w)
      | Some c \<Rightarrow>
          let (r, c, w) = conn_read_nonblocking ops 256 c w;
              cl = cl\<lparr>conn := Some c\<rparr>
          in case r of
               Inl read_err \<Rightarrow> Inl (fail_with ops read_err cl w)
             | Inr buffer \<Rightarrow>
                 let (outcome, cl, w) =
                   (if buffer \<noteq> [] then connect_received pf ops buffer cl w else (None, cl, w))
                 in case outcome of
                      Some err \<Rightarrow> Inl (err, cl, w)
                    | None \<Rightarrow>
                        let (now, w) = get_absolute_time pf w
                        in if absolute_time_diff_us pf now until \<le> 0
                           then Inl (fail_with ops (Error ''MQTT CONNACK timeout'') cl w)
                           else Inr (cl, sleep_ms pf 10 w))"

partial_function (option) await_connack ::
  "'w Platform \<Rightarrow> ('c, 'w) Connection \<Rightarrow> absolute_time_t \<Rightarrow> 'c MqttClient \<Rightarrow> 'w \<Rightarrow>
     (Error option \<times> 'c MqttClient \<times> 'w) option" where
  "await_connack pf ops until cl w =
     (case connect_round pf ops until cl w of
        Inl r \<Rightarrow> Some r
      | Inr (cl, w) \<Rightarrow> await_connack pf ops until cl w)"

text \<open>
  Moving the new connection into \<^verbatim>\<open>conn\<close> destroys the one it replaces, if any. A dial that
  does not return keeps \<open>connect\<close> from returning.
\<close>

definition connect ::
  "'w Platform \<Rightarrow> ('c, 'w) Connection \<Rightarrow> (Address \<Rightarrow> u32 \<Rightarrow> 'w \<Rightarrow> ('c result \<times> 'w) option) \<Rightarrow>
     Address \<Rightarrow> MqttConnectMessage \<Rightarrow> u32 \<Rightarrow> 'c MqttClient \<Rightarrow> 'w \<Rightarrow>
     (Error option \<times> 'c MqttClient \<times> 'w) option" where
  "connect pf ops dial_tcp broker connect_message timeout_ms cl w =
     (if client_state cl = CONNECTED
      then Some (Some (Error ''MQTT client already connected''), cl, w)
      else
        let cl = cl\<lparr>client_state := CONNECTING\<rparr>
        in case dial_tcp broker timeout_ms w of
             None \<Rightarrow> None
           | Some (Inl dial_err, w) \<Rightarrow> Some (Some dial_err, cl, w)
           | Some (Inr tcp_conn, w) \<Rightarrow>
               let w = (case conn cl of None \<Rightarrow> w | Some c \<Rightarrow> conn_destroy ops c w);
                   cl = cl\<lparr>conn := Some tcp_conn,
                           keep_alive_seconds := connect_keep_alive connect_message,
                           rx_buffer := []\<rparr>
               in case encode_connect connect_message of
                    Inl encode_err \<Rightarrow> Some (fail_with ops encode_err cl w)
                  | Inr connect_packet \<Rightarrow>
                      let (send_err, cl, w) = send_encoded pf ops connect_packet cl w
                      in case send_err of
                           Some err \<Rightarrow> Some (Some err, cl, w)
                         | None \<Rightarrow>
                             let (until, w) = make_timeout_time_ms pf timeout_ms w
                             in await_connack pf ops until cl w)"

section \<open>Public member functions\<close>

text \<open>
  \<^verbatim>\<open>publish\<close> fills the payload with \<^verbatim>\<open>msg.payload.assign\<close>, which a span does not have; the
  message is taken to carry the bytes of the argument. \<^verbatim>\<open>dup\<close> and the packet identifier keep
  the defaults of the struct.
\<close>

definition publish ::
  "'w Platform \<Rightarrow> ('c, 'w) Connection \<Rightarrow> string \<Rightarrow> u8 list \<Rightarrow> bool \<Rightarrow> 'c MqttClient \<Rightarrow> 'w \<Rightarrow>
     Error option \<times> 'c MqttClient \<times> 'w" where
  "publish pf ops topic payload retain cl w =
     (if client_state cl \<noteq> CONNECTED
      then (Some (Error ''MQTT client is not connected''), cl, w)
      else
        case encode_publish
               \<lparr>publish_dup = False, publish_qos = 0, publish_retain = retain,
                publish_topic_name = topic, publish_packet_identifier = None,
                publish_payload = payload\<rparr> of
          Inl encode_err \<Rightarrow> (Some encode_err, cl, w)
        | Inr packet \<Rightarrow> send_encoded pf ops packet cl w)"

definition publish_string ::
  "'w Platform \<Rightarrow> ('c, 'w) Connection \<Rightarrow> string \<Rightarrow> string \<Rightarrow> bool \<Rightarrow> 'c MqttClient \<Rightarrow> 'w \<Rightarrow>
     Error option \<times> 'c MqttClient \<times> 'w" where
  "publish_string pf ops topic payload retain cl w =
     publish pf ops topic (bytes_of_string payload) retain cl w"

definition subscribe ::
  "'w Platform \<Rightarrow> ('c, 'w) Connection \<Rightarrow> string \<Rightarrow> u8 \<Rightarrow> 'c MqttClient \<Rightarrow> 'w \<Rightarrow>
     Error option \<times> 'c MqttClient \<times> 'w" where
  "subscribe pf ops topic qos cl w =
     (if client_state cl \<noteq> CONNECTED
      then (Some (Error ''MQTT client is not connected''), cl, w)
      else if qos > 0
      then (Some (Error ''MQTT client currently supports subscribe QoS 0 only''), cl, w)
      else
        let (id, cl) = allocate_packet_identifier cl
        in case encode_subscribe
                  \<lparr>subscribe_packet_identifier = id,
                   subscribe_topics = [\<lparr>topic_filter = topic, topic_qos = qos\<rparr>]\<rparr> of
             Inl encode_err \<Rightarrow> (Some encode_err, cl, w)
           | Inr packet \<Rightarrow> send_encoded pf ops packet cl w)"

text \<open>The part of \<^verbatim>\<open>poll\<close> after the read: pings and their timeout.\<close>

definition keep_alive_check ::
  "'w Platform \<Rightarrow> ('c, 'w) Connection \<Rightarrow> 'c MqttClient \<Rightarrow> 'w \<Rightarrow> Error option \<times> 'c MqttClient \<times> 'w" where
  "keep_alive_check pf ops cl w =
     (if keep_alive_seconds cl > 0 then
        let (now, w) = get_absolute_time pf w;
            keep_alive_us = int (unat (keep_alive_seconds cl)) * 1000 * 1000;
            ping_interval_us = keep_alive_us div 2;
            timeout_us = keep_alive_us + keep_alive_us div 2;
            since_last_tx_us = absolute_time_diff_us pf (last_tx cl) now;
            (err, cl, w) =
              (if \<not> waiting_for_pingresp cl \<and> since_last_tx_us \<ge> ping_interval_us then
                 (case encode_pingreq of
                    Inl err \<Rightarrow> (Some err, cl, w)
                  | Inr packet \<Rightarrow>
                      let (send_err, cl, w) = send_encoded pf ops packet cl w
                      in case send_err of
                           Some err \<Rightarrow> (Some err, cl, w)
                         | None \<Rightarrow> (None, cl\<lparr>waiting_for_pingresp := True\<rparr>, w))
               else (None, cl, w))
        in case err of
             Some err \<Rightarrow> (Some err, cl, w)
           | None \<Rightarrow>
               if waiting_for_pingresp cl then
                 let (now, w) = get_absolute_time pf w;
                     since_last_rx_us = absolute_time_diff_us pf (last_rx cl) now
                 in if since_last_rx_us \<ge> timeout_us
                    then fail_with ops (Error ''MQTT PINGRESP timeout'') cl w
                    else (None, cl, w)
               else (None, cl, w)
      else (None, cl, w))"

definition poll ::
  "'w Platform \<Rightarrow> ('c, 'w) Connection \<Rightarrow> 'c MqttClient \<Rightarrow> 'w \<Rightarrow> Error option \<times> 'c MqttClient \<times> 'w" where
  "poll pf ops cl w =
     (if client_state cl \<noteq> CONNECTED
      then (Some (Error ''MQTT client is not connected''), cl, w)
      else case conn cl of
        None \<Rightarrow> (Some NullDeref, cl, w)
      | Some c \<Rightarrow>
          let (r, c, w) = conn_read_nonblocking ops 256 c w;
              cl = cl\<lparr>conn := Some c\<rparr>
          in case r of
               Inl read_err \<Rightarrow> fail_with ops read_err cl w
             | Inr buffer \<Rightarrow>
                 let (err, cl, w) =
                   (if buffer \<noteq> [] then
                      let (now, w) = get_absolute_time pf w
                      in process_rx_buffer ops
                           (cl\<lparr>last_rx := now, rx_buffer := rx_buffer cl @ buffer\<rparr>) w
                    else (None, cl, w))
                 in case err of
                      Some err \<Rightarrow> (Some err, cl, w)
                    | None \<Rightarrow> keep_alive_check pf ops cl w)"

definition has_message :: "'c MqttClient \<Rightarrow> bool" where
  "has_message cl \<longleftrightarrow> incoming_messages cl \<noteq> []"

definition next_message :: "'c MqttClient \<Rightarrow> span MqttPublishMessage result \<times> 'c MqttClient" where
  "next_message cl =
     (case incoming_messages cl of
        [] \<Rightarrow> (Inl (Error ''No MQTT message available''), cl)
      | msg # msgs \<Rightarrow> (Inr msg, cl\<lparr>incoming_messages := msgs\<rparr>))"

definition disconnect ::
  "'w Platform \<Rightarrow> ('c, 'w) Connection \<Rightarrow> 'c MqttClient \<Rightarrow> 'w \<Rightarrow> Error option \<times> 'c MqttClient \<times> 'w" where
  "disconnect pf ops cl w =
     (if client_state cl \<noteq> CONNECTED then (None, cl, w)
      else case encode_disconnect of
        Inl encode_err \<Rightarrow> (Some encode_err, cl, w)
      | Inr packet \<Rightarrow>
          let (send_err, cl, w) = send_encoded pf ops packet cl w;
              (cl, w) = cleanup_connection ops cl w
          in (send_err, cl, w))"

definition is_connected :: "'c MqttClient \<Rightarrow> bool" where
  "is_connected cl \<longleftrightarrow> client_state cl = CONNECTED"

text \<open>What a queued payload denotes when it is read against a receive buffer.\<close>

definition span_bytes :: "u8 list \<Rightarrow> span \<Rightarrow> u8 list result" where
  "span_bytes buffer s = read_range buffer (span_offset s) (span_size s)"

end
