(* ===== verification/Mqtt_Client_Laws.thy ===== *)
theory Mqtt_Client_Laws
  imports Mqtt_Client
begin

text \<open>
  The correctness of \<^verbatim>\<open>MqttClient\<close>: the class invariant and what an error leaves behind,
  freedom from null dereferences, the framing of the incoming stream, the delivery of outgoing
  packets, packet identifiers, keep-alive, and the return of \<^verbatim>\<open>connect\<close>.
\<close>

section \<open>Outcomes\<close>

text \<open>A client after \<^verbatim>\<open>cleanup_connection\<close>.\<close>

definition closed :: "'c MqttClient \<Rightarrow> bool" where
  "closed cl \<longleftrightarrow> conn cl = None \<and> client_state cl = DISCONNECTED \<and> rx_buffer cl = [] \<and>
     incoming_messages cl = [] \<and> \<not> waiting_for_pingresp cl"

text \<open>
  The class invariant: there is a connection exactly in the state CONNECTED, nothing of an old
  connection is kept without one, and the next packet identifier is never zero.
\<close>

definition client_inv :: "'c MqttClient \<Rightarrow> bool" where
  "client_inv cl \<longleftrightarrow>
     (conn cl \<noteq> None \<longleftrightarrow> client_state cl = CONNECTED) \<and>
     (client_state cl \<noteq> CONNECTED \<longrightarrow>
        rx_buffer cl = [] \<and> incoming_messages cl = [] \<and> \<not> waiting_for_pingresp cl) \<and>
     next_packet_identifier cl \<noteq> 0"

text \<open>
  The common shape of a run: without an error the state and the presence of the connection
  are kept, with one the connection is closed; in both cases the identifiers are kept.
\<close>

definition keeps_or_closes ::
  "'c MqttClient \<Rightarrow> Error option \<times> 'c MqttClient \<times> 'w \<Rightarrow> bool" where
  "keeps_or_closes cl r \<longleftrightarrow>
     (let cl' = fst (snd r)
      in next_packet_identifier cl' = next_packet_identifier cl \<and>
         (if fst r = None
          then client_state cl' = client_state cl \<and> (conn cl' = None \<longleftrightarrow> conn cl = None)
          else closed cl'))"

definition safe_outcome :: "Error option \<Rightarrow> bool" where
  "safe_outcome e \<longleftrightarrow> (case e of None \<Rightarrow> True | Some err \<Rightarrow> \<not> is_fault err)"

lemma safe_outcome_simps [simp]:
  "safe_outcome None" "safe_outcome (Some err) \<longleftrightarrow> \<not> is_fault err"
  by (simp_all add: safe_outcome_def)

lemma closed_inv: "closed cl \<Longrightarrow> next_packet_identifier cl \<noteq> 0 \<Longrightarrow> client_inv cl"
  by (simp add: closed_def client_inv_def)

lemma cleanup_closed:
  "closed (fst (cleanup_connection ops cl w))"
  "next_packet_identifier (fst (cleanup_connection ops cl w)) = next_packet_identifier cl"
  by (simp_all add: cleanup_connection_def closed_def Let_def split: option.split prod.split)

lemma fail_with_outcome [simp]:
  "fst (fail_with ops err cl w) = Some err"
  "closed (fst (snd (fail_with ops err cl w)))"
  "next_packet_identifier (fst (snd (fail_with ops err cl w))) = next_packet_identifier cl"
  using cleanup_closed [of ops cl w] by (simp_all add: fail_with_def split: prod.split)

lemma fail_with_closes:
  "next_packet_identifier cl = next_packet_identifier cl0 \<Longrightarrow>
     keeps_or_closes cl0 (fail_with ops err cl w)"
  by (simp add: keeps_or_closes_def)

lemma keeps_or_closes_refl: "keeps_or_closes cl (None, cl, w)"
  by (simp add: keeps_or_closes_def)

lemma keeps_or_closes_trans:
  "\<lbrakk> client_state cl1 = client_state cl; conn cl1 = None \<longleftrightarrow> conn cl = None;
     next_packet_identifier cl1 = next_packet_identifier cl; keeps_or_closes cl1 r \<rbrakk> \<Longrightarrow>
     keeps_or_closes cl r"
  by (simp add: keeps_or_closes_def Let_def)

lemma keeps_or_closes_inv:
  assumes "keeps_or_closes cl r" and "next_packet_identifier cl \<noteq> 0" and "client_state cl = CONNECTED"
    and "conn cl \<noteq> None"
  shows "client_inv (fst (snd r))" "client_state (fst (snd r)) = CONNECTED \<longleftrightarrow> fst r = None"
  using assms by (auto simp: keeps_or_closes_def client_inv_def closed_def Let_def split: if_splits)

section \<open>Errors of the frame and of its packet are no faults\<close>

lemma frame_loop_error:
  "mqtt_frame_loop d off mul acc = Inl info \<Longrightarrow>
     frame_error info = None \<or> frame_error info = Some (Error ''Malformed MQTT remaining length'')"
  by (induction d off mul acc rule: mqtt_frame_loop.induct)
     (subst (asm) (2) mqtt_frame_loop.simps,
      auto simp: incomplete_frame_def Let_def split: if_splits)

lemma frame_info_error:
  "frame_error (mqtt_frame_info d) = Some err \<Longrightarrow> err = Error ''Malformed MQTT remaining length''"
  using frame_loop_error [of d 1 1 0]
  by (auto simp: mqtt_frame_info_def incomplete_frame_def Let_def split: if_splits sum.splits)

lemma fault_free_Inl: "fault_free r \<Longrightarrow> r = Inl e \<Longrightarrow> \<not> is_fault e"
  by simp

lemma handle_packet_safe: "safe_outcome (fst (handle_packet n packet cl))"
  using parse_publish_safe [of packet] parse_suback_safe [of packet] parse_pingresp_safe [of packet]
  by (auto simp: handle_packet_def split: MqttMessageType.split sum.split list.split)

section \<open>The receive buffer\<close>

text \<open>One round of the loop: it ends in one of four ways, or consumes a frame and goes on.\<close>

definition after_frame :: "MqttControlPacket \<Rightarrow> 'c MqttClient \<Rightarrow> 'c MqttClient" where
  "after_frame packet cl =
     (let n = frame_total_size (mqtt_frame_info (rx_buffer cl));
          cl' = snd (handle_packet n packet cl)
      in cl'\<lparr>rx_buffer := drop n (rx_buffer cl')\<rparr>)"

lemma after_frame_keeps [simp]:
  "conn (after_frame p cl) = conn cl"
  "client_state (after_frame p cl) = client_state cl"
  "next_packet_identifier (after_frame p cl) = next_packet_identifier cl"
  "last_tx (after_frame p cl) = last_tx cl"
  "last_rx (after_frame p cl) = last_rx cl"
  "keep_alive_seconds (after_frame p cl) = keep_alive_seconds cl"
  "rx_buffer (after_frame p cl) = drop (frame_total_size (mqtt_frame_info (rx_buffer cl))) (rx_buffer cl)"
  by (simp_all add: after_frame_def Let_def handle_packet_keeps)

definition round_ends :: "'c MqttClient \<Rightarrow> Error \<Rightarrow> 'c MqttClient \<Rightarrow> bool" where
  "round_ends cl err cl' \<longleftrightarrow>
     (let d = rx_buffer cl; info = mqtt_frame_info d; n = frame_total_size info
      in frame_error info = Some err \<and> cl' = cl
         \<or> frame_complete info \<and> parse_control_packet d = Inl err \<and> cl' = cl
         \<or> frame_complete info \<and>
           (\<exists>p. parse_control_packet d = Inr p \<and> handle_packet n p cl = (Some err, cl')))"

lemma process_rx_buffer_cases:
  obtains (fails) err cl' where "round_ends cl err cl'" "process_rx_buffer ops cl w = fail_with ops err cl' w"
  | (waits) "frame_error (mqtt_frame_info (rx_buffer cl)) = None"
      "\<not> frame_complete (mqtt_frame_info (rx_buffer cl))" "process_rx_buffer ops cl w = (None, cl, w)"
  | (consumes) p where "frame_complete (mqtt_frame_info (rx_buffer cl))"
      "parse_control_packet (rx_buffer cl) = Inr p"
      "fst (handle_packet (frame_total_size (mqtt_frame_info (rx_buffer cl))) p cl) = None"
      "process_rx_buffer ops cl w = process_rx_buffer ops (after_frame p cl) w"
proof -
  let ?d = "rx_buffer cl" let ?info = "mqtt_frame_info ?d" let ?n = "frame_total_size ?info"
  let ?result = "process_rx_buffer ops cl w"
  note run = process_rx_buffer.simps [of ops cl w]
  show thesis
  proof (cases "frame_error ?info")
    case (Some err)
    then have "?result = fail_with ops err cl w" by (simp add: run Let_def)
    with Some show thesis by (intro fails) (simp_all add: round_ends_def Let_def)
  next
    case ok: None
    show thesis
    proof (cases "frame_complete ?info")
      case False
      with ok have "?result = (None, cl, w)" by (simp add: run Let_def)
      with False ok show thesis by (intro waits)
    next
      case True
      note parse = parse_complete_frame(1) [OF True]
      show thesis
      proof (cases "parse_control_packet ?d")
        case (Inl err)
        with ok True parse have "?result = fail_with ops err cl w" by (simp add: run Let_def)
        with True Inl show thesis by (intro fails) (simp_all add: round_ends_def Let_def)
      next
        case (Inr p)
        obtain e cl' where h: "handle_packet ?n p cl = (e, cl')" by fastforce
        show thesis
        proof (cases e)
          case (Some err)
          with ok True Inr parse h have "?result = fail_with ops err cl' w" by (simp add: run Let_def)
          with True Inr h Some show thesis by (intro fails) (simp_all add: round_ends_def Let_def)
        next
          case None
          with ok True Inr parse h have "?result = process_rx_buffer ops (after_frame p cl) w"
            by (simp add: run Let_def after_frame_def)
          with True Inr h None show thesis by (intro consumes) simp_all
        qed
      qed
    qed
  qed
qed

lemma after_frame_shorter:
  "frame_complete (mqtt_frame_info (rx_buffer cl)) \<Longrightarrow>
     length (rx_buffer (after_frame p cl)) < length (rx_buffer cl)"
  using frame_info_size [of "rx_buffer cl"] by simp

lemma round_ends_outcome:
  assumes "round_ends cl err cl'"
  shows "\<not> is_fault err" "next_packet_identifier cl' = next_packet_identifier cl"
proof -
  have p: "parse_control_packet (rx_buffer cl) = Inl err \<Longrightarrow> \<not> is_fault err"
    using fault_free_Inl [OF parse_control_packet_safe] .
  have h: "handle_packet n q cl = (Some err, cl') \<Longrightarrow>
      \<not> is_fault err \<and> next_packet_identifier cl' = next_packet_identifier cl" for n q
    using handle_packet_safe [of n q cl] handle_packet_keeps(4) [of n q cl] by simp
  show "\<not> is_fault err" "next_packet_identifier cl' = next_packet_identifier cl"
    using assms p h by (auto simp: round_ends_def Let_def dest!: frame_info_error)
qed

lemma process_rx_buffer_outcome:
  "keeps_or_closes cl (process_rx_buffer ops cl w) \<and>
   safe_outcome (fst (process_rx_buffer ops cl w))"
proof (induction "length (rx_buffer cl)" arbitrary: cl rule: less_induct)
  case less
  show ?case
  proof (cases rule: process_rx_buffer_cases [of cl ops w])
    case (fails err cl')
    then show ?thesis by (simp add: fail_with_closes round_ends_outcome)
  next
    case waits
    then show ?thesis by (simp add: keeps_or_closes_refl)
  next
    case (consumes p)
    from less [OF after_frame_shorter [OF consumes(1)], of p] show ?thesis
      unfolding consumes(4) by (auto elim: keeps_or_closes_trans [rotated 3])
  qed
qed

section \<open>The incoming stream\<close>

lemma handle_packet_rx:
  "handle_packet n p (cl\<lparr>rx_buffer := d\<rparr>) =
     (fst (handle_packet n p cl), (snd (handle_packet n p cl))\<lparr>rx_buffer := d\<rparr>)"
  by (auto simp: handle_packet_def split: MqttMessageType.split sum.split list.split)

lemma after_frame_extend:
  assumes "frame_complete (mqtt_frame_info (rx_buffer cl))"
  shows "after_frame p (cl\<lparr>rx_buffer := rx_buffer cl @ y\<rparr>) =
    (after_frame p cl)\<lparr>rx_buffer := rx_buffer (after_frame p cl) @ y\<rparr>"
  using frame_info_size(2) [OF assms]
  by (simp add: after_frame_def Let_def handle_packet_rx frame_info_extend [OF assms] handle_packet_keeps)

lemma consume_frame:
  assumes "frame_complete (mqtt_frame_info (rx_buffer cl))"
    and "parse_control_packet (rx_buffer cl) = Inr p"
    and "fst (handle_packet (frame_total_size (mqtt_frame_info (rx_buffer cl))) p cl) = None"
  shows "process_rx_buffer ops cl w = process_rx_buffer ops (after_frame p cl) w"
proof (cases rule: process_rx_buffer_cases [of cl ops w])
  case (fails err cl')
  have "frame_error (mqtt_frame_info (rx_buffer cl)) = None"
    using assms(1) by (auto elim: frame_info_completeD)
  with fails(1) assms show ?thesis by (auto simp: round_ends_def Let_def)
qed (use assms in simp_all)

lemma wait_for_frame:
  assumes "frame_error (mqtt_frame_info (rx_buffer cl)) = None"
    and "\<not> frame_complete (mqtt_frame_info (rx_buffer cl))"
  shows "process_rx_buffer ops cl w = (None, cl, w)"
  using assms by (cases rule: process_rx_buffer_cases [of cl ops w])
    (auto simp: round_ends_def Let_def)

text \<open>It does not matter in which pieces the bytes arrive.\<close>

lemma process_rx_buffer_chunks:
  "process_rx_buffer ops cl w = (None, cl', w') \<Longrightarrow>
     process_rx_buffer ops (cl\<lparr>rx_buffer := rx_buffer cl @ y\<rparr>) w =
     process_rx_buffer ops (cl'\<lparr>rx_buffer := rx_buffer cl' @ y\<rparr>) w'"
proof (induction "length (rx_buffer cl)" arbitrary: cl rule: less_induct)
  case less
  let ?cly = "cl\<lparr>rx_buffer := rx_buffer cl @ y\<rparr>"
  show ?case
  proof (cases rule: process_rx_buffer_cases [of cl ops w])
    case (fails err cl1)
    have "fst (process_rx_buffer ops cl w) = Some err" unfolding fails(2) by simp
    with less.prems show ?thesis by simp
  next
    case waits
    then show ?thesis using less.prems by simp
  next
    case (consumes p)
    note ext = frame_info_extend [OF consumes(1), of y]
    have "process_rx_buffer ops ?cly w = process_rx_buffer ops (after_frame p ?cly) w"
      using consumes ext by (intro consume_frame) (simp_all add: parse_extend handle_packet_rx)
    also have "\<dots> = process_rx_buffer ops (cl'\<lparr>rx_buffer := rx_buffer cl' @ y\<rparr>) w'"
      using less.hyps [OF after_frame_shorter [OF consumes(1)], of p] less.prems consumes(4)
      by (simp add: after_frame_extend [OF consumes(1)])
    finally show ?thesis .
  qed
qed

text \<open>
  Which packets the client takes, and what it queues for one: the topic, the flags and the
  number of payload bytes.
\<close>

definition packet_accepted :: "MqttControlPacket \<Rightarrow> bool" where
  "packet_accepted p \<longleftrightarrow>
     (case packet_type p of
        PUBLISH \<Rightarrow> (case parse_publish p of Inl _ \<Rightarrow> False | Inr m \<Rightarrow> publish_qos m = 0)
      | PINGRESP \<Rightarrow> packet_body p = []
      | SUBACK \<Rightarrow> (case parse_suback p of Inl _ \<Rightarrow> False | Inr m \<Rightarrow>
           (case suback_return_codes m of [] \<Rightarrow> False | code # _ \<Rightarrow> code \<noteq> FAILURE))
      | _ \<Rightarrow> True)"

definition described :: "('p \<Rightarrow> nat) \<Rightarrow> 'p MqttPublishMessage \<Rightarrow> string \<times> bool \<times> bool \<times> nat" where
  "described n m = (publish_topic_name m, publish_dup m, publish_retain m, n (publish_payload m))"

definition announced :: "MqttControlPacket \<Rightarrow> (string \<times> bool \<times> bool \<times> nat) list" where
  "announced p =
     (if packet_type p = PUBLISH
      then (case parse_publish p of Inl _ \<Rightarrow> [] | Inr m \<Rightarrow> [described length m]) else [])"

definition packet_frame :: "MqttControlPacket \<Rightarrow> u8 list" where
  "packet_frame p = frame_bytes (packet_type p) (packet_flags p) (packet_body p)"

lemma handle_accepted:
  assumes "packet_accepted p"
  shows "fst (handle_packet n p cl) = None"
    and "map (described span_size) (incoming_messages (snd (handle_packet n p cl))) =
      map (described span_size) (incoming_messages cl) @ announced p"
    and "waiting_for_pingresp (snd (handle_packet n p cl)) =
      (waiting_for_pingresp cl \<and> packet_type p \<noteq> PINGRESP)"
  using assms
  by (auto simp: packet_accepted_def handle_packet_def announced_def described_def queued_message_def
      parse_pingresp_def parse_empty_def split: MqttMessageType.splits sum.splits list.splits)

lemma packet_frame_facts:
  assumes "valid_packet p"
  shows "mqtt_frame_info (packet_frame p @ rest) =
      \<lparr>frame_complete = True, frame_total_size = length (packet_frame p), frame_error = None\<rparr>"
    and "parse_control_packet (packet_frame p @ rest) = Inr p"
proof -
  have "length (packet_body p) \<le> 268435455" using assms by (simp add: valid_packet_def)
  then show "mqtt_frame_info (packet_frame p @ rest) =
      \<lparr>frame_complete = True, frame_total_size = length (packet_frame p), frame_error = None\<rparr>"
    unfolding packet_frame_def by (rule frame_info_frame)
  show "parse_control_packet (packet_frame p @ rest) = Inr p"
    using parse_frame [of "packet_type p" "packet_flags p" "packet_body p" rest] assms
    by (simp add: packet_frame_def flip: mk_packet_eq)
qed

lemma process_stream:
  assumes "\<forall>p\<in>set ps. valid_packet p \<and> packet_accepted p"
    and "rx_buffer cl = concat (map packet_frame ps) @ tail"
    and "frame_error (mqtt_frame_info tail) = None" "\<not> frame_complete (mqtt_frame_info tail)"
  shows "\<exists>cl'. process_rx_buffer ops cl w = (None, cl', w) \<and> rx_buffer cl' = tail \<and>
      map (described span_size) (incoming_messages cl') =
        map (described span_size) (incoming_messages cl) @ concat (map announced ps) \<and>
      waiting_for_pingresp cl' = (waiting_for_pingresp cl \<and> (\<forall>p\<in>set ps. packet_type p \<noteq> PINGRESP))"
  using assms
proof (induction ps arbitrary: cl)
  case Nil
  then show ?case by (simp add: wait_for_frame)
next
  case (Cons p ps)
  have p: "valid_packet p" "packet_accepted p" using Cons.prems(1) by simp_all
  let ?rest = "concat (map packet_frame ps) @ tail"
  have rx: "rx_buffer cl = packet_frame p @ ?rest" using Cons.prems(2) by simp
  note facts = packet_frame_facts [OF p(1), of ?rest, folded rx]
  have run: "process_rx_buffer ops cl w = process_rx_buffer ops (after_frame p cl) w"
    by (rule consume_frame) (simp_all add: facts handle_accepted [OF p(2)])
  have rx': "rx_buffer (after_frame p cl) = ?rest" by (simp add: facts) (simp add: rx)
  have m: "map (described span_size) (incoming_messages (after_frame p cl)) =
      map (described span_size) (incoming_messages cl) @ announced p"
    and wp: "waiting_for_pingresp (after_frame p cl) = (waiting_for_pingresp cl \<and> packet_type p \<noteq> PINGRESP)"
    by (simp_all add: after_frame_def Let_def handle_accepted [OF p(2)])
  have "\<forall>p\<in>set ps. valid_packet p \<and> packet_accepted p" using Cons.prems(1) by simp
  from Cons.IH [OF this rx' Cons.prems(3,4)] show ?case
    unfolding run m wp by auto
qed

text \<open>
  A queued payload denotes the bytes of the message as long as the packet is at the start of
  the buffer; it is erased from there before the loop goes on.
\<close>

lemma queued_payload_denotes:
  assumes "n \<le> length d" and "length (publish_payload m) \<le> n"
    and "publish_payload m = drop (n - length (publish_payload m)) (take n d)"
  shows "span_bytes d (publish_payload (queued_message n m)) = Inr (publish_payload m)"
proof -
  let ?k = "length (publish_payload m)"
  have "drop (n - ?k) (take n d) = take ?k (drop (n - ?k) d)"
    using assms(2) by (simp add: drop_take)
  with assms show ?thesis
    by (simp add: span_bytes_def queued_message_def read_range_def)
qed

lemma parse_publish_payload:
  "parse_publish p = Inr m \<Longrightarrow>
     \<exists>off. off \<le> length (packet_body p) \<and> publish_payload m = drop off (packet_body p)"
  by (auto simp: parse_publish_def Let_def read_range_def size_sub_def split: if_splits prod.splits
      dest!: read_string_bound read_u16_bound)

lemma single_publish:
  assumes p: "valid_packet p" "packet_type p = PUBLISH" "parse_publish p = Inr m" "publish_qos m = 0"
    and rx: "rx_buffer cl = packet_frame p"
  defines "q \<equiv> queued_message (length (packet_frame p)) m"
  shows "process_rx_buffer ops cl w =
      (None, cl\<lparr>incoming_messages := incoming_messages cl @ [q], rx_buffer := []\<rparr>, w)"
    and "span_bytes (rx_buffer cl) (publish_payload q) = Inr (publish_payload m)"
    and "publish_payload m \<noteq> [] \<Longrightarrow> span_bytes [] (publish_payload q) = Inl OutOfBounds"
proof -
  let ?n = "length (packet_frame p)"
  note facts = packet_frame_facts [OF p(1), of "[]", simplified, folded rx]
  have h: "handle_packet ?n p cl = (None, cl\<lparr>incoming_messages := incoming_messages cl @ [q]\<rparr>)"
    using p(2-4) by (simp add: handle_packet_def q_def)
  have "process_rx_buffer ops cl w = process_rx_buffer ops (after_frame p cl) w"
    by (rule consume_frame) (use h in \<open>simp_all add: facts, simp_all add: rx\<close>)
  moreover have "after_frame p cl =
      cl\<lparr>incoming_messages := incoming_messages cl @ [q], rx_buffer := []\<rparr>"
    using h by (simp add: after_frame_def facts Let_def) (simp add: rx)
  ultimately show "process_rx_buffer ops cl w =
      (None, cl\<lparr>incoming_messages := incoming_messages cl @ [q], rx_buffer := []\<rparr>, w)"
    by (simp add: wait_for_frame mqtt_frame_info_def incomplete_frame_def)
  obtain off where off: "off \<le> length (packet_body p)" "publish_payload m = drop off (packet_body p)"
    using parse_publish_payload [OF p(3)] by blast
  have suffix: "drop (?n - length (publish_payload m)) (packet_frame p) = publish_payload m"
    and len: "length (publish_payload m) < ?n"
    using off by (auto simp: packet_frame_def frame_bytes_def drop_Cons')
  show "span_bytes (rx_buffer cl) (publish_payload q) = Inr (publish_payload m)"
    unfolding q_def rx using suffix len by (intro queued_payload_denotes) simp_all
  show "span_bytes [] (publish_payload q) = Inl OutOfBounds" if "publish_payload m \<noteq> []"
    using that by (simp add: q_def queued_message_def span_bytes_def read_range_def)
qed

section \<open>Outgoing packets\<close>

lemma send_loop_run:
  assumes "conn cl = Some c" and "conn_write ops (drop written bytes) c w = (r, c', w')"
  shows "send_loop ops bytes written cl w =
    (if written < length bytes
     then (case r of
         Inl err \<Rightarrow> fail_with ops err (cl\<lparr>conn := Some c'\<rparr>) w'
       | Inr k \<Rightarrow>
           if k = 0
           then fail_with ops (Error ''MQTT packet could not be fully written'') (cl\<lparr>conn := Some c'\<rparr>) w'
           else send_loop ops bytes (written + k) (cl\<lparr>conn := Some c'\<rparr>) w')
     else (None, cl, w))"
  using assms by (subst send_loop.simps) (simp add: Let_def split: sum.split)

text \<open>
  The client's lemmas rest on the contract of \<open>Connection\<close>, and where the clock is read as well,
  on its timed extension. They are collected under names of their own and read off for an
  implementation where the client is put on top of it.
\<close>

locale mqtt_transport = connection ops sent
  for ops :: "('c, 'w) Connection" and sent :: "'c \<Rightarrow> 'w \<Rightarrow> u8 list"

locale timed_mqtt_transport = mqtt_transport ops sent + timed_connection ops sent pf
  for ops :: "('c, 'w) Connection" and sent :: "'c \<Rightarrow> 'w \<Rightarrow> u8 list" and pf :: "'w Platform"

context mqtt_transport
begin

lemma send_loop_outcome:
  "conn cl \<noteq> None \<Longrightarrow>
     keeps_or_closes cl (send_loop ops bytes written cl w) \<and>
     safe_outcome (fst (send_loop ops bytes written cl w))"
proof (induction "length bytes - written" arbitrary: written cl w rule: less_induct)
  case less
  then obtain c where c: "conn cl = Some c" by auto
  obtain r c' w' where wr: "conn_write ops (drop written bytes) c w = (r, c', w')"
    by (cases "conn_write ops (drop written bytes) c w")
  let ?cl = "cl\<lparr>conn := Some c'\<rparr>"
  have safe: "fault_free r" using write_safe [of "drop written bytes" c w] wr by simp
  have IH: "keeps_or_closes cl (send_loop ops bytes (written + n) ?cl w') \<and>
      safe_outcome (fst (send_loop ops bytes (written + n) ?cl w'))"
    if "written < length bytes" "n \<noteq> 0" for n
    using less.hyps [of "written + n" ?cl w'] that
      keeps_or_closes_trans [of ?cl cl "send_loop ops bytes (written + n) ?cl w'"]
    by (simp add: c)
  show ?case
    using IH safe
    by (cases r) (simp_all add: send_loop_run [OF c wr] keeps_or_closes_refl fail_with_closes)
qed

lemma send_loop_sent:
  "\<lbrakk> send_loop ops bytes written cl w = (None, cl', w'); conn cl = Some c; written \<le> length bytes \<rbrakk> \<Longrightarrow>
     \<exists>c'. cl' = cl\<lparr>conn := Some c'\<rparr> \<and> sent c' w' = sent c w @ drop written bytes"
proof (induction "length bytes - written" arbitrary: written cl w c rule: less_induct)
  case less
  obtain r c1 w1 where wr: "conn_write ops (drop written bytes) c w = (r, c1, w1)"
    by (cases "conn_write ops (drop written bytes) c w")
  note run = send_loop_run [OF less.prems(2) wr]
  show ?case
  proof (cases "written < length bytes")
    case False
    with less.prems run show ?thesis by (intro exI [of _ c]) simp
  next
    case True
    let ?cl = "cl\<lparr>conn := Some c1\<rparr>"
    obtain n where r: "r = Inr n" and n: "n \<noteq> 0"
        and rec: "send_loop ops bytes (written + n) ?cl w1 = (None, cl', w')"
      using less.prems(1) True unfolding run
      by (cases r) (auto simp: fail_with_def split: if_splits prod.splits)
    have bound: "n \<le> length (drop written bytes)" and
        sent: "sent c1 w1 = sent c w @ take n (drop written bytes)"
      using wr unfolding r by (rule write_bound, rule write_sent)
    have "length bytes - (written + n) < length bytes - written" and "written + n \<le> length bytes"
      using n True bound by auto
    from less.hyps [OF this(1) rec _ this(2), of c1] obtain c' where
      "cl' = ?cl\<lparr>conn := Some c'\<rparr>" "sent c' w' = sent c1 w1 @ drop (written + n) bytes" by auto
    moreover have "take n (drop written bytes) @ drop (written + n) bytes = drop written bytes"
      by (metis add.commute append_take_drop_id drop_drop)
    ultimately show ?thesis using sent by (intro exI [of _ c'] conjI) (simp, simp only: append_assoc)
  qed
qed

lemma send_encoded_outcome:
  "keeps_or_closes cl (send_encoded pf ops packet cl w) \<and>
   safe_outcome (fst (send_encoded pf ops packet cl w))"
proof (cases "conn cl")
  case None
  then show ?thesis by (simp add: send_encoded_def fail_with_closes)
next
  case (Some c)
  then show ?thesis
    using send_loop_outcome [of cl "packet_bytes packet" 0 w]
    by (auto simp: send_encoded_def keeps_or_closes_def Let_def closed_def split: prod.split option.split)
qed

end

context timed_mqtt_transport
begin

text \<open>A packet that is sent without an error has been passed on to the last byte.\<close>

lemma send_encoded_sent:
  assumes "send_encoded pf ops packet cl w = (None, cl', w')" and "conn cl = Some c"
  shows "\<exists>c'. conn cl' = Some c' \<and> sent c' w' = sent c w @ packet_bytes packet"
proof -
  obtain cl1 w1 where l: "send_loop ops (packet_bytes packet) 0 cl w = (None, cl1, w1)"
    and now: "w' = snd (get_absolute_time pf w1)" "cl' = cl1\<lparr>last_tx := fst (get_absolute_time pf w1)\<rparr>"
    using assms by (auto simp: send_encoded_def Let_def split: prod.splits option.splits)
  from send_loop_sent [OF l assms(2)] show ?thesis by (auto simp: now clock_sent)
qed

end

section \<open>The class invariant\<close>

lemma new_client_inv: "client_inv (new_MqttClient pf)"
  by (simp add: client_inv_def new_MqttClient_def)

lemma allocate_inv:
  assumes "next_packet_identifier cl \<noteq> 0" and "allocate_packet_identifier cl = (i, cl')"
  shows "i \<noteq> 0" "next_packet_identifier cl' \<noteq> 0" "conn cl' = conn cl"
    "client_state cl' = client_state cl"
  using assms by (auto simp: allocate_packet_identifier_def Let_def split: if_splits)

lemma publish_encode_safe: "encode_publish m = Inl e \<Longrightarrow> \<not> is_fault e"
  using encode_publish_fault_free [of m] by simp

lemma encode_topics_fault_free: "fault_free (encode_topics out ts)"
  by (induction out ts rule: encode_topics.induct) simp_all

lemma encode_topics_safe: "encode_topics out ts = Inl e \<Longrightarrow> \<not> is_fault e"
  using encode_topics_fault_free [of out ts] by simp

lemma make_packet_fault_free: "fault_free (make_packet t f b)"
  by (simp add: make_packet_eq)

lemma encode_safe:
  "encode_subscribe s = Inl e \<Longrightarrow> \<not> is_fault e"
  "encode_connect m = Inl e \<Longrightarrow> \<not> is_fault e"
  by (auto simp: encode_subscribe_def encode_connect_def validate_packet_identifier_def bindE_def
      make_packet_eq split: option.splits if_splits sum.splits dest: encode_topics_safe)

lemma encode_pingreq_value: "encode_pingreq = Inr \<lparr>packet_bytes = [0xC0, 0]\<rparr>"
  by (simp add: encode_pingreq_def codec_eval)

lemma encode_disconnect_value: "encode_disconnect = Inr \<lparr>packet_bytes = [0xE0, 0]\<rparr>"
  by (simp add: encode_disconnect_def codec_eval)

section \<open>connect\<close>

lemma fail_connect_outcome [simp]:
  "fst (fail_connect ops err cl w) = Some (Some err)"
  "closed (fst (snd (fail_connect ops err cl w)))"
  "next_packet_identifier (fst (snd (fail_connect ops err cl w))) = next_packet_identifier cl"
  using cleanup_closed [of ops cl w] by (simp_all add: fail_connect_def split: prod.split)

text \<open>What one read does to a client that is waiting for the CONNACK.\<close>

definition connect_progress ::
  "'w Platform \<Rightarrow> 'w \<Rightarrow> 'c MqttClient \<Rightarrow> Error option option \<times> 'c MqttClient \<times> 'w \<Rightarrow> bool" where
  "connect_progress pf w cl r \<longleftrightarrow>
     (let cl' = fst (snd r)
      in next_packet_identifier cl' = next_packet_identifier cl \<and>
         (case fst r of
            None \<Rightarrow> client_state cl' = client_state cl \<and> conn cl' = conn cl \<and>
              snd (snd r) = snd (get_absolute_time pf w)
          | Some None \<Rightarrow> client_state cl' = CONNECTED \<and> conn cl' = conn cl
          | Some (Some e) \<Rightarrow> closed cl' \<and> \<not> is_fault e))"

lemma connect_progress_fail:
  "\<not> is_fault err \<Longrightarrow> next_packet_identifier cl' = next_packet_identifier cl \<Longrightarrow>
     connect_progress pf w cl (fail_connect ops err cl' w')"
  by (simp add: connect_progress_def Let_def)

lemma connect_received_progress: "connect_progress pf w cl (connect_received pf ops buffer cl w)"
proof -
  have p: "parse_control_packet d = Inl e \<Longrightarrow> \<not> is_fault e" for d e
    using fault_free_Inl [OF parse_control_packet_safe] .
  have c: "parse_connack q = Inl e \<Longrightarrow> \<not> is_fault e" for q e
    using fault_free_Inl [OF parse_connack_safe] .
  show ?thesis
    unfolding connect_received_def Let_def case_prod_beta
    by (auto split: option.split sum.split dest: p c frame_info_error intro!: connect_progress_fail)
       (simp_all add: connect_progress_def)
qed

text \<open>The invariant over the loop, and its end.\<close>

definition connect_result :: "'c MqttClient \<Rightarrow> Error option \<times> 'c MqttClient \<times> 'w \<Rightarrow> bool" where
  "connect_result cl r \<longleftrightarrow>
     (let cl' = fst (snd r)
      in next_packet_identifier cl' = next_packet_identifier cl \<and> safe_outcome (fst r) \<and>
         (if fst r = None then client_state cl' = CONNECTED \<and> conn cl' \<noteq> None else closed cl'))"

lemma connect_result_fail:
  "\<not> is_fault err \<Longrightarrow> next_packet_identifier cl' = next_packet_identifier cl \<Longrightarrow>
     connect_result cl (fail_with ops err cl' w')"
  by (simp add: connect_result_def Let_def)

context mqtt_transport
begin

lemma connect_round_outcome:
  assumes "conn cl \<noteq> None"
  shows "case connect_round pf ops until cl w of
      Inl r \<Rightarrow> connect_result cl r
    | Inr (cl', w') \<Rightarrow> conn cl' \<noteq> None \<and> next_packet_identifier cl' = next_packet_identifier cl"
proof -
  obtain c where c: "conn cl = Some c" using assms by auto
  obtain rd c1 w1 where rd: "conn_read_nonblocking ops 256 c w = (rd, c1, w1)"
    by (cases "conn_read_nonblocking ops 256 c w")
  let ?cl = "cl\<lparr>conn := Some c1\<rparr>"
  have safe: "fault_free rd" using read_safe [of 256 c w] rd by simp
  show ?thesis
  proof (cases rd)
    case (Inl e)
    with safe show ?thesis by (simp add: connect_round_def c rd connect_result_fail)
  next
    case (Inr buffer)
    define r where "r = (if buffer \<noteq> [] then connect_received pf ops buffer ?cl w1 else (None, ?cl, w1))"
    have "(case fst r of None \<Rightarrow> conn (fst (snd r)) = Some c1
        | Some None \<Rightarrow> client_state (fst (snd r)) = CONNECTED \<and> conn (fst (snd r)) = Some c1
        | Some (Some e) \<Rightarrow> closed (fst (snd r)) \<and> \<not> is_fault e) \<and>
        next_packet_identifier (fst (snd r)) = next_packet_identifier cl"
      using connect_received_progress [of pf w1 ?cl ops buffer]
      by (auto simp: r_def connect_progress_def Let_def split: option.splits)
    moreover have "connect_round pf ops until cl w =
        (let (outcome, cl, w) = r in case outcome of
           Some err \<Rightarrow> Inl (err, cl, w)
         | None \<Rightarrow> let (now, w) = get_absolute_time pf w
             in if absolute_time_diff_us pf now until \<le> 0
                then Inl (fail_with ops (Error ''MQTT CONNACK timeout'') cl w)
                else Inr (cl, sleep_ms pf 10 w))"
      by (simp add: connect_round_def c rd Inr r_def Let_def)
    ultimately show ?thesis
      by (cases r) (auto simp: Let_def connect_result_def split: option.splits prod.split)
  qed
qed

lemma await_connack_result:
  assumes "await_connack pf ops until cl w = Some r" and "conn cl \<noteq> None"
  shows "connect_result cl r"
proof -
  have "ops' = ops \<longrightarrow> conn cl \<noteq> None \<longrightarrow> connect_result cl r"
    if "await_connack pf ops' until cl w = Some r" for pf ops' until cl w r
    using that
  proof (induction rule: await_connack.raw_induct [rotated, consumes 1, case_names step])
    case (step await pf ops' until cl w r)
    show ?case
    proof (intro impI)
      assume o: "ops' = ops" and c: "conn cl \<noteq> None"
      show "connect_result cl r"
      proof (cases "connect_round pf ops until cl w")
        case (Inl x)
        then show ?thesis
          using step(2) connect_round_outcome [OF c, of pf until w] by (simp add: o)
      next
        case (Inr x)
        then obtain cl' w' where x: "connect_round pf ops until cl w = Inr (cl', w')" by (cases x) simp
        then have "conn cl' \<noteq> None" "next_packet_identifier cl' = next_packet_identifier cl"
          using connect_round_outcome [OF c, of pf until w] by simp_all
        moreover have "connect_result cl' r"
          using step(2) step(1) [of pf ops' until cl' w' r] x calculation(1) by (simp add: o)
        ultimately show ?thesis by (simp add: connect_result_def Let_def)
      qed
    qed
  qed
  with assms show ?thesis by blast
qed

end

section \<open>The public operations\<close>

text \<open>
  The result of an operation on a connected client, when it may also fail without touching the
  connection: the invariant holds afterwards and the error is no memory fault.
\<close>

definition good_run :: "Error option \<times> 'c MqttClient \<times> 'w \<Rightarrow> bool" where
  "good_run r \<longleftrightarrow> client_inv (fst (snd r)) \<and> safe_outcome (fst r)"

lemma client_inv_conn: "client_inv cl \<Longrightarrow> client_state cl = CONNECTED \<Longrightarrow> conn cl \<noteq> None"
  by (simp add: client_inv_def)

lemma client_inv_id: "client_inv cl \<Longrightarrow> next_packet_identifier cl \<noteq> 0"
  by (simp add: client_inv_def)

lemma good_run_keeps:
  assumes "keeps_or_closes cl r \<and> safe_outcome (fst r)" and "client_state cl = CONNECTED"
    and "conn cl \<noteq> None" and "next_packet_identifier cl \<noteq> 0"
  shows "good_run r"
  using assms keeps_or_closes_inv(1) [of cl r] by (simp add: good_run_def)

lemma connect_result_good:
  "connect_result cl r \<Longrightarrow> next_packet_identifier cl \<noteq> 0 \<Longrightarrow> good_run r"
  by (auto simp: connect_result_def good_run_def Let_def client_inv_def closed_def split: if_splits)

text \<open>Dialling returns a connection or an error, and commits no memory fault.\<close>

definition dial_safe :: "(Address \<Rightarrow> u32 \<Rightarrow> 'w \<Rightarrow> ('c result \<times> 'w) option) \<Rightarrow> bool" where
  "dial_safe dial \<longleftrightarrow> (\<forall>a t w r w'. dial a t w = Some (r, w') \<longrightarrow> fault_free r)"

context mqtt_transport
begin

lemma connect_good:
  assumes inv: "client_inv cl" and dial: "dial_safe dial"
    and run: "connect pf ops dial broker m timeout cl w = Some r"
  shows "good_run r" "fst r = None \<Longrightarrow> client_state (fst (snd r)) = CONNECTED"
    "fst r \<noteq> None \<Longrightarrow> client_state cl \<noteq> CONNECTED \<Longrightarrow> client_state (fst (snd r)) \<noteq> CONNECTED"
proof -
  have id: "next_packet_identifier cl \<noteq> 0" using inv by (rule client_inv_id)
  have "good_run r \<and> (fst r = None \<longrightarrow> client_state (fst (snd r)) = CONNECTED) \<and>
      (fst r \<noteq> None \<longrightarrow> client_state cl \<noteq> CONNECTED \<longrightarrow> client_state (fst (snd r)) \<noteq> CONNECTED)"
  proof (cases "client_state cl = CONNECTED")
    case True
    with run inv show ?thesis by (auto simp: connect_def good_run_def)
  next
    case disc: False
    then have none: "conn cl = None" using inv by (auto simp: client_inv_def)
    note run = run [unfolded connect_def, simplified disc none if_False Let_def option.case]
    obtain d w1 where d: "dial broker timeout w = Some (d, w1)"
      using run by (cases "dial broker timeout w") auto
    have fd: "fault_free d" using dial d unfolding dial_safe_def by blast
    show ?thesis
    proof (cases d)
      case (Inl e)
      with run d fd inv disc show ?thesis by (auto simp: good_run_def client_inv_def)
    next
      case (Inr c)
      let ?cl = "cl\<lparr>client_state := CONNECTING, conn := Some c,
        keep_alive_seconds := connect_keep_alive m, rx_buffer := []\<rparr>"
      have res: "connect_result ?cl r \<Longrightarrow> ?thesis"
        using connect_result_good [of ?cl r] id
        by (auto simp: connect_result_def Let_def closed_def)
      show ?thesis
      proof (cases "encode_connect m")
        case (Inl e)
        with run d Inr none have "r = fail_with ops e ?cl w1" by simp
        then show ?thesis
          using encode_safe(2) [OF Inl] by (intro res) (simp add: connect_result_fail)
      next
        case enc: (Inr packet)
        obtain se cl1 w2 where s: "send_encoded pf ops packet ?cl w1 = (se, cl1, w2)"
          by (cases "send_encoded pf ops packet ?cl w1")
        have o: "keeps_or_closes ?cl (se, cl1, w2) \<and> safe_outcome se"
          using send_encoded_outcome [of ?cl pf packet w1] s by simp
        show ?thesis
        proof (cases se)
          case (Some e)
          with run d Inr enc s none have "r = (Some e, cl1, w2)" by simp
          with o Some show ?thesis
            by (intro res) (simp add: keeps_or_closes_def connect_result_def Let_def)
        next
          case None
          with run d Inr enc s none have "await_connack pf ops (fst (make_timeout_time_ms pf timeout w2)) cl1
              (snd (make_timeout_time_ms pf timeout w2)) = Some r"
            by (simp add: case_prod_beta)
          moreover have "conn cl1 \<noteq> None" "next_packet_identifier cl1 = next_packet_identifier ?cl"
            using o None by (simp_all add: keeps_or_closes_def Let_def)
          ultimately have "connect_result cl1 r" by (intro await_connack_result)
          then show ?thesis
            using \<open>next_packet_identifier cl1 = next_packet_identifier ?cl\<close>
            by (intro res) (simp add: connect_result_def Let_def)
        qed
      qed
    qed
  qed
  then show "good_run r" "fst r = None \<Longrightarrow> client_state (fst (snd r)) = CONNECTED"
    "fst r \<noteq> None \<Longrightarrow> client_state cl \<noteq> CONNECTED \<Longrightarrow> client_state (fst (snd r)) \<noteq> CONNECTED"
    by blast+
qed

lemma publish_good: "client_inv cl \<Longrightarrow> good_run (publish pf ops topic payload retain cl w)"
proof (cases "client_state cl = CONNECTED")
  case True
  assume inv: "client_inv cl"
  let ?m = "\<lparr>publish_dup = False, publish_qos = 0, publish_retain = retain, publish_topic_name = topic,
    publish_packet_identifier = None, publish_payload = payload\<rparr>"
  show ?thesis
  proof (cases "encode_publish ?m")
    case (Inl e)
    then show ?thesis
      using True inv publish_encode_safe [OF Inl] by (simp add: publish_def good_run_def)
  next
    case (Inr packet)
    then have "publish pf ops topic payload retain cl w = send_encoded pf ops packet cl w"
      using True by (simp add: publish_def)
    then show ?thesis
      using good_run_keeps [OF send_encoded_outcome True client_inv_conn [OF inv True] client_inv_id [OF inv]]
      by simp
  qed
qed (simp add: publish_def good_run_def)

lemma subscribe_good: "client_inv cl \<Longrightarrow> good_run (subscribe pf ops topic qos cl w)"
proof (cases "client_state cl = CONNECTED \<and> qos = 0")
  case True
  assume inv: "client_inv cl"
  obtain i cl1 where a: "allocate_packet_identifier cl = (i, cl1)" by fastforce
  note alloc = allocate_inv [OF client_inv_id [OF inv] a]
  have inv1: "client_inv cl1"
    using a inv alloc(2) True
    by (auto simp: client_inv_def allocate_packet_identifier_def Let_def split: if_splits)
  let ?m = "\<lparr>subscribe_packet_identifier = i, subscribe_topics = [\<lparr>topic_filter = topic, topic_qos = qos\<rparr>]\<rparr>"
  show ?thesis
  proof (cases "encode_subscribe ?m")
    case (Inl e)
    then show ?thesis
      using True a inv1 encode_safe(1) [OF Inl] by (simp add: subscribe_def good_run_def)
  next
    case (Inr packet)
    then have "subscribe pf ops topic qos cl w = send_encoded pf ops packet cl1 w"
      using True a by (simp add: subscribe_def)
    moreover have "client_state cl1 = CONNECTED" using True alloc(4) by simp
    ultimately show ?thesis
      using good_run_keeps [OF send_encoded_outcome _ client_inv_conn [OF inv1] client_inv_id [OF inv1]]
      by simp
  qed
qed (auto simp: subscribe_def good_run_def word_neq_0_conv)

lemma disconnect_good:
  "client_inv cl \<Longrightarrow> good_run (disconnect pf ops cl w) \<and>
     client_state (fst (snd (disconnect pf ops cl w))) \<noteq> CONNECTED"
proof (cases "client_state cl = CONNECTED")
  case True
  assume inv: "client_inv cl"
  obtain e cl1 w1 where s: "send_encoded pf ops \<lparr>packet_bytes = [0xE0, 0]\<rparr> cl w = (e, cl1, w1)"
    by (cases "send_encoded pf ops \<lparr>packet_bytes = [0xE0, 0]\<rparr> cl w")
  have o: "keeps_or_closes cl (e, cl1, w1)" "safe_outcome e"
    using send_encoded_outcome [of cl pf "\<lparr>packet_bytes = [0xE0, 0]\<rparr>" w] s by simp_all
  have id: "next_packet_identifier cl1 \<noteq> 0"
    using o(1) client_inv_id [OF inv] by (simp add: keeps_or_closes_def Let_def)
  have "disconnect pf ops cl w = (e, cleanup_connection ops cl1 w1)"
    using True s by (simp add: disconnect_def encode_disconnect_value Let_def case_prod_beta)
  then show ?thesis
    using o(2) id cleanup_closed [of ops cl1 w1] closed_inv [of "fst (cleanup_connection ops cl1 w1)"]
    by (simp add: good_run_def closed_def)
qed (simp add: disconnect_def good_run_def)

end

section \<open>poll and the keep-alive\<close>

text \<open>
  The intervals of \<^verbatim>\<open>poll\<close>, in microseconds: half the keep-alive time without a packet sent
  asks for a ping, and one and a half times without a byte received, while a ping is
  unanswered, is a timeout.
\<close>

definition ping_interval_us :: "'c MqttClient \<Rightarrow> int" where
  "ping_interval_us cl = int (unat (keep_alive_seconds cl)) * 1000 * 1000 div 2"

definition ping_timeout_us :: "'c MqttClient \<Rightarrow> int" where
  "ping_timeout_us cl =
     int (unat (keep_alive_seconds cl)) * 1000 * 1000 + int (unat (keep_alive_seconds cl)) * 1000 * 1000 div 2"

definition ping_due :: "'w Platform \<Rightarrow> absolute_time_t \<Rightarrow> 'c MqttClient \<Rightarrow> bool" where
  "ping_due pf now cl \<longleftrightarrow>
     \<not> waiting_for_pingresp cl \<and> absolute_time_diff_us pf (last_tx cl) now \<ge> ping_interval_us cl"

definition ping_overdue :: "'w Platform \<Rightarrow> absolute_time_t \<Rightarrow> 'c MqttClient \<Rightarrow> bool" where
  "ping_overdue pf now cl \<longleftrightarrow>
     waiting_for_pingresp cl \<and> absolute_time_diff_us pf (last_rx cl) now \<ge> ping_timeout_us cl"

abbreviation pingreq_packet :: MqttEncodedPacket where
  "pingreq_packet \<equiv> \<lparr>packet_bytes = [0xC0, 0]\<rparr>"

lemma keep_alive_check_eq:
  "keep_alive_check pf ops cl w =
     (if keep_alive_seconds cl = 0 then (None, cl, w)
      else
        let (now, w) = get_absolute_time pf w;
            (err, cl', w) =
              (if ping_due pf now cl
               then (let (e, cl, w) = send_encoded pf ops pingreq_packet cl w
                     in (e, if e = None then cl\<lparr>waiting_for_pingresp := True\<rparr> else cl, w))
               else (None, cl, w))
        in if err \<noteq> None then (err, cl', w)
           else if waiting_for_pingresp cl'
           then (let (now, w) = get_absolute_time pf w
                 in if absolute_time_diff_us pf (last_rx cl') now \<ge> ping_timeout_us cl
                    then fail_with ops (Error ''MQTT PINGRESP timeout'') cl' w
                    else (None, cl', w))
           else (None, cl', w))"
  by (auto simp: keep_alive_check_def encode_pingreq_value ping_due_def ping_interval_us_def
      ping_timeout_us_def Let_def word_neq_0_conv split: prod.splits option.splits)

context mqtt_transport
begin

lemma keep_alive_check_outcome:
  "keeps_or_closes cl (keep_alive_check pf ops cl w) \<and>
   safe_outcome (fst (keep_alive_check pf ops cl w))"
proof (cases "keep_alive_seconds cl = 0")
  case True
  then show ?thesis by (simp add: keep_alive_check_eq keeps_or_closes_refl)
next
  case False
  obtain now w1 where t: "get_absolute_time pf w = (now, w1)" by fastforce
  define r where "r = (if ping_due pf now cl
      then (let (e, cl, w) = send_encoded pf ops pingreq_packet cl w1
            in (e, if e = None then cl\<lparr>waiting_for_pingresp := True\<rparr> else cl, w))
      else (None, cl, w1))"
  obtain e cl1 w2 where r3: "r = (e, cl1, w2)" by (cases r)
  have "keeps_or_closes cl r \<and> safe_outcome (fst r)"
    using send_encoded_outcome [of cl pf pingreq_packet w1] unfolding r_def
    by (auto simp: keeps_or_closes_def Let_def closed_def split: prod.splits if_splits)
  then have o: "keeps_or_closes cl (e, cl1, w2) \<and> safe_outcome e" by (simp add: r3)
  obtain now2 w3 where t2: "get_absolute_time pf w2 = (now2, w3)" by fastforce
  have run: "keep_alive_check pf ops cl w =
      (if e \<noteq> None then (e, cl1, w2)
       else if waiting_for_pingresp cl1
       then (if absolute_time_diff_us pf (last_rx cl1) now2 \<ge> ping_timeout_us cl
             then fail_with ops (Error ''MQTT PINGRESP timeout'') cl1 w3 else (None, cl1, w3))
       else (None, cl1, w2))"
    using False by (simp add: keep_alive_check_eq t r_def [symmetric] r3 t2)
  show ?thesis
    using o unfolding run by (auto simp: keeps_or_closes_def Let_def)
qed

text \<open>\<open>poll\<close> returns an error exactly when it leaves the client without a connection.\<close>

lemma poll_outcome:
  assumes "client_inv cl" and "client_state cl = CONNECTED"
  shows "keeps_or_closes cl (poll pf ops cl w) \<and> safe_outcome (fst (poll pf ops cl w))"
proof -
  obtain c where c: "conn cl = Some c" using client_inv_conn [OF assms] by auto
  obtain rd c1 w1 where rd: "conn_read_nonblocking ops 256 c w = (rd, c1, w1)"
    by (cases "conn_read_nonblocking ops 256 c w")
  let ?cl = "cl\<lparr>conn := Some c1\<rparr>"
  have safe: "fault_free rd" using read_safe [of 256 c w] rd by simp
  note run = poll_def [of pf ops cl w]
  show ?thesis
  proof (cases rd)
    case (Inl e)
    with safe show ?thesis by (simp add: run assms(2) c rd fail_with_closes)
  next
    case (Inr buffer)
    obtain now w2 where t: "get_absolute_time pf w1 = (now, w2)" by fastforce
    define r where "r = (if buffer \<noteq> []
      then process_rx_buffer ops (?cl\<lparr>last_rx := now, rx_buffer := rx_buffer ?cl @ buffer\<rparr>) w2
      else (None, ?cl, w1))"
    obtain e cl1 w3 where r3: "r = (e, cl1, w3)" by (cases r)
    have "keeps_or_closes cl r \<and> safe_outcome (fst r)"
      using process_rx_buffer_outcome
          [of "?cl\<lparr>last_rx := now, rx_buffer := rx_buffer ?cl @ buffer\<rparr>" ops w2]
      unfolding r_def
      by (auto simp: keeps_or_closes_def Let_def c)
    then have o: "keeps_or_closes cl (e, cl1, w3) \<and> safe_outcome e" by (simp add: r3)
    have "poll pf ops cl w = (if e \<noteq> None then (e, cl1, w3) else keep_alive_check pf ops cl1 w3)"
      using r3 unfolding r_def
      by (auto simp: run assms(2) c rd Inr t Let_def split: if_splits option.split)
    then show ?thesis
      using o keep_alive_check_outcome [of cl1 pf w3]
      by (auto simp: keeps_or_closes_def Let_def)
  qed
qed

lemma poll_good:
  assumes "client_inv cl"
  shows "good_run (poll pf ops cl w)"
    and "fst (poll pf ops cl w) = None \<longleftrightarrow> client_state (fst (snd (poll pf ops cl w))) = CONNECTED"
proof -
  have "good_run (poll pf ops cl w) \<and>
    (fst (poll pf ops cl w) = None \<longleftrightarrow> client_state (fst (snd (poll pf ops cl w))) = CONNECTED)"
  proof (cases "client_state cl = CONNECTED")
    case True
    from poll_outcome [OF assms this] show ?thesis
      using good_run_keeps [OF poll_outcome [OF assms True] True] client_inv_conn [OF assms True]
        client_inv_id [OF assms] keeps_or_closes_inv(2) [of cl "poll pf ops cl w"] True by simp
  next
    case False
    with assms show ?thesis by (simp add: poll_def good_run_def)
  qed
  then show "good_run (poll pf ops cl w)"
    "fst (poll pf ops cl w) = None \<longleftrightarrow> client_state (fst (snd (poll pf ops cl w))) = CONNECTED"
    by blast+
qed

end

text \<open>
  The keep-alive of a connected client, as a specification over the times of the two clock
  readings: a ping that is due is sent and then awaited, and an overdue answer closes the
  connection.
\<close>

lemma keep_alive_not_due:
  assumes "keep_alive_seconds cl \<noteq> 0" and "get_absolute_time pf w = (now, w1)"
    and "\<not> ping_due pf now cl" and "\<not> waiting_for_pingresp cl"
  shows "keep_alive_check pf ops cl w = (None, cl, w1)"
  using assms by (simp add: keep_alive_check_eq)

lemma keep_alive_overdue:
  assumes "keep_alive_seconds cl \<noteq> 0" and "get_absolute_time pf w = (now, w1)"
    and "get_absolute_time pf w1 = (now2, w2)" and "ping_overdue pf now2 cl"
  shows "keep_alive_check pf ops cl w = fail_with ops (Error ''MQTT PINGRESP timeout'') cl w2"
  using assms by (simp add: keep_alive_check_eq ping_due_def ping_overdue_def)

lemma keep_alive_waiting:
  assumes "keep_alive_seconds cl \<noteq> 0" and "get_absolute_time pf w = (now, w1)"
    and "get_absolute_time pf w1 = (now2, w2)" and "waiting_for_pingresp cl" "\<not> ping_overdue pf now2 cl"
  shows "keep_alive_check pf ops cl w = (None, cl, w2)"
  using assms by (simp add: keep_alive_check_eq ping_due_def ping_overdue_def)

section \<open>Packet identifiers\<close>

lemma allocate_next:
  assumes "next_packet_identifier cl \<noteq> 0"
  shows "fst (allocate_packet_identifier cl) = next_packet_identifier cl"
    and "unat (next_packet_identifier (snd (allocate_packet_identifier cl))) =
      unat (next_packet_identifier cl) mod 65535 + 1"
proof -
  let ?n = "next_packet_identifier cl"
  show "fst (allocate_packet_identifier cl) = ?n"
    by (simp add: allocate_packet_identifier_def Let_def)
  show "unat (next_packet_identifier (snd (allocate_packet_identifier cl))) = unat ?n mod 65535 + 1"
  proof (cases "?n + 1 = 0")
    case True
    then have "?n = - 1" by (simp add: eq_neg_iff_add_eq_0)
    moreover have "unat (- 1 :: u16) = 65535"
      by (simp add: unsigned_minus_1_eq_mask mask_eq_exp_minus_1)
    ultimately show ?thesis by (simp add: allocate_packet_identifier_def Let_def)
  next
    case False
    then have nz: "unat (?n + 1) \<noteq> 0" by (simp add: unat_eq_zero)
    have plus: "unat (?n + 1) = (unat ?n + 1) mod 65536" by (simp add: unat_word_ariths)
    have "unat ?n < 2 ^ LENGTH(16)" by (rule unsigned_less)
    with plus nz have "unat ?n < 65535" by (cases "unat ?n = 65535") auto
    with plus False show ?thesis by (simp add: allocate_packet_identifier_def Let_def)
  qed
qed

text \<open>The identifiers of \<open>k\<close> successive allocations.\<close>

fun allocate_many :: "nat \<Rightarrow> 'c MqttClient \<Rightarrow> u16 list" where
  "allocate_many 0 cl = []"
| "allocate_many (Suc k) cl =
     (let (i, cl) = allocate_packet_identifier cl in i # allocate_many k cl)"

lemma allocate_many_nth:
  "\<lbrakk> next_packet_identifier cl \<noteq> 0; j < k \<rbrakk> \<Longrightarrow>
     unat (allocate_many k cl ! j) = (unat (next_packet_identifier cl) - 1 + j) mod 65535 + 1"
proof (induction k arbitrary: cl j)
  case (Suc k)
  let ?n = "unat (next_packet_identifier cl)"
  obtain i cl1 where a: "allocate_packet_identifier cl = (i, cl1)" by fastforce
  have i: "i = next_packet_identifier cl" and n1: "unat (next_packet_identifier cl1) = ?n mod 65535 + 1"
    using allocate_next [OF Suc.prems(1)] a by simp_all
  have "?n < 2 ^ LENGTH(16)" by (rule unsigned_less)
  moreover have "?n \<noteq> 0" using Suc.prems(1) by (simp add: unat_eq_zero)
  ultimately have n: "?n \<le> 65535" "1 \<le> ?n" by simp_all
  show ?case
  proof (cases j)
    case 0
    with n show ?thesis by (simp add: a i)
  next
    case (Suc j')
    have "next_packet_identifier cl1 \<noteq> 0" using n1 by (metis add_is_0 one_neq_zero unat_0)
    from Suc.IH [OF this, of j'] Suc.prems(2) Suc
    have "unat (allocate_many k cl1 ! j') = (?n mod 65535 + j') mod 65535 + 1" by (simp add: n1)
    also have "\<dots> = (?n - 1 + j) mod 65535 + 1"
      using n Suc by (simp add: mod_add_left_eq)
    finally show ?thesis by (simp add: a Suc)
  qed
qed simp

section \<open>connect returns\<close>

text \<open>
  A connection whose reads do not turn the clock back. With the documented clock, every round
  of the CONNACK loop that goes on moves the clock, so the time left is a measure of the loop.
\<close>

definition reads_keep_time :: "('c, 'w) Connection \<Rightarrow> ('w \<Rightarrow> nat) \<Rightarrow> bool" where
  "reads_keep_time ops now \<longleftrightarrow>
     (\<forall>n c w. now w \<le> now (snd (snd (conn_read_nonblocking ops n c w))))"

lemma connect_round_time:
  assumes clock: "clock_law pf now" and reads: "reads_keep_time ops now"
    and go_on: "connect_round pf ops until cl w = Inr (cl', w')"
  shows "now w < until" "now w < now w'"
proof -
  have get: "now w \<le> fst (get_absolute_time pf w)" "fst (get_absolute_time pf w) \<le> now (snd (get_absolute_time pf w))"
    and diff: "absolute_time_diff_us pf t u \<le> 0 \<longleftrightarrow> u \<le> t"
    and sleep: "now w + 1000 * unat ms \<le> now (sleep_ms pf ms w)" for w t u ms
    using clock by (simp_all add: clock_law_def)
  obtain c where c: "conn cl = Some c" using go_on by (cases "conn cl") (simp_all add: connect_round_def)
  obtain buffer c1 w1 where rd: "conn_read_nonblocking ops 256 c w = (Inr buffer, c1, w1)"
    using go_on by (cases "conn_read_nonblocking ops 256 c w"; cases "fst (conn_read_nonblocking ops 256 c w)")
      (auto simp: connect_round_def c)
  have w1: "now w \<le> now w1" using reads rd unfolding reads_keep_time_def by (metis snd_conv)
  let ?cl = "cl\<lparr>conn := Some c1\<rparr>"
  obtain cl2 w2 where w2: "now w1 \<le> now w2"
      and rest: "absolute_time_diff_us pf (fst (get_absolute_time pf w2)) until > 0"
        "w' = sleep_ms pf 10 (snd (get_absolute_time pf w2))"
  proof (cases "buffer = []")
    case True
    with go_on show thesis
      by (intro that [of w1]) (auto simp: connect_round_def c rd Let_def not_le split: prod.splits if_splits)
  next
    case False
    obtain r cl2 w2 where r: "connect_received pf ops buffer ?cl w1 = (r, cl2, w2)"
      by (cases "connect_received pf ops buffer ?cl w1")
    with go_on False have n: "r = None" and g: "connect_round pf ops until cl w =
        (let (now, w) = get_absolute_time pf w2
         in if absolute_time_diff_us pf now until \<le> 0
            then Inl (fail_with ops (Error ''MQTT CONNACK timeout'') cl2 w)
            else Inr (cl2, sleep_ms pf 10 w))"
      by (auto simp: connect_round_def c rd Let_def split: option.splits)
    have "w2 = snd (get_absolute_time pf w1)"
      using connect_received_progress [of pf w1 ?cl ops buffer] r n by (simp add: connect_progress_def Let_def)
    then have "now w1 \<le> now w2" using get [of w1] by simp
    with g go_on show thesis
      by (intro that [of w2]) (auto simp: Let_def not_le split: prod.splits if_splits)
  qed
  have "\<not> until \<le> fst (get_absolute_time pf w2)" using rest(1) by (simp flip: diff add: not_le)
  then show "now w < until" using w1 w2 get(1) [of w2] by simp
  show "now w < now w'"
    using w1 w2 get [of w2] sleep [of "snd (get_absolute_time pf w2)" 10] rest(2) by simp
qed

lemma await_connack_returns:
  assumes "clock_law pf now" and "reads_keep_time ops now"
  shows "await_connack pf ops until cl w \<noteq> None"
proof (induction "until - now w" arbitrary: cl w rule: less_induct)
  case less
  show ?case
  proof (cases "connect_round pf ops until cl w")
    case (Inl r)
    then show ?thesis by (subst await_connack.simps) simp
  next
    case (Inr x)
    then obtain cl' w' where x: "connect_round pf ops until cl w = Inr (cl', w')" by (cases x) simp
    from connect_round_time [OF assms x] have "until - now w' < until - now w" by simp
    from less [OF this] x show ?thesis by (subst await_connack.simps) simp
  qed
qed

lemma connect_returns:
  assumes "clock_law pf now" and "reads_keep_time ops now" and "dial broker timeout w \<noteq> None"
  shows "connect pf ops dial broker m timeout cl w \<noteq> None"
  using assms(3) await_connack_returns [OF assms(1,2)]
  by (simp add: connect_def Let_def del: not_None_eq split: sum.split prod.split option.split)

section \<open>What is delivered\<close>

context timed_mqtt_transport
begin

lemma publish_delivers:
  assumes "publish pf ops topic payload retain cl w = (None, cl', w')" and "conn cl = Some c"
  shows "\<exists>c' e. conn cl' = Some c' \<and> sent c' w' = sent c w @ packet_bytes e \<and>
    encode_publish \<lparr>publish_dup = False, publish_qos = 0, publish_retain = retain,
      publish_topic_name = topic, publish_packet_identifier = None, publish_payload = payload\<rparr> = Inr e"
  using assms send_encoded_sent [of _ cl w cl' w' c]
  by (auto simp: publish_def split: if_splits sum.splits)

lemma subscribe_delivers:
  assumes "subscribe pf ops topic qos cl w = (None, cl', w')" and "conn cl = Some c"
    and "next_packet_identifier cl \<noteq> 0"
  shows "\<exists>c' e. conn cl' = Some c' \<and> sent c' w' = sent c w @ packet_bytes e \<and>
    encode_subscribe \<lparr>subscribe_packet_identifier = next_packet_identifier cl,
      subscribe_topics = [\<lparr>topic_filter = topic, topic_qos = 0\<rparr>]\<rparr> = Inr e"
proof -
  obtain i cl1 where a: "allocate_packet_identifier cl = (i, cl1)" by fastforce
  have "i = next_packet_identifier cl" "conn cl1 = Some c"
    using allocate_next(1) [OF assms(3)] allocate_inv(3) [OF assms(3) a] a assms(2) by simp_all
  moreover have "qos = 0"
    using assms(1) by (simp add: subscribe_def word_gt_0 split: if_splits)
  ultimately show ?thesis
    using assms(1) a send_encoded_sent [of _ cl1 w cl' w' c]
    by (auto simp: subscribe_def split: if_splits sum.splits)
qed

text \<open>A ping that is due is sent, and the client then waits for the answer.\<close>

lemma keep_alive_pings:
  assumes "keep_alive_check pf ops cl w = (None, cl', w')" and "conn cl = Some c"
    and "keep_alive_seconds cl \<noteq> 0" and "ping_due pf (fst (get_absolute_time pf w)) cl"
  shows "waiting_for_pingresp cl' \<and>
    (\<exists>c'. conn cl' = Some c' \<and> sent c' w' = sent c w @ [0xC0, 0])"
proof -
  let ?w1 = "snd (get_absolute_time pf w)"
  obtain e cl1 w2 where s: "send_encoded pf ops pingreq_packet cl ?w1 = (e, cl1, w2)"
    by (cases "send_encoded pf ops pingreq_packet cl ?w1")
  have e: "e = None" and "cl' = cl1\<lparr>waiting_for_pingresp := True\<rparr>" "w' = snd (get_absolute_time pf w2)"
    using assms s by (auto simp: keep_alive_check_eq Let_def fail_with_def split: prod.splits if_splits)
  with send_encoded_sent [OF s [unfolded e] assms(2)] show ?thesis
    by (auto simp: clock_sent)
qed

end

section \<open>Reachable clients\<close>

text \<open>
  Any sequence of calls of the public operations, starting from a new client, with the results
  of the calls. The world is chosen anew at each call: lwIP, the clock and the broker may do
  anything in between.
\<close>

inductive client_reach ::
  "'w Platform \<Rightarrow> ('c, 'w) Connection \<Rightarrow> (Address \<Rightarrow> u32 \<Rightarrow> 'w \<Rightarrow> ('c result \<times> 'w) option) \<Rightarrow>
     Error option list \<Rightarrow> 'c MqttClient \<Rightarrow> bool"
  for pf :: "'w Platform" and ops :: "('c, 'w) Connection"
    and dial :: "Address \<Rightarrow> u32 \<Rightarrow> 'w \<Rightarrow> ('c result \<times> 'w) option"
where
  reach_new: "client_reach pf ops dial [] (new_MqttClient pf)"
| reach_connect: "\<lbrakk> client_reach pf ops dial log cl;
      connect pf ops dial broker m timeout cl w = Some (e, cl', w') \<rbrakk> \<Longrightarrow>
    client_reach pf ops dial (e # log) cl'"
| reach_publish: "\<lbrakk> client_reach pf ops dial log cl;
      publish pf ops topic payload retain cl w = (e, cl', w') \<rbrakk> \<Longrightarrow>
    client_reach pf ops dial (e # log) cl'"
| reach_publish_string: "\<lbrakk> client_reach pf ops dial log cl;
      publish_string pf ops topic s retain cl w = (e, cl', w') \<rbrakk> \<Longrightarrow>
    client_reach pf ops dial (e # log) cl'"
| reach_subscribe: "\<lbrakk> client_reach pf ops dial log cl;
      subscribe pf ops topic qos cl w = (e, cl', w') \<rbrakk> \<Longrightarrow>
    client_reach pf ops dial (e # log) cl'"
| reach_poll: "\<lbrakk> client_reach pf ops dial log cl; poll pf ops cl w = (e, cl', w') \<rbrakk> \<Longrightarrow>
    client_reach pf ops dial (e # log) cl'"
| reach_next: "\<lbrakk> client_reach pf ops dial log cl; next_message cl = (r, cl') \<rbrakk> \<Longrightarrow>
    client_reach pf ops dial ((case r of Inl err \<Rightarrow> Some err | Inr _ \<Rightarrow> None) # log) cl'"
| reach_disconnect: "\<lbrakk> client_reach pf ops dial log cl; disconnect pf ops cl w = (e, cl', w') \<rbrakk> \<Longrightarrow>
    client_reach pf ops dial (e # log) cl'"

lemma next_message_good:
  "client_inv cl \<Longrightarrow> next_message cl = (r, cl') \<Longrightarrow>
     client_inv cl' \<and> safe_outcome (case r of Inl err \<Rightarrow> Some err | Inr _ \<Rightarrow> None)"
  by (auto simp: next_message_def client_inv_def split: list.splits)

context mqtt_transport
begin

lemma reachable_good:
  assumes "client_reach pf ops dial log cl" and dial: "dial_safe dial"
  shows "client_inv cl \<and> (\<forall>e\<in>set log. safe_outcome e)"
  using assms(1)
proof induction
  case reach_new
  then show ?case by (simp add: new_client_inv)
next
  case (reach_connect log cl broker m timeout w e cl' w')
  then show ?case
    using connect_good(1) [of cl dial pf broker m timeout w "(e, cl', w')"] dial
    by (simp add: good_run_def)
next
  case (reach_publish log cl topic payload retain w e cl' w')
  then show ?case using publish_good [of cl pf topic payload retain w] by (simp add: good_run_def)
next
  case (reach_publish_string log cl topic s retain w e cl' w')
  then show ?case
    using publish_good [of cl pf topic "bytes_of_string s" retain w]
    by (simp add: good_run_def publish_string_def)
next
  case (reach_subscribe log cl topic qos w e cl' w')
  then show ?case using subscribe_good [of cl pf topic qos w] by (simp add: good_run_def)
next
  case (reach_poll log cl w e cl' w')
  then show ?case using poll_good(1) [of cl pf w] by (simp add: good_run_def)
next
  case (reach_next log cl r cl')
  then show ?case using next_message_good by auto
next
  case (reach_disconnect log cl w e cl' w')
  then show ?case using disconnect_good [of cl pf w] by (simp add: good_run_def)
qed

end

end
