(* ===== verification/Lwip.thy ===== *)
theory Lwip
  imports Net_Interface
begin

text \<open>
  lwIP and the cyw43 driver, which are not part of the repository, as seen from it. The
  environment \<open>'e\<close> is opaque; what the library does with a call and which callbacks it runs
  are parameters (\<open>Lwip\<close>). The model records the calls the program makes, with their
  results, and the callbacks it receives, so that properties can speak about the program's
  observable behaviour and not about lwIP's.

  \<^verbatim>\<open>cyw43_arch_lwip_begin\<close> and \<^verbatim>\<open>cyw43_arch_lwip_end\<close> only take and release a lock and are left
  out; callbacks run inside \<^verbatim>\<open>cyw43_arch_poll\<close>, as in the poll architecture the library is
  built for (\<^verbatim>\<open>PICO_CYW43_ARCH_POLL\<close>).
\<close>

section \<open>Types\<close>

text \<open>The error codes that the sources name, and the others.\<close>

datatype err_t = ERR_OK | ERR_ABRT | ERR_RST | ERR_CLSD | ERR_CONN | ERR_TIMEOUT | ERR_OTHER nat

text \<open>Pointers: control blocks are addresses, an object is known by the address \<^verbatim>\<open>this\<close>.\<close>

type_synonym pcb = nat
type_synonym obj = nat

datatype ip4_addr_t = IP4 u8 u8 u8 u8

datatype ip_addr_t = IPADDR_TYPE_V4 ip4_addr_t | IPADDR_TYPE_V6 "u8 list"

text \<open>\<^verbatim>\<open>memcpy\<close> of \<^verbatim>\<open>ip4_addr_get_u32\<close>, which is in network order, copies the address as written.\<close>

fun ip4_bytes :: "ip4_addr_t \<Rightarrow> u8 list" where
  "ip4_bytes (IP4 a b c d) = [a, b, c, d]"

lemma length_ip4_bytes [simp]: "length (ip4_bytes a) = 4"
  by (cases a) simp

section \<open>Calls and callbacks\<close>

text \<open>
  The calls into lwIP and the radio driver that change their state; a driver call that returns
  zero is one that returns \<open>ERR_OK\<close>. A null argument of a callback registration is
  \<open>None\<close>, and a control block that the program may pass as null is an option.
\<close>

datatype LwipCall =
    TcpArg pcb "obj option" | TcpRecv pcb bool | TcpErr pcb bool | TcpSent pcb bool
  | TcpAccept pcb bool
  | TcpWrite pcb "u8 list" | TcpOutput pcb | TcpRecved pcb nat
  | TcpClose pcb | TcpAbort "pcb option"
  | TcpBind pcb u16 | TcpConnect pcb ip4_addr_t u16
  | UdpRecv pcb "obj option" | UdpBind pcb "ip_addr_t option" u16 | UdpConnect pcb ip4_addr_t u16
  | UdpSend pcb "u8 list" | UdpSendto pcb "u8 list" ip_addr_t u16
  | UdpSendtoIf pcb "u8 list" ip_addr_t u16 nat
  | UdpRemove pcb | PbufFree "u8 list"
  | Cyw43Init | Cyw43Deinit | Cyw43EnableSta | Cyw43WifiConnect string string u32
  | Cyw43EnableAp string string

text \<open>
  Callbacks, with the argument registered for them. A packet buffer is the bytes it holds,
  \<open>None\<close> when the pointer is null.
\<close>

datatype LwipEvent =
    TcpRecvEvent "obj option" pcb "u8 list option" err_t
  | TcpErrEvent "obj option" err_t
  | TcpConnectedEvent "obj option" pcb err_t
  | TcpAcceptEvent "obj option" "pcb option" err_t
  | UdpRecvEvent "obj option" pcb "u8 list option" "ip_addr_t option" u16

text \<open>
  \<open>lwip_netif_ip\<close> is the address of the default interface, \<open>new_object\<close> the allocation of an
  object, and the remote and local ends of a control block are fields of lwIP's structures.
\<close>

record 'e Lwip =
  lwip_call :: "LwipCall \<Rightarrow> 'e \<Rightarrow> err_t \<times> 'e"
  lwip_poll :: "'e \<Rightarrow> LwipEvent list \<times> 'e"
  lwip_tcp_sndbuf :: "pcb \<Rightarrow> 'e \<Rightarrow> nat"
  lwip_tcp_new :: "'e \<Rightarrow> pcb option \<times> 'e"
  lwip_tcp_listen :: "pcb \<Rightarrow> nat \<Rightarrow> 'e \<Rightarrow> pcb option \<times> 'e"
  lwip_udp_new :: "'e \<Rightarrow> pcb option \<times> 'e"
  lwip_pbuf_alloc :: "nat \<Rightarrow> 'e \<Rightarrow> bool \<times> 'e"
  lwip_ticks_ms :: "'e \<Rightarrow> u32 \<times> 'e"
  lwip_input_netif :: "'e \<Rightarrow> nat option"
  lwip_netif_ip :: "'e \<Rightarrow> ip4_addr_t option"
  lwip_remote_ip :: "pcb \<Rightarrow> 'e \<Rightarrow> ip_addr_t"
  lwip_remote_port :: "pcb \<Rightarrow> 'e \<Rightarrow> u16"
  lwip_local_port :: "pcb \<Rightarrow> 'e \<Rightarrow> u16"
  new_object :: "'e \<Rightarrow> obj \<times> 'e"
  lwip_aton :: "string \<Rightarrow> ip4_addr_t option"
  lwip_ntoa :: "ip4_addr_t \<Rightarrow> string"

section \<open>The world of the network objects\<close>

record 'e World =
  env :: 'e
  calls :: "(LwipCall \<times> err_t) list"
  delivered :: "LwipEvent list"

definition call :: "'e Lwip \<Rightarrow> LwipCall \<Rightarrow> 'e World \<Rightarrow> err_t \<times> 'e World" where
  "call lw c w =
     (let (err, e) = lwip_call lw c (env w)
      in (err, w\<lparr>env := e, calls := calls w @ [(c, err)]\<rparr>))"

text \<open>A call without a result, or one whose result the source ignores.\<close>

definition call_void :: "'e Lwip \<Rightarrow> LwipCall \<Rightarrow> 'e World \<Rightarrow> 'e World" where
  "call_void lw c w = snd (call lw c w)"

definition arch_poll :: "'e Lwip \<Rightarrow> 'e World \<Rightarrow> LwipEvent list \<times> 'e World" where
  "arch_poll lw w =
     (let (evs, e) = lwip_poll lw (env w)
      in (evs, w\<lparr>env := e, delivered := delivered w @ evs\<rparr>))"

text \<open>A parameter that only changes the environment, on the whole world.\<close>

definition on_env :: "('e \<Rightarrow> 'a \<times> 'e) \<Rightarrow> 'e World \<Rightarrow> 'a \<times> 'e World" where
  "on_env f w = (let (a, e) = f (env w) in (a, w\<lparr>env := e\<rparr>))"

definition world_platform :: "'e Platform \<Rightarrow> 'e World Platform" where
  "world_platform pf =
     \<lparr>nil_time = nil_time pf,
      get_absolute_time = on_env (get_absolute_time pf),
      make_timeout_time_ms = (\<lambda>ms. on_env (make_timeout_time_ms pf ms)),
      absolute_time_diff_us = absolute_time_diff_us pf,
      sleep_ms = (\<lambda>ms w. w\<lparr>env := sleep_ms pf ms (env w)\<rparr>)\<rparr>"

named_theorems world_simps \<open>what a step leaves of the call log\<close>

lemma call_log [world_simps]:
  "calls (snd (call lw c w)) = calls w @ [(c, fst (call lw c w))]"
  "delivered (snd (call lw c w)) = delivered w"
  "fst (call lw c w) = fst (lwip_call lw c (env w))"
  "env (snd (call lw c w)) = snd (lwip_call lw c (env w))"
  by (simp_all add: call_def split: prod.split)

lemma call_void_log [world_simps]:
  "calls (call_void lw c w) = calls w @ [(c, fst (lwip_call lw c (env w)))]"
  "delivered (call_void lw c w) = delivered w"
  "env (call_void lw c w) = snd (lwip_call lw c (env w))"
  by (simp_all add: call_void_def world_simps)

lemma arch_poll_log [world_simps]:
  "calls (snd (arch_poll lw w)) = calls w"
  "delivered (snd (arch_poll lw w)) = delivered w @ fst (arch_poll lw w)"
  by (simp_all add: arch_poll_def split: prod.split)

lemma on_env_log [world_simps]:
  "calls (snd (on_env f w)) = calls w"
  "delivered (snd (on_env f w)) = delivered w"
  "fst (on_env f w) = fst (f (env w))"
  "env (snd (on_env f w)) = snd (f (env w))"
  by (simp_all add: on_env_def split: prod.split)

lemma world_platform_sel [simp]:
  "nil_time (world_platform pf) = nil_time pf"
  "get_absolute_time (world_platform pf) = on_env (get_absolute_time pf)"
  "make_timeout_time_ms (world_platform pf) ms = on_env (make_timeout_time_ms pf ms)"
  "absolute_time_diff_us (world_platform pf) = absolute_time_diff_us pf"
  "sleep_ms (world_platform pf) ms w = w\<lparr>env := sleep_ms pf ms (env w)\<rparr>"
  by (simp_all add: world_platform_def)

text \<open>The clock of the world is the clock of the environment.\<close>

lemma world_clock_law:
  assumes "clock_law pf now"
  shows "clock_law (world_platform pf) (\<lambda>w. now (env w))"
  using assms by (simp add: clock_law_def world_simps)

text \<open>lwIP does not turn the clock back.\<close>

definition lwip_keeps_time :: "'e Lwip \<Rightarrow> ('e \<Rightarrow> nat) \<Rightarrow> bool" where
  "lwip_keeps_time lw now \<longleftrightarrow>
     (\<forall>c e. now e \<le> now (snd (lwip_call lw c e))) \<and>
     (\<forall>e. now e \<le> now (snd (lwip_poll lw e))) \<and>
     (\<forall>e. now e \<le> now (snd (lwip_tcp_new lw e))) \<and>
     (\<forall>e. now e \<le> now (snd (new_object lw e)))"

lemma call_void_time:
  "lwip_keeps_time lw now \<Longrightarrow> now (env w) \<le> now (env (call_void lw c w))"
  by (simp add: lwip_keeps_time_def world_simps)

lemma arch_poll_time:
  "lwip_keeps_time lw now \<Longrightarrow> now (env w) \<le> now (env (snd (arch_poll lw w)))"
  by (simp add: lwip_keeps_time_def arch_poll_def split: prod.split)
   (metis snd_conv)

text \<open>Packet buffers can be allocated.\<close>

definition buffers_available :: "'e Lwip \<Rightarrow> bool" where
  "buffers_available lw \<longleftrightarrow> (\<forall>n e. fst (lwip_pbuf_alloc lw n e))"

end
