(* ===== verification/Sample_Environment.thy ===== *)
theory Sample_Environment
  imports Lwip
begin

text \<open>
  A concrete environment in which the properties are tried out: it shows that the laws assumed
  of the clock and of lwIP can hold together, and it is what the witnesses run on.
\<close>

text \<open>A clock, and the callbacks the next poll will run; every call succeeds.\<close>

type_synonym sample_env = "nat \<times> LwipEvent list"

definition sample_platform :: "sample_env Platform" where
  "sample_platform =
     \<lparr>nil_time = 0,
      get_absolute_time = (\<lambda>e. (fst e, e)),
      make_timeout_time_ms = (\<lambda>ms e. (fst e + 1000 * unat ms, e)),
      absolute_time_diff_us = (\<lambda>a b. int b - int a),
      sleep_ms = (\<lambda>ms e. (fst e + 1000 * unat ms, snd e))\<rparr>"

definition sample_lwip :: "sample_env Lwip" where
  "sample_lwip =
     \<lparr>lwip_call = (\<lambda>c e. (ERR_OK, e)),
      lwip_poll = (\<lambda>e. (snd e, (fst e, []))),
      lwip_tcp_sndbuf = (\<lambda>p e. 5),
      lwip_tcp_new = (\<lambda>e. (Some 1, e)),
      lwip_tcp_listen = (\<lambda>p n e. (Some p, e)),
      lwip_udp_new = (\<lambda>e. (Some 2, e)),
      lwip_pbuf_alloc = (\<lambda>n e. (True, e)),
      lwip_ticks_ms = (\<lambda>e. (of_nat (fst e div 1000), e)),
      lwip_input_netif = (\<lambda>e. None),
      lwip_netif_ip = (\<lambda>e. Some (IP4 10 0 0 2)),
      lwip_remote_ip = (\<lambda>p e. IPADDR_TYPE_V4 (IP4 10 0 0 1)),
      lwip_remote_port = (\<lambda>p e. 1883),
      lwip_local_port = (\<lambda>p e. 4000),
      new_object = (\<lambda>e. (7, e)),
      lwip_aton = (\<lambda>s. if s = ''10.0.0.1'' then Some (IP4 10 0 0 1) else None),
      lwip_ntoa = (\<lambda>a. ''10.0.0.1'')\<rparr>"

definition sample_world :: "nat \<Rightarrow> LwipEvent list \<Rightarrow> sample_env World" where
  "sample_world t evs = \<lparr>env = (t, evs), calls = [], delivered = []\<rparr>"

lemma sample_clock: "clock_law sample_platform fst"
  by (auto simp: clock_law_def sample_platform_def)

lemma sample_time: "lwip_keeps_time sample_lwip fst"
  by (simp add: lwip_keeps_time_def sample_lwip_def)

lemma sample_sel [simp]:
  "lwip_call sample_lwip c e = (ERR_OK, e)" "lwip_poll sample_lwip e = (snd e, (fst e, []))"
  "lwip_tcp_sndbuf sample_lwip p e = 5"
  "get_absolute_time sample_platform e = (fst e, e)"
  "make_timeout_time_ms sample_platform ms e = (fst e + 1000 * unat ms, e)"
  "absolute_time_diff_us sample_platform a b = int b - int a"
  "sleep_ms sample_platform ms e = (fst e + 1000 * unat ms, snd e)"
  "nil_time sample_platform = 0"
  by (simp_all add: sample_lwip_def sample_platform_def)

end
