(* ===== verification/Tcp_Connection.thy ===== *)
theory Tcp_Connection
  imports Sample_Environment
begin

text \<open>
  \<^verbatim>\<open>TcpConnection\<close> (\<^verbatim>\<open>pico_net/src/tcp_connection.cpp\<close>). The object's address, which it
  registers as the argument of its callbacks, is the field \<open>tcp_this\<close>; a callback concerns
  the object when its argument is that address. A call that is handed a buffer is handed a
  buffer here, so the checks for a null buffer have no counterpart.
\<close>

section \<open>State and callbacks\<close>

record TcpConnection =
  tcp_this :: obj
  tcp_pcb :: "pcb option"
  tcp_local_addr :: Address
  tcp_remote_addr :: Address
  tcp_rx_buffer :: "u8 list"
  tcp_is_closed :: bool
  tcp_has_error :: bool
  tcp_last_error_message :: string
  tcp_read_deadline_ms :: "u32 option"
  tcp_write_deadline_ms :: "u32 option"

definition new_TcpConnection :: "obj \<Rightarrow> pcb \<Rightarrow> Address \<Rightarrow> Address \<Rightarrow> TcpConnection" where
  "new_TcpConnection this p local_addr remote_addr =
     \<lparr>tcp_this = this, tcp_pcb = Some p, tcp_local_addr = local_addr, tcp_remote_addr = remote_addr,
      tcp_rx_buffer = [], tcp_is_closed = False, tcp_has_error = False,
      tcp_last_error_message = [], tcp_read_deadline_ms = None, tcp_write_deadline_ms = None\<rparr>"

definition tcp_attach_callbacks :: "'e Lwip \<Rightarrow> TcpConnection \<Rightarrow> 'e World \<Rightarrow> 'e World result" where
  "tcp_attach_callbacks lw c w =
     (case tcp_pcb c of
        None \<Rightarrow> Inl NullDeref
      | Some p \<Rightarrow>
          let w = call_void lw (TcpArg p (Some (tcp_this c))) w;
              w = call_void lw (TcpRecv p True) w
          in Inr (call_void lw (TcpErr p True) w))"

text \<open>\<^verbatim>\<open>handle_tcp_recv\<close>: a null buffer is the end of the stream.\<close>

definition handle_tcp_recv ::
  "'e Lwip \<Rightarrow> pcb \<Rightarrow> u8 list option \<Rightarrow> err_t \<Rightarrow> TcpConnection \<Rightarrow> 'e World \<Rightarrow>
     err_t \<times> TcpConnection \<times> 'e World" where
  "handle_tcp_recv lw pcb p err c w =
     (case p of
        None \<Rightarrow> (ERR_OK, c\<lparr>tcp_is_closed := True, tcp_pcb := None\<rparr>, w)
      | Some bs \<Rightarrow>
          if err \<noteq> ERR_OK
          then (err, c\<lparr>tcp_has_error := True, tcp_last_error_message := ''tcp receive error''\<rparr>,
                call_void lw (PbufFree bs) w)
          else (ERR_OK, c\<lparr>tcp_rx_buffer := tcp_rx_buffer c @ bs\<rparr>,
                call_void lw (PbufFree bs) (call_void lw (TcpRecved pcb (length bs)) w)))"

definition tcp_recv_callback ::
  "'e Lwip \<Rightarrow> TcpConnection option \<Rightarrow> pcb \<Rightarrow> u8 list option \<Rightarrow> err_t \<Rightarrow> 'e World \<Rightarrow>
     err_t \<times> TcpConnection option \<times> 'e World" where
  "tcp_recv_callback lw arg pcb p err w =
     (case arg of
        None \<Rightarrow> (ERR_OK, None, case p of None \<Rightarrow> w | Some bs \<Rightarrow> call_void lw (PbufFree bs) w)
      | Some c \<Rightarrow> (let (e, c, w) = handle_tcp_recv lw pcb p err c w in (e, Some c, w)))"

definition handle_tcp_err :: "err_t \<Rightarrow> TcpConnection \<Rightarrow> TcpConnection" where
  "handle_tcp_err err c =
     c\<lparr>tcp_pcb := None, tcp_has_error := True, tcp_is_closed := True,
       tcp_last_error_message :=
         (case err of
            ERR_ABRT \<Rightarrow> ''tcp aborted''
          | ERR_RST \<Rightarrow> ''tcp reset''
          | ERR_CLSD \<Rightarrow> ''tcp closed''
          | ERR_CONN \<Rightarrow> ''tcp connection error''
          | ERR_TIMEOUT \<Rightarrow> ''tcp timeout''
          | _ \<Rightarrow> ''tcp error'')\<rparr>"

definition tcp_err_callback :: "TcpConnection option \<Rightarrow> err_t \<Rightarrow> TcpConnection option" where
  "tcp_err_callback arg err = map_option (handle_tcp_err err) arg"

text \<open>One callback, as far as it concerns this object, and the callbacks of a poll in order.\<close>

definition tcp_dispatch ::
  "'e Lwip \<Rightarrow> LwipEvent \<Rightarrow> TcpConnection \<times> 'e World \<Rightarrow> TcpConnection \<times> 'e World" where
  "tcp_dispatch lw ev = (\<lambda>(c, w).
     case ev of
       TcpRecvEvent arg pcb p err \<Rightarrow>
         if arg = Some (tcp_this c)
         then (case tcp_recv_callback lw (Some c) pcb p err w of
                 (_, Some c, w) \<Rightarrow> (c, w) | (_, None, w) \<Rightarrow> (c, w))
         else (c, w)
     | TcpErrEvent arg err \<Rightarrow>
         if arg = Some (tcp_this c)
         then (case tcp_err_callback (Some c) err of Some c \<Rightarrow> (c, w) | None \<Rightarrow> (c, w))
         else (c, w)
     | _ \<Rightarrow> (c, w))"

definition tcp_poll :: "'e Lwip \<Rightarrow> TcpConnection \<Rightarrow> 'e World \<Rightarrow> TcpConnection \<times> 'e World" where
  "tcp_poll lw c w = (let (evs, w) = arch_poll lw w in fold (tcp_dispatch lw) evs (c, w))"

section \<open>The virtual functions\<close>

text \<open>\<^verbatim>\<open>read_nonblocking\<close> behind its poll.\<close>

definition tcp_take :: "nat \<Rightarrow> TcpConnection \<Rightarrow> u8 list result \<times> TcpConnection" where
  "tcp_take n c =
     (if tcp_has_error c then (Inl (Error (tcp_last_error_message c)), c)
      else if tcp_rx_buffer c = [] then
        (if tcp_is_closed c then (Inl (Error ''connection closed by peer''), c)
         else if tcp_pcb c = None then (Inl (Error ''connection is closed''), c)
         else (Inr [], c))
      else
        let bytes_to_copy = min n (length (tcp_rx_buffer c))
        in (Inr (take bytes_to_copy (tcp_rx_buffer c)),
            c\<lparr>tcp_rx_buffer := drop bytes_to_copy (tcp_rx_buffer c)\<rparr>))"

definition tcp_read_nonblocking ::
  "'e Lwip \<Rightarrow> nat \<Rightarrow> TcpConnection \<Rightarrow> 'e World \<Rightarrow> u8 list result \<times> TcpConnection \<times> 'e World" where
  "tcp_read_nonblocking lw n c w =
     (if n = 0 then (Inr [], c, w)
      else
        let (c, w) = tcp_poll lw c w;
            (r, c) = tcp_take n c
        in (r, c, w))"

definition tcp_read ::
  "'e Platform \<Rightarrow> 'e Lwip \<Rightarrow> nat \<Rightarrow> TcpConnection \<Rightarrow> 'e World \<Rightarrow>
     (u8 list result \<times> TcpConnection \<times> 'e World) option" where
  "tcp_read pf lw n c w =
     blocking_read (world_platform pf) (tcp_read_nonblocking lw) (tcp_read_deadline_ms c) n c w"

definition tcp_write ::
  "'e Lwip \<Rightarrow> u8 list \<Rightarrow> TcpConnection \<Rightarrow> 'e World \<Rightarrow> nat result \<times> TcpConnection \<times> 'e World" where
  "tcp_write lw buffer c w =
     (case tcp_pcb c of
        None \<Rightarrow> (Inl (Error ''connection is closed''), c, w)
      | Some p \<Rightarrow>
          if tcp_is_closed c then (Inl (Error ''connection is closed''), c, w)
          else if length buffer = 0 then (Inr 0, c, w)
          else
            let available = lwip_tcp_sndbuf lw p (env w);
                to_write = min (length buffer) available
            in if to_write = 0 then (Inr 0, c, w)
               else
                 let (err, w) = call lw (TcpWrite p (take to_write buffer)) w;
                     (err, w) = (if err = ERR_OK then call lw (TcpOutput p) w else (err, w))
                 in if err \<noteq> ERR_OK then (Inl (Error ''tcp_write/tcp_output failed''), c, w)
                    else (Inr to_write, c, w))"

definition tcp_close ::
  "'e Lwip \<Rightarrow> TcpConnection \<Rightarrow> 'e World \<Rightarrow> Error option \<times> TcpConnection \<times> 'e World" where
  "tcp_close lw c w =
     (case tcp_pcb c of
        None \<Rightarrow> (None, c\<lparr>tcp_is_closed := True\<rparr>, w)
      | Some p \<Rightarrow>
          let w = call_void lw (TcpArg p None) w;
              w = call_void lw (TcpRecv p False) w;
              w = call_void lw (TcpSent p False) w;
              w = call_void lw (TcpErr p False) w;
              (err, w) = call lw (TcpClose p) w;
              c = c\<lparr>tcp_pcb := None, tcp_is_closed := True\<rparr>
          in if err \<noteq> ERR_OK then (Some (Error ''tcp_close failed''), c, w) else (None, c, w))"

text \<open>The destructor aborts with the member \<^verbatim>\<open>pcb\<close>, which \<^verbatim>\<open>close\<close> has set to null.\<close>

definition tcp_destroy :: "'e Lwip \<Rightarrow> TcpConnection \<Rightarrow> 'e World \<Rightarrow> 'e World" where
  "tcp_destroy lw c w =
     (let (err, c, w) = tcp_close lw c w
      in if err \<noteq> None then call_void lw (TcpAbort (tcp_pcb c)) w else w)"

definition tcp_set_deadline :: "u32 \<Rightarrow> TcpConnection \<Rightarrow> Error option \<times> TcpConnection" where
  "tcp_set_deadline timeout_ms c =
     (None, c\<lparr>tcp_read_deadline_ms := Some timeout_ms, tcp_write_deadline_ms := Some timeout_ms\<rparr>)"

definition tcp_set_read_deadline :: "u32 \<Rightarrow> TcpConnection \<Rightarrow> Error option \<times> TcpConnection" where
  "tcp_set_read_deadline timeout_ms c = (None, c\<lparr>tcp_read_deadline_ms := Some timeout_ms\<rparr>)"

definition tcp_set_write_deadline :: "u32 \<Rightarrow> TcpConnection \<Rightarrow> Error option \<times> TcpConnection" where
  "tcp_set_write_deadline timeout_ms c = (None, c\<lparr>tcp_write_deadline_ms := Some timeout_ms\<rparr>)"

text \<open>The class as an implementation of \<open>Connection\<close>.\<close>

definition tcp_ops :: "'e Platform \<Rightarrow> 'e Lwip \<Rightarrow> (TcpConnection, 'e World) Connection" where
  "tcp_ops pf lw =
     \<lparr>conn_destroy = tcp_destroy lw,
      conn_read = tcp_read pf lw,
      conn_write = tcp_write lw,
      conn_close = tcp_close lw,
      conn_local_address = (\<lambda>c w. Inr (tcp_local_addr c)),
      conn_remote_address = (\<lambda>c w. Inr (tcp_remote_addr c)),
      conn_set_deadline = (\<lambda>ms. on_object (tcp_set_deadline ms)),
      conn_set_read_deadline = (\<lambda>ms. on_object (tcp_set_read_deadline ms)),
      conn_set_write_deadline = (\<lambda>ms. on_object (tcp_set_write_deadline ms)),
      conn_read_nonblocking = tcp_read_nonblocking lw\<rparr>"

lemma tcp_ops_sel [simp]:
  "conn_destroy (tcp_ops pf lw) = tcp_destroy lw"
  "conn_read (tcp_ops pf lw) = tcp_read pf lw"
  "conn_write (tcp_ops pf lw) = tcp_write lw"
  "conn_close (tcp_ops pf lw) = tcp_close lw"
  "conn_read_nonblocking (tcp_ops pf lw) = tcp_read_nonblocking lw"
  by (simp_all add: tcp_ops_def)

section \<open>The contract of Connection\<close>

text \<open>What the connection has handed to lwIP: the data of its successful writes, in order.\<close>

definition written_on :: "pcb \<Rightarrow> (LwipCall \<times> err_t) list \<Rightarrow> u8 list" where
  "written_on p log = concat (map (\<lambda>(c, e). case c of
     TcpWrite q bs \<Rightarrow> if q = p \<and> e = ERR_OK then bs else [] | _ \<Rightarrow> []) log)"

definition tcp_sent :: "TcpConnection \<Rightarrow> 'e World \<Rightarrow> u8 list" where
  "tcp_sent c w = (case tcp_pcb c of None \<Rightarrow> [] | Some p \<Rightarrow> written_on p (calls w))"

lemma written_on_append [simp]: "written_on p (xs @ ys) = written_on p xs @ written_on p ys"
  by (simp add: written_on_def)

lemma written_on_simps [simp]:
  "written_on p [] = []"
  "written_on p ((TcpWrite q bs, e) # log) = (if q = p \<and> e = ERR_OK then bs else []) @ written_on p log"
  "written_on p ((TcpOutput q, e) # log) = written_on p log"
  by (simp_all add: written_on_def)

lemma tcp_write_Inr:
  assumes "tcp_write lw bs c w = (Inr n, c', w')"
  shows "n \<le> length bs" "c' = c" "tcp_sent c' w' = tcp_sent c w @ take n bs"
  using assms
  by (auto simp: tcp_write_def Let_def tcp_sent_def world_simps case_prod_beta split: option.splits if_splits)

lemma tcp_write_fault_free: "fault_free (fst (tcp_write lw bs c w))"
  by (auto simp: tcp_write_def Let_def case_prod_beta split: option.split)

lemma tcp_take_step:
  assumes "tcp_take n c = (r, c')"
  shows "(case r of Inr bs \<Rightarrow> bs | Inl _ \<Rightarrow> []) @ tcp_rx_buffer c' = tcp_rx_buffer c"
    "fault_free r" "\<And>bs. r = Inr bs \<Longrightarrow> length bs \<le> n"
    "tcp_this c' = tcp_this c" "tcp_pcb c' = tcp_pcb c" "tcp_is_closed c' = tcp_is_closed c"
    "tcp_has_error c' = tcp_has_error c" "tcp_read_deadline_ms c' = tcp_read_deadline_ms c"
  using assms by (auto simp: tcp_take_def Let_def split: if_splits)

lemma tcp_read_fault_free: "fault_free (fst (tcp_read_nonblocking lw n c w))"
  using tcp_take_step(2) [of n] by (auto simp: tcp_read_nonblocking_def split: prod.split)

lemma tcp_read_length:
  "tcp_read_nonblocking lw n c w = (Inr bs, c', w') \<Longrightarrow> length bs \<le> n"
  using tcp_take_step(3) [of n] by (auto simp: tcp_read_nonblocking_def split: if_splits prod.splits)

interpretation tcp: timed_connection "tcp_ops pf lw" tcp_sent "world_platform pf"
  for pf :: "'e Platform" and lw :: "'e Lwip"
  by unfold_locales
    (auto simp: tcp_write_fault_free tcp_read_fault_free tcp_sent_def world_simps
      dest: tcp_write_Inr(1,3) tcp_read_length split: option.splits)

section \<open>The received stream\<close>

text \<open>What the callbacks of an object have delivered to it.\<close>

fun event_bytes :: "obj \<Rightarrow> LwipEvent \<Rightarrow> u8 list" where
  "event_bytes this (TcpRecvEvent arg pcb p err) =
     (if arg = Some this \<and> err = ERR_OK then (case p of None \<Rightarrow> [] | Some bs \<Rightarrow> bs) else [])"
| "event_bytes this ev = []"

definition stream_of :: "obj \<Rightarrow> LwipEvent list \<Rightarrow> u8 list" where
  "stream_of this evs = concat (map (event_bytes this) evs)"

lemma stream_of_simps [simp]:
  "stream_of this [] = []"
  "stream_of this (ev # evs) = event_bytes this ev @ stream_of this evs"
  "stream_of this (xs @ ys) = stream_of this xs @ stream_of this ys"
  by (simp_all add: stream_of_def)

lemma tcp_dispatch_step:
  assumes "tcp_dispatch lw ev (c, w) = (c', w')"
  shows "tcp_rx_buffer c' = tcp_rx_buffer c @ event_bytes (tcp_this c) ev"
    "tcp_this c' = tcp_this c" "delivered w' = delivered w"
    "tcp_read_deadline_ms c' = tcp_read_deadline_ms c"
    "tcp_pcb c = None \<Longrightarrow> tcp_pcb c' = None" "tcp_is_closed c \<Longrightarrow> tcp_is_closed c'"
    "tcp_has_error c \<Longrightarrow> tcp_has_error c'"
    "lwip_keeps_time lw now \<Longrightarrow> now (env w) \<le> now (env w')"
  using assms
  by (auto simp: tcp_dispatch_def tcp_recv_callback_def handle_tcp_recv_def tcp_err_callback_def
      handle_tcp_err_def world_simps lwip_keeps_time_def split: LwipEvent.splits if_splits option.splits)
    (meson le_trans)

lemma tcp_dispatch_all:
  "fold (tcp_dispatch lw) evs (c, w) = (c', w') \<Longrightarrow>
     tcp_rx_buffer c' = tcp_rx_buffer c @ stream_of (tcp_this c) evs \<and>
     tcp_this c' = tcp_this c \<and> delivered w' = delivered w \<and>
     tcp_read_deadline_ms c' = tcp_read_deadline_ms c \<and>
     (lwip_keeps_time lw now \<longrightarrow> now (env w) \<le> now (env w'))"
proof (induction evs arbitrary: c w)
  case (Cons ev evs)
  obtain c1 w1 where d: "tcp_dispatch lw ev (c, w) = (c1, w1)" by fastforce
  note step = tcp_dispatch_step [OF d]
  have "fold (tcp_dispatch lw) evs (c1, w1) = (c', w')" using Cons.prems d by simp
  from Cons.IH [OF this] step(1-4) step(8) [of now] show ?case by (auto intro: le_trans)
qed simp

lemma tcp_poll_stream:
  assumes "tcp_poll lw c w = (c', w')"
  shows "\<exists>evs. delivered w' = delivered w @ evs \<and>
      tcp_rx_buffer c' = tcp_rx_buffer c @ stream_of (tcp_this c) evs"
    and "tcp_this c' = tcp_this c" "tcp_read_deadline_ms c' = tcp_read_deadline_ms c"
    and "lwip_keeps_time lw now \<Longrightarrow> now (env w) \<le> now (env w')"
proof -
  have f: "fold (tcp_dispatch lw) (fst (arch_poll lw w)) (c, snd (arch_poll lw w)) = (c', w')"
    using assms by (simp add: tcp_poll_def case_prod_beta)
  note all = tcp_dispatch_all [OF f]
  then show "\<exists>evs. delivered w' = delivered w @ evs \<and>
      tcp_rx_buffer c' = tcp_rx_buffer c @ stream_of (tcp_this c) evs"
    by (intro exI [of _ "fst (arch_poll lw w)"]) (simp add: world_simps)
  show "tcp_this c' = tcp_this c" "tcp_read_deadline_ms c' = tcp_read_deadline_ms c" using all by simp_all
  show "now (env w) \<le> now (env w')" if "lwip_keeps_time lw now"
    using all [of now] that arch_poll_time [OF that, of w] by simp
qed

text \<open>A read takes its bytes from the front of what was buffered and has arrived.\<close>

lemma tcp_read_stream:
  assumes "tcp_read_nonblocking lw n c w = (r, c', w')"
  shows "\<exists>evs. delivered w' = delivered w @ evs \<and>
      (case r of Inr bs \<Rightarrow> bs | Inl _ \<Rightarrow> []) @ tcp_rx_buffer c' =
        tcp_rx_buffer c @ stream_of (tcp_this c) evs"
    and "tcp_this c' = tcp_this c" "tcp_read_deadline_ms c' = tcp_read_deadline_ms c"
    and "lwip_keeps_time lw now \<Longrightarrow> now (env w) \<le> now (env w')"
proof -
  obtain c1 w1 where p: "tcp_poll lw c w = (c1, w1)" by fastforce
  note poll = tcp_poll_stream [OF p]
  obtain r2 c2 where take: "tcp_take n c1 = (r2, c2)" by fastforce
  have r: "n = 0 \<and> r = Inr [] \<and> c' = c \<and> w' = w \<or>
      w' = w1 \<and> tcp_this c' = tcp_this c1 \<and> tcp_read_deadline_ms c' = tcp_read_deadline_ms c1 \<and>
      (case r of Inr bs \<Rightarrow> bs | Inl _ \<Rightarrow> []) @ tcp_rx_buffer c' = tcp_rx_buffer c1"
  proof (cases "n = 0")
    case False
    then have "r = r2" "c' = c2" "w' = w1" using assms p take by (simp_all add: tcp_read_nonblocking_def)
    then show ?thesis using tcp_take_step(1,4,8) [OF take] by simp
  qed (use assms in \<open>simp add: tcp_read_nonblocking_def\<close>)
  then show "\<exists>evs. delivered w' = delivered w @ evs \<and>
      (case r of Inr bs \<Rightarrow> bs | Inl _ \<Rightarrow> []) @ tcp_rx_buffer c' =
        tcp_rx_buffer c @ stream_of (tcp_this c) evs"
  proof (elim disjE conjE)
    assume "r = Inr []" "c' = c" "w' = w"
    then show ?thesis by (intro exI [of _ "[]"]) simp
  next
    assume "w' = w1" "(case r of Inr bs \<Rightarrow> bs | Inl _ \<Rightarrow> []) @ tcp_rx_buffer c' = tcp_rx_buffer c1"
    then show ?thesis using poll(1) by simp
  qed
  show "tcp_this c' = tcp_this c" "tcp_read_deadline_ms c' = tcp_read_deadline_ms c"
    "lwip_keeps_time lw now \<Longrightarrow> now (env w) \<le> now (env w')"
    using r poll(2-4) by auto
qed

text \<open>The bytes of successive reads, of any sizes; a read that fails adds nothing.\<close>

fun tcp_reads ::
  "'e Lwip \<Rightarrow> nat list \<Rightarrow> TcpConnection \<Rightarrow> 'e World \<Rightarrow> u8 list \<times> TcpConnection \<times> 'e World" where
  "tcp_reads lw [] c w = ([], c, w)"
| "tcp_reads lw (n # ns) c w =
     (let (r, c, w) = tcp_read_nonblocking lw n c w;
          (bs, c, w) = tcp_reads lw ns c w
      in ((case r of Inr b \<Rightarrow> b | Inl _ \<Rightarrow> []) @ bs, c, w))"

lemma tcp_reads_all:
  "tcp_reads lw ns c w = (bs, c', w') \<Longrightarrow>
     \<exists>evs. delivered w' = delivered w @ evs \<and>
       bs @ tcp_rx_buffer c' = tcp_rx_buffer c @ stream_of (tcp_this c) evs"
proof (induction ns arbitrary: c w bs)
  case (Cons n ns)
  obtain r c1 w1 where r: "tcp_read_nonblocking lw n c w = (r, c1, w1)"
    by (cases "tcp_read_nonblocking lw n c w")
  obtain bs1 where rest: "tcp_reads lw ns c1 w1 = (bs1, c', w')"
    and bs: "bs = (case r of Inr b \<Rightarrow> b | Inl _ \<Rightarrow> []) @ bs1"
    using Cons.prems r by (auto simp: Let_def split: prod.splits)
  from tcp_read_stream(1) [OF r] obtain evs1 where e1: "delivered w1 = delivered w @ evs1"
      "(case r of Inr b \<Rightarrow> b | Inl _ \<Rightarrow> []) @ tcp_rx_buffer c1 = tcp_rx_buffer c @ stream_of (tcp_this c) evs1"
    by blast
  from Cons.IH [OF rest] obtain evs2 where e2: "delivered w' = delivered w1 @ evs2"
      "bs1 @ tcp_rx_buffer c' = tcp_rx_buffer c1 @ stream_of (tcp_this c1) evs2" by blast
  have "bs @ tcp_rx_buffer c' = (case r of Inr b \<Rightarrow> b | Inl _ \<Rightarrow> []) @ (bs1 @ tcp_rx_buffer c')"
    by (simp add: bs)
  also have "\<dots> = ((case r of Inr b \<Rightarrow> b | Inl _ \<Rightarrow> []) @ tcp_rx_buffer c1) @ stream_of (tcp_this c) evs2"
    using tcp_read_stream(2) [OF r] by (simp only: e2(2) append_assoc)
  also have "\<dots> = tcp_rx_buffer c @ stream_of (tcp_this c) (evs1 @ evs2)"
    by (simp add: e1(2))
  finally show ?case using e1(1) e2(1) by (intro exI [of _ "evs1 @ evs2"]) simp
qed simp

section \<open>Closing\<close>

lemma tcp_close_open:
  assumes "tcp_pcb c = Some p" and "tcp_close lw c w = (e, c', w')"
  shows "tcp_pcb c' = None" "tcp_is_closed c'"
    "\<exists>e1 e2 e3 e4 e5. calls w' = calls w @ [(TcpArg p None, e1), (TcpRecv p False, e2),
      (TcpSent p False, e3), (TcpErr p False, e4), (TcpClose p, e5)] \<and> (e = None \<longleftrightarrow> e5 = ERR_OK)"
  using assms by (auto simp: tcp_close_def Let_def world_simps case_prod_beta split: if_splits)

lemma tcp_closed_quiet:
  assumes "tcp_pcb c = None"
  shows "tcp_write lw bs c w = (Inl (Error ''connection is closed''), c, w)"
    "tcp_close lw c w = (None, c\<lparr>tcp_is_closed := True\<rparr>, w)" "tcp_destroy lw c w = w"
  using assms by (simp_all add: tcp_write_def tcp_close_def tcp_destroy_def)

lemma tcp_destroy_calls:
  assumes "tcp_pcb c = Some p"
  shows "\<exists>e1 e2 e3 e4 e5 e6. calls (tcp_destroy lw c w) = calls w @ [(TcpArg p None, e1),
      (TcpRecv p False, e2), (TcpSent p False, e3), (TcpErr p False, e4), (TcpClose p, e5)] @
      (if e5 = ERR_OK then [] else [(TcpAbort None, e6)])"
proof -
  obtain e c' w' where cl: "tcp_close lw c w = (e, c', w')" by (cases "tcp_close lw c w")
  obtain e1 e2 e3 e4 e5 where log: "calls w' = calls w @ [(TcpArg p None, e1), (TcpRecv p False, e2),
      (TcpSent p False, e3), (TcpErr p False, e4), (TcpClose p, e5)]" "e = None \<longleftrightarrow> e5 = ERR_OK"
    using tcp_close_open(3) [OF assms cl] by blast
  have "\<exists>e6. calls (tcp_destroy lw c w) = calls w' @ (if e5 = ERR_OK then [] else [(TcpAbort None, e6)])"
    using tcp_close_open(1) [OF assms cl] log(2)
    by (cases e) (auto simp: tcp_destroy_def cl Let_def world_simps)
  then show ?thesis using log(1) by (metis append_assoc)
qed

section \<open>read with a deadline returns\<close>

lemma tcp_read_returns:
  assumes "clock_law pf now" and "lwip_keeps_time lw now" and "tcp_read_deadline_ms c \<noteq> None"
  shows "tcp_read pf lw n c w \<noteq> None"
  unfolding tcp_read_def
  by (rule blocking_read_returns [OF world_clock_law [OF assms(1)] tcp_read_stream(4) [OF _ assms(2)] assms(3)])

lemma tcp_reads_keep_time:
  "lwip_keeps_time lw now \<Longrightarrow>
     now (env w) \<le> now (env (snd (snd (conn_read_nonblocking (tcp_ops pf lw) n c w))))"
  using tcp_read_stream(4) [of lw n c w _ _ _ now]
  by (cases "tcp_read_nonblocking lw n c w") simp

section \<open>Properties\<close>

definition sample_conn :: TcpConnection where
  "sample_conn = new_TcpConnection 7 1 \<lparr>address_network = ''tcp'', address_ip = ''10.0.0.2'', address_port = 4000\<rparr>
     \<lparr>address_network = ''tcp'', address_ip = ''10.0.0.1'', address_port = 1883\<rparr>"

lemma sample_write:
  "bs \<noteq> [] \<Longrightarrow> tcp_write sample_lwip bs sample_conn w =
     (Inr (min (length bs) 5), sample_conn, w\<lparr>calls := calls w @
       [(TcpWrite 1 (take (min (length bs) 5) bs), ERR_OK), (TcpOutput 1, ERR_OK)]\<rparr>)"
  by (cases bs) (simp_all add: tcp_write_def sample_conn_def new_TcpConnection_def call_def Let_def)

text \<open>
  The byte stream is neither lost, duplicated nor reordered: after any number of reads of
  any sizes, what the reads have returned, followed by what is still buffered, is what was
  buffered before, followed by what the callbacks of the connection have delivered.
\<close>

lemma tcp_reads_are_the_stream:
  assumes "tcp_reads lw ns c w = (bs, c', w')"
  shows "\<exists>evs. delivered w' = delivered w @ evs \<and>
    bs @ tcp_rx_buffer c' = tcp_rx_buffer c @ stream_of (tcp_this c) evs"
  using assms by (rule tcp_reads_all)

text \<open>
  A write takes a prefix of the buffer, as long as the send buffer allows, hands exactly it
  to lwIP, and says how long it was; on a connection that is closed it fails and calls nothing.
\<close>

lemma tcp_write_takes_prefix:
  "(\<forall>n c' w'. tcp_write lw buffer c w = (Inr n, c', w') \<longrightarrow>
      n \<le> length buffer \<and> c' = c \<and> tcp_sent c' w' = tcp_sent c w @ take n buffer \<and>
      (\<forall>p. tcp_pcb c = Some p \<longrightarrow> n = min (length buffer) (lwip_tcp_sndbuf lw p (env w))))
   \<and> (tcp_pcb c = None \<or> tcp_is_closed c \<longrightarrow>
      tcp_write lw buffer c w = (Inl (Error ''connection is closed''), c, w))"
proof (intro conjI allI impI)
  fix n c' w' assume w: "tcp_write lw buffer c w = (Inr n, c', w')"
  show "n \<le> length buffer" "c' = c" "tcp_sent c' w' = tcp_sent c w @ take n buffer"
    using tcp_write_Inr [OF w] by simp_all
  show "n = min (length buffer) (lwip_tcp_sndbuf lw p (env w))" if "tcp_pcb c = Some p" for p
    using w that by (auto simp: tcp_write_def Let_def case_prod_beta split: if_splits)
qed (auto simp: tcp_write_def split: option.split)

text \<open>
  Closing takes the callbacks of the control block away before closing it, leaves the object
  without a control block, and after that no operation of the object calls lwIP again.
\<close>

lemma tcp_close_is_final:
  assumes "tcp_pcb c = Some p" and "tcp_close lw c w = (e, c', w')"
  shows "(\<exists>e1 e2 e3 e4 e5. calls w' = calls w @ [(TcpArg p None, e1), (TcpRecv p False, e2),
        (TcpSent p False, e3), (TcpErr p False, e4), (TcpClose p, e5)] \<and> (e = None \<longleftrightarrow> e5 = ERR_OK)) \<and>
    tcp_pcb c' = None \<and> tcp_is_closed c' \<and>
    tcp_write lw bs c' w'' = (Inl (Error ''connection is closed''), c', w'') \<and>
    snd (snd (tcp_close lw c' w'')) = w'' \<and> tcp_destroy lw c' w'' = w''"
  using tcp_close_open [OF assms] tcp_closed_quiet [of c' lw] by simp

text \<open>
  The destructor of an open connection closes it, and when lwIP cannot close the control
  block it calls \<^verbatim>\<open>tcp_abort\<close> with a null pointer: the control block itself is never aborted.
\<close>

lemma tcp_destructor_aborts_null:
  assumes "tcp_pcb c = Some p"
  shows "\<exists>e1 e2 e3 e4 e5 e6. calls (tcp_destroy lw c w) = calls w @ [(TcpArg p None, e1),
      (TcpRecv p False, e2), (TcpSent p False, e3), (TcpErr p False, e4), (TcpClose p, e5)] @
      (if e5 = ERR_OK then [] else [(TcpAbort None, e6)])"
  using assms by (rule tcp_destroy_calls)

text \<open>
  A blocking read with a deadline returns, when the clock runs and lwIP does not turn it
  back.
\<close>

lemma tcp_read_with_deadline_returns:
  assumes "clock_law pf now" and "lwip_keeps_time lw now" and "tcp_read_deadline_ms c \<noteq> None"
  shows "\<exists>r c' w'. tcp_read pf lw n c w = Some (r, c', w')"
  using tcp_read_returns [OF assms, of n w] by fastforce

end
