(* ===== verification/Mqtt_Over_Tcp.thy ===== *)
theory Mqtt_Over_Tcp
  imports Mqtt_Client_Laws Tcp_Connection
begin

text \<open>
  \<^verbatim>\<open>MqttClient\<close> on top of \<^verbatim>\<open>TcpConnection\<close>, as \<^verbatim>\<open>Network::dial_tcp\<close> hands it out: the properties of
  the client and of the connection, read off the interpretation \<open>tcp\<close> of the connection's
  contract. lwIP, the clock and the dialling are arbitrary; where a property needs a
  documented law of the clock or of lwIP it is a hypothesis, and the sample environment below
  satisfies it.
\<close>

interpretation client_on_tcp: timed_mqtt_transport "tcp_ops pf lw" tcp_sent "world_platform pf"
  for pf :: "'e Platform" and lw :: "'e Lwip"
  by unfold_locales

lemma ping_due_world: "ping_due (world_platform pf) now cl = ping_due pf now cl"
  by (simp add: ping_due_def)

lemma ping_overdue_world: "ping_overdue (world_platform pf) now cl = ping_overdue pf now cl"
  by (simp add: ping_overdue_def)

section \<open>A sample client\<close>

definition sample_client :: "TcpConnection MqttClient" where
  "sample_client = (new_MqttClient sample_platform)\<lparr>conn := Some sample_conn, client_state := CONNECTED\<rparr>"

section \<open>The client\<close>

text \<open>
  For any way of dialling that commits no fault: whatever sequence of operations is called on a
  client, and whatever lwIP, the clock and the broker do in between, the client is consistent.
\<close>

lemma reachable_client_good:
  assumes "client_reach (world_platform pf) (tcp_ops pf lw) dial log cl" and "dial_safe dial"
  shows "(conn cl \<noteq> None \<longleftrightarrow> client_state cl = CONNECTED) \<and>
    (client_state cl \<noteq> CONNECTED \<longrightarrow>
       rx_buffer cl = [] \<and> incoming_messages cl = [] \<and> \<not> waiting_for_pingresp cl) \<and>
    next_packet_identifier cl \<noteq> 0 \<and> (\<forall>err. Some err \<in> set log \<longrightarrow> \<not> is_fault err)"
  using client_on_tcp.reachable_good [OF assms] by (auto simp: client_inv_def safe_outcome_def split: option.splits)

text \<open>The result of \<open>poll\<close> tells the state.\<close>

lemma poll_tells_state:
  assumes "client_inv cl"
  shows "fst (poll (world_platform pf) (tcp_ops pf lw) cl w) = None \<longleftrightarrow>
    is_connected (fst (snd (poll (world_platform pf) (tcp_ops pf lw) cl w)))"
  using client_on_tcp.poll_good(2) [OF assms] by (simp add: is_connected_def)

text \<open>
  C29: the incoming bytes are cut into packets as they were sent: a buffer that holds the
  frames of packets the client accepts, followed by the beginning of another frame, is
  processed without an error; the QoS 0 messages are queued in order, each with its topic,
  flags and payload length, a PINGRESP ends the wait for it, and the rest stays in the buffer.
\<close>

theorem stream_is_cut_into_packets:
  assumes "\<forall>p\<in>set ps. valid_packet p \<and> packet_accepted p"
    and "rx_buffer cl = concat (map packet_frame ps) @ tail"
    and "frame_error (mqtt_frame_info tail) = None" "\<not> frame_complete (mqtt_frame_info tail)"
  shows "\<exists>cl'. process_rx_buffer (tcp_ops pf lw) cl w = (None, cl', w) \<and> rx_buffer cl' = tail \<and>
      map (described span_size) (incoming_messages cl') =
        map (described span_size) (incoming_messages cl) @ concat (map announced ps) \<and>
      waiting_for_pingresp cl' = (waiting_for_pingresp cl \<and> (\<forall>p\<in>set ps. packet_type p \<noteq> PINGRESP))"
  using assms by (rule process_stream)

definition sample_packets :: "MqttControlPacket list" where
  "sample_packets = [mk_packet PUBLISH 0 [0, 1, 116, 7, 8], mk_packet PINGRESP 0 []]"

lemma sample_packets_ok:
  "\<forall>p\<in>set sample_packets. valid_packet p \<and> packet_accepted p"
  "concat (map announced sample_packets) = [(''t'', False, False, 2)]"
  "concat (map packet_frame sample_packets) = [0x30, 5, 0, 1, 116, 7, 8, 0xD0, 0]"
  by (simp_all add: sample_packets_def valid_packet_def validate_fixed_header_flags_def packet_accepted_def
      sample_publish_parsed announced_def described_def packet_frame_def codec_eval)

theorem stream_is_cut_into_packets_witness:
  "\<exists>cl'. process_rx_buffer (tcp_ops sample_platform sample_lwip)
        (sample_client\<lparr>rx_buffer := [0x30, 5, 0, 1, 116, 7, 8, 0xD0, 0, 0x30]\<rparr>) (sample_world 0 [])
      = (None, cl', sample_world 0 []) \<and> rx_buffer cl' = [0x30] \<and>
      map (described span_size) (incoming_messages cl') = [(''t'', False, False, 2)] \<and>
      \<not> waiting_for_pingresp cl'"
  using stream_is_cut_into_packets [OF sample_packets_ok(1),
      of "sample_client\<lparr>rx_buffer := [0x30, 5, 0, 1, 116, 7, 8, 0xD0, 0, 0x30]\<rparr>" "[0x30]"
        sample_platform sample_lwip "sample_world 0 []"]
  by (simp add: sample_packets_ok(2,3) mqtt_frame_info_def incomplete_frame_def sample_client_def
      new_MqttClient_def)



text \<open>
  C2: a publish that returns no error has handed to lwIP, after everything sent before, one
  packet that a broker parses to exactly the message: the topic, the payload and the retain
  flag of the call, at quality of service 0, when the topic is shorter than 65536.
\<close>

theorem publish_reaches_broker:
  assumes "publish (world_platform pf) (tcp_ops pf lw) topic payload retain cl w = (None, cl', w')"
    and "conn cl = Some c" and "length topic < 65536"
  shows "\<exists>c' (e :: MqttEncodedPacket) p. conn cl' = Some c' \<and> tcp_sent c' w' = tcp_sent c w @ packet_bytes e \<and>
    parse_control_packet (packet_bytes e) = Inr p \<and>
    parse_publish p = Inr \<lparr>publish_dup = False, publish_qos = 0, publish_retain = retain,
      publish_topic_name = topic, publish_packet_identifier = None, publish_payload = payload\<rparr>"
proof -
  let ?m = "\<lparr>publish_dup = False, publish_qos = 0, publish_retain = retain,
      publish_topic_name = topic, publish_packet_identifier = None, publish_payload = payload\<rparr>"
  obtain c' e where d: "conn cl' = Some c'" "tcp_sent c' w' = tcp_sent c w @ packet_bytes e"
      and e: "encode_publish ?m = Inr e"
    using client_on_tcp.publish_delivers [OF assms(1,2)] by blast
  have "publish_fits ?m" using assms(3) by (simp add: publish_fits_def fits16_def)
  from publish.round_trip [OF e this, of "[]"] obtain p where
    "parse_control_packet (packet_bytes e) = Inr p" "parse_publish p = Inr ?m" by auto
  with d show ?thesis by blast
qed

lemma sample_publish_run:
  "\<exists>cl' w'. publish (world_platform sample_platform) (tcp_ops sample_platform sample_lwip)
      ''t'' [7] True sample_client (sample_world 0 []) = (None, cl', w')"
proof -
  have e: "encode_publish \<lparr>publish_dup = False, publish_qos = 0, publish_retain = True,
      publish_topic_name = ''t'', publish_packet_identifier = None, publish_payload = [7]\<rparr>
      = Inr \<lparr>packet_bytes = [0x31, 4, 0, 1, 116, 7]\<rparr>"
    by (simp add: encode_publish_def publish_flags_def codec_eval)
  show ?thesis
    by (simp add: publish_def sample_client_def new_MqttClient_def e send_encoded_def
        send_loop.simps [of "tcp_ops sample_platform sample_lwip"] sample_write Let_def case_prod_beta)
qed

theorem publish_reaches_broker_witness:
  "\<exists>cl' w' c' (e :: MqttEncodedPacket) p. publish (world_platform sample_platform) (tcp_ops sample_platform sample_lwip)
      ''t'' [7] True sample_client (sample_world 0 []) = (None, cl', w') \<and>
    conn cl' = Some c' \<and> tcp_sent c' w' = packet_bytes e \<and>
    parse_control_packet (packet_bytes e) = Inr p \<and>
    parse_publish p = Inr \<lparr>publish_dup = False, publish_qos = 0, publish_retain = True,
      publish_topic_name = ''t'', publish_packet_identifier = None, publish_payload = [7]\<rparr>"
proof -
  obtain cl' w' where run: "publish (world_platform sample_platform) (tcp_ops sample_platform sample_lwip)
      ''t'' [7] True sample_client (sample_world 0 []) = (None, cl', w')"
    using sample_publish_run by blast
  have c: "conn sample_client = Some sample_conn" by (simp add: sample_client_def)
  have s: "tcp_sent sample_conn (sample_world 0 []) = []"
    by (simp add: tcp_sent_def sample_world_def split: option.split)
  from publish_reaches_broker [OF run c] run s show ?thesis by auto
qed

text \<open>
  A subscribe that returns no error has handed to lwIP one packet that a broker parses to a
  subscription to exactly that topic at quality of service 0, under the client's next packet
  identifier, which is not zero.
\<close>

lemma subscribe_reaches_broker:
  assumes "subscribe (world_platform pf) (tcp_ops pf lw) topic qos cl w = (None, cl', w')"
    and "conn cl = Some c" and "next_packet_identifier cl \<noteq> 0" and "length topic < 65536"
  shows "\<exists>c' (e :: MqttEncodedPacket) p. conn cl' = Some c' \<and> tcp_sent c' w' = tcp_sent c w @ packet_bytes e \<and>
    parse_control_packet (packet_bytes e) = Inr p \<and>
    parse_subscribe p = Inr \<lparr>subscribe_packet_identifier = next_packet_identifier cl,
      subscribe_topics = [\<lparr>topic_filter = topic, topic_qos = 0\<rparr>]\<rparr>"
proof -
  let ?m = "\<lparr>subscribe_packet_identifier = next_packet_identifier cl,
      subscribe_topics = [\<lparr>topic_filter = topic, topic_qos = 0\<rparr>]\<rparr>"
  obtain c' e where d: "conn cl' = Some c'" "tcp_sent c' w' = tcp_sent c w @ packet_bytes e"
      and e: "encode_subscribe ?m = Inr e"
    using client_on_tcp.subscribe_delivers [OF assms(1-3)] by blast
  have "subscribe_fits ?m" using assms(4) by (simp add: subscribe_fits_def topic_fits_def fits16_def)
  from subscribe.round_trip [OF e this, of "[]"] obtain p where
    "parse_control_packet (packet_bytes e) = Inr p" "parse_subscribe p = Inr ?m" by auto
  with d show ?thesis by blast
qed

text \<open>\<open>connect\<close> returns when the dial returns, and its answer tells the state.\<close>

lemma connect_over_tcp_answers:
  assumes "clock_law pf now" and "lwip_keeps_time lw now" and "dial_safe dial"
    and "dial broker timeout w \<noteq> None" and "client_inv cl" and "\<not> is_connected cl"
  shows "\<exists>e cl' w'. connect (world_platform pf) (tcp_ops pf lw) dial broker m timeout cl w = Some (e, cl', w') \<and>
    client_inv cl' \<and> (e = None \<longleftrightarrow> is_connected cl')"
proof -
  have reads: "reads_keep_time (tcp_ops pf lw) (\<lambda>w. now (env w))"
    unfolding reads_keep_time_def using tcp_reads_keep_time [OF assms(2)] by blast
  obtain e cl' w' where run:
      "connect (world_platform pf) (tcp_ops pf lw) dial broker m timeout cl w = Some (e, cl', w')"
    using connect_returns [OF world_clock_law [OF assms(1)] reads, of dial broker timeout w m cl] assms(4)
    by fastforce
  note good = client_on_tcp.connect_good [OF assms(5,3) run]
  have "e = None \<longleftrightarrow> is_connected cl'"
    using good(2,3) assms(6) by (cases e) (simp_all add: is_connected_def)
  moreover have "client_inv cl'" using good(1) by (simp add: good_run_def)
  ultimately show ?thesis using run by blast
qed

text \<open>
  C31: the keep-alive: a connected client with a keep-alive time that has sent nothing for half
  of it, and is not waiting for a PINGRESP, sends a PINGREQ and then waits for the answer; one
  that has waited and received nothing for one and a half times it is closed with an error.
\<close>

theorem keep_alive_works:
  assumes "keep_alive_seconds cl \<noteq> 0" and "conn cl = Some c"
    and "get_absolute_time (world_platform pf) w = (now, w1)"
    and "get_absolute_time (world_platform pf) w1 = (now2, w2)"
  shows "(\<forall>cl' w'. ping_due pf now cl \<and>
        keep_alive_check (world_platform pf) (tcp_ops pf lw) cl w = (None, cl', w') \<longrightarrow>
        waiting_for_pingresp cl' \<and>
        (\<exists>c'. conn cl' = Some c' \<and> tcp_sent c' w' = tcp_sent c w @ [0xC0, 0]))
    \<and> (ping_overdue pf now2 cl \<longrightarrow>
        keep_alive_check (world_platform pf) (tcp_ops pf lw) cl w =
          fail_with (tcp_ops pf lw) (Error ''MQTT PINGRESP timeout'') cl w2)
    \<and> (\<not> ping_due pf now cl \<and> \<not> ping_overdue pf now2 cl \<longrightarrow>
        fst (keep_alive_check (world_platform pf) (tcp_ops pf lw) cl w) = None \<and>
        fst (snd (keep_alive_check (world_platform pf) (tcp_ops pf lw) cl w)) = cl)"
proof (intro conjI allI impI; (elim conjE)?)
  note same = ping_due_world ping_overdue_world
  fix cl' w'
  assume "ping_due pf now cl"
    and "keep_alive_check (world_platform pf) (tcp_ops pf lw) cl w = (None, cl', w')"
  from client_on_tcp.keep_alive_pings [OF this(2) assms(2,1)] this(1) assms(3)
  show "waiting_for_pingresp cl'"
    "\<exists>c'. conn cl' = Some c' \<and> tcp_sent c' w' = tcp_sent c w @ [0xC0, 0]"
    by (simp_all add: same)
next
  assume "ping_overdue pf now2 cl"
  then show "keep_alive_check (world_platform pf) (tcp_ops pf lw) cl w =
      fail_with (tcp_ops pf lw) (Error ''MQTT PINGRESP timeout'') cl w2"
    using assms(1,3,4) by (intro keep_alive_overdue) (simp_all add: ping_overdue_world)
next
  assume "\<not> ping_due pf now cl" "\<not> ping_overdue pf now2 cl"
  then show "fst (keep_alive_check (world_platform pf) (tcp_ops pf lw) cl w) = None"
    "fst (snd (keep_alive_check (world_platform pf) (tcp_ops pf lw) cl w)) = cl"
    using keep_alive_waiting [OF assms(1,3,4), of "tcp_ops pf lw"]
      keep_alive_not_due [OF assms(1,3), of "tcp_ops pf lw"]
    by (cases "waiting_for_pingresp cl"; simp add: ping_due_world ping_overdue_world)+
qed

theorem keep_alive_works_witness:
  "keep_alive_check (world_platform sample_platform) (tcp_ops sample_platform sample_lwip)
      (sample_client\<lparr>waiting_for_pingresp := True\<rparr>) (sample_world 90000000 []) =
    fail_with (tcp_ops sample_platform sample_lwip) (Error ''MQTT PINGRESP timeout'')
      (sample_client\<lparr>waiting_for_pingresp := True\<rparr>) (sample_world 90000000 [])"
proof -
  let ?cl = "sample_client\<lparr>waiting_for_pingresp := True\<rparr>" and ?w = "sample_world 90000000 []"
  have t: "get_absolute_time (world_platform sample_platform) ?w = (90000000, ?w)"
    by (simp add: on_env_def sample_world_def)
  have "keep_alive_seconds ?cl \<noteq> 0" "conn ?cl = Some sample_conn"
    by (simp_all add: sample_client_def new_MqttClient_def)
  from keep_alive_works [OF this t t, of sample_lwip] show ?thesis
    by (simp add: ping_overdue_def ping_timeout_us_def sample_client_def new_MqttClient_def)
qed

text \<open>
  Packet identifiers are never zero and are not reused before all 65535 have been: the
  \<open>j\<close>-th of successive allocations is the next identifier plus \<open>j\<close>, counted modulo 65535 from 1.
\<close>

lemma packet_identifiers_cycle:
  assumes "next_packet_identifier cl \<noteq> 0" and "j < k"
  shows "unat (allocate_many k cl ! j) = (unat (next_packet_identifier cl) - 1 + j) mod 65535 + 1"
  using assms by (rule allocate_many_nth)

end
