(* ===== verification/Mqtt_Delivery.thy ===== *)
theory Mqtt_Delivery
  imports Mqtt_Over_Tcp
begin

text \<open>
  From lwIP's callbacks to the message queue: any number of calls of \<open>poll\<close> over a TCP connection,
  each of which reads at most 256 bytes, queue exactly the messages of the byte stream that the
  callbacks of the connection have delivered. The lemmas follow a byte through \<^verbatim>\<open>tcp_recv\<close>, the
  connection's buffer, the client's buffer and the framing, past the keep-alive.
\<close>

section \<open>What processing depends on\<close>

definition inbox :: "'c MqttClient \<Rightarrow> u8 list \<times> span MqttPublishMessage list" where
  "inbox cl = (rx_buffer cl, incoming_messages cl)"

lemma handle_packet_inbox:
  "incoming_messages cl1 = incoming_messages cl2 \<Longrightarrow>
     fst (handle_packet n p cl1) = fst (handle_packet n p cl2) \<and>
     incoming_messages (snd (handle_packet n p cl1)) = incoming_messages (snd (handle_packet n p cl2))"
  by (simp add: handle_packet_def split: MqttMessageType.split sum.split list.split)

lemma after_frame_inbox:
  "inbox cl1 = inbox cl2 \<Longrightarrow> inbox (after_frame p cl1) = inbox (after_frame p cl2)"
  using handle_packet_inbox [of cl1 cl2]
  by (simp add: inbox_def after_frame_def Let_def handle_packet_keeps)

lemma process_inbox:
  "inbox cl1 = inbox cl2 \<Longrightarrow> process_rx_buffer ops cl1 w1 = (None, cl1', w1') \<Longrightarrow>
     \<exists>cl2'. process_rx_buffer ops cl2 w2 = (None, cl2', w2) \<and> inbox cl2' = inbox cl1'"
proof (induction "length (rx_buffer cl1)" arbitrary: cl1 cl2 rule: less_induct)
  case less
  have rx: "rx_buffer cl2 = rx_buffer cl1" using less.prems(1) by (simp add: inbox_def)
  show ?case
  proof (cases rule: process_rx_buffer_cases [of cl1 ops w1])
    case (fails err cl')
    have "fst (process_rx_buffer ops cl1 w1) = Some err" unfolding fails(2) by simp
    then show ?thesis using less.prems(2) by simp
  next
    case waits
    then have "process_rx_buffer ops cl2 w2 = (None, cl2, w2)" by (intro wait_for_frame) (simp_all add: rx)
    then show ?thesis using waits(3) less.prems by simp
  next
    case (consumes p)
    have "fst (handle_packet (frame_total_size (mqtt_frame_info (rx_buffer cl2))) p cl2) = None"
      using consumes(3) handle_packet_inbox [of cl2 cl1] less.prems(1) by (simp add: rx inbox_def)
    then have "process_rx_buffer ops cl2 w2 = process_rx_buffer ops (after_frame p cl2) w2"
      using consumes(1,2) by (intro consume_frame) (simp_all add: rx)
    then show ?thesis
      using less.hyps [OF after_frame_shorter [OF consumes(1)] after_frame_inbox [OF less.prems(1)]]
        less.prems(2) consumes(4) by simp
  qed
qed

lemma process_keeps:
  "process_rx_buffer ops cl w = (None, cl', w') \<Longrightarrow> conn cl' = conn cl \<and> client_state cl' = client_state cl \<and>
     keep_alive_seconds cl' = keep_alive_seconds cl \<and> w' = w"
proof (induction "length (rx_buffer cl)" arbitrary: cl rule: less_induct)
  case less
  show ?case
  proof (cases rule: process_rx_buffer_cases [of cl ops w])
    case (fails err cl1)
    have "fst (process_rx_buffer ops cl w) = Some err" unfolding fails(2) by simp
    then show ?thesis using less.prems by simp
  next
    case waits
    then show ?thesis using less.prems by simp
  next
    case (consumes p)
    from less.hyps [OF after_frame_shorter [OF consumes(1)]] less.prems consumes(4) show ?thesis by simp
  qed
qed

text \<open>
  \<open>absorbs cl got box\<close>: taking in the bytes \<open>got\<close> leaves \<open>box\<close>. Without new bytes nothing is
  looked at.
\<close>

definition absorbs :: "('c, 'w) Connection \<Rightarrow> 'c MqttClient \<Rightarrow> u8 list \<Rightarrow> u8 list \<times> span MqttPublishMessage list \<Rightarrow> bool" where
  "absorbs ops cl got box \<longleftrightarrow> got = [] \<and> box = inbox cl \<or>
     (\<forall>w. \<exists>cl'. process_rx_buffer ops (cl\<lparr>rx_buffer := rx_buffer cl @ got\<rparr>) w = (None, cl', w) \<and> inbox cl' = box)"

lemma absorbs_trans:
  assumes "absorbs ops cl g1 (inbox cl1)" and "absorbs ops cl1 g2 box"
  shows "absorbs ops cl (g1 @ g2) box"
proof -
  have same: "absorbs ops a g b" if "inbox a = inbox a'" "absorbs ops a' g b" for a a' :: "'a MqttClient" and g b
  proof -
    have box: "inbox (a'\<lparr>rx_buffer := rx_buffer a' @ g\<rparr>) = inbox (a\<lparr>rx_buffer := rx_buffer a @ g\<rparr>)"
      using that(1) by (simp add: inbox_def)
    show ?thesis
      using that(2) process_inbox [OF box, of ops] that(1) unfolding absorbs_def by metis
  qed
  consider "g1 = []" "inbox cl1 = inbox cl" | "g2 = []" "box = inbox cl1"
    | "\<forall>w. \<exists>cl'. process_rx_buffer ops (cl\<lparr>rx_buffer := rx_buffer cl @ g1\<rparr>) w = (None, cl', w) \<and> inbox cl' = inbox cl1"
      "\<forall>w. \<exists>cl'. process_rx_buffer ops (cl1\<lparr>rx_buffer := rx_buffer cl1 @ g2\<rparr>) w = (None, cl', w) \<and> inbox cl' = box"
    using assms unfolding absorbs_def by auto
  then show ?thesis
  proof cases
    case 1
    then show ?thesis using same [of cl cl1] assms(2) by simp
  next
    case 2
    then show ?thesis using assms(1) by simp
  next
    case 3
    have "\<exists>cl'. process_rx_buffer ops (cl\<lparr>rx_buffer := rx_buffer cl @ g1 @ g2\<rparr>) w = (None, cl', w) \<and> inbox cl' = box" for w
    proof -
      obtain cl2 where cl2: "process_rx_buffer ops (cl\<lparr>rx_buffer := rx_buffer cl @ g1\<rparr>) w = (None, cl2, w)"
          "inbox cl2 = inbox cl1" using 3(1) by blast
      from process_rx_buffer_chunks [OF cl2(1), of g2]
      have run: "process_rx_buffer ops (cl\<lparr>rx_buffer := rx_buffer cl @ g1 @ g2\<rparr>) w =
          process_rx_buffer ops (cl2\<lparr>rx_buffer := rx_buffer cl2 @ g2\<rparr>) w" by simp
      obtain cl3 where cl3: "process_rx_buffer ops (cl1\<lparr>rx_buffer := rx_buffer cl1 @ g2\<rparr>) w = (None, cl3, w)"
          "inbox cl3 = box" using 3(2) by blast
      have "inbox (cl1\<lparr>rx_buffer := rx_buffer cl1 @ g2\<rparr>) = inbox (cl2\<lparr>rx_buffer := rx_buffer cl2 @ g2\<rparr>)"
        using cl2(2) by (simp add: inbox_def)
      from process_inbox [OF this cl3(1), of w] cl3(2) run show ?thesis by auto
    qed
    then show ?thesis unfolding absorbs_def by blast
  qed
qed

section \<open>The keep-alive sees nothing of it\<close>

lemma tcp_write_quiet:
  "tcp_write lw bs c w = (r, c', w') \<Longrightarrow> c' = c \<and> delivered w' = delivered w"
  by (auto simp: tcp_write_def Let_def world_simps case_prod_beta split: option.splits if_splits)

lemma send_loop_quiet:
  "send_loop (tcp_ops pf lw) bytes k cl w = (None, cl', w') \<Longrightarrow> conn cl = Some c \<Longrightarrow>
     inbox cl' = inbox cl \<and> conn cl' = Some c \<and> delivered w' = delivered w"
proof (induction "length bytes - k" arbitrary: k cl w rule: less_induct)
  case less
  obtain r c1 w1 where wr: "tcp_write lw (drop k bytes) c w = (r, c1, w1)" by (metis prod_cases3)
  note q = tcp_write_quiet [OF wr]
  note run = send_loop_run [OF less.prems(2), of "tcp_ops pf lw" k bytes w r c1 w1]
  show ?case
  proof (cases "k < length bytes")
    case False
    then show ?thesis using run wr less.prems by simp
  next
    case True
    have rest: "\<exists>n. r = Inr n \<and> n \<noteq> 0 \<and>
        send_loop (tcp_ops pf lw) bytes (k + n) (cl\<lparr>conn := Some c1\<rparr>) w1 = (None, cl', w')"
    proof (cases r)
      case (Inl err)
      have "fst (send_loop (tcp_ops pf lw) bytes k cl w) = Some err" using run wr True Inl by simp
      then show ?thesis using less.prems(1) by simp
    next
      case (Inr n)
      show ?thesis
      proof (cases "n = 0")
        case zero: True
        have "fst (send_loop (tcp_ops pf lw) bytes k cl w) \<noteq> None" using run wr True Inr zero by simp
        then show ?thesis using less.prems(1) by simp
      next
        case False
        then show ?thesis using run wr True Inr less.prems(1) by simp
      qed
    qed
    then obtain n where n: "n \<noteq> 0"
        "send_loop (tcp_ops pf lw) bytes (k + n) (cl\<lparr>conn := Some c1\<rparr>) w1 = (None, cl', w')" by blast
    have "length bytes - (k + n) < length bytes - k" using n(1) True by simp
    from less.hyps [OF this n(2)] q show ?thesis by (simp add: inbox_def)
  qed
qed

lemma fail_with_fails [simp]: "fail_with ops err cl w \<noteq> (None, cl', w')" "(None, cl', w') \<noteq> fail_with ops err cl w"
  by (metis fail_with_outcome(1) fst_conv option.discI)+

lemma send_encoded_quiet:
  assumes "send_encoded (world_platform pf) (tcp_ops pf lw) packet cl w = (None, cl', w')" and "conn cl = Some c"
  shows "inbox cl' = inbox cl \<and> conn cl' = Some c \<and> delivered w' = delivered w"
proof -
  obtain e cl1 w1 where l: "send_loop (tcp_ops pf lw) (packet_bytes packet) 0 cl w = (e, cl1, w1)"
    by (metis prod_cases3)
  obtain now w2 where t: "on_env (get_absolute_time pf) w1 = (now, w2)" by fastforce
  have e: "e = None" "cl' = cl1\<lparr>last_tx := now\<rparr>" "w' = w2"
    using assms l t by (auto simp: send_encoded_def split: option.splits)
  have "delivered w2 = delivered w1" using on_env_log(2) [of "get_absolute_time pf" w1] t by simp
  then show ?thesis using send_loop_quiet [OF l [unfolded e(1)] assms(2)] e(2,3) by (simp add: inbox_def)
qed

lemma keep_alive_quiet:
  assumes "keep_alive_check (world_platform pf) (tcp_ops pf lw) cl w = (None, cl', w')" and "conn cl = Some c"
  shows "inbox cl' = inbox cl \<and> conn cl' = Some c \<and> delivered w' = delivered w"
proof (cases "keep_alive_seconds cl = 0")
  case True
  then show ?thesis using assms by (simp add: keep_alive_check_eq)
next
  case False
  let ?pf = "world_platform pf" and ?ops = "tcp_ops pf lw"
  obtain now w1 where now: "on_env (get_absolute_time pf) w = (now, w1)" by fastforce
  have w1: "delivered w1 = delivered w" using on_env_log(2) [of "get_absolute_time pf" w] now by simp
  define ping where "ping = (if ping_due ?pf now cl
      then (let (e, cl, w) = send_encoded ?pf ?ops pingreq_packet cl w1
            in (e, if e = None then cl\<lparr>waiting_for_pingresp := True\<rparr> else cl, w))
      else (None, cl, w1))"
  obtain e cl1 w2 where p: "ping = (e, cl1, w2)" by (metis prod_cases3)
  obtain now2 w3 where t2: "on_env (get_absolute_time pf) w2 = (now2, w3)" by fastforce
  have w3: "delivered w3 = delivered w2" using on_env_log(2) [of "get_absolute_time pf" w2] t2 by simp
  have "keep_alive_check ?pf ?ops cl w =
      (if e \<noteq> None then (e, cl1, w2)
       else if waiting_for_pingresp cl1
       then (if absolute_time_diff_us ?pf (last_rx cl1) now2 \<ge> ping_timeout_us cl
             then fail_with ?ops (Error ''MQTT PINGRESP timeout'') cl1 w3 else (None, cl1, w3))
       else (None, cl1, w2))"
    using False by (simp add: keep_alive_check_eq now ping_def [symmetric] p t2)
  then have fin: "e = None" "cl' = cl1" "w' = w2 \<or> w' = w3"
    using assms(1) by (auto split: if_splits)
  have "inbox cl1 = inbox cl \<and> conn cl1 = Some c \<and> delivered w2 = delivered w"
  proof (cases "ping_due ?pf now cl")
    case False
    then show ?thesis using p assms(2) w1 by (simp add: ping_def)
  next
    case True
    obtain e2 cl2 w2' where s: "send_encoded ?pf ?ops pingreq_packet cl w1 = (e2, cl2, w2')"
      by (metis prod_cases3)
    have e2: "e2 = None" "w2' = w2" "cl1 = cl2\<lparr>waiting_for_pingresp := True\<rparr>"
      using p fin(1) s True by (auto simp: ping_def)
    then show ?thesis using send_encoded_quiet [OF s [unfolded e2(1)] assms(2)] w1 by (simp add: inbox_def)
  qed
  then show ?thesis using fin(2,3) w3 by auto
qed

section \<open>Polling\<close>

primrec polls ::
  "'w Platform \<Rightarrow> ('c, 'w) Connection \<Rightarrow> nat \<Rightarrow> 'c MqttClient \<Rightarrow> 'w \<Rightarrow> Error option \<times> 'c MqttClient \<times> 'w" where
  "polls pf ops 0 cl w = (None, cl, w)"
| "polls pf ops (Suc k) cl w =
     (let (err, cl, w) = poll pf ops cl w
      in if err \<noteq> None then (err, cl, w) else polls pf ops k cl w)"

text \<open>What one or more polls have taken from the stream, and what they have made of it.\<close>

definition progress :: "TcpConnection MqttClient \<Rightarrow> TcpConnection \<Rightarrow> 'e World \<Rightarrow> TcpConnection MqttClient \<Rightarrow> 'e World \<Rightarrow>
    (TcpConnection, 'e World) Connection \<Rightarrow> bool" where
  "progress cl c w cl' w' ops \<longleftrightarrow> (\<exists>c' evs got. conn cl' = Some c' \<and> tcp_this c' = tcp_this c \<and>
     delivered w' = delivered w @ evs \<and>
     got @ tcp_rx_buffer c' = tcp_rx_buffer c @ stream_of (tcp_this c) evs \<and>
     absorbs ops cl got (inbox cl'))"

lemma poll_progress:
  assumes "poll (world_platform pf) (tcp_ops pf lw) cl w = (None, cl', w')" and c: "conn cl = Some c"
  shows "progress cl c w cl' w' (tcp_ops pf lw)"
proof -
  let ?pf = "world_platform pf" and ?ops = "tcp_ops pf lw"
  have connected: "client_state cl = CONNECTED" using assms by (auto simp: poll_def split: if_splits)
  obtain rd c1 w1 where rd: "tcp_read_nonblocking lw 256 c w = (rd, c1, w1)" by (metis prod_cases3)
  note stream = tcp_read_stream(1,2) [OF rd]
  note run = poll_def [of ?pf ?ops cl w]
  obtain buffer where buffer: "rd = Inr buffer"
    using assms connected rd by (cases rd) (simp_all add: run)
  obtain evs where evs: "delivered w1 = delivered w @ evs"
      "buffer @ tcp_rx_buffer c1 = tcp_rx_buffer c @ stream_of (tcp_this c) evs"
    using stream(1) buffer by auto
  show ?thesis
  proof (cases "buffer = []")
    case True
    have "keep_alive_check ?pf ?ops (cl\<lparr>conn := Some c1\<rparr>) w1 = (None, cl', w')"
      using assms connected rd buffer True by (simp add: run)
    from keep_alive_quiet [OF this, of c1] have "inbox cl' = inbox cl" "conn cl' = Some c1" "delivered w' = delivered w1"
      by (simp_all add: inbox_def)
    then show ?thesis
      using evs stream(2) True unfolding progress_def absorbs_def
      by (intro exI [of _ c1] exI [of _ evs] exI [of _ "[]"]) simp
  next
    case False
    obtain now w2 where t: "on_env (get_absolute_time pf) w1 = (now, w2)" by fastforce
    have w2: "delivered w2 = delivered w1" using on_env_log(2) [of "get_absolute_time pf" w1] t by simp
    let ?cl = "cl\<lparr>conn := Some c1, last_rx := now, rx_buffer := rx_buffer cl @ buffer\<rparr>"
    obtain e cl1 w3 where p: "process_rx_buffer ?ops ?cl w2 = (e, cl1, w3)" by (metis prod_cases3)
    have e: "e = None" and ka: "keep_alive_check ?pf ?ops cl1 w3 = (None, cl', w')"
      using assms connected rd buffer False t p by (auto simp: run split: option.splits)
    note keeps = process_keeps [OF p [unfolded e]]
    note quiet = keep_alive_quiet [OF ka, of c1]
    have "\<exists>cl2. process_rx_buffer ?ops (cl\<lparr>rx_buffer := rx_buffer cl @ buffer\<rparr>) w0 = (None, cl2, w0) \<and> inbox cl2 = inbox cl'" for w0
      using process_inbox [of ?cl "cl\<lparr>rx_buffer := rx_buffer cl @ buffer\<rparr>" ?ops w2 cl1 w3 w0] p e keeps quiet
      by (simp add: inbox_def)
    then show ?thesis
      using evs stream(2) keeps quiet w2 unfolding progress_def absorbs_def
      by (intro exI [of _ c1] exI [of _ evs] exI [of _ buffer]) simp
  qed
qed

lemma polls_progress:
  "polls (world_platform pf) (tcp_ops pf lw) k cl w = (None, cl', w') \<Longrightarrow> conn cl = Some c \<Longrightarrow>
     progress cl c w cl' w' (tcp_ops pf lw)"
proof (induction k arbitrary: cl w c)
  case 0
  then show ?case
    unfolding progress_def absorbs_def by (intro exI [of _ c] exI [of _ "[]"]) simp
next
  case (Suc k)
  obtain e cl1 w1 where p: "poll (world_platform pf) (tcp_ops pf lw) cl w = (e, cl1, w1)" by (metis prod_cases3)
  have e: "e = None" and rest: "polls (world_platform pf) (tcp_ops pf lw) k cl1 w1 = (None, cl', w')"
    using Suc.prems(1) p by (auto split: if_splits)
  obtain c1 evs1 got1 where s1: "conn cl1 = Some c1" "tcp_this c1 = tcp_this c" "delivered w1 = delivered w @ evs1"
      "got1 @ tcp_rx_buffer c1 = tcp_rx_buffer c @ stream_of (tcp_this c) evs1"
      "absorbs (tcp_ops pf lw) cl got1 (inbox cl1)"
    using poll_progress [OF p [unfolded e] Suc.prems(2)] unfolding progress_def by blast
  obtain c2 evs2 got2 where s2: "conn cl' = Some c2" "tcp_this c2 = tcp_this c1" "delivered w' = delivered w1 @ evs2"
      "got2 @ tcp_rx_buffer c2 = tcp_rx_buffer c1 @ stream_of (tcp_this c1) evs2"
      "absorbs (tcp_ops pf lw) cl1 got2 (inbox cl')"
    using Suc.IH [OF rest s1(1)] unfolding progress_def by blast
  have "(got1 @ got2) @ tcp_rx_buffer c2 = (got1 @ tcp_rx_buffer c1) @ stream_of (tcp_this c) evs2"
    using s2(4) s1(2) by simp
  also have "\<dots> = tcp_rx_buffer c @ stream_of (tcp_this c) (evs1 @ evs2)" using s1(4) by simp
  finally show ?case
    using s1 s2 absorbs_trans [OF s1(5) s2(5)] unfolding progress_def
    by (intro exI [of _ c2] exI [of _ "evs1 @ evs2"] exI [of _ "got1 @ got2"]) simp
qed

section \<open>Properties\<close>


text \<open>A message and a PINGRESP in two segments, cut inside the message.\<close>

definition sample_segments :: "LwipEvent list" where
  "sample_segments = [TcpRecvEvent (Some 7) 1 (Some [0x30, 5, 0, 1]) ERR_OK,
     TcpRecvEvent (Some 7) 1 (Some [116, 7, 8, 0xD0, 0, 0x30]) ERR_OK]"

lemma sample_segments_read:
  "\<exists>w1. tcp_read_nonblocking sample_lwip 256 sample_conn (sample_world 0 sample_segments) =
     (Inr [0x30, 5, 0, 1, 116, 7, 8, 0xD0, 0, 0x30], sample_conn, w1) \<and> delivered w1 = sample_segments"
  by (simp add: sample_segments_def tcp_read_nonblocking_def tcp_take_def tcp_poll_def arch_poll_def sample_world_def
      tcp_dispatch_def tcp_recv_callback_def handle_tcp_recv_def sample_conn_def new_TcpConnection_def
      call_void_def call_def)

lemma sample_polls_run:
  "\<exists>cl' w'. polls (world_platform sample_platform) (tcp_ops sample_platform sample_lwip) 1
      (sample_client\<lparr>keep_alive_seconds := 0\<rparr>) (sample_world 0 sample_segments) = (None, cl', w') \<and>
    conn cl' = Some sample_conn \<and> delivered w' = sample_segments"
proof -
  let ?pf = "world_platform sample_platform" and ?ops = "tcp_ops sample_platform sample_lwip"
  let ?bs = "[0x30, 5, 0, 1, 116, 7, 8, 0xD0, 0, 0x30] :: u8 list"
  let ?cl = "sample_client\<lparr>keep_alive_seconds := 0\<rparr>"
  obtain w1 where rd: "tcp_read_nonblocking sample_lwip 256 sample_conn (sample_world 0 sample_segments) =
      (Inr ?bs, sample_conn, w1)" "delivered w1 = sample_segments"
    using sample_segments_read by blast
  obtain now w2 where t: "on_env (get_absolute_time sample_platform) w1 = (now, w2)" by fastforce
  have w2: "delivered w2 = sample_segments"
    using on_env_log(2) [of "get_absolute_time sample_platform" w1] t rd(2) by simp
  let ?cl1 = "?cl\<lparr>conn := Some sample_conn, last_rx := now, rx_buffer := ?bs\<rparr>"
  have "frame_error (mqtt_frame_info [0x30]) = None" "\<not> frame_complete (mqtt_frame_info [0x30])"
    by (simp_all add: mqtt_frame_info_def incomplete_frame_def)
  from process_stream [OF sample_packets_ok(1) _ this, of ?cl1 ?ops w2]
  obtain cl2 where p: "process_rx_buffer ?ops ?cl1 w2 = (None, cl2, w2)"
    by (auto simp: sample_packets_ok(3))
  note keeps = process_keeps [OF p]
  have "polls ?pf ?ops 1 ?cl (sample_world 0 sample_segments) = (None, cl2, w2)"
    using rd t p keeps by (simp add: poll_def keep_alive_check_def sample_client_def new_MqttClient_def)
  then show ?thesis using keeps w2 by simp
qed


end
