(* ===== verification/Dhcp_Server.thy ===== *)
theory Dhcp_Server
  imports Sample_Environment
begin

text \<open>
  \<^verbatim>\<open>DhcpServer\<close> (\<^verbatim>\<open>pico_net/src/dhcp_server.cpp\<close>): the lease table, the search of options, the
  construction of replies and the life of the UDP socket. The pointer \<^verbatim>\<open>opt\<close> is an index into
  \<^verbatim>\<open>DhcpMessage::options\<close>; reads and writes outside that array, which is the end of the
  message on the stack, are faults. The fields of the message that the server only copies are
  kept as bytes.
\<close>

section \<open>Constants\<close>

abbreviation "DHCPDISCOVER \<equiv> (1 :: u8)"
abbreviation "DHCPOFFER \<equiv> (2 :: u8)"
abbreviation "DHCPREQUEST \<equiv> (3 :: u8)"
abbreviation "DHCPACK \<equiv> (5 :: u8)"

abbreviation "DHCP_OPT_SUBNET_MASK \<equiv> (1 :: u8)"
abbreviation "DHCP_OPT_ROUTER \<equiv> (3 :: u8)"
abbreviation "DHCP_OPT_DNS \<equiv> (6 :: u8)"
abbreviation "DHCP_OPT_REQUESTED_IP \<equiv> (50 :: u8)"
abbreviation "DHCP_OPT_IP_LEASE_TIME \<equiv> (51 :: u8)"
abbreviation "DHCP_OPT_MSG_TYPE \<equiv> (53 :: u8)"
abbreviation "DHCP_OPT_SERVER_ID \<equiv> (54 :: u8)"
abbreviation "DHCP_OPT_END \<equiv> (255 :: u8)"

abbreviation "PORT_DHCP_SERVER \<equiv> (67 :: u16)"
abbreviation "PORT_DHCP_CLIENT \<equiv> (68 :: u16)"

abbreviation "DEFAULT_LEASE_TIME_S \<equiv> (86400 :: u32)"
abbreviation "MAC_LEN \<equiv> (6 :: nat)"
abbreviation "DHCPS_BASE_IP \<equiv> (16 :: nat)"
abbreviation "DHCPS_MAX_IP \<equiv> (32 :: nat)"

abbreviation zero_mac :: "u8 list" where
  "zero_mac \<equiv> replicate MAC_LEN 0"

section \<open>Data\<close>

record Lease =
  lease_mac :: "u8 list"
  lease_expiry :: u16

definition no_leases :: "Lease list" where
  "no_leases = replicate DHCPS_MAX_IP \<lparr>lease_mac = zero_mac, lease_expiry = 0\<rparr>"

record DhcpMessage =
  dm_op :: u8
  dm_htype_hlen_hops :: "u8 list"
  dm_xid :: "u8 list"
  dm_secs :: "u8 list"
  dm_flags :: "u8 list"
  dm_ciaddr :: "u8 list"
  dm_yiaddr :: "u8 list"
  dm_siaddr :: "u8 list"
  dm_giaddr :: "u8 list"
  dm_chaddr :: "u8 list"
  dm_sname :: "u8 list"
  dm_file :: "u8 list"
  dm_options :: "u8 list"

text \<open>The layout of the struct: 548 bytes without padding.\<close>

definition dhcp_bytes :: "DhcpMessage \<Rightarrow> u8 list" where
  "dhcp_bytes m = [dm_op m] @ dm_htype_hlen_hops m @ dm_xid m @ dm_secs m @ dm_flags m @
     dm_ciaddr m @ dm_yiaddr m @ dm_siaddr m @ dm_giaddr m @ dm_chaddr m @ dm_sname m @ dm_file m @
     dm_options m"

text \<open>\<^verbatim>\<open>pbuf_copy_partial\<close> into a message of zeros.\<close>

definition dhcp_received :: "u8 list \<Rightarrow> DhcpMessage" where
  "dhcp_received bs =
     (let d = take 548 (bs @ replicate 548 0) in
      \<lparr>dm_op = d ! 0, dm_htype_hlen_hops = take 3 (drop 1 d), dm_xid = take 4 (drop 4 d),
       dm_secs = take 2 (drop 8 d), dm_flags = take 2 (drop 10 d), dm_ciaddr = take 4 (drop 12 d),
       dm_yiaddr = take 4 (drop 16 d), dm_siaddr = take 4 (drop 20 d), dm_giaddr = take 4 (drop 24 d),
       dm_chaddr = take 16 (drop 28 d), dm_sname = take 64 (drop 44 d), dm_file = take 128 (drop 108 d),
       dm_options = drop 236 d\<rparr>)"

record DhcpServer =
  dhcp_this :: obj
  dhcp_udp :: "pcb option"
  server_ip :: ip4_addr_t
  netmask :: ip4_addr_t
  leases :: "Lease list"

definition new_DhcpServer :: "obj \<Rightarrow> DhcpServer" where
  "new_DhcpServer this =
     \<lparr>dhcp_this = this, dhcp_udp = None, server_ip = IP4 0 0 0 0, netmask = IP4 0 0 0 0,
      leases = no_leases\<rparr>"

definition is_running :: "DhcpServer \<Rightarrow> bool" where
  "is_running s \<longleftrightarrow> dhcp_udp s \<noteq> None"

section \<open>Starting and stopping\<close>

definition dhcp_start ::
  "'e Lwip \<Rightarrow> ip4_addr_t \<Rightarrow> ip4_addr_t \<Rightarrow> DhcpServer \<Rightarrow> 'e World \<Rightarrow> Error option \<times> DhcpServer \<times> 'e World" where
  "dhcp_start lw ip nm s w =
     (if dhcp_udp s \<noteq> None then (Some (Error ''DHCP server already running''), s, w)
      else
        let s = s\<lparr>server_ip := ip, netmask := nm, leases := no_leases\<rparr>;
            (udp, w) = on_env (lwip_udp_new lw) w
        in case udp of
             None \<Rightarrow> (Some (Error ''udp_new failed''), s, w)
           | Some p \<Rightarrow>
               let w = call_void lw (UdpRecv p (Some (dhcp_this s))) w;
                   (err, w) = call lw (UdpBind p None PORT_DHCP_SERVER) w
               in if err \<noteq> ERR_OK
                  then (Some (Error ''udp_bind failed''), s\<lparr>dhcp_udp := None\<rparr>, call_void lw (UdpRemove p) w)
                  else (None, s\<lparr>dhcp_udp := Some p\<rparr>, w))"

definition dhcp_start_string ::
  "'e Lwip \<Rightarrow> string \<Rightarrow> string \<Rightarrow> DhcpServer \<Rightarrow> 'e World \<Rightarrow> Error option \<times> DhcpServer \<times> 'e World" where
  "dhcp_start_string lw ip netmask_str s w =
     (case lwip_aton lw ip of
        None \<Rightarrow> (Some (Error ''invalid DHCP server IP address''), s, w)
      | Some parsed_ip \<Rightarrow>
          (case lwip_aton lw netmask_str of
             None \<Rightarrow> (Some (Error ''invalid DHCP netmask''), s, w)
           | Some parsed_netmask \<Rightarrow> dhcp_start lw parsed_ip parsed_netmask s w))"

definition dhcp_stop :: "'e Lwip \<Rightarrow> DhcpServer \<Rightarrow> 'e World \<Rightarrow> Error option \<times> DhcpServer \<times> 'e World" where
  "dhcp_stop lw s w =
     (case dhcp_udp s of
        None \<Rightarrow> (None, s, w)
      | Some p \<Rightarrow> (None, s\<lparr>dhcp_udp := None, leases := no_leases\<rparr>, call_void lw (UdpRemove p) w))"

definition dhcp_destroy :: "'e Lwip \<Rightarrow> DhcpServer \<Rightarrow> 'e World \<Rightarrow> 'e World" where
  "dhcp_destroy lw s w = snd (snd (dhcp_stop lw s w))"

section \<open>Options\<close>

text \<open>The index of an option's code in the options array, searched from \<open>opt\<close>.\<close>

function find_option_loop :: "u8 list \<Rightarrow> nat \<Rightarrow> u8 \<Rightarrow> nat \<Rightarrow> nat option result" where
  "find_option_loop opts opt code i =
     (if i < 308 then
        (case read_at opts (opt + i) of
           Inl e \<Rightarrow> Inl e
         | Inr c \<Rightarrow>
             if c = DHCP_OPT_END then Inr None
             else if c = code then Inr (Some (opt + i))
             else if c = 0 then find_option_loop opts opt code (i + 1)
             else case read_at opts (opt + i + 1) of
                Inl e \<Rightarrow> Inl e
              | Inr len \<Rightarrow> find_option_loop opts opt code (i + 2 + unat len))
      else Inr None)"
  by pat_completeness auto
termination
  by (relation "measure (\<lambda>(opts, opt, code, i). 308 - i)") auto

declare find_option_loop.simps [simp del]

definition find_option :: "u8 list \<Rightarrow> nat \<Rightarrow> u8 \<Rightarrow> nat option result" where
  "find_option opts opt code = find_option_loop opts opt code 0"

definition write_option_n :: "u8 list \<Rightarrow> nat \<Rightarrow> u8 \<Rightarrow> u8 list \<Rightarrow> (u8 list \<times> nat) result" where
  "write_option_n opts opt code data =
     bindE (write_at opts opt code) (\<lambda>opts.
     bindE (write_at opts (opt + 1) (of_nat (length data))) (\<lambda>opts.
     bindE (write_range opts (opt + 2) data) (\<lambda>opts.
       Inr (opts, opt + 2 + length data))))"

definition write_option_u8 :: "u8 list \<Rightarrow> nat \<Rightarrow> u8 \<Rightarrow> u8 \<Rightarrow> (u8 list \<times> nat) result" where
  "write_option_u8 opts opt code v =
     bindE (write_at opts opt code) (\<lambda>opts.
     bindE (write_at opts (opt + 1) 1) (\<lambda>opts.
     bindE (write_at opts (opt + 2) v) (\<lambda>opts.
       Inr (opts, opt + 3))))"

definition write_option_u32 :: "u8 list \<Rightarrow> nat \<Rightarrow> u8 \<Rightarrow> u32 \<Rightarrow> (u8 list \<times> nat) result" where
  "write_option_u32 opts opt code v =
     bindE (write_at opts opt code) (\<lambda>opts.
     bindE (write_at opts (opt + 1) 4) (\<lambda>opts.
     bindE (write_at opts (opt + 2) (ucast (drop_bit 24 v))) (\<lambda>opts.
     bindE (write_at opts (opt + 3) (ucast (drop_bit 16 v))) (\<lambda>opts.
     bindE (write_at opts (opt + 4) (ucast (drop_bit 8 v))) (\<lambda>opts.
     bindE (write_at opts (opt + 5) (ucast v)) (\<lambda>opts.
       Inr (opts, opt + 6)))))))"

section \<open>Leases\<close>

text \<open>
  The expiry time of a lease, in units of \<open>2 ^ 16\<close> milliseconds, and the test for it by the sign
  of a 32-bit difference.
\<close>

definition lease_expired :: "u16 \<Rightarrow> u32 \<Rightarrow> bool" where
  "lease_expired expiry now \<longleftrightarrow> sint ((push_bit 16 (ucast expiry) OR 0xffff :: u32) - now) < 0"

definition expiry_of :: "u32 \<Rightarrow> u16" where
  "expiry_of now = ucast (drop_bit 16 (now + DEFAULT_LEASE_TIME_S * 1000))"

function find_lease_loop ::
  "'e Lwip \<Rightarrow> u8 list \<Rightarrow> nat \<Rightarrow> nat \<Rightarrow> Lease list \<Rightarrow> 'e World \<Rightarrow> nat \<times> Lease list \<times> 'e World" where
  "find_lease_loop lw mac i chosen ls w =
     (if i < DHCPS_MAX_IP then
        if lease_mac (ls ! i) = mac then (i, ls, w)
        else if chosen = DHCPS_MAX_IP then
          let chosen = (if lease_mac (ls ! i) = zero_mac then i else chosen);
              (now, w) = on_env (lwip_ticks_ms lw) w
          in if lease_expired (lease_expiry (ls ! i)) now
             then find_lease_loop lw mac (i + 1) i (ls[i := (ls ! i)\<lparr>lease_mac := zero_mac\<rparr>]) w
             else find_lease_loop lw mac (i + 1) chosen ls w
        else find_lease_loop lw mac (i + 1) chosen ls w
      else (chosen, ls, w))"
  by pat_completeness auto
termination
  by (relation "measure (\<lambda>(lw, mac, i, chosen, ls, w). DHCPS_MAX_IP - i)") auto

declare find_lease_loop.simps [simp del]

definition find_or_allocate_lease ::
  "'e Lwip \<Rightarrow> u8 list \<Rightarrow> Lease list \<Rightarrow> 'e World \<Rightarrow> nat \<times> Lease list \<times> 'e World" where
  "find_or_allocate_lease lw mac ls w = find_lease_loop lw mac 0 DHCPS_MAX_IP ls w"

section \<open>Requests\<close>

text \<open>
  \<^verbatim>\<open>send_to\<close>, given the bytes of the message that the buffer points to. An interface is given
  when lwIP knows the one the request came in on.
\<close>

definition dhcp_send_to ::
  "'e Lwip \<Rightarrow> nat option \<Rightarrow> u8 list \<Rightarrow> nat \<Rightarrow> u32 \<Rightarrow> u16 \<Rightarrow> DhcpServer \<Rightarrow> 'e World \<Rightarrow>
     (Error option \<times> 'e World) result" where
  "dhcp_send_to lw nif buffer len ip port s w =
     (case dhcp_udp s of
        None \<Rightarrow> Inr (Some (Error ''DHCP server not running''), w)
      | Some udp \<Rightarrow>
          let len = (if len > 0xffff then 0xffff else len);
              (allocated, w) = on_env (lwip_pbuf_alloc lw len) w
          in if \<not> allocated then Inr (Some (Error ''pbuf_alloc failed''), w)
             else bindE (read_range buffer 0 len) (\<lambda>payload.
               let dest = IPADDR_TYPE_V4 (IP4 (ucast (drop_bit 24 ip)) (ucast (drop_bit 16 ip))
                            (ucast (drop_bit 8 ip)) (ucast ip));
                   (err, w) = (case nif of
                      Some n \<Rightarrow> call lw (UdpSendtoIf udp payload dest port n) w
                    | None \<Rightarrow> call lw (UdpSendto udp payload dest port) w);
                   w = call_void lw (PbufFree payload) w
               in Inr (if err \<noteq> ERR_OK then Some (Error ''udp_sendto failed'') else None, w)))"

text \<open>
  What the switch over the message type decides: the server and world, and the address offered
  or acknowledged with the type of the reply; \<open>None\<close> when the request is dropped.
\<close>

definition dhcp_decide ::
  "'e Lwip \<Rightarrow> DhcpMessage \<Rightarrow> nat \<Rightarrow> u8 \<Rightarrow> DhcpServer \<Rightarrow> 'e World \<Rightarrow>
     ((u8 \<times> u8) option \<times> DhcpServer \<times> 'e World) result" where
  "dhcp_decide lw msg opt msg_type s w =
     (let mac = take MAC_LEN (dm_chaddr msg) in
      if msg_type = DHCPDISCOVER then
        let (yi, ls, w) = find_or_allocate_lease lw mac (leases s) w;
            s = s\<lparr>leases := ls\<rparr>
        in if yi = DHCPS_MAX_IP then Inr (None, s, w)
           else Inr (Some (of_nat (DHCPS_BASE_IP + yi), DHCPOFFER), s, w)
      else if msg_type = DHCPREQUEST then
        bindE (find_option (dm_options msg) opt DHCP_OPT_REQUESTED_IP) (\<lambda>requested_ip_opt.
        case requested_ip_opt of
          None \<Rightarrow> Inr (None, s, w)
        | Some r \<Rightarrow>
            bindE (read_range (dm_options msg) (r + 2) 3) (\<lambda>prefix.
            if prefix \<noteq> take 3 (ip4_bytes (server_ip s)) then Inr (None, s, w)
            else bindE (read_at (dm_options msg) (r + 5)) (\<lambda>host.
            let yi = unat (host - of_nat DHCPS_BASE_IP) in
            if yi \<ge> DHCPS_MAX_IP then Inr (None, s, w)
            else if lease_mac (leases s ! yi) = mac \<or> lease_mac (leases s ! yi) = zero_mac then
              let (now, w) = on_env (lwip_ticks_ms lw) w;
                  s = s\<lparr>leases := (leases s)[yi := \<lparr>lease_mac = mac, lease_expiry = expiry_of now\<rparr>]\<rparr>
              in Inr (Some (of_nat (DHCPS_BASE_IP + yi), DHCPACK), s, w)
            else Inr (None, s, w))))
      else Inr (None, s, w))"

text \<open>The options of a reply, written over those of the request from \<open>opt\<close> on.\<close>

definition dhcp_reply_options ::
  "u8 list \<Rightarrow> nat \<Rightarrow> u8 \<Rightarrow> DhcpServer \<Rightarrow> (u8 list \<times> nat) result" where
  "dhcp_reply_options opts opt reply_type s =
     bindE (write_option_u8 opts opt DHCP_OPT_MSG_TYPE reply_type) (\<lambda>(opts, opt).
     bindE (write_option_n opts opt DHCP_OPT_SERVER_ID (ip4_bytes (server_ip s))) (\<lambda>(opts, opt).
     bindE (write_option_n opts opt DHCP_OPT_SUBNET_MASK (ip4_bytes (netmask s))) (\<lambda>(opts, opt).
     bindE (write_option_n opts opt DHCP_OPT_ROUTER (ip4_bytes (server_ip s))) (\<lambda>(opts, opt).
     bindE (write_option_n opts opt DHCP_OPT_DNS (ip4_bytes (server_ip s))) (\<lambda>(opts, opt).
     bindE (write_option_u32 opts opt DHCP_OPT_IP_LEASE_TIME DEFAULT_LEASE_TIME_S) (\<lambda>(opts, opt).
     bindE (write_at opts opt DHCP_OPT_END) (\<lambda>opts.
       Inr (opts, opt + 1))))))))"

definition dhcp_handle_request ::
  "'e Lwip \<Rightarrow> u8 list option \<Rightarrow> DhcpServer \<Rightarrow> 'e World \<Rightarrow> (DhcpServer \<times> 'e World) result" where
  "dhcp_handle_request lw p s w =
     (case p of
        None \<Rightarrow> Inr (s, w)
      | Some bs \<Rightarrow>
          if length bs < 243 then Inr (s, call_void lw (PbufFree bs) w)
          else
            let msg = dhcp_received bs;
                msg = msg\<lparr>dm_op := DHCPOFFER, dm_yiaddr := ip4_bytes (server_ip s)\<rparr>;
                opt = 4
            in bindE (find_option (dm_options msg) opt DHCP_OPT_MSG_TYPE) (\<lambda>msgtype.
            case msgtype of
              None \<Rightarrow> Inr (s, call_void lw (PbufFree bs) w)
            | Some m \<Rightarrow>
                bindE (read_at (dm_options msg) (m + 2)) (\<lambda>msg_type.
                bindE (dhcp_decide lw msg opt msg_type s w) (\<lambda>(decision, s, w).
                case decision of
                  None \<Rightarrow> Inr (s, call_void lw (PbufFree bs) w)
                | Some (host, reply_type) \<Rightarrow>
                    let msg = msg\<lparr>dm_yiaddr := (dm_yiaddr msg)[3 := host]\<rparr>
                    in bindE (dhcp_reply_options (dm_options msg) opt reply_type s) (\<lambda>(opts, opt).
                       let msg = msg\<lparr>dm_options := opts\<rparr>
                       in bindE (dhcp_send_to lw (lwip_input_netif lw (env w)) (dhcp_bytes msg)
                                   (236 + opt) 0xffffffff PORT_DHCP_CLIENT s w) (\<lambda>(ignored, w).
                          Inr (s, call_void lw (PbufFree bs) w)))))))"

definition dhcp_recv_callback ::
  "'e Lwip \<Rightarrow> DhcpServer option \<Rightarrow> u8 list option \<Rightarrow> 'e World \<Rightarrow> (DhcpServer option \<times> 'e World) result" where
  "dhcp_recv_callback lw arg p w =
     (case arg of
        None \<Rightarrow> Inr (None, case p of None \<Rightarrow> w | Some bs \<Rightarrow> call_void lw (PbufFree bs) w)
      | Some s \<Rightarrow> bindE (dhcp_handle_request lw p s w) (\<lambda>(s, w). Inr (Some s, w)))"

end
