(* ===== verification/Dhcp_Laws.thy ===== *)
theory Dhcp_Laws
  imports Dhcp_Server
begin

text \<open>
  The correctness of \<^verbatim>\<open>DhcpServer\<close>: the lease times and their wrap-around, the search and the
  writing of options, which leases a request may change, what is sent back, and for which
  requests no byte outside the message is read.
\<close>

section \<open>Lease times\<close>

lemma expiry_round_up:
  fixes x :: u32
  shows "\<exists>r. (push_bit 16 (ucast (ucast (drop_bit 16 x) :: u16)) OR 0xffff :: u32) = x + r \<and> unat r \<le> 65535"
proof -
  have m: "(0xffff :: u32) = mask 16" by (simp add: mask_eq_exp_minus_1)
  let ?r = "NOT x AND 0xffff"
  have "(push_bit 16 (ucast (ucast (drop_bit 16 x) :: u16)) OR 0xffff :: u32) = x OR 0xffff"
    unfolding m by (rule bit_word_eqI) (auto simp: bit_simps)
  also have "\<dots> = x OR ?r" by (rule bit_word_eqI) (auto simp: bit_simps)
  also have "\<dots> = x + ?r"
    by (rule disjunctive_add_eq_or [symmetric]) (rule bit_word_eqI, auto simp: bit_simps)
  finally have "(push_bit 16 (ucast (ucast (drop_bit 16 x) :: u16)) OR 0xffff :: u32) = x + ?r" .
  moreover have "?r \<le> 0xffff" by (rule word_and_le1)
  then have "unat ?r \<le> 65535" by (simp add: word_le_nat_alt)
  ultimately show ?thesis by blast
qed

lemma sint_of_int_small: "- 2147483648 \<le> k \<Longrightarrow> k < 2147483648 \<Longrightarrow> sint (word_of_int k :: u32) = k"
  by (simp add: signed_of_int signed_take_bit_int_eq_self)

lemma lease_expired_diff:
  fixes t d :: u32
  shows "\<exists>r. 0 \<le> r \<and> r \<le> 65535 \<and>
    (lease_expired (expiry_of t) (t + d) \<longleftrightarrow> sint (word_of_int (86400000 + r - uint d) :: u32) < 0)"
proof -
  obtain r where r: "(push_bit 16 (ucast (expiry_of t)) OR 0xffff :: u32) = t + 86400000 + r" "unat r \<le> 65535"
    using expiry_round_up [of "t + 86400000"] by (auto simp: expiry_of_def)
  have "int (unat r) \<le> int 65535" using r(2) by (simp only: of_nat_le_iff)
  then have ur: "0 \<le> uint r" "uint r \<le> 65535" by simp_all
  have eq: "(t + 86400000 + r) - (t + d) = word_of_int (86400000 + uint r - uint d)"
    by simp
  have "lease_expired (expiry_of t) (t + d) \<longleftrightarrow> sint (word_of_int (86400000 + uint r - uint d) :: u32) < 0"
    by (simp only: lease_expired_def r(1) eq)
  with ur show ?thesis by blast
qed

lemma lease_not_expired_early:
  assumes "uint (d :: u32) \<le> 86400000"
  shows "\<not> lease_expired (expiry_of t) (t + d)"
proof -
  obtain r where r: "0 \<le> r" "r \<le> 65535"
    "lease_expired (expiry_of t) (t + d) \<longleftrightarrow> sint (word_of_int (86400000 + r - uint d) :: u32) < 0"
    using lease_expired_diff by blast
  have "0 \<le> uint d" by (rule unsigned_greater_eq)
  then have "sint (word_of_int (86400000 + r - uint d) :: u32) = 86400000 + r - uint d"
    using assms r(1,2) by (intro sint_of_int_small) linarith+
  then show ?thesis using assms r by linarith
qed

lemma lease_expired_late:
  assumes "86465535 < uint (d :: u32)" and "uint d \<le> 2233883648"
  shows "lease_expired (expiry_of t) (t + d)"
proof -
  obtain r where r: "0 \<le> r" "r \<le> 65535"
    "lease_expired (expiry_of t) (t + d) \<longleftrightarrow> sint (word_of_int (86400000 + r - uint d) :: u32) < 0"
    using lease_expired_diff by blast
  have "sint (word_of_int (86400000 + r - uint d) :: u32) = 86400000 + r - uint d"
    using assms r(1,2) by (intro sint_of_int_small) linarith+
  then show ?thesis using assms r by linarith
qed

lemma lease_looks_valid_again:
  assumes "2233949183 < uint (d :: u32)"
  shows "\<not> lease_expired (expiry_of t) (t + d)"
proof -
  obtain r where r: "0 \<le> r" "r \<le> 65535"
    "lease_expired (expiry_of t) (t + d) \<longleftrightarrow> sint (word_of_int (86400000 + r - uint d) :: u32) < 0"
    using lease_expired_diff by blast
  have "uint d < 2 ^ LENGTH(32)" by (rule unsigned_less)
  then have d: "uint d < 4294967296" by simp
  have "(word_of_int (86400000 + r - uint d) :: u32) = word_of_int (86400000 + r - uint d + 4294967296)"
    by simp
  also have "sint (\<dots> :: u32) = 86400000 + r - uint d + 4294967296"
    using assms r(1,2) d by (intro sint_of_int_small) linarith+
  finally show ?thesis using r d by linarith
qed

section \<open>Writing options\<close>

lemma write_option_n_patched:
  "\<lbrakk> i = off + length R; i + 2 + length bs \<le> length opts \<rbrakk> \<Longrightarrow>
     write_option_n (patched opts off R) i code bs =
       Inr (patched opts off (R @ [code, of_nat (length bs)] @ bs), i + 2 + length bs)"
  by (simp add: write_option_n_def write_at_patched write_range_patched)

lemma write_option_u8_patched:
  "\<lbrakk> i = off + length R; i + 3 \<le> length opts \<rbrakk> \<Longrightarrow>
     write_option_u8 (patched opts off R) i code v =
       Inr (patched opts off (R @ [code, 1, v]), i + 3)"
  by (simp add: write_option_u8_def write_at_patched)

lemma write_option_u32_patched:
  "\<lbrakk> i = off + length R; i + 6 \<le> length opts \<rbrakk> \<Longrightarrow>
     write_option_u32 (patched opts off R) i code v =
       Inr (patched opts off (R @ [code, 4, ucast (drop_bit 24 v), ucast (drop_bit 16 v),
         ucast (drop_bit 8 v), ucast v]), i + 6)"
  by (simp add: write_option_u32_def write_at_patched)

definition reply_options :: "u8 \<Rightarrow> DhcpServer \<Rightarrow> u8 list" where
  "reply_options reply_type s =
     [DHCP_OPT_MSG_TYPE, 1, reply_type] @
     [DHCP_OPT_SERVER_ID, 4] @ ip4_bytes (server_ip s) @
     [DHCP_OPT_SUBNET_MASK, 4] @ ip4_bytes (netmask s) @
     [DHCP_OPT_ROUTER, 4] @ ip4_bytes (server_ip s) @
     [DHCP_OPT_DNS, 4] @ ip4_bytes (server_ip s) @
     [DHCP_OPT_IP_LEASE_TIME, 4, 0, 1, 0x51, 0x80] @ [DHCP_OPT_END]"

lemma dhcp_reply_options_eq:
  assumes "length opts = 312"
  shows "dhcp_reply_options opts 4 reply_type s = Inr (patched opts 4 (reply_options reply_type s), 38)"
proof -
  have low: "(337 :: u8) = 0x51" "(86400 :: u8) = 0x80" by simp_all
  show ?thesis
    using assms write_option_u8_patched [of 4 4 "[]" opts DHCP_OPT_MSG_TYPE reply_type]
    by (simp add: dhcp_reply_options_def reply_options_def write_option_n_patched
        write_option_u32_patched write_at_patched low)
qed

section \<open>Searching options\<close>

text \<open>An options array that is zero from \<open>z\<close> on, as after a datagram of \<open>236 + z\<close> bytes.\<close>

definition zero_from :: "nat \<Rightarrow> u8 list \<Rightarrow> bool" where
  "zero_from z opts \<longleftrightarrow> length opts = 312 \<and> (\<forall>j. z \<le> j \<longrightarrow> j < 312 \<longrightarrow> opts ! j = 0)"

lemma find_option_loop_safe:
  assumes "zero_from z opts" and "z \<le> 307"
  shows "fault_free (find_option_loop opts 4 code i)"
  using assms
proof (induction opts "4 :: nat" code i rule: find_option_loop.induct)
  case (1 opts code i)
  have len: "length opts = 312" using 1(3) by (simp add: zero_from_def)
  have nz: "4 + i < z" if "i < 308" "opts ! (4 + i) \<noteq> 0"
  proof (rule ccontr)
    assume "\<not> 4 + i < z"
    moreover have "4 + i < 312" using that(1) by simp
    ultimately have "opts ! (4 + i) = 0" using 1(3) by (simp add: zero_from_def)
    with that(2) show False by simp
  qed
  show ?case
    by (subst find_option_loop.simps) (use 1 nz len in \<open>auto simp: read_at_def\<close>)
qed

lemma find_option_loop_found:
  "find_option_loop opts opt code i = Inr (Some m) \<Longrightarrow> m < length opts \<and> opts ! m = code"
proof (induction opts opt code i rule: find_option_loop.induct)
  case (1 opts opt code i)
  show ?case
    using 1 by (simp add: find_option_loop.simps [of opts opt code i] read_at_def split: if_splits)
qed

lemma find_option_safe:
  assumes "zero_from z opts" and "z \<le> 307"
  shows "fault_free (find_option opts 4 code)"
    "find_option opts 4 code = Inr (Some m) \<Longrightarrow> code \<noteq> 0 \<Longrightarrow> m < z"
proof -
  show "fault_free (find_option opts 4 code)"
    using assms unfolding find_option_def by (rule find_option_loop_safe)
  assume "find_option opts 4 code = Inr (Some m)" "code \<noteq> 0"
  then have "m < length opts" "opts ! m = code" 
    using find_option_loop_found unfolding find_option_def by blast+
  with assms(1) \<open>code \<noteq> 0\<close> show "m < z"
    by (metis linorder_not_le zero_from_def)
qed

lemma received_options:
  assumes "243 \<le> length bs" and "length bs \<le> 548"
  shows "zero_from (length bs - 236) (dm_options (dhcp_received bs))"
  using assms by (auto simp: zero_from_def dhcp_received_def nth_append)

lemma fault_free_case_option [fault_free_intros]:
  "\<lbrakk> x = None \<Longrightarrow> fault_free f; \<And>a. x = Some a \<Longrightarrow> fault_free (g a) \<rbrakk> \<Longrightarrow>
     fault_free (case x of None \<Rightarrow> f | Some a \<Rightarrow> g a)"
  by (cases x) simp_all

lemma fault_free_Inr [fault_free_intros]: "fault_free (Inr a)" by simp

text \<open>The message in a request has options of the right size, so that its reply can be written.\<close>

lemma dhcp_decide_safe:
  assumes "zero_from z (dm_options msg)" and "z \<le> 307"
  shows "fault_free (dhcp_decide lw msg 4 t s w)"
proof -
  have len: "length (dm_options msg) = 312" using assms(1) by (simp add: zero_from_def)
  have r: "m < z" if "find_option (dm_options msg) 4 DHCP_OPT_REQUESTED_IP = Inr (Some m)" for m
    using find_option_safe(2) [OF assms that] by simp
  show ?thesis
    unfolding dhcp_decide_def Let_def
    by (intro fault_free_intros find_option_safe(1) [OF assms])
      (use assms(2) len in \<open>auto simp: case_prod_beta intro!: fault_free_intros dest!: r\<close>)
qed

lemma dhcp_send_to_safe:
  "len \<le> length buffer \<Longrightarrow> fault_free (dhcp_send_to lw nif buffer len ip port s w)"
  by (auto simp: dhcp_send_to_def Let_def case_prod_beta intro!: fault_free_intros)

text \<open>
  The datagram of a reply: the request's first 240 bytes with the operation code and the
  address replaced, and the options of the reply.
\<close>

definition dhcp_reply :: "u8 list \<Rightarrow> u8 \<Rightarrow> u8 \<Rightarrow> DhcpServer \<Rightarrow> u8 list" where
  "dhcp_reply bs host reply_type s =
     [DHCPOFFER] @ take 15 (drop 1 bs) @ take 3 (ip4_bytes (server_ip s)) @ [host] @
     take 220 (drop 20 bs) @ reply_options reply_type s"

lemma merge_fields:
  "j = i + m \<Longrightarrow> take m (drop i d) @ take n (drop j d) @ r = take (m + n) (drop i d) @ r"
  by (simp add: take_add add.commute)

lemma length_reply_options [simp]: "length (reply_options t s) = 34"
  by (simp add: reply_options_def)

lemma dhcp_reply_bytes:
  assumes "243 \<le> length bs" and "m = dhcp_received bs"
  shows "\<exists>rest. dhcp_bytes (m\<lparr>dm_op := DHCPOFFER, dm_yiaddr := (ip4_bytes (server_ip s))[3 := host],
      dm_options := patched (dm_options m) 4 (reply_options t s)\<rparr>) = dhcp_reply bs host t s @ rest"
    and "length (dhcp_reply bs host t s) = 274"
proof -
  obtain a b c d where ip: "server_ip s = IP4 a b c d" by (cases "server_ip s")
  let ?d = "take 548 (bs @ replicate 548 0)"
  have "dhcp_bytes (m\<lparr>dm_op := DHCPOFFER, dm_yiaddr := (ip4_bytes (server_ip s))[3 := host],
      dm_options := patched (dm_options m) 4 (reply_options t s)\<rparr>) =
    [DHCPOFFER] @ take 15 (drop 1 ?d) @ [a, b, c, host] @ take 220 (drop 20 ?d) @
    reply_options t s @ drop 38 (drop 236 ?d)"
    unfolding assms(2) by (simp add: dhcp_bytes_def dhcp_received_def patched_def ip Let_def merge_fields
      del: take_append take_take drop_append drop_take drop_drop)
  moreover have "take 15 (drop 1 ?d) = take 15 (drop 1 bs)" "take 220 (drop 20 ?d) = take 220 (drop 20 bs)"
    using assms(1) by (simp_all add: drop_take)
  ultimately have "dhcp_bytes (m\<lparr>dm_op := DHCPOFFER, dm_yiaddr := (ip4_bytes (server_ip s))[3 := host],
      dm_options := patched (dm_options m) 4 (reply_options t s)\<rparr>) =
    dhcp_reply bs host t s @ drop 38 (drop 236 ?d)"
    by (simp only: dhcp_reply_def ip ip4_bytes.simps) simp
  then show "\<exists>rest. dhcp_bytes (m\<lparr>dm_op := DHCPOFFER, dm_yiaddr := (ip4_bytes (server_ip s))[3 := host],
      dm_options := patched (dm_options m) 4 (reply_options t s)\<rparr>) = dhcp_reply bs host t s @ rest"
    by blast
  show "length (dhcp_reply bs host t s) = 274" using assms(1) by (simp add: dhcp_reply_def)
qed

section \<open>One request\<close>

text \<open>The world after a reply has been broadcast, if it could be.\<close>

definition dhcp_broadcast :: "'e Lwip \<Rightarrow> u8 list \<Rightarrow> DhcpServer \<Rightarrow> nat option \<Rightarrow> 'e World \<Rightarrow> 'e World" where
  "dhcp_broadcast lw reply s nif w =
     (case dhcp_udp s of
        None \<Rightarrow> w
      | Some udp \<Rightarrow>
          let (allocated, w) = on_env (lwip_pbuf_alloc lw (length reply)) w;
              bcast = IPADDR_TYPE_V4 (IP4 255 255 255 255)
          in if \<not> allocated then w
             else call_void lw (PbufFree reply)
               (call_void lw
                 (case nif of
                    None \<Rightarrow> UdpSendto udp reply bcast PORT_DHCP_CLIENT
                  | Some n \<Rightarrow> UdpSendtoIf udp reply bcast PORT_DHCP_CLIENT n) w))"

text \<open>What is done with a decision: the reply is broadcast and the request freed.\<close>

definition dhcp_finish ::
  "'e Lwip \<Rightarrow> u8 list \<Rightarrow> (u8 \<times> u8) option \<times> DhcpServer \<times> 'e World \<Rightarrow> DhcpServer \<times> 'e World" where
  "dhcp_finish lw bs = (\<lambda>(decision, s, w).
     (s, call_void lw (PbufFree bs)
       (case decision of
          None \<Rightarrow> w
        | Some (host, reply_type) \<Rightarrow>
            dhcp_broadcast lw (dhcp_reply bs host reply_type s) s (lwip_input_netif lw (env w)) w)))"

text \<open>The message of a request as the handler holds it when it decides.\<close>

definition dhcp_message :: "u8 list \<Rightarrow> DhcpServer \<Rightarrow> DhcpMessage" where
  "dhcp_message bs s = (dhcp_received bs)\<lparr>dm_op := DHCPOFFER, dm_yiaddr := ip4_bytes (server_ip s)\<rparr>"

lemma dhcp_message_sel [simp]:
  "dm_options (dhcp_message bs s) = dm_options (dhcp_received bs)"
  "dm_chaddr (dhcp_message bs s) = dm_chaddr (dhcp_received bs)"
  by (simp_all add: dhcp_message_def)

lemma length_dm_options [simp]: "length (dm_options (dhcp_received bs)) = 312"
  by (simp add: dhcp_received_def)

lemma dhcp_decide_keeps:
  assumes "dhcp_decide lw msg opt t s w = Inr (d, s', w')"
  shows "server_ip s' = server_ip s" "netmask s' = netmask s" "dhcp_udp s' = dhcp_udp s"
    "dhcp_this s' = dhcp_this s"
  using assms
  by (auto simp: dhcp_decide_def Let_def case_prod_beta split: if_splits option.splits)

lemma dhcp_send_to_reply:
  assumes "buffer = reply @ rest" and "length reply = 274"
  shows "bindE (dhcp_send_to lw nif buffer 274 0xffffffff PORT_DHCP_CLIENT s w)
      (\<lambda>(ignored, w). Inr (f w)) = Inr (f (dhcp_broadcast lw reply s nif w))"
proof -
  have low: "(65535 :: u8) = 255" "(16777215 :: u8) = 255" "(4294967295 :: u8) = 255" by simp_all
  show ?thesis
    using assms
    by (simp add: dhcp_send_to_def dhcp_broadcast_def read_range_def call_void_def case_prod_beta Let_def
        low split: option.split)
qed

lemma dhcp_reply_sent:
  assumes "243 \<le> length bs"
  shows "bindE (dhcp_reply_options (dm_options (dhcp_received bs)) 4 t s) (\<lambda>(opts, opt).
        bindE (dhcp_send_to lw nif (dhcp_bytes ((dhcp_received bs)\<lparr>dm_op := DHCPOFFER,
            dm_yiaddr := (ip4_bytes (server_ip s))[3 := host], dm_options := opts\<rparr>))
          (236 + opt) 0xffffffff PORT_DHCP_CLIENT s w) (\<lambda>(ignored, w). Inr (f w)))
    = Inr (f (dhcp_broadcast lw (dhcp_reply bs host t s) s nif w))"
proof -
  obtain rest where "dhcp_bytes ((dhcp_received bs)\<lparr>dm_op := DHCPOFFER,
        dm_yiaddr := (ip4_bytes (server_ip s))[3 := host],
        dm_options := patched (dm_options (dhcp_received bs)) 4 (reply_options t s)\<rparr>)
      = dhcp_reply bs host t s @ rest"
    using dhcp_reply_bytes(1) [OF assms refl] by blast
  from dhcp_send_to_reply [OF this dhcp_reply_bytes(2) [OF assms refl]]
  show ?thesis by (simp add: dhcp_reply_options_eq)
qed

lemma dhcp_handle_request_eq:
  assumes "243 \<le> length bs"
  shows "dhcp_handle_request lw (Some bs) s w =
    bindE (find_option (dm_options (dhcp_received bs)) 4 DHCP_OPT_MSG_TYPE) (\<lambda>msgtype.
      case msgtype of
        None \<Rightarrow> Inr (s, call_void lw (PbufFree bs) w)
      | Some m \<Rightarrow>
          bindE (read_at (dm_options (dhcp_received bs)) (m + 2)) (\<lambda>t.
          bindE (dhcp_decide lw (dhcp_message bs s) 4 t s w) (\<lambda>r. Inr (dhcp_finish lw bs r))))"
proof -
  have finish: "bindE (dhcp_reply_options (dm_options (dhcp_received bs)) 4 t' s') (\<lambda>(opts, opt).
            bindE (dhcp_send_to lw (lwip_input_netif lw (env w')) (dhcp_bytes ((dhcp_received bs)\<lparr>dm_op := DHCPOFFER,
                dm_yiaddr := (ip4_bytes (server_ip s))[3 := host], dm_options := opts\<rparr>))
              (236 + opt) 0xffffffff PORT_DHCP_CLIENT s' w') (\<lambda>(ignored, w).
              Inr (s', call_void lw (PbufFree bs) w))) = Inr (dhcp_finish lw bs (Some (host, t'), s', w'))"
    if "dhcp_decide lw (dhcp_message bs s) 4 t s w = Inr (Some (host, t'), s', w')" for t t' host s' w'
    using dhcp_decide_keeps(1) [OF that]
      dhcp_reply_sent [OF assms, of t' s' lw _ host w' "\<lambda>w. (s', call_void lw (PbufFree bs) w)"]
    by (simp add: dhcp_finish_def del: bindE_Inr_iff)
  have dropped: "dhcp_finish lw bs (None, s', w') = (s', call_void lw (PbufFree bs) w')" for s' w'
    by (simp add: dhcp_finish_def)
  show ?thesis
    using assms
    by (auto simp: dhcp_handle_request_def Let_def finish [unfolded dhcp_message_def] dhcp_message_def dropped
        simp del: bindE_Inr_iff intro!: bindE_cong split: option.split)
qed

lemma dhcp_handle_request_safe:
  assumes "length bs \<le> 543"
  shows "fault_free (dhcp_handle_request lw (Some bs) s w)"
proof (cases "length bs < 243")
  case True
  then show ?thesis by (simp add: dhcp_handle_request_def)
next
  case False
  let ?opts = "dm_options (dhcp_received bs)"
  have z: "zero_from (length bs - 236) ?opts" "length bs - 236 \<le> 307"
    using received_options [of bs] False assms by simp_all
  have m: "m < 307" if "find_option ?opts 4 DHCP_OPT_MSG_TYPE = Inr (Some m)" for m
    using find_option_safe(2) [OF z that] z(2) by simp
  have d: "fault_free (dhcp_decide lw (dhcp_message bs s) 4 t s w)" for t
    using dhcp_decide_safe [of _ "dhcp_message bs s"] z by simp
  have "243 \<le> length bs" using False by simp
  show ?thesis
    unfolding dhcp_handle_request_eq [OF \<open>243 \<le> length bs\<close>]
    by (intro fault_free_intros find_option_safe(1) [OF z] d) (auto dest: m)
qed

section \<open>Finding a lease\<close>

text \<open>The position of a client's lease, and of the first lease that is free or expired.\<close>

definition own_lease :: "u8 list \<Rightarrow> Lease list \<Rightarrow> nat" where
  "own_lease mac ls = length (takeWhile (\<lambda>l. lease_mac l \<noteq> mac) ls)"

definition free_lease :: "u32 \<Rightarrow> Lease list \<Rightarrow> nat" where
  "free_lease now ls =
     length (takeWhile (\<lambda>l. lease_mac l \<noteq> zero_mac \<and> \<not> lease_expired (lease_expiry l) now) ls)"

text \<open>The millisecond counter stands at \<open>now\<close> while a datagram is handled.\<close>

definition ticks_at :: "'e Lwip \<Rightarrow> u32 \<Rightarrow> bool" where
  "ticks_at lw now \<longleftrightarrow> (\<forall>e. fst (lwip_ticks_ms lw e) = now)"

lemma on_env_ticks: "ticks_at lw now \<Longrightarrow> fst (on_env (lwip_ticks_ms lw) w) = now"
  by (simp add: ticks_at_def world_simps)

lemma own_lease_Cons: "own_lease mac (l # ls) = (if lease_mac l = mac then 0 else Suc (own_lease mac ls))"
  by (simp add: own_lease_def)

lemma free_lease_Cons:
  "free_lease now (l # ls) =
     (if lease_mac l = zero_mac \<or> lease_expired (lease_expiry l) now then 0 else Suc (free_lease now ls))"
  by (simp add: free_lease_def)

lemma own_lease_le: "own_lease mac ls \<le> length ls"
  by (simp add: own_lease_def length_takeWhile_le)

lemma own_lease_nth: "own_lease mac ls < length ls \<Longrightarrow> lease_mac (ls ! own_lease mac ls) = mac"
  unfolding own_lease_def by (drule nth_length_takeWhile) simp

lemma free_lease_nth:
  "free_lease now ls < length ls \<Longrightarrow>
     lease_mac (ls ! free_lease now ls) = zero_mac \<or> lease_expired (lease_expiry (ls ! free_lease now ls)) now"
  unfolding free_lease_def by (drule nth_length_takeWhile) simp

lemma free_lease_none:
  "free_lease now ls = length ls \<Longrightarrow> l \<in> set ls \<Longrightarrow>
     lease_mac l \<noteq> zero_mac \<and> \<not> lease_expired (lease_expiry l) now"
proof -
  let ?P = "\<lambda>l. lease_mac l \<noteq> zero_mac \<and> \<not> lease_expired (lease_expiry l) now"
  assume "free_lease now ls = length ls" and l: "l \<in> set ls"
  then have "takeWhile ?P ls = ls"
    by (subst takeWhile_eq_take) (simp flip: free_lease_def)
  then show ?thesis using l by simp
qed

lemma find_lease_chosen:
  assumes "chosen \<noteq> 32" and "length ls = 32" and "i \<le> 32"
  shows "find_lease_loop lw mac i chosen ls w =
    (let m = i + own_lease mac (drop i ls) in if m < 32 then m else chosen, ls, w)"
  using assms
proof (induction lw mac i chosen ls w rule: find_lease_loop.induct)
  case (1 lw mac i chosen ls w)
  show ?case
  proof (cases "i < 32")
    case True
    then have d: "drop i ls = ls ! i # drop (Suc i) ls" using 1(5) by (simp add: Cons_nth_drop_Suc)
    show ?thesis
      using 1 True by (simp add: find_lease_loop.simps [of lw mac i] d own_lease_Cons Let_def)
  next
    case False
    then have "i = 32" using 1(6) by simp
    then show ?thesis using 1 by (simp add: find_lease_loop.simps [of lw mac 32] Let_def own_lease_def)
  qed
qed

lemma find_lease_searching:
  assumes "ticks_at lw now" and "length ls = 32" and "i \<le> 32"
    and "m = i + own_lease mac (drop i ls)" and "f = i + free_lease now (drop i ls)"
  shows "\<exists>w'. find_lease_loop lw mac i 32 ls w =
      (if m < 32 then m else f, if f < m then ls[f := (ls ! f)\<lparr>lease_mac := zero_mac\<rparr>] else ls, w') \<and>
      calls w' = calls w \<and> delivered w' = delivered w"
  using assms
proof (induction "32 - i" arbitrary: i m f w)
  case 0
  then have i: "i = 32" by simp
  show ?case using 0 by (simp add: i find_lease_loop.simps [of lw mac 32] own_lease_def free_lease_def)
next
  case (Suc k)
  then have i: "i < 32" by simp
  then have d: "drop i ls = ls ! i # drop (Suc i) ls" using Suc.prems(2) by (simp add: Cons_nth_drop_Suc)
  obtain w1 where w1: "on_env (lwip_ticks_ms lw) w = (now, w1)" "calls w1 = calls w" "delivered w1 = delivered w"
    using on_env_ticks [OF Suc.prems(1), of w] call_log on_env_log [of "lwip_ticks_ms lw" w]
    by (cases "on_env (lwip_ticks_ms lw) w") simp
  have IH: "\<exists>w'. find_lease_loop lw mac (Suc i) 32 ls w1 =
      (if m' < 32 then m' else f', if f' < m' then ls[f' := (ls ! f')\<lparr>lease_mac := zero_mac\<rparr>] else ls, w') \<and>
      calls w' = calls w1 \<and> delivered w' = delivered w1"
    if "m' = Suc i + own_lease mac (drop (Suc i) ls)" "f' = Suc i + free_lease now (drop (Suc i) ls)" for m' f'
    using Suc.hyps(2) Suc.prems(1,2) i that by (intro Suc.hyps(1)) simp_all
  have le: "own_lease mac (drop (Suc i) ls) \<le> 31 - i"
    using own_lease_le [of mac "drop (Suc i) ls"] Suc.prems(2) i by simp
  consider (own) "lease_mac (ls ! i) = mac"
    | (free) "lease_mac (ls ! i) \<noteq> mac" "lease_mac (ls ! i) = zero_mac \<or> lease_expired (lease_expiry (ls ! i)) now"
    | (busy) "lease_mac (ls ! i) \<noteq> mac" "lease_mac (ls ! i) \<noteq> zero_mac" "\<not> lease_expired (lease_expiry (ls ! i)) now"
    by blast
  then show ?case
  proof cases
    case own
    then show ?thesis
      using Suc.prems(4,5) i by (simp add: d own_lease_Cons find_lease_loop.simps [of lw mac i])
  next
    case free
    have "ls[i := (ls ! i)\<lparr>lease_mac := zero_mac\<rparr>] = ls" if "lease_mac (ls ! i) = zero_mac"
      using that by (metis Lease.surjective Lease.update_convs(1) Lease.select_convs(1) list_update_id)
    then show ?thesis
      using free Suc.prems(2,4,5) i w1
      by (auto simp: d own_lease_Cons free_lease_Cons find_lease_loop.simps [of lw mac i] Let_def find_lease_chosen)
  next
    case busy
    then have "m = Suc i + own_lease mac (drop (Suc i) ls)" "f = Suc i + free_lease now (drop (Suc i) ls)"
      using Suc.prems(4,5) by (simp_all add: d own_lease_Cons free_lease_Cons)
    from IH [OF this] busy i w1 show ?thesis
      by (simp add: find_lease_loop.simps [of lw mac i] Let_def)
  qed
qed

lemma find_or_allocate_lease_eq:
  assumes "ticks_at lw now" and "length ls = 32"
  shows "\<exists>w'. find_or_allocate_lease lw mac ls w =
      (if own_lease mac ls < 32 then own_lease mac ls else free_lease now ls,
       if free_lease now ls < own_lease mac ls
       then ls[free_lease now ls := (ls ! free_lease now ls)\<lparr>lease_mac := zero_mac\<rparr>] else ls, w') \<and>
      calls w' = calls w \<and> delivered w' = delivered w"
  using find_lease_searching [of lw now ls 0 "own_lease mac ls" mac "free_lease now ls" w] assms
  by (simp add: find_or_allocate_lease_def)

section \<open>Decisions\<close>

lemma decide_discover:
  assumes "ticks_at lw now" and "length (leases s) = 32"
    and mac: "mac = take 6 (dm_chaddr msg)"
    and yi: "yi = (if own_lease mac (leases s) < 32 then own_lease mac (leases s) else free_lease now (leases s))"
  shows "\<exists>w'. dhcp_decide lw msg opt DHCPDISCOVER s w =
      Inr (if yi = 32 then None else Some (of_nat (16 + yi), DHCPOFFER),
        s\<lparr>leases := if free_lease now (leases s) < own_lease mac (leases s)
           then (leases s)[free_lease now (leases s) :=
             (leases s ! free_lease now (leases s))\<lparr>lease_mac := zero_mac\<rparr>] else leases s\<rparr>, w') \<and>
      calls w' = calls w \<and> delivered w' = delivered w"
proof -
  obtain w' where w': "find_or_allocate_lease lw mac (leases s) w =
      (yi, if free_lease now (leases s) < own_lease mac (leases s)
       then (leases s)[free_lease now (leases s) :=
             (leases s ! free_lease now (leases s))\<lparr>lease_mac := zero_mac\<rparr>] else leases s, w')"
      "calls w' = calls w" "delivered w' = delivered w"
    using find_or_allocate_lease_eq [OF assms(1,2), of mac w] unfolding yi by blast
  then show ?thesis
    by (intro exI [of _ w']) (simp add: dhcp_decide_def mac [symmetric] Let_def)
qed

text \<open>The address that a request asks for, when its option is complete.\<close>

definition requests_address :: "u8 list \<Rightarrow> u8 list \<Rightarrow> bool" where
  "requests_address opts address \<longleftrightarrow>
     (\<exists>r. find_option opts 4 DHCP_OPT_REQUESTED_IP = Inr (Some r) \<and> read_range opts (r + 2) 4 = Inr address)"

lemma read_range_4:
  assumes "read_range opts i 4 = Inr [a, b, c, d]"
  shows "read_range opts i 3 = Inr [a, b, c]" "read_at opts (i + 3) = Inr d"
proof -
  have r: "i + 4 \<le> length opts" "drop i opts = [a, b, c, d] @ drop (i + 4) opts"
    using assms by (simp_all add: read_range_Inr_iff)
  then show "read_range opts i 3 = Inr [a, b, c]" by (simp add: read_range_def)
  have "opts ! (i + 3) = drop i opts ! 3" using r(1) by simp
  then show "read_at opts (i + 3) = Inr d" using r by (simp add: read_at_def)
qed

lemma decide_request:
  assumes "ticks_at lw now" and mac: "mac = take 6 (dm_chaddr msg)"
    and "requests_address (dm_options msg) (take 3 (ip4_bytes (server_ip s)) @ [of_nat (16 + yi)])"
    and "yi < 32"
  shows "\<exists>w'. dhcp_decide lw msg 4 DHCPREQUEST s w =
      Inr (if lease_mac (leases s ! yi) = mac \<or> lease_mac (leases s ! yi) = zero_mac
        then (Some (of_nat (16 + yi), DHCPACK),
          s\<lparr>leases := (leases s)[yi := \<lparr>lease_mac = mac, lease_expiry = expiry_of now\<rparr>]\<rparr>, w')
        else (None, s, w')) \<and>
      calls w' = calls w \<and> delivered w' = delivered w"
proof -
  obtain a b c d where ip: "server_ip s = IP4 a b c d" by (cases "server_ip s")
  obtain r where r: "find_option (dm_options msg) 4 DHCP_OPT_REQUESTED_IP = Inr (Some r)"
      "read_range (dm_options msg) (r + 2) 4 = Inr [a, b, c, of_nat (16 + yi)]"
    using assms(3) by (auto simp: requests_address_def ip)
  from read_range_4 [OF r(2)] have rr: "read_range (dm_options msg) (Suc (Suc r)) 3 = Inr [a, b, c]"
      "read_at (dm_options msg) (r + 5) = Inr (of_nat (16 + yi))"
    by (simp_all add: numeral_eq_Suc)
  have yi: "unat (of_nat (16 + yi) - 16 :: u8) = yi"
    using assms(4) by (simp add: unat_of_nat)
  obtain w1 where w1: "on_env (lwip_ticks_ms lw) w = (now, w1)" "calls w1 = calls w" "delivered w1 = delivered w"
    using on_env_ticks [OF assms(1), of w] on_env_log [of "lwip_ticks_ms lw" w]
    by (cases "on_env (lwip_ticks_ms lw) w") simp
  show ?thesis
  proof (cases "lease_mac (leases s ! yi) = mac \<or> lease_mac (leases s ! yi) = zero_mac")
    case True
    then show ?thesis
      using rr yi assms(4) w1 by (intro exI [of _ w1]) (auto simp: dhcp_decide_def r(1) ip mac Let_def)
  next
    case False
    then show ?thesis
      using rr yi assms(4) by (intro exI [of _ w]) (auto simp: dhcp_decide_def r(1) ip mac Let_def)
  qed
qed

section \<open>The lease table\<close>

definition leases_ok :: "DhcpServer \<Rightarrow> bool" where
  "leases_ok s \<longleftrightarrow> length (leases s) = 32 \<and> (\<forall>l\<in>set (leases s). length (lease_mac l) = 6)"

text \<open>What handling a datagram of the client \<open>mac\<close> may do to a lease.\<close>

definition lease_step :: "u32 \<Rightarrow> u8 list \<Rightarrow> Lease \<Rightarrow> Lease \<Rightarrow> bool" where
  "lease_step now mac l l' \<longleftrightarrow>
     l' = l \<or>
     lease_expired (lease_expiry l) now \<and> l' = l\<lparr>lease_mac := zero_mac\<rparr> \<or>
     (lease_mac l = mac \<or> lease_mac l = zero_mac) \<and> l' = \<lparr>lease_mac = mac, lease_expiry = expiry_of now\<rparr>"

lemma lease_zero_same: "lease_mac l = zero_mac \<Longrightarrow> l\<lparr>lease_mac := zero_mac\<rparr> = l"
  by (cases l) simp

lemma leases_ok_update:
  "\<lbrakk> leases_ok s; length (lease_mac l) = 6 \<rbrakk> \<Longrightarrow> leases_ok (s\<lparr>leases := (leases s)[i := l]\<rparr>)"
  by (auto simp: leases_ok_def dest: set_update_subset_insert [THEN subsetD])

lemma decide_leases:
  assumes d: "dhcp_decide lw msg opt t s w = Inr (r, s', w')" and ok: "leases_ok s" and ticks: "ticks_at lw now"
    and mac: "mac = take 6 (dm_chaddr msg)" "length mac = 6"
  shows "leases_ok s' \<and> (\<forall>i<32. lease_step now mac (leases s ! i) (leases s' ! i))"
proof (cases "t = DHCPDISCOVER")
  case True
  let ?f = "free_lease now (leases s)"
  have s': "s' = s \<or> ?f < 32 \<and> s' = s\<lparr>leases := (leases s)[?f := (leases s ! ?f)\<lparr>lease_mac := zero_mac\<rparr>]\<rparr>"
    using decide_discover [OF ticks _ mac(1) refl, of s opt w] d True ok own_lease_le [of mac "leases s"]
    by (auto simp: leases_ok_def split: if_splits)
  then show ?thesis
  proof (elim disjE conjE)
    assume "s' = s"
    then show ?thesis using ok by (simp add: lease_step_def)
  next
    assume f: "?f < 32" and s': "s' = s\<lparr>leases := (leases s)[?f := (leases s ! ?f)\<lparr>lease_mac := zero_mac\<rparr>]\<rparr>"
    have "lease_step now mac (leases s ! ?f) ((leases s ! ?f)\<lparr>lease_mac := zero_mac\<rparr>)"
      using free_lease_nth [of now "leases s"] f ok lease_zero_same by (auto simp: leases_ok_def lease_step_def)
    moreover have "leases_ok s'" unfolding s' by (rule leases_ok_update [OF ok]) simp
    ultimately show ?thesis using ok f by (auto simp: s' nth_list_update leases_ok_def lease_step_def)
  qed
next
  case False
  have now: "fst (on_env (lwip_ticks_ms lw) w) = now" by (rule on_env_ticks [OF ticks])
  have s': "s' = s \<or> (\<exists>yi<32. (lease_mac (leases s ! yi) = mac \<or> lease_mac (leases s ! yi) = zero_mac) \<and>
      s' = s\<lparr>leases := (leases s)[yi := \<lparr>lease_mac = mac, lease_expiry = expiry_of now\<rparr>]\<rparr>)"
    using d False now unfolding mac(1)
    by (auto simp: dhcp_decide_def Let_def case_prod_beta not_le split: if_splits option.splits)
  then consider (same) "s' = s"
    | (granted) yi where "yi < 32" "lease_mac (leases s ! yi) = mac \<or> lease_mac (leases s ! yi) = zero_mac"
      "s' = s\<lparr>leases := (leases s)[yi := \<lparr>lease_mac = mac, lease_expiry = expiry_of now\<rparr>]\<rparr>"
    by blast
  then show ?thesis
  proof cases
    case same
    then show ?thesis using ok by (simp add: lease_step_def)
  next
    case granted
    have "leases_ok s'" unfolding granted(3) by (rule leases_ok_update [OF ok]) (simp add: mac(2))
    then show ?thesis using ok granted by (auto simp: nth_list_update leases_ok_def lease_step_def)
  qed
qed

end
