(* ===== verification/Dhcp_Service.thy ===== *)
theory Dhcp_Service
  imports Dhcp_Laws
begin

text \<open>
  The properties of \<^verbatim>\<open>DhcpServer\<close>: what a datagram does to the leases, which replies are sent, how
  an offer is followed by an acknowledgement of the same address, and which datagrams are
  handled without a read outside the message.
\<close>

section \<open>Kinds of requests\<close>

text \<open>The message type of a datagram of at least 243 bytes, when its option is complete.\<close>

definition has_type :: "u8 list \<Rightarrow> u8 \<Rightarrow> bool" where
  "has_type bs t \<longleftrightarrow> 243 \<le> length bs \<and>
     (\<exists>m. find_option (dm_options (dhcp_received bs)) 4 DHCP_OPT_MSG_TYPE = Inr (Some m) \<and>
          read_at (dm_options (dhcp_received bs)) (m + 2) = Inr t)"

abbreviation sender_mac :: "u8 list \<Rightarrow> u8 list" where
  "sender_mac bs \<equiv> take 6 (drop 28 bs)"

lemma sender_mac_message:
  assumes "243 \<le> length bs"
  shows "take 6 (dm_chaddr (dhcp_message bs s)) = sender_mac bs" "length (sender_mac bs) = 6"
  using assms by (simp_all add: dhcp_received_def drop_take)

lemma handle_typed:
  assumes "has_type bs t"
  shows "dhcp_handle_request lw (Some bs) s w =
    bindE (dhcp_decide lw (dhcp_message bs s) 4 t s w) (\<lambda>r. Inr (dhcp_finish lw bs r))"
  using assms by (auto simp: has_type_def dhcp_handle_request_eq simp del: bindE_Inr_iff)

section \<open>The lease table\<close>

lemma finish_leases: "fst (dhcp_finish lw bs r) = fst (snd r)"
  by (simp add: dhcp_finish_def case_prod_beta)

lemma handle_leases:
  assumes h: "dhcp_handle_request lw (Some bs) s w = Inr (s', w')" and ok: "leases_ok s" and "ticks_at lw now"
  shows "leases_ok s' \<and> (\<forall>i<32. lease_step now (sender_mac bs) (leases s ! i) (leases s' ! i))"
proof (cases "\<exists>t. has_type bs t")
  case True
  then obtain t where t: "has_type bs t" by blast
  then have len: "243 \<le> length bs" by (simp add: has_type_def)
  obtain r where d: "dhcp_decide lw (dhcp_message bs s) 4 t s w = Inr r" and r: "dhcp_finish lw bs r = (s', w')"
    using h unfolding handle_typed [OF t] by auto
  have "fst (snd r) = s'" using r finish_leases [of lw bs r] by simp
  then obtain q w1 where "dhcp_decide lw (dhcp_message bs s) 4 t s w = Inr (q, s', w1)"
    using d by (cases r) auto
  from decide_leases [OF this ok assms(3) sender_mac_message(1) [OF len, symmetric] sender_mac_message(2) [OF len]]
  show ?thesis .
next
  case False
  have "s' = s"
  proof (cases "length bs < 243")
    case True
    then show ?thesis using h by (simp add: dhcp_handle_request_def)
  next
    case len: False
    then show ?thesis
      using h False by (auto simp: dhcp_handle_request_eq has_type_def split: option.splits)
  qed
  then show ?thesis using ok by (simp add: lease_step_def)
qed

section \<open>Replies\<close>

text \<open>A call that broadcasts a reply to the clients' port, on an interface or on any.\<close>

definition broadcasts :: "pcb \<Rightarrow> u8 list \<Rightarrow> LwipCall \<Rightarrow> bool" where
  "broadcasts p reply c \<longleftrightarrow>
     c = UdpSendto p reply (IPADDR_TYPE_V4 (IP4 255 255 255 255)) PORT_DHCP_CLIENT \<or>
     (\<exists>n. c = UdpSendtoIf p reply (IPADDR_TYPE_V4 (IP4 255 255 255 255)) PORT_DHCP_CLIENT n)"

text \<open>The calls of a request that is answered, and of one that is dropped.\<close>

definition answered :: "pcb \<Rightarrow> u8 list \<Rightarrow> u8 list \<Rightarrow> 'e World \<Rightarrow> 'e World \<Rightarrow> bool" where
  "answered p bs reply w w' \<longleftrightarrow>
     (\<exists>c e1 e2 e3. broadcasts p reply c \<and>
        calls w' = calls w @ [(c, e1), (PbufFree reply, e2), (PbufFree bs, e3)])"

definition dropped :: "u8 list \<Rightarrow> 'e World \<Rightarrow> 'e World \<Rightarrow> bool" where
  "dropped bs w w' \<longleftrightarrow> (\<exists>e. calls w' = calls w @ [(PbufFree bs, e)])"

lemma dhcp_reply_server:
  "\<lbrakk> server_ip s' = server_ip s; netmask s' = netmask s \<rbrakk> \<Longrightarrow> dhcp_reply bs h t s' = dhcp_reply bs h t s"
  by (simp add: dhcp_reply_def reply_options_def)

lemma finish_answers:
  assumes "dhcp_udp s = Some p" and "buffers_available lw"
  shows "fst (dhcp_finish lw bs (Some (h, t), s, w)) = s"
    "answered p bs (dhcp_reply bs h t s) w (snd (dhcp_finish lw bs (Some (h, t), s, w)))"
proof -
  show "fst (dhcp_finish lw bs (Some (h, t), s, w)) = s" by (simp add: dhcp_finish_def)
  have "fst (on_env (lwip_pbuf_alloc lw n) w)" for n
    using assms(2) by (simp add: world_simps buffers_available_def)
  then show "answered p bs (dhcp_reply bs h t s) w (snd (dhcp_finish lw bs (Some (h, t), s, w)))"
    using assms(1) unfolding answered_def
    by (intro exI [of _ "case lwip_input_netif lw (env w) of
          None \<Rightarrow> UdpSendto p (dhcp_reply bs h t s) (IPADDR_TYPE_V4 (IP4 255 255 255 255)) PORT_DHCP_CLIENT
        | Some n \<Rightarrow> UdpSendtoIf p (dhcp_reply bs h t s) (IPADDR_TYPE_V4 (IP4 255 255 255 255)) PORT_DHCP_CLIENT n"])
      (simp add: dhcp_finish_def dhcp_broadcast_def case_prod_beta Let_def world_simps broadcasts_def
        split: option.split)
qed

lemma finish_drops:
  "fst (dhcp_finish lw bs (None, s, w)) = s" "dropped bs w (snd (dhcp_finish lw bs (None, s, w)))"
  by (simp_all add: dhcp_finish_def dropped_def world_simps)

lemma handle_answers:
  assumes "has_type bs t" and "dhcp_decide lw (dhcp_message bs s) 4 t s w = Inr (Some (h, r), s', w1)"
    and "calls w1 = calls w" and "dhcp_udp s = Some p" and "buffers_available lw"
  shows "\<exists>w'. dhcp_handle_request lw (Some bs) s w = Inr (s', w') \<and> answered p bs (dhcp_reply bs h r s) w w'"
proof -
  note keeps = dhcp_decide_keeps [OF assms(2)]
  have udp: "dhcp_udp s' = Some p" using keeps(3) assms(4) by simp
  show ?thesis
    using finish_answers [OF udp assms(5), of bs h r w1] assms(2,3)
    by (intro exI [of _ "snd (dhcp_finish lw bs (Some (h, r), s', w1))"])
      (simp add: handle_typed [OF assms(1)] prod_eq_iff dhcp_reply_server [OF keeps(1,2)] answered_def)
qed

lemma handle_drops:
  assumes "has_type bs t" and "dhcp_decide lw (dhcp_message bs s) 4 t s w = Inr (None, s', w1)"
    and "calls w1 = calls w"
  shows "\<exists>w'. dhcp_handle_request lw (Some bs) s w = Inr (s', w') \<and> dropped bs w w'"
  using finish_drops [where lw = lw and bs = bs and s = s' and w = w1] assms
  by (intro exI [of _ "snd (dhcp_finish lw bs (None, s', w1))"])
    (simp add: handle_typed prod_eq_iff dropped_def)

text \<open>The lease a DISCOVER is answered with: the client's own, or else the first free or expired one.\<close>

definition offered_lease :: "u32 \<Rightarrow> u8 list \<Rightarrow> Lease list \<Rightarrow> nat" where
  "offered_lease now mac ls = (if own_lease mac ls < 32 then own_lease mac ls else free_lease now ls)"

lemma offered_lease_le: "length ls = 32 \<Longrightarrow> offered_lease now mac ls \<le> 32"
  by (auto simp: offered_lease_def free_lease_def intro: order_trans [OF length_takeWhile_le])

lemma handle_discover:
  assumes "has_type bs DHCPDISCOVER" and "leases_ok s" and "ticks_at lw now"
    and "dhcp_udp s = Some p" and "buffers_available lw"
    and yi: "yi = offered_lease now (sender_mac bs) (leases s)"
  shows "\<exists>s' w'. dhcp_handle_request lw (Some bs) s w = Inr (s', w') \<and>
    (if yi = 32 then dropped bs w w'
     else answered p bs (dhcp_reply bs (of_nat (16 + yi)) DHCPOFFER s) w w' \<and>
       (lease_mac (leases s' ! yi) = sender_mac bs \<or> lease_mac (leases s' ! yi) = zero_mac)) \<and>
    server_ip s' = server_ip s \<and> netmask s' = netmask s \<and> dhcp_udp s' = dhcp_udp s"
proof -
  let ?mac = "sender_mac bs" and ?f = "free_lease now (leases s)"
  have len: "243 \<le> length bs" using assms(1) by (simp add: has_type_def)
  have ls: "length (leases s) = 32" using assms(2) by (simp add: leases_ok_def)
  have mac: "?mac = take 6 (dm_chaddr (dhcp_message bs s))" using sender_mac_message(1) [OF len] by simp
  define s' where "s' = s\<lparr>leases := if ?f < own_lease ?mac (leases s)
     then (leases s)[?f := (leases s ! ?f)\<lparr>lease_mac := zero_mac\<rparr>] else leases s\<rparr>"
  obtain w1 where d: "dhcp_decide lw (dhcp_message bs s) 4 DHCPDISCOVER s w =
      Inr (if yi = 32 then None else Some (of_nat (16 + yi), DHCPOFFER), s', w1)" "calls w1 = calls w"
    using decide_discover [OF assms(3) ls mac yi [unfolded offered_lease_def], of 4 w] unfolding s'_def by blast
  note keeps = dhcp_decide_keeps [OF d(1)]
  have yi_le: "yi \<le> 32"
    using offered_lease_le [OF ls] yi by simp
  have target: "lease_mac (leases s' ! yi) = ?mac \<or> lease_mac (leases s' ! yi) = zero_mac" if "yi \<noteq> 32"
    using that yi_le own_lease_nth [of ?mac "leases s"] own_lease_le [of ?mac "leases s"] ls
    by (auto simp: yi offered_lease_def s'_def nth_list_update split: if_splits)
  show ?thesis
  proof (cases "yi = 32")
    case True
    then show ?thesis using handle_drops [OF assms(1) _ d(2)] d(1) keeps by fastforce
  next
    case False
    then have "dhcp_decide lw (dhcp_message bs s) 4 DHCPDISCOVER s w =
        Inr (Some (of_nat (16 + yi), DHCPOFFER), s', w1)" using d(1) by simp
    from handle_answers [OF assms(1) this d(2) assms(4,5)]
    show ?thesis using False target keeps by auto
  qed
qed

lemma handle_request:
  assumes "has_type bs DHCPREQUEST" and "ticks_at lw now"
    and "dhcp_udp s = Some p" and "buffers_available lw"
    and "requests_address (dm_options (dhcp_received bs)) (take 3 (ip4_bytes (server_ip s)) @ [of_nat (16 + yi)])"
    and "yi < 32"
  shows "\<exists>s' w'. dhcp_handle_request lw (Some bs) s w = Inr (s', w') \<and>
    (if lease_mac (leases s ! yi) = sender_mac bs \<or> lease_mac (leases s ! yi) = zero_mac
     then answered p bs (dhcp_reply bs (of_nat (16 + yi)) DHCPACK s) w w' \<and>
       s' = s\<lparr>leases := (leases s)[yi := \<lparr>lease_mac = sender_mac bs, lease_expiry = expiry_of now\<rparr>]\<rparr>
     else dropped bs w w' \<and> s' = s)"
proof -
  have len: "243 \<le> length bs" using assms(1) by (simp add: has_type_def)
  have mac: "sender_mac bs = take 6 (dm_chaddr (dhcp_message bs s))" using sender_mac_message(1) [OF len] by simp
  obtain w1 where d: "dhcp_decide lw (dhcp_message bs s) 4 DHCPREQUEST s w =
      Inr (if lease_mac (leases s ! yi) = sender_mac bs \<or> lease_mac (leases s ! yi) = zero_mac
        then (Some (of_nat (16 + yi), DHCPACK),
          s\<lparr>leases := (leases s)[yi := \<lparr>lease_mac = sender_mac bs, lease_expiry = expiry_of now\<rparr>]\<rparr>, w1)
        else (None, s, w1))" "calls w1 = calls w"
    using decide_request [OF assms(2) mac, of s yi w] assms(5,6) by auto
  show ?thesis
    using handle_answers [OF assms(1) _ d(2) assms(3,4)] handle_drops [OF assms(1) _ d(2)] d(1)
    by (auto split: if_splits)
qed

section \<open>The options of a reply\<close>

definition option_value :: "u8 list \<Rightarrow> u8 \<Rightarrow> u8 list option result" where
  "option_value opts code =
     bindE (find_option opts 4 code) (\<lambda>m.
       case m of
         None \<Rightarrow> Inr None
       | Some m \<Rightarrow> bindE (read_at opts (m + 1)) (\<lambda>n.
           bindE (read_range opts (m + 2) (unat n)) (\<lambda>v. Inr (Some v))))"

lemma read_at_patched:
  assumes "off + length R \<le> length opts" "off \<le> i" "i < off + length R"
  shows "read_at (patched opts off R) i = Inr (R ! (i - off))"
  using assms by (auto simp: read_at_def patched_def nth_append)

lemma read_range_patched:
  assumes "off + length R \<le> length opts" "off \<le> i" "i + n \<le> off + length R"
  shows "read_range (patched opts off R) i n = Inr (take n (drop (i - off) R))"
  using assms by (auto simp: read_range_def patched_def)

lemma reply_option_values:
  assumes "length opts = 312"
  shows "option_value (patched opts 4 (reply_options t s)) DHCP_OPT_MSG_TYPE = Inr (Some [t])"
    "option_value (patched opts 4 (reply_options t s)) DHCP_OPT_SERVER_ID = Inr (Some (ip4_bytes (server_ip s)))"
    "option_value (patched opts 4 (reply_options t s)) DHCP_OPT_SUBNET_MASK = Inr (Some (ip4_bytes (netmask s)))"
    "option_value (patched opts 4 (reply_options t s)) DHCP_OPT_ROUTER = Inr (Some (ip4_bytes (server_ip s)))"
    "option_value (patched opts 4 (reply_options t s)) DHCP_OPT_DNS = Inr (Some (ip4_bytes (server_ip s)))"
    "option_value (patched opts 4 (reply_options t s)) DHCP_OPT_IP_LEASE_TIME = Inr (Some [0, 1, 0x51, 0x80])"
    "option_value (patched opts 4 (reply_options t s)) DHCP_OPT_REQUESTED_IP = Inr None"
proof -
  obtain a b c d where ip: "server_ip s = IP4 a b c d" by (cases "server_ip s")
  obtain a' b' c' d' where nm: "netmask s = IP4 a' b' c' d'" by (cases "netmask s")
  have R: "reply_options t s = [53, 1, t, 54, 4, a, b, c, d, 1, 4, a', b', c', d', 3, 4, a, b, c, d,
      6, 4, a, b, c, d, 51, 4, 0, 1, 0x51, 0x80, 255]"
    by (simp add: reply_options_def ip nm)
  note eval = option_value_def find_option_def find_option_loop.simps read_at_patched read_range_patched R assms
  show "option_value (patched opts 4 (reply_options t s)) DHCP_OPT_MSG_TYPE = Inr (Some [t])"
    "option_value (patched opts 4 (reply_options t s)) DHCP_OPT_SERVER_ID = Inr (Some (ip4_bytes (server_ip s)))"
    "option_value (patched opts 4 (reply_options t s)) DHCP_OPT_SUBNET_MASK = Inr (Some (ip4_bytes (netmask s)))"
    "option_value (patched opts 4 (reply_options t s)) DHCP_OPT_ROUTER = Inr (Some (ip4_bytes (server_ip s)))"
    "option_value (patched opts 4 (reply_options t s)) DHCP_OPT_DNS = Inr (Some (ip4_bytes (server_ip s)))"
    "option_value (patched opts 4 (reply_options t s)) DHCP_OPT_IP_LEASE_TIME = Inr (Some [0, 1, 0x51, 0x80])"
    "option_value (patched opts 4 (reply_options t s)) DHCP_OPT_REQUESTED_IP = Inr None"
    by (simp_all add: eval ip nm)
qed

section \<open>Sample datagrams\<close>

text \<open>Datagrams of the client \<open>1:2:3:4:5:6\<close>: 28 bytes, its address, 206 bytes and the options.\<close>

definition sample_datagram :: "u8 list \<Rightarrow> u8 list" where
  "sample_datagram opts = replicate 28 0 @ [1, 2, 3, 4, 5, 6] @ replicate 202 0 @ [99, 130, 83, 99] @ opts"

definition sample_discover :: "u8 list" where
  "sample_discover = sample_datagram [53, 1, 1, 255]"

definition sample_request :: "u8 list" where
  "sample_request = sample_datagram [53, 1, 3, 50, 4, 10, 0, 0, 16, 255]"

lemma sample_datagram_facts:
  "length (sample_datagram opts) = 240 + length opts"
  "sender_mac (sample_datagram opts) = [1, 2, 3, 4, 5, 6]"
  "length opts \<le> 308 \<Longrightarrow>
     dm_options (dhcp_received (sample_datagram opts)) = [99, 130, 83, 99] @ opts @ replicate (308 - length opts) 0"
  by (simp_all add: sample_datagram_def dhcp_received_def)

lemmas option_eval = find_option_def find_option_loop.simps read_at_def read_range_def sample_datagram_facts

lemma sample_discover_type: "has_type sample_discover DHCPDISCOVER"
  by (simp add: has_type_def sample_discover_def option_eval)

lemma sample_request_type: "has_type sample_request DHCPREQUEST"
  by (simp add: has_type_def sample_request_def option_eval)

lemma sample_request_address: "requests_address (dm_options (dhcp_received sample_request)) [10, 0, 0, 16]"
  by (simp add: requests_address_def sample_request_def option_eval)

definition sample_server :: DhcpServer where
  "sample_server = (new_DhcpServer 9)\<lparr>dhcp_udp := Some 2, server_ip := IP4 10 0 0 1,
     netmask := IP4 255 255 255 0\<rparr>"

definition still_lwip :: "sample_env Lwip" where
  "still_lwip = sample_lwip\<lparr>lwip_ticks_ms := (\<lambda>e. (1000, e))\<rparr>"

lemma sample_server_ok: "leases_ok sample_server"
  by (simp add: leases_ok_def sample_server_def new_DhcpServer_def no_leases_def)

lemma still_ticks: "ticks_at still_lwip 1000"
  by (simp add: ticks_at_def still_lwip_def)

lemma still_buffers: "buffers_available still_lwip"
  by (simp add: buffers_available_def still_lwip_def sample_lwip_def)

lemma sample_senders: "sender_mac sample_discover = [1, 2, 3, 4, 5, 6]" "sender_mac sample_request = [1, 2, 3, 4, 5, 6]"
  by (simp_all add: sample_discover_def sample_request_def sample_datagram_facts)

lemma sample_offered: "offered_lease now [1, 2, 3, 4, 5, 6] (leases sample_server) = 0"
  by (simp add: offered_lease_def own_lease_def free_lease_def sample_server_def new_DhcpServer_def no_leases_def
      takeWhile_replicate numeral_eq_Suc)

section \<open>Properties\<close>

text \<open>
  C20: handling any datagram whatsoever keeps the lease table well-formed, and changes a lease only
  in two ways: a lease that has expired may be cleared, and a lease that is free or already the
  sender's may become the sender's for the lease time from now. No client can take or shorten a
  running lease of another.
\<close>

theorem dhcp_leases_are_kept:
  assumes "dhcp_handle_request lw (Some bs) s w = Inr (s', w')" and "leases_ok s" and "ticks_at lw now"
  shows "leases_ok s' \<and> (\<forall>i<32. lease_step now (sender_mac bs) (leases s ! i) (leases s' ! i))"
  using assms by (rule handle_leases)

theorem dhcp_leases_are_kept_witness:
  "\<exists>s' w'. dhcp_handle_request still_lwip (Some sample_request) sample_server (sample_world 0 []) = Inr (s', w') \<and>
     leases_ok s' \<and> lease_step 1000 [1, 2, 3, 4, 5, 6] (leases sample_server ! 5) (leases s' ! 5)"
proof -
  obtain s' w' where run: "dhcp_handle_request still_lwip (Some sample_request) sample_server (sample_world 0 []) = Inr (s', w')"
    using handle_request [OF sample_request_type still_ticks _ still_buffers, of sample_server 2 0 "sample_world 0 []"]
      sample_request_address by (auto simp: sample_server_def)
  with dhcp_leases_are_kept [OF run sample_server_ok still_ticks] show ?thesis
    by (auto simp: sample_senders)
qed

text \<open>
  C35: an offer is honoured: when a client's DISCOVER has been handled, the client's own lease, or
  else the first free or expired one, has been offered in a broadcast reply, and when the client
  then requests the address of the offer, the reply acknowledges that address and the lease is
  the client's for the lease time from then. Without such a lease the DISCOVER is dropped.
\<close>

theorem dhcp_offer_is_honoured:
  assumes "has_type discover DHCPDISCOVER" and "leases_ok s" and "dhcp_udp s = Some p"
    and "ticks_at lw now" "buffers_available lw" and "ticks_at lw' later" "buffers_available lw'"
    and yi: "yi = offered_lease now (sender_mac discover) (leases s)"
    and "has_type request DHCPREQUEST" and "sender_mac request = sender_mac discover"
    and "requests_address (dm_options (dhcp_received request)) (take 3 (ip4_bytes (server_ip s)) @ [of_nat (16 + yi)])"
  shows "\<exists>s1 w1. dhcp_handle_request lw (Some discover) s w = Inr (s1, w1) \<and>
    (if yi = 32 then dropped discover w w1
     else answered p discover (dhcp_reply discover (of_nat (16 + yi)) DHCPOFFER s) w w1 \<and>
       (\<forall>w2. \<exists>s3 w3. dhcp_handle_request lw' (Some request) s1 w2 = Inr (s3, w3) \<and>
          answered p request (dhcp_reply request (of_nat (16 + yi)) DHCPACK s) w2 w3 \<and>
          leases s3 ! yi = \<lparr>lease_mac = sender_mac request, lease_expiry = expiry_of later\<rparr>))"
proof -
  obtain s1 w1 where d: "dhcp_handle_request lw (Some discover) s w = Inr (s1, w1)"
    and o: "if yi = 32 then dropped discover w w1
     else answered p discover (dhcp_reply discover (of_nat (16 + yi)) DHCPOFFER s) w w1 \<and>
       (lease_mac (leases s1 ! yi) = sender_mac discover \<or> lease_mac (leases s1 ! yi) = zero_mac)"
    and k: "server_ip s1 = server_ip s" "netmask s1 = netmask s" "dhcp_udp s1 = dhcp_udp s"
    using handle_discover [OF assms(1,2,4,3,5) yi, of w] by blast
  have yi32: "yi \<le> 32"
    using offered_lease_le [of "leases s"] assms(2) yi by (simp add: leases_ok_def)
  have len: "length (leases s1) = 32"
    using handle_leases [OF d assms(2,4)] by (simp add: leases_ok_def)
  have "\<exists>s3 w3. dhcp_handle_request lw' (Some request) s1 w2 = Inr (s3, w3) \<and>
          answered p request (dhcp_reply request (of_nat (16 + yi)) DHCPACK s) w2 w3 \<and>
          leases s3 ! yi = \<lparr>lease_mac = sender_mac request, lease_expiry = expiry_of later\<rparr>" if "yi \<noteq> 32" for w2
    using handle_request [OF assms(9,6) _ assms(7), of s1 p yi w2] o k assms(3,10,11) yi32 that len
    by (auto simp: dhcp_reply_server [OF k(1,2)])
  with d o show ?thesis by auto
qed

theorem dhcp_offer_is_honoured_witness:
  "\<exists>s1 w1. dhcp_handle_request still_lwip (Some sample_discover) sample_server (sample_world 0 []) = Inr (s1, w1) \<and>
     (\<exists>s3 w3. dhcp_handle_request still_lwip (Some sample_request) s1 w1 = Inr (s3, w3) \<and>
        leases s3 ! 0 = \<lparr>lease_mac = [1, 2, 3, 4, 5, 6], lease_expiry = expiry_of 1000\<rparr>)"
proof -
  have udp: "dhcp_udp sample_server = Some 2" by (simp add: sample_server_def)
  have ip: "take 3 (ip4_bytes (server_ip sample_server)) @ [of_nat (16 + 0)] = [10, 0, 0, 16]"
    by (simp add: sample_server_def)
  have yi: "0 = offered_lease 1000 (sender_mac sample_discover) (leases sample_server)"
    by (simp only: sample_senders sample_offered)
  from dhcp_offer_is_honoured [OF sample_discover_type sample_server_ok udp still_ticks still_buffers
      still_ticks still_buffers yi sample_request_type _ sample_request_address [folded ip], of "sample_world 0 []"]
  show ?thesis by (simp add: sample_senders) meson
qed

text \<open>
  A REQUEST for an address of the pool is acknowledged exactly when the lease is the sender's
  or free, and otherwise dropped without changing anything.
\<close>

lemma dhcp_request_is_decided:
  assumes "has_type bs DHCPREQUEST" and "ticks_at lw now"
    and "dhcp_udp s = Some p" and "buffers_available lw"
    and "requests_address (dm_options (dhcp_received bs)) (take 3 (ip4_bytes (server_ip s)) @ [of_nat (16 + yi)])"
    and "yi < 32"
  shows "\<exists>s' w'. dhcp_handle_request lw (Some bs) s w = Inr (s', w') \<and>
    (if lease_mac (leases s ! yi) = sender_mac bs \<or> lease_mac (leases s ! yi) = zero_mac
     then answered p bs (dhcp_reply bs (of_nat (16 + yi)) DHCPACK s) w w' \<and>
       s' = s\<lparr>leases := (leases s)[yi := \<lparr>lease_mac = sender_mac bs, lease_expiry = expiry_of now\<rparr>]\<rparr>
     else dropped bs w w' \<and> s' = s)"
  using assms by (rule handle_request)

text \<open>
  C36: a lease lasts at least its 24 hours and at most about 65 seconds longer, on the 32-bit
  millisecond counter with its wrap-around; but about 25 days after that, if nothing has
  cleared it, it looks unexpired again until the counter has gone around.
\<close>

theorem dhcp_lease_time:
  "(uint d \<le> 86400000 \<longrightarrow> \<not> lease_expired (expiry_of t) (t + d)) \<and>
   (86465535 < uint d \<and> uint d \<le> 2233883648 \<longrightarrow> lease_expired (expiry_of t) (t + d)) \<and>
   (2233949183 < uint d \<longrightarrow> \<not> lease_expired (expiry_of t) (t + d))"
  using lease_not_expired_early lease_expired_late lease_looks_valid_again by blast

theorem dhcp_lease_time_witness:
  "\<not> lease_expired (expiry_of 0xFFFFFFFF) (0xFFFFFFFF + 86400000) \<and>
   lease_expired (expiry_of 0xFFFFFFFF) (0xFFFFFFFF + 90000000) \<and>
   \<not> lease_expired (expiry_of 0xFFFFFFFF) (0xFFFFFFFF + 2300000000)"
  using dhcp_lease_time [of 86400000 "0xFFFFFFFF"] dhcp_lease_time [of 90000000 "0xFFFFFFFF"]
    dhcp_lease_time [of 2300000000 "0xFFFFFFFF"] by simp

lemma find_option_zeros:
  assumes "\<forall>j<n. opts ! (4 + j) = 0" and "n \<le> 308" and "length opts = 312" and "code \<noteq> 0"
  shows "find_option opts 4 code = find_option_loop opts 4 code n"
proof -
  have "find_option_loop opts 4 code 0 = find_option_loop opts 4 code n"
    using assms(1,2)
  proof (induction n)
    case (Suc n)
    then have "find_option_loop opts 4 code 0 = find_option_loop opts 4 code n" by simp
    also have "\<dots> = find_option_loop opts 4 code (Suc n)"
      using Suc.prems assms(3,4) by (simp add: find_option_loop.simps [of opts 4 code n] read_at_def)
    finally show ?case .
  qed simp
  then show ?thesis by (simp add: find_option_def)
qed

lemma dhcp_long_request_overreads:
  "dhcp_handle_request lw (Some (replicate 547 0 @ [99])) s w = Inl OutOfBounds"
proof -
  let ?bs = "replicate 547 0 @ [99] :: u8 list" and ?opts = "replicate 311 0 @ [99] :: u8 list"
  have opts: "dm_options (dhcp_received ?bs) = ?opts"
    by (simp add: dhcp_received_def)
  have "find_option ?opts 4 DHCP_OPT_MSG_TYPE = find_option_loop ?opts 4 DHCP_OPT_MSG_TYPE 307"
    by (rule find_option_zeros) (simp_all add: nth_append)
  also have "\<dots> = Inl OutOfBounds"
    by (simp add: find_option_loop.simps [of ?opts 4 DHCP_OPT_MSG_TYPE 307] read_at_def nth_append)
  finally have "find_option ?opts 4 DHCP_OPT_MSG_TYPE = Inl OutOfBounds" .
  then show ?thesis using opts by (simp add: dhcp_handle_request_eq)
qed

text \<open>
  C37: no datagram of at most 543 bytes makes the server read or write outside the message: the
  bytes after it are zero there, and stop the search for options. A datagram of the full 548 bytes
  can make it read outside: the search reads the length of an option whose code is the last byte.
\<close>

theorem dhcp_request_memory_safe:
  "(length bs \<le> 543 \<longrightarrow> fault_free (dhcp_handle_request lw (Some bs) s w)) \<and>
   dhcp_handle_request lw (Some (replicate 547 0 @ [99])) s w = Inl OutOfBounds"
  using dhcp_handle_request_safe dhcp_long_request_overreads by blast

theorem dhcp_request_memory_safe_witness:
  "fault_free (dhcp_handle_request still_lwip (Some (replicate 543 99)) sample_server (sample_world 0 []))"
  by (rule dhcp_request_memory_safe [THEN conjunct1, rule_format]) simp

text \<open>
  The options written into a reply can all be found again by the search the server itself
  uses, with the values of the server; nothing else of the options is touched, and the reply
  ends with them.
\<close>

lemma dhcp_reply_options_readable:
  assumes "length opts = 312"
  shows "\<exists>opts'. dhcp_reply_options opts 4 t s = Inr (opts', 38) \<and> length opts' = 312 \<and>
    take 4 opts' = take 4 opts \<and> drop 38 opts' = drop 38 opts \<and>
    option_value opts' DHCP_OPT_MSG_TYPE = Inr (Some [t]) \<and>
    option_value opts' DHCP_OPT_SERVER_ID = Inr (Some (ip4_bytes (server_ip s))) \<and>
    option_value opts' DHCP_OPT_SUBNET_MASK = Inr (Some (ip4_bytes (netmask s))) \<and>
    option_value opts' DHCP_OPT_ROUTER = Inr (Some (ip4_bytes (server_ip s))) \<and>
    option_value opts' DHCP_OPT_DNS = Inr (Some (ip4_bytes (server_ip s))) \<and>
    option_value opts' DHCP_OPT_IP_LEASE_TIME = Inr (Some [0, 1, 0x51, 0x80]) \<and>
    option_value opts' DHCP_OPT_REQUESTED_IP = Inr None"
  using assms reply_option_values [OF assms, of t s]
  by (intro exI [of _ "patched opts 4 (reply_options t s)"])
    (simp add: dhcp_reply_options_eq, simp add: patched_def)

text \<open>
  Starting and stopping: a server that is running refuses to start again and is left alone; a
  start that returns no error leaves it running on its socket, bound to the DHCP port with the
  server as its argument, with an empty table, and any other start leaves it stopped; stopping
  always leaves it stopped with an empty table, and removes the socket exactly when it had one.
\<close>

lemma dhcp_start_stop:
  "(is_running s \<longrightarrow> dhcp_start lw ip nm s w = (Some (Error ''DHCP server already running''), s, w)) \<and>
   (\<not> is_running s \<longrightarrow> (case dhcp_start lw ip nm s w of (err, s', w') \<Rightarrow>
      (is_running s' \<longleftrightarrow> err = None) \<and> leases s' = no_leases \<and> server_ip s' = ip \<and> netmask s' = nm \<and>
      (\<forall>p. dhcp_udp s' = Some p \<longrightarrow> (\<exists>e. calls w' = calls w @
         [(UdpRecv p (Some (dhcp_this s)), e), (UdpBind p None PORT_DHCP_SERVER, ERR_OK)])))) \<and>
   (case dhcp_stop lw s w of (err, s', w') \<Rightarrow> err = None \<and> \<not> is_running s' \<and>
      (case dhcp_udp s of None \<Rightarrow> s' = s \<and> w' = w
       | Some p \<Rightarrow> leases s' = no_leases \<and> (\<exists>e. calls w' = calls w @ [(UdpRemove p, e)])))"
proof (intro conjI)
  show "is_running s \<longrightarrow> dhcp_start lw ip nm s w = (Some (Error ''DHCP server already running''), s, w)"
    by (simp add: dhcp_start_def is_running_def)
  show "\<not> is_running s \<longrightarrow> (case dhcp_start lw ip nm s w of (err, s', w') \<Rightarrow>
      (is_running s' \<longleftrightarrow> err = None) \<and> leases s' = no_leases \<and> server_ip s' = ip \<and> netmask s' = nm \<and>
      (\<forall>p. dhcp_udp s' = Some p \<longrightarrow> (\<exists>e. calls w' = calls w @
         [(UdpRecv p (Some (dhcp_this s)), e), (UdpBind p None PORT_DHCP_SERVER, ERR_OK)])))"
    by (auto simp: dhcp_start_def is_running_def Let_def case_prod_beta world_simps split: option.split)
  show "case dhcp_stop lw s w of (err, s', w') \<Rightarrow> err = None \<and> \<not> is_running s' \<and>
      (case dhcp_udp s of None \<Rightarrow> s' = s \<and> w' = w
       | Some p \<Rightarrow> leases s' = no_leases \<and> (\<exists>e. calls w' = calls w @ [(UdpRemove p, e)]))"
    by (simp add: dhcp_stop_def is_running_def world_simps split: option.split)
qed

end
