(* ===== verification/Dns_Server.thy ===== *)
theory Dns_Server
  imports Sample_Environment
begin

text \<open>
  \<^verbatim>\<open>DnsServer\<close> (\<^verbatim>\<open>pico_net/src/dns_server.cpp\<close>): the records and their lookup, the life of the
  UDP socket, and the answering of queries. The message buffer on the stack is a list of 300
  bytes; reads and writes outside it are faults. \<^verbatim>\<open>printf\<close> is left out.
\<close>

section \<open>Data\<close>

abbreviation "PORT_DNS_SERVER \<equiv> (53 :: u16)"
abbreviation "MAX_DNS_MSG_SIZE \<equiv> (300 :: nat)"

text \<open>The size of \<^verbatim>\<open>DnsHeader\<close>: six 16-bit fields in network order.\<close>

abbreviation "DNS_HEADER_SIZE \<equiv> (12 :: nat)"

record DnsServer =
  dns_this :: obj
  dns_udp :: "pcb option"
  records :: "string \<rightharpoonup> ip4_addr_t"
  fallback_ip :: "ip4_addr_t option"
  dns_listen_ip :: ip_addr_t

definition new_DnsServer :: "obj \<Rightarrow> DnsServer" where
  "new_DnsServer this =
     \<lparr>dns_this = this, dns_udp = None, records = Map.empty, fallback_ip = None,
      dns_listen_ip = IPADDR_TYPE_V4 (IP4 0 0 0 0)\<rparr>"

section \<open>Host names\<close>

text \<open>\<^verbatim>\<open>std::tolower\<close> in the C locale.\<close>

definition tolower :: "char \<Rightarrow> char" where
  "tolower c = (let n = of_char c :: nat in if 65 \<le> n \<and> n \<le> 90 then char_of (n + 32) else c)"

function pop_dots :: "string \<Rightarrow> string" where
  "pop_dots host = (if host \<noteq> [] \<and> last host = CHR ''.'' then pop_dots (butlast host) else host)"
  by pat_completeness auto
termination
  by (relation "measure length") auto

declare pop_dots.simps [simp del]

definition normalize_host :: "string \<Rightarrow> string" where
  "normalize_host host = pop_dots (map tolower host)"

definition dns_parse_ipv4 :: "'e Lwip \<Rightarrow> string \<Rightarrow> ip4_addr_t option" where
  "dns_parse_ipv4 lw ip = lwip_aton lw ip"

section \<open>Records\<close>

definition add_record ::
  "'e Lwip \<Rightarrow> string \<Rightarrow> string \<Rightarrow> DnsServer \<Rightarrow> Error option \<times> DnsServer" where
  "add_record lw host ip s =
     (if host = [] then (Some (Error ''host is empty''), s)
      else case dns_parse_ipv4 lw ip of
             None \<Rightarrow> (Some (Error ''invalid IPv4 address''), s)
           | Some parsed_ip \<Rightarrow> (None, s\<lparr>records := (records s)(normalize_host host \<mapsto> parsed_ip)\<rparr>))"

definition remove_record :: "string \<Rightarrow> DnsServer \<Rightarrow> Error option \<times> DnsServer" where
  "remove_record host s = (None, s\<lparr>records := (records s)(normalize_host host := None)\<rparr>)"

definition clear_records :: "DnsServer \<Rightarrow> DnsServer" where
  "clear_records s = s\<lparr>records := Map.empty\<rparr>"

definition set_fallback_ip :: "'e Lwip \<Rightarrow> string \<Rightarrow> DnsServer \<Rightarrow> Error option \<times> DnsServer" where
  "set_fallback_ip lw ip s =
     (case dns_parse_ipv4 lw ip of
        None \<Rightarrow> (Some (Error ''invalid IPv4 address''), s)
      | Some parsed_ip \<Rightarrow> (None, s\<lparr>fallback_ip := Some parsed_ip\<rparr>))"

definition clear_fallback_ip :: "DnsServer \<Rightarrow> DnsServer" where
  "clear_fallback_ip s = s\<lparr>fallback_ip := None\<rparr>"

definition lookup_host :: "DnsServer \<Rightarrow> string \<Rightarrow> ip4_addr_t option" where
  "lookup_host s host =
     (case records s (normalize_host host) of
        Some ip \<Rightarrow> Some ip
      | None \<Rightarrow> (case fallback_ip s of Some ip \<Rightarrow> Some ip | None \<Rightarrow> None))"

section \<open>Starting and stopping\<close>

definition bind_socket ::
  "'e Lwip \<Rightarrow> ip_addr_t \<Rightarrow> DnsServer \<Rightarrow> 'e World \<Rightarrow> Error option \<times> DnsServer \<times> 'e World" where
  "bind_socket lw bind_ip s w =
     (let (udp, w) = on_env (lwip_udp_new lw) w
      in case udp of
           None \<Rightarrow> (Some (Error ''udp_new failed''), s\<lparr>dns_udp := None\<rparr>, w)
         | Some p \<Rightarrow>
             let w = call_void lw (UdpRecv p (Some (dns_this s))) w;
                 (err, w) = call lw (UdpBind p (Some bind_ip) PORT_DNS_SERVER) w
             in if err \<noteq> ERR_OK
                then (Some (Error ''udp_bind failed''), s\<lparr>dns_udp := None\<rparr>, call_void lw (UdpRemove p) w)
                else (None, s\<lparr>dns_udp := Some p, dns_listen_ip := bind_ip\<rparr>, w))"

definition dns_start ::
  "'e Lwip \<Rightarrow> ip_addr_t \<Rightarrow> DnsServer \<Rightarrow> 'e World \<Rightarrow> Error option \<times> DnsServer \<times> 'e World" where
  "dns_start lw bind_ip s w =
     (if dns_udp s \<noteq> None then (Some (Error ''dns server already running''), s, w)
      else bind_socket lw bind_ip s w)"

definition dns_stop :: "'e Lwip \<Rightarrow> DnsServer \<Rightarrow> 'e World \<Rightarrow> Error option \<times> DnsServer \<times> 'e World" where
  "dns_stop lw s w =
     (case dns_udp s of
        None \<Rightarrow> (None, s, w)
      | Some p \<Rightarrow> (None, s\<lparr>dns_udp := None\<rparr>, call_void lw (UdpRemove p) w))"

definition dns_destroy :: "'e Lwip \<Rightarrow> DnsServer \<Rightarrow> 'e World \<Rightarrow> 'e World" where
  "dns_destroy lw s w = snd (snd (dns_stop lw s w))"

section \<open>Queries\<close>

text \<open>
  The loop of \<^verbatim>\<open>extract_qname\<close>, at index \<open>ptr\<close> of the message: \<open>None\<close> when the name is malformed,
  and the name with the index behind it otherwise.
\<close>

function qname_loop :: "u8 list \<Rightarrow> nat \<Rightarrow> nat \<Rightarrow> bool \<Rightarrow> string \<Rightarrow> (string \<times> nat) option result" where
  "qname_loop msg msg_len ptr first out_host =
     (if ptr < msg_len then
        bindE (read_at msg ptr) (\<lambda>label_len.
          let ptr = ptr + 1 in
          if label_len = 0 then Inr (Some (out_host, ptr))
          else if label_len > 63 then Inr None
          else if ptr + unat label_len > msg_len then Inr None
          else bindE (read_range msg ptr (unat label_len)) (\<lambda>label.
            qname_loop msg msg_len (ptr + unat label_len) False
              ((if first then out_host else out_host @ [CHR ''.'']) @ string_of_bytes label)))
      else Inr (Some (out_host, ptr)))"
  by pat_completeness auto
termination
  by (relation "measure (\<lambda>(msg, msg_len, ptr, first, out_host). msg_len - ptr)") auto

declare qname_loop.simps [simp del]

text \<open>The host name and the end of the question; \<open>None\<close> when \<^verbatim>\<open>false\<close> is returned.\<close>

definition extract_qname :: "u8 list \<Rightarrow> nat \<Rightarrow> (string \<times> nat) option result" where
  "extract_qname msg msg_len =
     bindE (qname_loop msg msg_len DNS_HEADER_SIZE True []) (\<lambda>r.
       Inr (case r of
              None \<Rightarrow> None
            | Some (out_host, ptr) \<Rightarrow>
                if ptr + 4 > msg_len then None
                else
                  let question_end = ptr + 4;
                      out_host = normalize_host out_host
                  in if out_host \<noteq> [] then Some (out_host, question_end) else None))"

definition send_response ::
  "'e Lwip \<Rightarrow> u8 list \<Rightarrow> nat \<Rightarrow> ip_addr_t \<Rightarrow> u16 \<Rightarrow> DnsServer \<Rightarrow> 'e World \<Rightarrow> (Error option \<times> 'e World) result" where
  "send_response lw buf len dest port s w =
     (case dns_udp s of
        None \<Rightarrow> Inr (Some (Error ''dns server not running''), w)
      | Some udp \<Rightarrow>
          let (allocated, w) = on_env (lwip_pbuf_alloc lw (len mod 2 ^ 16)) w
          in if \<not> allocated then Inr (Some (Error ''pbuf_alloc failed''), w)
             else bindE (read_range buf 0 len) (\<lambda>payload.
               let (err, w) = call lw (UdpSendto udp payload dest port) w;
                   w = call_void lw (PbufFree payload) w
               in Inr (if err \<noteq> ERR_OK then Some (Error ''udp_sendto failed'') else None, w)))"

text \<open>The answer, written at \<open>answer_ptr\<close> byte by byte, and the header of a response.\<close>

definition write_bytes :: "u8 list \<Rightarrow> nat \<Rightarrow> u8 list \<Rightarrow> u8 list result" where
  "write_bytes msg ptr bs = fold (\<lambda>(i, b) r. bindE r (\<lambda>msg. write_at msg (ptr + i) b)) (enumerate 0 bs) (Inr msg)"

definition write_answer :: "u8 list \<Rightarrow> nat \<Rightarrow> ip4_addr_t \<Rightarrow> (u8 list \<times> nat) result" where
  "write_answer msg answer_ptr resolved =
     bindE (write_bytes msg answer_ptr
       [0xc0, of_nat DNS_HEADER_SIZE, 0, 1, 0, 1, 0, 0, 0, 60, 0, 4]) (\<lambda>msg.
     bindE (write_range msg (answer_ptr + 12) (ip4_bytes resolved)) (\<lambda>msg.
       Inr (msg, answer_ptr + 16)))"

definition write_u16_at :: "u8 list \<Rightarrow> nat \<Rightarrow> u16 \<Rightarrow> u8 list result" where
  "write_u16_at msg i v = write_range msg i [u16_hi v, u16_lo v]"

definition write_header :: "u8 list \<Rightarrow> u8 list result" where
  "write_header msg =
     bindE (write_u16_at msg 2 (push_bit 15 1 OR push_bit 10 1 OR push_bit 7 1)) (\<lambda>msg.
     bindE (write_u16_at msg 4 1) (\<lambda>msg.
     bindE (write_u16_at msg 6 1) (\<lambda>msg.
     bindE (write_u16_at msg 8 0) (\<lambda>msg.
       write_u16_at msg 10 0))))"

definition read_u16_at :: "u8 list \<Rightarrow> nat \<Rightarrow> u16 result" where
  "read_u16_at msg i = bindE (read_at msg i) (\<lambda>hi. bindE (read_at msg (i + 1)) (\<lambda>lo. Inr (u16_join hi lo)))"

text \<open>
  \<open>dns_msg\<close> is the buffer as it is on the stack, before the request is copied into it.
\<close>

definition dns_handle_request ::
  "'e Lwip \<Rightarrow> u8 list \<Rightarrow> u8 list option \<Rightarrow> ip_addr_t \<Rightarrow> u16 \<Rightarrow> DnsServer \<Rightarrow> 'e World \<Rightarrow> 'e World result" where
  "dns_handle_request lw dns_msg p src_addr src_port s w =
     (case p of
        None \<Rightarrow> Inr w
      | Some bs \<Rightarrow>
          let drop_request = Inr (call_void lw (PbufFree bs) w);
              msg_len = min (length bs) (length dns_msg);
              dns_msg = take msg_len bs @ drop msg_len dns_msg
          in if msg_len < DNS_HEADER_SIZE then drop_request
             else bindE (read_u16_at dns_msg 2) (\<lambda>flags.
                  bindE (read_u16_at dns_msg 4) (\<lambda>question_count.
                  if drop_bit 15 flags AND 0x1 \<noteq> 0 then drop_request
                  else if drop_bit 11 flags AND 0xf \<noteq> 0 then drop_request
                  else if question_count < 1 then drop_request
                  else bindE (extract_qname dns_msg msg_len) (\<lambda>question.
                    case question of
                      None \<Rightarrow> drop_request
                    | Some (host, question_end) \<Rightarrow>
                        (case lookup_host s host of
                           None \<Rightarrow> drop_request
                         | Some resolved \<Rightarrow>
                             bindE (write_answer dns_msg question_end resolved) (\<lambda>(dns_msg, answer_ptr).
                             bindE (write_header dns_msg) (\<lambda>dns_msg.
                             bindE (send_response lw dns_msg answer_ptr src_addr src_port s w) (\<lambda>(send_err, w).
                               Inr (call_void lw (PbufFree bs) w)))))))))"

definition dns_recv_callback ::
  "'e Lwip \<Rightarrow> u8 list \<Rightarrow> DnsServer option \<Rightarrow> u8 list option \<Rightarrow> ip_addr_t \<Rightarrow> u16 \<Rightarrow> 'e World \<Rightarrow> 'e World result" where
  "dns_recv_callback lw dns_msg arg p src_addr src_port w =
     (case arg of
        None \<Rightarrow> Inr (case p of None \<Rightarrow> w | Some bs \<Rightarrow> call_void lw (PbufFree bs) w)
      | Some s \<Rightarrow> dns_handle_request lw dns_msg p src_addr src_port s w)"

end
