(* ===== verification/Dns_Laws.thy ===== *)
theory Dns_Laws
  imports Dns_Server
begin

text \<open>
  The correctness of \<^verbatim>\<open>DnsServer\<close>: host names are compared without case and trailing dots, the
  names in questions are read as the encoding of their labels, and a response is the question
  with its answer.
\<close>

section \<open>Host names\<close>

lemma pop_dots_eq: "pop_dots host = rev (dropWhile (\<lambda>c. c = CHR ''.'') (rev host))"
proof (induction host rule: rev_induct)
  case Nil
  then show ?case by (simp add: pop_dots.simps [of "[]"])
next
  case (snoc c host)
  then show ?case by (simp add: pop_dots.simps [of "host @ [c]"])
qed

lemma pop_dots_dot [simp]: "pop_dots (host @ ''.'') = pop_dots host"
  by (simp add: pop_dots_eq)

lemma of_char_lt: "(of_char c :: nat) < 256"
  using of_char_mod_256 [of c, where 'a = nat] by (metis mod_less_divisor zero_less_numeral)

lemma tolower_idem [simp]: "tolower (tolower c) = tolower c"
  using of_char_lt [of c] by (auto simp: tolower_def Let_def)

lemma tolower_dot [simp]: "tolower c = CHR ''.'' \<longleftrightarrow> c = CHR ''.''"
proof
  assume eq: "tolower c = CHR ''.''"
  show "c = CHR ''.''"
  proof (cases "65 \<le> (of_char c :: nat) \<and> (of_char c :: nat) \<le> 90")
    case True
    then have "(of_char (tolower c) :: nat) = of_char c + 32" by (simp add: tolower_def Let_def)
    moreover have "(of_char (tolower c) :: nat) = 46" by (simp add: eq)
    ultimately show ?thesis using True by simp
  next
    case False
    then show ?thesis using eq by (auto simp: tolower_def Let_def)
  qed
qed (simp add: tolower_def)

lemma tolower_of_dot [simp]: "tolower CHR ''.'' = CHR ''.''"
  by simp

lemma map_tolower_pop_dots: "map tolower (pop_dots host) = pop_dots (map tolower host)"
  by (simp add: pop_dots_eq rev_map dropWhile_map comp_def)

lemma pop_dots_idem [simp]: "pop_dots (pop_dots host) = pop_dots host"
  by (simp add: pop_dots_eq dropWhile_idem)

lemma normalize_idem [simp]: "normalize_host (normalize_host host) = normalize_host host"
  by (simp add: normalize_host_def map_tolower_pop_dots comp_def)

lemma normalize_Nil [simp]: "normalize_host [] = []"
  by (simp add: normalize_host_def pop_dots_eq)

lemma normalize_dot [simp]: "normalize_host (host @ ''.'') = normalize_host host"
  by (simp add: normalize_host_def)

lemma normalize_tolower [simp]: "normalize_host (map tolower host) = normalize_host host"
  by (simp add: normalize_host_def comp_def)

section \<open>Names on the wire\<close>

text \<open>A name is its labels, each after its length, and a zero length.\<close>

definition encode_name :: "u8 list list \<Rightarrow> u8 list" where
  "encode_name ls = concat (map (\<lambda>l. of_nat (length l) # l) ls) @ [0]"

definition labels_ok :: "u8 list list \<Rightarrow> bool" where
  "labels_ok ls \<longleftrightarrow> (\<forall>l\<in>set ls. 1 \<le> length l \<and> length l \<le> 63)"

fun dotted :: "u8 list list \<Rightarrow> string" where
  "dotted [] = []"
| "dotted [l] = string_of_bytes l"
| "dotted (l # ls) = string_of_bytes l @ ''.'' @ dotted ls"

lemma encode_name_simps [simp]:
  "encode_name [] = [0]"
  "encode_name (l # ls) = of_nat (length l) # l @ encode_name ls"
  by (simp_all add: encode_name_def)

lemma encode_name_nonempty [simp]: "encode_name ls \<noteq> []"
  by (simp add: encode_name_def)

lemma labels_ok_simps [simp]:
  "labels_ok []"
  "labels_ok (l # ls) \<longleftrightarrow> 1 \<le> length l \<and> length l \<le> 63 \<and> labels_ok ls"
  by (auto simp: labels_ok_def)

lemma dotted_Cons: "dotted (l # ls) = string_of_bytes l @ (if ls = [] then [] else ''.'' @ dotted ls)"
  by (cases ls) simp_all

text \<open>The host collected by the loop when it starts with \<open>out\<close> and reads the labels.\<close>

definition appended :: "bool \<Rightarrow> string \<Rightarrow> u8 list list \<Rightarrow> string" where
  "appended first out ls = (if ls = [] then out else (if first then out else out @ ''.'') @ dotted ls)"

lemma appended_Cons:
  "appended first out (l # ls) = appended False ((if first then out else out @ ''.'') @ string_of_bytes l) ls"
  by (simp add: appended_def dotted_Cons)

lemma qname_loop_total: "n \<le> length msg \<Longrightarrow> \<exists>r. qname_loop msg n ptr first out = Inr r"
proof (induction msg n ptr first out rule: qname_loop.induct)
  case (1 msg n ptr first out)
  show ?case
    using 1 by (subst qname_loop.simps) (auto simp: Let_def not_less read_at_def read_range_def)
qed

lemma message_part:
  assumes "n \<le> length msg" and "i \<le> n" and "drop i (take n msg) = xs @ r"
  shows "i + length xs \<le> n" "read_range msg i (length xs) = Inr xs" "drop (i + length xs) (take n msg) = r"
proof -
  have len: "n - i = length xs + length r"
    using arg_cong [OF assms(3), of length] assms(1) by simp
  then show le: "i + length xs \<le> n" using assms(2) by simp
  have "take (length xs) (drop i (take n msg)) = xs" using assms(3) by simp
  then have "take (length xs) (drop i msg) = xs" using le by (simp add: drop_take)
  then show "read_range msg i (length xs) = Inr xs" using le assms(1) by (simp add: read_range_def)
  show "drop (i + length xs) (take n msg) = r"
    using assms(3) by (metis drop_appendD)
qed

lemma message_byte:
  assumes "n \<le> length msg" and "drop i (take n msg) = b # r"
  shows "i < n" "read_at msg i = Inr b" "drop (Suc i) (take n msg) = r"
proof -
  show lt: "i < n" using assms by (metis drop_eq_Nil length_take linorder_not_le list.distinct(1) min.absorb2)
  have "take n msg ! i = b" using assms(2) by (simp add: nth_take_drop_eq)
  then show "read_at msg i = Inr b" using lt assms(1) by (simp add: read_at_def)
  show "drop (Suc i) (take n msg) = r" using assms(2) by (rule drop_SucI)
qed

lemma label_length:
  assumes "length l \<le> 63"
  shows "unat (of_nat (length l) :: u8) = length l" "\<not> (of_nat (length l) :: u8) > 63"
    "1 \<le> length l \<Longrightarrow> (of_nat (length l) :: u8) \<noteq> 0"
proof -
  show u: "unat (of_nat (length l) :: u8) = length l" using assms by (simp add: unat_of_nat)
  have "unat (of_nat (length l) :: u8) \<le> unat (63 :: u8)" unfolding u using assms by simp
  then show "\<not> (of_nat (length l) :: u8) > 63" by (simp only: word_less_nat_alt not_less)
  show "(of_nat (length l) :: u8) \<noteq> 0" if "1 \<le> length l" using u that by (metis not_one_le_zero unat_0)
qed

lemma qname_loop_reads:
  assumes "n \<le> length msg" and "labels_ok ls" and "drop ptr (take n msg) = encode_name ls @ rest"
  shows "qname_loop msg n ptr first out = Inr (Some (appended first out ls, ptr + length (encode_name ls)))"
  using assms(2,3)
proof (induction ls arbitrary: ptr first out)
  case Nil
  then have "drop ptr (take n msg) = 0 # rest" by simp
  note byte = message_byte [OF assms(1) this]
  show ?case by (subst qname_loop.simps) (simp add: byte Let_def appended_def)
next
  case (Cons l ls)
  then have d: "drop ptr (take n msg) = of_nat (length l) # (l @ encode_name ls @ rest)" by simp
  note byte = message_byte [OF assms(1) d]
  from byte(1) have "Suc ptr \<le> n" by simp
  note part = message_part [OF assms(1) this byte(3)]
  have "labels_ok ls" "length l \<le> 63" "1 \<le> length l" using Cons.prems(1) by simp_all
  note len = label_length [OF this(2)]
  have "qname_loop msg n (Suc ptr + length l) False ((if first then out else out @ ''.'') @ string_of_bytes l)
      = Inr (Some (appended False ((if first then out else out @ ''.'') @ string_of_bytes l) ls,
          Suc ptr + length l + length (encode_name ls)))"
    by (rule Cons.IH [OF \<open>labels_ok ls\<close> part(3)])
  then show ?case
    using byte(1,2) part(1,2) len(1,2) len(3) [OF \<open>1 \<le> length l\<close>]
    by (subst qname_loop.simps) (simp add: Let_def appended_Cons)
qed

lemma qname_loop_exact:
  assumes "n \<le> length msg" and "qname_loop msg n ptr first out = Inr (Some (h, e))" and "e < n"
  shows "\<exists>ls rest. labels_ok ls \<and> drop ptr (take n msg) = encode_name ls @ rest \<and>
    h = appended first out ls \<and> e = ptr + length (encode_name ls)"
  using assms
proof (induction msg n ptr first out rule: qname_loop.induct)
  case (1 msg n ptr first out)
  have lt: "ptr < n"
    using 1(3,4) by (subst (asm) qname_loop.simps) (auto split: if_splits)
  then have b: "read_at msg ptr = Inr (msg ! ptr)" and d: "drop ptr (take n msg) = msg ! ptr # drop (Suc ptr) (take n msg)"
    using 1(2) by (simp_all add: read_at_def Cons_nth_drop_Suc [symmetric])
  show ?case
  proof (cases "msg ! ptr = 0")
    case True
    then have "h = out" "e = Suc ptr" using 1(3) lt b by (simp_all add: qname_loop.simps [of msg n ptr] Let_def)
    with True d show ?thesis
      by (intro exI [of _ "[]"] exI [of _ "drop (Suc ptr) (take n msg)"]) (simp add: appended_def)
  next
    case False
    let ?k = "unat (msg ! ptr)"
    let ?l = "take ?k (drop (Suc ptr) msg)"
    have k: "msg ! ptr \<le> 63" "Suc ptr + ?k \<le> n"
      using 1(3) lt b False by (auto simp: qname_loop.simps [of msg n ptr] Let_def split: if_splits)
    have r: "read_range msg (Suc ptr) ?k = Inr ?l" using k(2) 1(2) by (simp add: read_range_def)
    have l: "length ?l = ?k" using k(2) 1(2) by simp
    have "unat (msg ! ptr) \<le> unat (63 :: u8)" using k(1) by (simp only: word_le_nat_alt)
    then have k63: "?k \<le> 63" "1 \<le> ?k" using False by (simp_all add: unat_gt_0 Suc_le_eq)
    have rec: "qname_loop msg n (Suc ptr + ?k) False ((if first then out else out @ ''.'') @ string_of_bytes ?l) = Inr (Some (h, e))"
      using 1(3) lt b False k r by (simp add: qname_loop.simps [of msg n ptr] Let_def split: if_splits)
    obtain ls rest where ls: "labels_ok ls" "drop (Suc ptr + ?k) (take n msg) = encode_name ls @ rest"
        "h = appended False ((if first then out else out @ ''.'') @ string_of_bytes ?l) ls"
        "e = Suc ptr + ?k + length (encode_name ls)"
      using 1(1) [OF lt refl False _ _ 1(2), of ?l] 1(4) k rec by (simp add: not_less) blast
    have "drop (Suc ptr) (take n msg) = take ?k (drop (Suc ptr) (take n msg)) @ drop ?k (drop (Suc ptr) (take n msg))"
      by (rule append_take_drop_id [symmetric])
    also have "\<dots> = ?l @ encode_name ls @ rest"
      using ls(2) k(2) by (simp add: drop_take add.commute)
    finally have "drop ptr (take n msg) = encode_name (?l # ls) @ rest"
      using d l by simp
    then show ?thesis
      using ls l k63 by (intro exI [of _ "?l # ls"] exI [of _ rest]) (simp add: appended_Cons)
  qed
qed

section \<open>Questions\<close>

text \<open>
  What a query is: at least a header, no response (the highest bit of the third byte) and the
  standard operation (the next four), at least one question, and after the header a name that
  is not empty, followed by at least four more bytes. \<open>e\<close> is where the first question ends.
\<close>

definition question_at :: "u8 list \<Rightarrow> string \<Rightarrow> nat \<Rightarrow> bool" where
  "question_at d host e \<longleftrightarrow> (\<exists>ls rest. labels_ok ls \<and> drop 12 d = encode_name ls @ rest \<and>
     4 \<le> length rest \<and> host = normalize_host (dotted ls) \<and> host \<noteq> [] \<and> e = 16 + length (encode_name ls))"

definition dns_query :: "u8 list \<Rightarrow> string \<Rightarrow> nat \<Rightarrow> bool" where
  "dns_query bs host e \<longleftrightarrow> (let d = take 300 bs in
     12 \<le> length d \<and> d ! 2 < 8 \<and> u16_join (d ! 4) (d ! 5) \<noteq> 0 \<and> question_at d host e)"

lemma extract_qname_iff:
  assumes "12 \<le> n" and "n \<le> length msg"
  shows "extract_qname msg n = Inr (Some (host, e)) \<longleftrightarrow> question_at (take n msg) host e"
proof
  assume "extract_qname msg n = Inr (Some (host, e))"
  then obtain h ptr where q: "qname_loop msg n 12 True [] = Inr (Some (h, ptr))" "ptr + 4 \<le> n"
      "host = normalize_host h" "host \<noteq> []" "e = ptr + 4"
    by (auto simp: extract_qname_def Let_def not_less split: option.splits if_splits)
  have "ptr < n" using q(2) by simp
  from qname_loop_exact [OF assms(2) q(1) this] obtain ls rest where
    ls: "labels_ok ls" "drop 12 (take n msg) = encode_name ls @ rest" "h = appended True [] ls"
      "ptr = 12 + length (encode_name ls)" by blast
  have "length (drop 12 (take n msg)) = n - 12" using assms(2) by simp
  then have "4 \<le> length rest" using ls(2,4) q(2) by simp
  then show "question_at (take n msg) host e"
    using ls q(3-5) by (auto simp: question_at_def appended_def split: if_splits)
next
  assume "question_at (take n msg) host e"
  then obtain ls rest where ls: "labels_ok ls" "drop 12 (take n msg) = encode_name ls @ rest"
      "4 \<le> length rest" "host = normalize_host (dotted ls)" "host \<noteq> []" "e = 16 + length (encode_name ls)"
    unfolding question_at_def by blast
  have "length (drop 12 (take n msg)) = n - 12" using assms(2) by simp
  then have "16 + length (encode_name ls) \<le> n" using ls(2,3) assms(1) by simp
  moreover have "appended True [] ls = dotted ls" by (auto simp: appended_def)
  ultimately show "extract_qname msg n = Inr (Some (host, e))"
    using ls(4-6) qname_loop_reads [OF assms(2) ls(1,2), of True "[]"]
    by (simp add: extract_qname_def Let_def)
qed

lemma extract_qname_total: "n \<le> length msg \<Longrightarrow> \<exists>r. extract_qname msg n = Inr r"
  unfolding extract_qname_def using qname_loop_total [of n msg 12 True "[]"] by auto

lemma extract_qname_prefix:
  "12 \<le> length d \<Longrightarrow> extract_qname (d @ rest) (length d) = Inr (Some (host, e)) \<longleftrightarrow> question_at d host e"
  using extract_qname_iff [of "length d" "d @ rest"] by simp

lemma question_end_le: "question_at d host e \<Longrightarrow> 16 < e \<and> e \<le> length d"
proof -
  assume "question_at d host e"
  then obtain ls rest where "drop 12 d = encode_name ls @ rest" "4 \<le> length rest" "e = 16 + length (encode_name ls)"
    unfolding question_at_def by blast
  moreover from this(1) have "length d - 12 = length (encode_name ls) + length rest"
    by (metis length_append length_drop)
  moreover have "0 < length (encode_name ls)" by simp
  ultimately show ?thesis by linarith
qed

lemma query_flags:
  "(drop_bit 15 (u16_join a b) AND 0x1 = 0 \<and> drop_bit 11 (u16_join a b) AND 0xf = 0) \<longleftrightarrow> a < 8"
proof -
  have f: "bit (u16_join a b) n \<longleftrightarrow> (if n < 8 then bit b n else bit a (n - 8))" if "n < 16" for n
    using that bit_imp_le_length [of b n] by (auto simp: u16_join_def bit_simps)
  have "drop_bit 15 (u16_join a b) AND 0x1 = 0 \<longleftrightarrow> \<not> bit (u16_join a b) 15"
    by (simp add: and_one_eq even_drop_bit_iff_not_bit flip: even_iff_mod_2_eq_zero)
  moreover have "drop_bit 11 (u16_join a b) AND 0xf = 0 \<longleftrightarrow> (\<forall>n<4. \<not> bit (u16_join a b) (11 + n))"
  proof -
    have m: "(0xf :: u16) = mask 4" by (simp add: mask_eq_exp_minus_1)
    have lt: "n < 16" if "n < 4" for n :: nat using that by simp
    show ?thesis unfolding m
      by (auto simp: bit_eq_iff bit_simps) (use lt in blast)
  qed
  moreover have "(\<forall>n<4. P (n :: nat)) \<longleftrightarrow> P 0 \<and> P 1 \<and> P 2 \<and> P 3" for P
    by (auto simp: less_Suc_eq numeral_eq_Suc)
  moreover have "a < 8 \<longleftrightarrow> drop_bit 3 a = 0"
    by (simp add: word_less_nat_alt word_unat_eq_iff drop_bit_eq_div unat_div div_eq_0_iff)
  moreover have "drop_bit 3 a = 0 \<longleftrightarrow> \<not> bit a 3 \<and> \<not> bit a 4 \<and> \<not> bit a 5 \<and> \<not> bit a 6 \<and> \<not> bit a 7"
    using bit_imp_le_length [of a 8] bit_imp_le_length [of a 9] bit_imp_le_length [of a 10]
    by (auto simp: word8_eq_iff bit_simps)
  ultimately show ?thesis by (auto simp: f)
qed

section \<open>Responses\<close>

lemma write_bytes_snoc:
  "write_bytes msg ptr (bs @ [b]) = bindE (write_bytes msg ptr bs) (\<lambda>msg. write_at msg (ptr + length bs) b)"
  by (simp add: write_bytes_def enumerate_append_eq)

lemma write_bytes_eq: "ptr \<le> length msg \<Longrightarrow> write_bytes msg ptr bs = write_range msg ptr bs"
proof (induction bs rule: rev_induct)
  case Nil
  then show ?case by (simp add: write_bytes_def write_range_def)
next
  case (snoc b bs)
  then show ?case
    by (auto simp: write_bytes_snoc write_range_def write_at_def list_update_append Cons_nth_drop_Suc [symmetric])
qed

text \<open>The answer to a question, and the whole response to a message whose question ends at \<open>e\<close>.\<close>

definition dns_answer :: "ip4_addr_t \<Rightarrow> u8 list" where
  "dns_answer ip = [0xc0, 12, 0, 1, 0, 1, 0, 0, 0, 60, 0, 4] @ ip4_bytes ip"

definition dns_header_rest :: "u8 list" where
  "dns_header_rest = [0x84, 0x80, 0, 1, 0, 1, 0, 0, 0, 0]"

definition dns_response :: "u8 list \<Rightarrow> nat \<Rightarrow> ip4_addr_t \<Rightarrow> u8 list" where
  "dns_response bs e ip = take 2 bs @ dns_header_rest @ take (e - 12) (drop 12 bs) @ dns_answer ip"

lemma write_answer_fits:
  assumes "e + 16 \<le> length msg"
  shows "write_answer msg e ip = Inr (patched msg e (dns_answer ip), e + 16)"
  using assms write_range_patched [of e "[]" _ msg e]
  by (simp add: write_answer_def write_bytes_eq write_range_patched dns_answer_def)

lemma write_answer_overflows:
  assumes "e \<le> length msg" and "length msg < e + 16"
  shows "write_answer msg e ip = Inl OutOfBounds"
  using assms
  by (auto simp: write_answer_def write_bytes_eq write_range_def bindE_def split: sum.split if_splits)

lemma write_u16_patched:
  "\<lbrakk> i = 2 + length R; i + 2 \<le> length msg \<rbrakk> \<Longrightarrow>
     write_u16_at (patched msg 2 R) i v = Inr (patched msg 2 (R @ [u16_hi v, u16_lo v]))"
  by (simp add: write_u16_at_def write_range_patched)

lemma write_header_patched:
  assumes "12 \<le> length msg"
  shows "write_header msg = Inr (patched msg 2 dns_header_rest)"
proof -
  have bytes: "u16_hi 33920 = 0x84" "u16_lo 33920 = 0x80" "u16_hi 1 = 0" "u16_lo 1 = 1" "u16_hi 0 = 0" "u16_lo 0 = 0"
    by (simp_all add: u16_hi_def u16_lo_def)
  have "write_u16_at msg 2 v = Inr (patched msg 2 [u16_hi v, u16_lo v])" for v
    using assms write_u16_patched [of 2 "[]" msg v] by simp
  then show ?thesis
    using assms by (simp add: write_header_def write_u16_patched bytes dns_header_rest_def)
qed

lemma take_patched: "off + length R \<le> n \<Longrightarrow> n \<le> length xs \<Longrightarrow> take n (patched xs off R) = patched (take n xs) off R"
  by (simp add: patched_def drop_take)

lemma patched_end: "length xs = off + length R \<Longrightarrow> patched xs off R = take off xs @ R"
  by (simp add: patched_def)

lemma response_bytes:
  assumes "e + 16 \<le> length msg" and "12 \<le> e" and "take e msg = take e bs"
  shows "take (e + 16) (patched (patched msg e (dns_answer ip)) 2 dns_header_rest) = dns_response bs e ip"
proof -
  have l: "length (dns_answer ip) = 16" "length dns_header_rest = 10"
    by (simp_all add: dns_answer_def dns_header_rest_def)
  have "take (e + 16) (patched (patched msg e (dns_answer ip)) 2 dns_header_rest) =
      patched (take e msg @ dns_answer ip) 2 dns_header_rest"
    using assms(1,2) by (simp add: take_patched patched_end l)
  also have "\<dots> = take 2 bs @ dns_header_rest @ take (e - 12) (drop 12 bs) @ dns_answer ip"
  proof -
    have "take 2 (take e bs) = take 2 bs" "drop 12 (take e bs) = take (e - 12) (drop 12 bs)"
      using assms(2) by (simp_all add: drop_take)
    moreover have "12 \<le> length (take e bs)" using assms(1,2) by (simp flip: assms(3))
    ultimately show ?thesis by (simp add: patched_def l assms(3) del: take_take)
  qed
  finally show ?thesis by (simp add: dns_response_def)
qed

text \<open>The world after a response has been sent, if it could be.\<close>

definition dns_sent :: "'e Lwip \<Rightarrow> u8 list \<Rightarrow> ip_addr_t \<Rightarrow> u16 \<Rightarrow> DnsServer \<Rightarrow> 'e World \<Rightarrow> 'e World" where
  "dns_sent lw reply dest port s w =
     (case dns_udp s of
        None \<Rightarrow> w
      | Some udp \<Rightarrow>
          let (allocated, w) = on_env (lwip_pbuf_alloc lw (length reply mod 2 ^ 16)) w
          in if \<not> allocated then w
             else call_void lw (PbufFree reply) (call_void lw (UdpSendto udp reply dest port) w))"

lemma length_dns_response:
  "\<lbrakk> 12 \<le> e; e \<le> length bs \<rbrakk> \<Longrightarrow> length (dns_response bs e ip) = e + 16"
  by (simp add: dns_response_def dns_header_rest_def dns_answer_def)

lemma send_response_eq:
  assumes "take n buf = reply" and "n \<le> length buf"
  shows "bindE (send_response lw buf n dest port s w) (\<lambda>(ignored, w). Inr (f w)) = Inr (f (dns_sent lw reply dest port s w))"
proof -
  have "read_range buf 0 n = Inr reply" "length reply = n"
    using assms by (auto simp: read_range_def)
  then show ?thesis
    by (simp add: send_response_def dns_sent_def call_void_def case_prod_beta Let_def split: option.split)
qed

lemma answer_query:
  assumes "length msg = 300" and "12 \<le> e" and "e \<le> 300" and "take e msg = take e bs"
  shows "bindE (write_answer msg e ip) (\<lambda>(msg, answer_ptr).
      bindE (write_header msg) (\<lambda>msg.
      bindE (send_response lw msg answer_ptr dest port s w) (\<lambda>(ignored, w). Inr (f w)))) =
    (if e + 16 \<le> 300 then Inr (f (dns_sent lw (dns_response bs e ip) dest port s w)) else Inl OutOfBounds)"
proof (cases "e + 16 \<le> 300")
  case True
  let ?m = "patched msg e (dns_answer ip)"
  have l: "length (dns_answer ip) = 16" "length dns_header_rest = 10"
    by (simp_all add: dns_answer_def dns_header_rest_def)
  have lm: "length ?m = 300" using True assms(1) by (simp add: l)
  have lm2: "length (patched ?m 2 dns_header_rest) = 300" using lm by (simp add: l)
  have "bindE (send_response lw (patched ?m 2 dns_header_rest) (e + 16) dest port s w) (\<lambda>(ignored, w). Inr (f w))
      = Inr (f (dns_sent lw (dns_response bs e ip) dest port s w))"
    by (rule send_response_eq [OF response_bytes]) (use True assms lm2 in simp_all)
  then show ?thesis
    using True assms(1) lm by (simp add: write_answer_fits write_header_patched del: bindE_Inr_iff)
next
  case False
  then show ?thesis using assms(1,3) by (simp add: write_answer_overflows)
qed

lemma handle_classified:
  assumes "length stack = 300" and "d = take 300 bs"
  shows "dns_handle_request lw stack (Some bs) dest port s w =
    (if length d < 12 \<or> \<not> d ! 2 < 8 \<or> u16_join (d ! 4) (d ! 5) = 0
     then Inr (call_void lw (PbufFree bs) w)
     else bindE (extract_qname (d @ drop (length d) stack) (length d)) (\<lambda>q.
       case q of
         None \<Rightarrow> Inr (call_void lw (PbufFree bs) w)
       | Some (host, e) \<Rightarrow>
           (case lookup_host s host of
              None \<Rightarrow> Inr (call_void lw (PbufFree bs) w)
            | Some ip \<Rightarrow>
                if e + 16 \<le> 300
                then Inr (call_void lw (PbufFree bs) (dns_sent lw (dns_response bs e ip) dest port s w))
                else Inl OutOfBounds)))"
proof -
  let ?msg = "d @ drop (length d) stack"
  have n: "min (length bs) (length stack) = length d" "take (length d) bs = d" "length ?msg = 300"
    using assms by (auto simp: min_def)
  show ?thesis
  proof (cases "length d < 12")
    case True
    then show ?thesis using n by (simp add: dns_handle_request_def Let_def)
  next
    case False
    have r: "read_u16_at ?msg i = Inr (u16_join (d ! i) (d ! Suc i))" if "i < 11" for i
      using False that by (simp add: read_u16_at_def read_at_def nth_append)
    have q: "bindE (write_answer ?msg e ip) (\<lambda>(msg, answer_ptr).
        bindE (write_header msg) (\<lambda>msg.
        bindE (send_response lw msg answer_ptr dest port s w) (\<lambda>(ignored, w). Inr (call_void lw (PbufFree bs) w)))) =
      (if e + 16 \<le> 300 then Inr (call_void lw (PbufFree bs) (dns_sent lw (dns_response bs e ip) dest port s w))
       else Inl OutOfBounds)"
      if "extract_qname ?msg (length d) = Inr (Some (host, e))" for host e ip
    proof -
      have "question_at d host e"
        using that extract_qname_iff [of "length d" ?msg host e] False by simp
      from question_end_le [OF this] have e: "12 \<le> e" "e \<le> length d" by simp_all
      then have "take e ?msg = take e bs" "e \<le> 300" using assms by simp_all
      from answer_query [OF n(3) e(1) this(2,1)] show ?thesis .
    qed
    show ?thesis
      using False n(1,2) query_flags [of "d ! 2" "d ! 3"]
      by (auto simp: dns_handle_request_def Let_def r q word_less_1 simp del: bindE_Inr_iff
          intro!: bindE_cong split: option.split)
  qed
qed

end
