(* ===== verification/Dns_Service.thy ===== *)
theory Dns_Service
  imports Dns_Laws
begin

text \<open>
  The properties of \<^verbatim>\<open>DnsServer\<close>: which queries are answered and with what, which are dropped,
  when the answer overruns the message buffer, and what the records mean.
\<close>

section \<open>The records as a name table\<close>

text \<open>
  What a table of names promises its users: a name that is set resolves to what it was set to,
  one that is unset to the default, and no other name is concerned. Names may be equivalent.
\<close>

locale name_table =
  fixes same :: "'n \<Rightarrow> 'n \<Rightarrow> bool"
    and lookup :: "'t \<Rightarrow> 'n \<Rightarrow> 'a option"
    and insert_name :: "'n \<Rightarrow> 'a \<Rightarrow> 't \<Rightarrow> 't"
    and delete_name :: "'n \<Rightarrow> 't \<Rightarrow> 't"
    and clear_names :: "'t \<Rightarrow> 't"
    and default :: "'t \<Rightarrow> 'a option"
  assumes same_refl: "same m m"
    and same_sym: "same m n \<Longrightarrow> same n m"
    and same_trans: "same m n \<Longrightarrow> same n k \<Longrightarrow> same m k"
    and lookup_insert: "lookup (insert_name m a t) n = (if same m n then Some a else lookup t n)"
    and lookup_delete: "lookup (delete_name m t) n = (if same m n then default t else lookup t n)"
    and lookup_clear: "lookup (clear_names t) n = default t"
    and default_keeps: "default (insert_name m a t) = default t" "default (delete_name m t) = default t"
      "default (clear_names t) = default t"
begin

text \<open>The last change that concerns a name decides what it resolves to.\<close>

definition change :: "('n \<times> 'a option) option \<Rightarrow> 't \<Rightarrow> 't" where
  "change c t = (case c of
     None \<Rightarrow> clear_names t
   | Some (n, None) \<Rightarrow> delete_name n t
   | Some (n, Some a) \<Rightarrow> insert_name n a t)"

definition concerns :: "'n \<Rightarrow> ('n \<times> 'a option) option \<Rightarrow> bool" where
  "concerns n c \<longleftrightarrow> (case c of None \<Rightarrow> True | Some (m, _) \<Rightarrow> same m n)"

lemma default_change: "default (fold change cs t) = default t"
proof (induction cs arbitrary: t)
  case (Cons c cs)
  then show ?case by (simp add: change_def default_keeps split: option.split prod.split)
qed simp

lemma lookup_change:
  "lookup (change c t) n = (case c of
     None \<Rightarrow> default t
   | Some (m, v) \<Rightarrow> if same m n then (case v of None \<Rightarrow> default t | Some a \<Rightarrow> Some a) else lookup t n)"
  by (simp add: change_def lookup_insert lookup_delete lookup_clear split: option.split prod.split)

lemma lookup_changes:
  "lookup (fold change cs t) n =
     (case find (concerns n) (rev cs) of
        None \<Rightarrow> lookup t n
      | Some (Some (_, Some a)) \<Rightarrow> Some a
      | Some _ \<Rightarrow> default t)"
proof (induction cs rule: rev_induct)
  case (snoc c cs)
  then show ?case
    by (simp add: lookup_change default_change concerns_def split: option.split prod.split)
qed simp

lemma lookup_same: "same m n \<Longrightarrow> lookup (insert_name m a t) n = Some a \<and> lookup (insert_name n a t) m = Some a"
  using lookup_insert same_sym by auto

end

text \<open>Two hosts are the same when they differ in case and trailing dots only.\<close>

definition same_host :: "string \<Rightarrow> string \<Rightarrow> bool" where
  "same_host m n \<longleftrightarrow> normalize_host m = normalize_host n"

definition put_record :: "string \<Rightarrow> ip4_addr_t \<Rightarrow> DnsServer \<Rightarrow> DnsServer" where
  "put_record host ip s = s\<lparr>records := (records s)(normalize_host host \<mapsto> ip)\<rparr>"

interpretation dns_table: name_table same_host lookup_host put_record
    "\<lambda>host s. snd (remove_record host s)" clear_records fallback_ip
  by unfold_locales
    (auto simp: same_host_def lookup_host_def put_record_def remove_record_def clear_records_def
      split: option.split)

text \<open>The commands of the public interface, and their run on a server.\<close>

datatype dns_command = AddRecord string string | RemoveRecord string | ClearRecords

primrec run_command :: "'e Lwip \<Rightarrow> dns_command \<Rightarrow> DnsServer \<Rightarrow> DnsServer" where
  "run_command lw (AddRecord host ip) s = snd (add_record lw host ip s)"
| "run_command lw (RemoveRecord host) s = snd (remove_record host s)"
| "run_command lw ClearRecords s = clear_records s"

text \<open>The change a command makes to the table; adding fails without a host or a valid address.\<close>

definition command_change :: "'e Lwip \<Rightarrow> dns_command \<Rightarrow> (string \<times> ip4_addr_t option) option list" where
  "command_change lw c = (case c of
     AddRecord host ip \<Rightarrow>
       (case lwip_aton lw ip of None \<Rightarrow> [] | Some a \<Rightarrow> if host = [] then [] else [Some (host, Some a)])
   | RemoveRecord host \<Rightarrow> [Some (host, None)]
   | ClearRecords \<Rightarrow> [None])"

lemma run_command_change: "run_command lw c s = fold dns_table.change (command_change lw c) s"
  by (cases c) (auto simp: command_change_def add_record_def dns_parse_ipv4_def put_record_def
      dns_table.change_def split: option.split)

lemma run_commands_change:
  "fold (run_command lw) cs s = fold dns_table.change (concat (map (command_change lw) cs)) s"
  by (induction cs arbitrary: s) (simp_all add: run_command_change)

section \<open>Requests\<close>

lemma handle_answered:
  assumes "length stack = 300" and "dns_query bs host e" and "lookup_host s host = Some ip"
  shows "dns_handle_request lw stack (Some bs) dest port s w =
    (if e \<le> 284 then Inr (call_void lw (PbufFree bs) (dns_sent lw (dns_response bs e ip) dest port s w))
     else Inl OutOfBounds)"
proof -
  obtain d where d: "d = take 300 bs" by blast
  have q: "12 \<le> length d" "d ! 2 < 8" "u16_join (d ! 4) (d ! 5) \<noteq> 0" "question_at d host e"
    using assms(2) by (simp_all add: dns_query_def Let_def d)
  then show ?thesis
    using assms(3) extract_qname_prefix [of d "drop (length d) stack" host e]
    by (simp add: handle_classified [OF assms(1) d])
qed

lemma handle_dropped:
  assumes "length stack = 300" and "\<And>host e. dns_query bs host e \<Longrightarrow> lookup_host s host = None"
  shows "dns_handle_request lw stack (Some bs) dest port s w = Inr (call_void lw (PbufFree bs) w)"
proof -
  obtain d where d: "d = take 300 bs" by blast
  obtain r where r: "extract_qname (d @ drop (length d) stack) (length d) = Inr r"
    using extract_qname_total [of "length d" "d @ drop (length d) stack"] by auto
  show ?thesis
  proof (cases "length d < 12 \<or> \<not> d ! 2 < 8 \<or> u16_join (d ! 4) (d ! 5) = 0")
    case True
    then show ?thesis by (simp add: handle_classified [OF assms(1) d])
  next
    case False
    have "lookup_host s host = None" if "r = Some (host, e)" for host e
      using False extract_qname_prefix [of d "drop (length d) stack" host e] r that
      by (intro assms(2) [of host e]) (simp add: dns_query_def Let_def d [symmetric])
    then show ?thesis
      using False r by (auto simp: handle_classified [OF assms(1) d] split: option.split)
  qed
qed

lemma query_exact: "dns_query bs host e \<Longrightarrow> dns_query bs host' e' \<Longrightarrow> host' = host \<and> e' = e"
proof -
  obtain d where d: "d = take 300 bs" by blast
  assume "dns_query bs host e" "dns_query bs host' e'"
  then have "12 \<le> length d" "question_at d host e" "question_at d host' e'"
    by (simp_all add: dns_query_def Let_def d)
  then have "Inr (Some (host, e)) = (Inr (Some (host', e')) :: (string \<times> nat) option result)"
    using extract_qname_prefix [of d "[]"] by metis
  then show ?thesis by simp
qed

lemma sent_calls:
  assumes "dns_udp s = Some p" and "buffers_available lw"
  shows "\<exists>e1 e2. calls (dns_sent lw reply dest port s w) =
    calls w @ [(UdpSendto p reply dest port, e1), (PbufFree reply, e2)]"
proof -
  have "fst (on_env (lwip_pbuf_alloc lw n) w)" for n
    using assms(2) by (simp add: world_simps buffers_available_def)
  then show ?thesis
    using assms(1) by (simp add: dns_sent_def case_prod_beta Let_def world_simps)
qed

lemma lookup_run_command:
  "lookup_host (run_command lw c s) host = (case c of
     AddRecord h ip \<Rightarrow> if h \<noteq> [] \<and> lwip_aton lw ip \<noteq> None \<and> same_host h host then lwip_aton lw ip else lookup_host s host
   | RemoveRecord h \<Rightarrow> if same_host h host then fallback_ip s else lookup_host s host
   | ClearRecords \<Rightarrow> fallback_ip s)"
  by (cases c)
    (auto simp: run_command_change command_change_def dns_table.lookup_change split: option.split)

lemma fallback_run_commands: "fallback_ip (fold (run_command lw) cs s) = fallback_ip s"
  by (simp add: run_commands_change dns_table.default_change)

section \<open>Properties\<close>

text \<open>
  C21: a query for a name that resolves is answered, when its question ends at or before byte 284:
  one datagram goes back to the sender, with the query's identifier and question, the flags of
  an authoritative response, and one A record with the address the name resolves to; the
  buffers of the response and of the query are freed.
\<close>

theorem dns_query_is_answered:
  assumes "length stack = 300" and "dns_query bs host e" and "lookup_host s host = Some ip" and "e \<le> 284"
    and "dns_udp s = Some p" and "buffers_available lw"
  shows "\<exists>w' e1 e2 e3. dns_handle_request lw stack (Some bs) dest port s w = Inr w' \<and>
    calls w' = calls w @ [(UdpSendto p (dns_response bs e ip) dest port, e1),
      (PbufFree (dns_response bs e ip), e2), (PbufFree bs, e3)]"
proof -
  obtain e1 e2 where "calls (dns_sent lw (dns_response bs e ip) dest port s w) = calls w @
      [(UdpSendto p (dns_response bs e ip) dest port, e1), (PbufFree (dns_response bs e ip), e2)]"
    using sent_calls [OF assms(5,6)] by blast
  then show ?thesis by (simp add: handle_answered [OF assms(1-3)] assms(4) world_simps)
qed

definition sample_query :: "u8 list" where
  "sample_query = [7, 7, 1, 0, 0, 1, 0, 0, 0, 0, 0, 0, 2, 65, 98, 1, 99, 0, 0, 1, 0, 1]"

definition sample_dns :: DnsServer where
  "sample_dns = (new_DnsServer 4)\<lparr>dns_udp := Some 2, records := [''ab.c'' \<mapsto> IP4 10 0 0 9]\<rparr>"

lemma normalize_literal: "normalize_host h = rev (dropWhile (\<lambda>c. c = CHR ''.'') (rev (map tolower h)))"
  by (simp add: normalize_host_def pop_dots_eq)

lemma sample_query_ok: "dns_query sample_query ''ab.c'' 22"
proof -
  have "u16_join 0 1 \<noteq> (0 :: u16)" by (simp add: u16_join_def)
  have wire: "drop 12 sample_query = encode_name [[65, 98], [99]] @ [0, 1, 0, 1]"
    by (simp add: sample_query_def)
  have host: "''ab.c'' = normalize_host (dotted [[65, 98], [99]])"
    by (simp add: normalize_literal char_of_byte_def char_of_def bit_0 tolower_def)
  have "question_at sample_query ''ab.c'' 22"
    unfolding question_at_def
    by (intro exI [of _ "[[65, 98], [99]]"] exI [of _ "[0, 1, 0, 1]"] conjI wire host) simp_all
  with \<open>u16_join 0 1 \<noteq> 0\<close> show ?thesis by (simp add: dns_query_def sample_query_def)
qed

lemma sample_dns_lookup: "lookup_host sample_dns ''ab.c'' = Some (IP4 10 0 0 9)"
  by (simp add: sample_dns_def lookup_host_def new_DnsServer_def normalize_literal tolower_def)

lemma sample_buffers: "buffers_available sample_lwip"
  by (simp add: buffers_available_def sample_lwip_def)

theorem dns_query_is_answered_witness:
  "\<exists>w' e1 e2 e3. dns_handle_request sample_lwip (replicate 300 255) (Some sample_query)
       (IPADDR_TYPE_V4 (IP4 10 0 0 2)) 5353 sample_dns (sample_world 0 []) = Inr w' \<and>
     calls w' = [(UdpSendto 2 [7, 7, 0x84, 0x80, 0, 1, 0, 1, 0, 0, 0, 0, 2, 65, 98, 1, 99, 0, 0, 1, 0, 1,
         0xc0, 12, 0, 1, 0, 1, 0, 0, 0, 60, 0, 4, 10, 0, 0, 9] (IPADDR_TYPE_V4 (IP4 10 0 0 2)) 5353, e1),
       (PbufFree [7, 7, 0x84, 0x80, 0, 1, 0, 1, 0, 0, 0, 0, 2, 65, 98, 1, 99, 0, 0, 1, 0, 1,
         0xc0, 12, 0, 1, 0, 1, 0, 0, 0, 60, 0, 4, 10, 0, 0, 9], e2), (PbufFree sample_query, e3)]"
proof -
  have udp: "dns_udp sample_dns = Some 2" by (simp add: sample_dns_def)
  have "dns_response sample_query 22 (IP4 10 0 0 9) = [7, 7, 0x84, 0x80, 0, 1, 0, 1, 0, 0, 0, 0, 2, 65, 98, 1, 99, 0, 0, 1, 0, 1,
         0xc0, 12, 0, 1, 0, 1, 0, 0, 0, 60, 0, 4, 10, 0, 0, 9]"
    by (simp add: dns_response_def sample_query_def dns_header_rest_def dns_answer_def)
  with dns_query_is_answered [OF _ sample_query_ok sample_dns_lookup _ udp sample_buffers,
      of "replicate 300 255" "IPADDR_TYPE_V4 (IP4 10 0 0 2)" 5353 "sample_world 0 []"]
  show ?thesis by (simp add: sample_world_def)
qed

text \<open>
  Every other datagram (no query, a malformed name, a name that does not resolve) is dropped:
  the only effect is that its buffer is freed.
\<close>

lemma dns_other_requests_are_dropped:
  assumes "length stack = 300" and "\<And>host e. dns_query bs host e \<Longrightarrow> lookup_host s host = None"
  shows "dns_handle_request lw stack (Some bs) dest port s w = Inr (call_void lw (PbufFree bs) w)"
  using assms by (rule handle_dropped)

text \<open>
  C38: the answer overruns the message buffer exactly when a query whose name resolves has a
  question that ends after byte 284 of the buffer; nothing else a datagram can do reads or
  writes outside the buffer.
\<close>

theorem dns_answer_overflow:
  assumes "length stack = 300"
  shows "(\<exists>err. dns_handle_request lw stack (Some bs) dest port s w = Inl err) \<longleftrightarrow>
    (\<exists>host e ip. dns_query bs host e \<and> lookup_host s host = Some ip \<and> 284 < e)"
proof (cases "\<exists>host e ip. dns_query bs host e \<and> lookup_host s host = Some ip")
  case True
  then obtain host e ip where q: "dns_query bs host e" "lookup_host s host = Some ip" by blast
  have "(\<exists>err. dns_handle_request lw stack (Some bs) dest port s w = Inl err) \<longleftrightarrow> 284 < e"
    unfolding handle_answered [OF assms q] by simp
  then show ?thesis using q query_exact [OF q(1)] by blast
next
  case False
  then have none: "lookup_host s host = None" if "dns_query bs host e" for host e
    using that by (cases "lookup_host s host") auto
  have "dns_handle_request lw stack (Some bs) dest port s w = Inr (call_void lw (PbufFree bs) w)"
    by (rule handle_dropped [OF assms none])
  then show ?thesis using False by (metis Inr_Inl_False)
qed

text \<open>A query for a name of four labels of 63 bytes, and one of 12.\<close>

definition long_labels :: "u8 list list" where
  "long_labels = replicate 4 (replicate 63 97) @ [replicate 12 97]"

definition long_query :: "u8 list" where
  "long_query = [7, 7, 1, 0, 0, 1, 0, 0, 0, 0, 0, 0] @ encode_name long_labels @ [0, 1, 0, 1]"

lemma long_query_ok: "dns_query long_query (normalize_host (dotted long_labels)) 286"
proof -
  have len: "length (encode_name long_labels) = 270"
    by (simp add: long_labels_def numeral_eq_Suc)
  have a: "char_of_byte 97 = CHR ''a''" by (simp add: char_of_byte_def char_of_def bit_0)
  have "hd (dotted long_labels) = CHR ''a''"
    by (simp add: long_labels_def numeral_eq_Suc a)
  moreover have "dotted long_labels \<noteq> []"
    by (simp add: long_labels_def numeral_eq_Suc)
  ultimately have "CHR ''a'' \<in> set (dotted long_labels)" by (metis hd_in_set)
  then have "normalize_host (dotted long_labels) \<noteq> []"
    by (force simp: normalize_literal dropWhile_eq_Nil_conv tolower_def)
  moreover have "labels_ok long_labels" by (auto simp: labels_ok_def long_labels_def)
  ultimately have "question_at long_query (normalize_host (dotted long_labels)) 286"
    unfolding question_at_def
    by (intro exI [of _ long_labels] exI [of _ "[0, 1, 0, 1]"]) (simp add: long_query_def len)
  moreover have "u16_join 0 1 \<noteq> (0 :: u16)" by (simp add: u16_join_def)
  ultimately show ?thesis by (simp add: dns_query_def long_query_def len)
qed

theorem dns_answer_overflow_witness:
  "\<exists>err. dns_handle_request sample_lwip (replicate 300 255) (Some long_query) (IPADDR_TYPE_V4 (IP4 10 0 0 2)) 5353
     (sample_dns\<lparr>fallback_ip := Some (IP4 10 0 0 1)\<rparr>) (sample_world 0 []) = Inl err"
proof -
  have "\<exists>ip. lookup_host (sample_dns\<lparr>fallback_ip := Some (IP4 10 0 0 1)\<rparr>) h = Some ip" for h
    by (simp add: lookup_host_def split: option.split)
  then show ?thesis
    using dns_answer_overflow [of "replicate 300 255" sample_lwip long_query] long_query_ok by fastforce
qed

text \<open>
  C39: the name of a question is read exactly as it is encoded: a message is taken to ask for a
  host, with the question ending at an index, exactly when after the header it holds the
  encoding of labels of 1 to 63 bytes whose dotted form, normalised, is that host and is not
  empty, followed by at least four bytes. In particular compressed names are refused.
\<close>

theorem dns_qname_exact:
  assumes "12 \<le> n" and "n \<le> length msg"
  shows "extract_qname msg n = Inr (Some (host, e)) \<longleftrightarrow> question_at (take n msg) host e"
  using assms by (rule extract_qname_iff)

theorem dns_qname_exact_witness: "extract_qname sample_query 22 = Inr (Some (''ab.c'', 22))"
proof -
  have "length sample_query = 22" by (simp add: sample_query_def)
  moreover have "question_at sample_query ''ab.c'' 22"
    using sample_query_ok by (simp add: dns_query_def Let_def sample_query_def)
  ultimately show ?thesis using dns_qname_exact [of 22 sample_query "''ab.c''" 22] by simp
qed

text \<open>
  Nothing of the stack leaks: what a request does, and the bytes it sends, do not depend on
  what the message buffer held before.
\<close>

lemma dns_no_leak:
  assumes "length stack = 300" and "length stack' = 300"
  shows "dns_handle_request lw stack p dest port s w = dns_handle_request lw stack' p dest port s w"
proof (cases p)
  case (Some bs)
  show ?thesis
  proof (cases "\<exists>host e ip. dns_query bs host e \<and> lookup_host s host = Some ip")
    case True
    then obtain host e ip where q: "dns_query bs host e" "lookup_host s host = Some ip" by blast
    show ?thesis unfolding Some handle_answered [OF assms(1) q] handle_answered [OF assms(2) q] ..
  next
    case False
    then have none: "lookup_host s host = None" if "dns_query bs host e" for host e
      using that by (cases "lookup_host s host") auto
    have "dns_handle_request lw st (Some bs) dest port s w = Inr (call_void lw (PbufFree bs) w)"
      if "length st = 300" for st
      by (rule handle_dropped [OF that none])
    then show ?thesis using assms by (simp add: Some)
  qed
qed (simp add: dns_handle_request_def)

text \<open>
  C40: what a host resolves to is decided by the last command that concerns it, up to case and
  trailing dots: the address of an added record, the fallback after a removal, and what it
  resolved to before when no command concerns it. An addition with an empty host or an invalid
  address changes nothing.
\<close>

theorem dns_records_history:
  "lookup_host (fold (run_command lw) cs s) host =
    (case find (\<lambda>c. case c of
        AddRecord h ip \<Rightarrow> h \<noteq> [] \<and> lwip_aton lw ip \<noteq> None \<and> same_host h host
      | RemoveRecord h \<Rightarrow> same_host h host
      | ClearRecords \<Rightarrow> True) (rev cs) of
       None \<Rightarrow> lookup_host s host
     | Some (AddRecord h ip) \<Rightarrow> lwip_aton lw ip
     | Some _ \<Rightarrow> fallback_ip s) \<and>
   same_host (map tolower host @ ''.'') host"
proof
  show "same_host (map tolower host @ ''.'') host" by (simp add: same_host_def)
  show "lookup_host (fold (run_command lw) cs s) host =
    (case find (\<lambda>c. case c of
        AddRecord h ip \<Rightarrow> h \<noteq> [] \<and> lwip_aton lw ip \<noteq> None \<and> same_host h host
      | RemoveRecord h \<Rightarrow> same_host h host
      | ClearRecords \<Rightarrow> True) (rev cs) of
       None \<Rightarrow> lookup_host s host
     | Some (AddRecord h ip) \<Rightarrow> lwip_aton lw ip
     | Some _ \<Rightarrow> fallback_ip s)"
  proof (induction cs rule: rev_induct)
    case (snoc c cs)
    then show ?case
      by (cases c) (auto simp: lookup_run_command fallback_run_commands simp del: run_command.simps)
  qed simp
qed

text \<open>
  Starting and stopping: a running server refuses to start again and is left alone; a start
  that returns no error leaves it with a socket bound to port 53 of the given address, whose
  callback argument is the server; any other start leaves it without one; stopping leaves it
  without one, and the records survive both.
\<close>

lemma dns_start_stop:
  "(dns_udp s \<noteq> None \<longrightarrow> dns_start lw ip s w = (Some (Error ''dns server already running''), s, w)) \<and>
   (dns_udp s = None \<longrightarrow> (case dns_start lw ip s w of (err, s', w') \<Rightarrow>
      (err = None \<longleftrightarrow> dns_udp s' \<noteq> None) \<and> records s' = records s \<and> fallback_ip s' = fallback_ip s \<and>
      (\<forall>p. dns_udp s' = Some p \<longrightarrow> dns_listen_ip s' = ip \<and> (\<exists>e. calls w' = calls w @
         [(UdpRecv p (Some (dns_this s)), e), (UdpBind p (Some ip) PORT_DNS_SERVER, ERR_OK)])))) \<and>
   (case dns_stop lw s w of (err, s', w') \<Rightarrow> err = None \<and> s' = s\<lparr>dns_udp := None\<rparr> \<and>
      (case dns_udp s of None \<Rightarrow> w' = w | Some p \<Rightarrow> \<exists>e. calls w' = calls w @ [(UdpRemove p, e)]))"
proof (intro conjI)
  show "dns_udp s \<noteq> None \<longrightarrow> dns_start lw ip s w = (Some (Error ''dns server already running''), s, w)"
    by (simp add: dns_start_def)
  show "dns_udp s = None \<longrightarrow> (case dns_start lw ip s w of (err, s', w') \<Rightarrow>
      (err = None \<longleftrightarrow> dns_udp s' \<noteq> None) \<and> records s' = records s \<and> fallback_ip s' = fallback_ip s \<and>
      (\<forall>p. dns_udp s' = Some p \<longrightarrow> dns_listen_ip s' = ip \<and> (\<exists>e. calls w' = calls w @
         [(UdpRecv p (Some (dns_this s)), e), (UdpBind p (Some ip) PORT_DNS_SERVER, ERR_OK)])))"
    by (auto simp: dns_start_def bind_socket_def Let_def case_prod_beta world_simps split: option.split)
  show "case dns_stop lw s w of (err, s', w') \<Rightarrow> err = None \<and> s' = s\<lparr>dns_udp := None\<rparr> \<and>
      (case dns_udp s of None \<Rightarrow> w' = w | Some p \<Rightarrow> \<exists>e. calls w' = calls w @ [(UdpRemove p, e)])"
    by (simp add: dns_stop_def world_simps split: option.split)
qed

end
