(* ===== verification/Tcp_Listener.thy ===== *)
theory Tcp_Listener
  imports Tcp_Connection
begin

text \<open>
  \<^verbatim>\<open>TcpListener\<close> (\<^verbatim>\<open>pico_net/src/tcp_listener.cpp\<close>). It owns the connections that wait to be
  accepted; they have no callbacks until \<^verbatim>\<open>accept_nonblocking\<close> attaches them, so until then the
  listener is the only object a callback can reach and no sharing has to be modelled.
  \<^verbatim>\<open>handle_tcp_error\<close> is declared in the header and defined nowhere.
\<close>

section \<open>State and callbacks\<close>

record TcpListener =
  tcpl_this :: obj
  tcpl_pcb :: "pcb option"
  tcpl_local_addr :: Address
  tcpl_is_closed :: bool
  tcpl_has_error :: bool
  tcpl_last_error_message :: string
  tcpl_pending :: "TcpConnection list"

definition new_TcpListener :: "obj \<Rightarrow> pcb \<Rightarrow> Address \<Rightarrow> TcpListener" where
  "new_TcpListener this p local_addr =
     \<lparr>tcpl_this = this, tcpl_pcb = Some p, tcpl_local_addr = local_addr, tcpl_is_closed = False,
      tcpl_has_error = False, tcpl_last_error_message = [], tcpl_pending = []\<rparr>"

definition tcpl_attach_callbacks :: "'e Lwip \<Rightarrow> TcpListener \<Rightarrow> 'e World \<Rightarrow> 'e World result" where
  "tcpl_attach_callbacks lw l w =
     (case tcpl_pcb l of
        None \<Rightarrow> Inl NullDeref
      | Some p \<Rightarrow> Inr (call_void lw (TcpAccept p True) (call_void lw (TcpArg p (Some (tcpl_this l))) w)))"

definition abort_new :: "'e Lwip \<Rightarrow> pcb option \<Rightarrow> 'e World \<Rightarrow> 'e World" where
  "abort_new lw newpcb w =
     (case newpcb of None \<Rightarrow> w | Some p \<Rightarrow> call_void lw (TcpAbort (Some p)) w)"

definition handle_tcp_accept ::
  "'e Lwip \<Rightarrow> pcb option \<Rightarrow> err_t \<Rightarrow> TcpListener \<Rightarrow> 'e World \<Rightarrow> err_t \<times> TcpListener \<times> 'e World" where
  "handle_tcp_accept lw newpcb err l w =
     (if tcpl_is_closed l then (ERR_ABRT, l, abort_new lw newpcb w)
      else case (err, newpcb) of
        (ERR_OK, Some p) \<Rightarrow>
          let remote_ip = (case lwip_remote_ip lw p (env w) of IPADDR_TYPE_V4 a \<Rightarrow> lwip_ntoa lw a | _ \<Rightarrow> []);
              accepted_local_addr = \<lparr>address_network = ''tcp'', address_ip = address_ip (tcpl_local_addr l),
                address_port = lwip_local_port lw p (env w)\<rparr>;
              remote_addr = \<lparr>address_network = ''tcp'', address_ip = remote_ip,
                address_port = lwip_remote_port lw p (env w)\<rparr>;
              (this, w) = on_env (new_object lw) w;
              c = new_TcpConnection this p accepted_local_addr remote_addr
          in (ERR_OK, l\<lparr>tcpl_pending := tcpl_pending l @ [c]\<rparr>, w)
      | _ \<Rightarrow>
          (if err \<noteq> ERR_OK then err else ERR_ABRT,
           l\<lparr>tcpl_has_error := True, tcpl_last_error_message := ''tcp accept failed''\<rparr>, w))"

definition tcp_accept_callback ::
  "'e Lwip \<Rightarrow> TcpListener option \<Rightarrow> pcb option \<Rightarrow> err_t \<Rightarrow> 'e World \<Rightarrow>
     err_t \<times> TcpListener option \<times> 'e World" where
  "tcp_accept_callback lw arg newpcb err w =
     (case arg of
        None \<Rightarrow> (ERR_ABRT, None, abort_new lw newpcb w)
      | Some l \<Rightarrow> (let (e, l, w) = handle_tcp_accept lw newpcb err l w in (e, Some l, w)))"

text \<open>One callback, as far as it concerns this listener, and the callbacks of a poll in order.\<close>

definition tcpl_dispatch ::
  "'e Lwip \<Rightarrow> LwipEvent \<Rightarrow> TcpListener \<times> 'e World \<Rightarrow> TcpListener \<times> 'e World" where
  "tcpl_dispatch lw ev = (\<lambda>(l, w).
     case ev of
       TcpAcceptEvent arg newpcb err \<Rightarrow>
         if arg = Some (tcpl_this l)
         then (case tcp_accept_callback lw (Some l) newpcb err w of
                 (_, Some l, w) \<Rightarrow> (l, w) | (_, None, w) \<Rightarrow> (l, w))
         else (l, w)
     | _ \<Rightarrow> (l, w))"

definition tcpl_poll :: "'e Lwip \<Rightarrow> TcpListener \<Rightarrow> 'e World \<Rightarrow> TcpListener \<times> 'e World" where
  "tcpl_poll lw l w = (let (evs, w) = arch_poll lw w in fold (tcpl_dispatch lw) evs (l, w))"

section \<open>The virtual functions\<close>

text \<open>\<^verbatim>\<open>accept_nonblocking\<close> behind its poll.\<close>

definition tcpl_take ::
  "'e Lwip \<Rightarrow> TcpListener \<Rightarrow> 'e World \<Rightarrow> TcpConnection option result \<times> TcpListener \<times> 'e World" where
  "tcpl_take lw l w =
     (case tcpl_pending l of
        [] \<Rightarrow> (Inr None, l, w)
      | c # cs \<Rightarrow>
          let l = l\<lparr>tcpl_pending := cs\<rparr>
          in case tcp_attach_callbacks lw c w of
               Inl fault \<Rightarrow> (Inl fault, l, w)
             | Inr w \<Rightarrow> (Inr (Some c), l, w))"

definition tcpl_accept_nonblocking ::
  "'e Lwip \<Rightarrow> TcpListener \<Rightarrow> 'e World \<Rightarrow> TcpConnection option result \<times> TcpListener \<times> 'e World" where
  "tcpl_accept_nonblocking lw l w =
     (if tcpl_is_closed l then (Inl (Error ''listener is closed''), l, w)
      else if tcpl_has_error l then (Inl (Error (tcpl_last_error_message l)), l, w)
      else
        let (l, w) = tcpl_poll lw l w
        in tcpl_take lw l w)"

definition tcpl_accept ::
  "'e Platform \<Rightarrow> 'e Lwip \<Rightarrow> TcpListener \<Rightarrow> 'e World \<Rightarrow> (TcpConnection result \<times> TcpListener \<times> 'e World) option" where
  "tcpl_accept pf lw l w =
     accept_loop (sleep_ms (world_platform pf) 10) (tcpl_accept_nonblocking lw) l w"

text \<open>The loop over the waiting connections, whose errors nobody looks at.\<close>

primrec close_waiting ::
  "'e Lwip \<Rightarrow> TcpConnection list \<Rightarrow> 'e World \<Rightarrow> TcpConnection list \<times> 'e World" where
  "close_waiting lw [] w = ([], w)"
| "close_waiting lw (c # cs) w =
     (let (err, c, w) = tcp_close lw c w; (cs, w) = close_waiting lw cs w in (c # cs, w))"

definition tcpl_close ::
  "'e Lwip \<Rightarrow> TcpListener \<Rightarrow> 'e World \<Rightarrow> Error option \<times> TcpListener \<times> 'e World" where
  "tcpl_close lw l w =
     (case tcpl_pcb l of
        None \<Rightarrow> (None, l\<lparr>tcpl_is_closed := True\<rparr>, w)
      | Some p \<Rightarrow>
          let (cs, w) = close_waiting lw (tcpl_pending l) w;
              w = fold (tcp_destroy lw) cs w;
              w = call_void lw (TcpArg p None) w;
              w = call_void lw (TcpAccept p False) w;
              (err, w) = call lw (TcpClose p) w;
              w = (if err \<noteq> ERR_OK then call_void lw (TcpAbort (Some p)) w else w);
              l = l\<lparr>tcpl_pending := [], tcpl_pcb := None, tcpl_is_closed := True\<rparr>
          in if err \<noteq> ERR_OK then (Some (Error ''tcp_close failed''), l, w) else (None, l, w))"

definition tcpl_destroy :: "'e Lwip \<Rightarrow> TcpListener \<Rightarrow> 'e World \<Rightarrow> 'e World" where
  "tcpl_destroy lw l w =
     (let (err, l, w) = tcpl_close lw l w
      in if err \<noteq> None then call_void lw (TcpAbort (tcpl_pcb l)) w else w)"

text \<open>The class as an implementation of \<open>Listener\<close>.\<close>

definition tcpl_ops :: "'e Platform \<Rightarrow> 'e Lwip \<Rightarrow> (TcpListener, TcpConnection, 'e World) Listener" where
  "tcpl_ops pf lw =
     \<lparr>lst_accept = tcpl_accept pf lw,
      lst_close = tcpl_close lw,
      lst_address = (\<lambda>l w. Inr (tcpl_local_addr l)),
      lst_accept_nonblocking = tcpl_accept_nonblocking lw\<rparr>"

section \<open>Accepting\<close>

text \<open>The control blocks lwIP has offered to the listener, in order.\<close>

fun offered :: "obj \<Rightarrow> LwipEvent \<Rightarrow> pcb list" where
  "offered this (TcpAcceptEvent arg (Some p) ERR_OK) = (if arg = Some this then [p] else [])"
| "offered this ev = []"

definition offers_of :: "obj \<Rightarrow> LwipEvent list \<Rightarrow> pcb list" where
  "offers_of this evs = concat (map (offered this) evs)"

lemma offers_of_simps [simp]:
  "offers_of this [] = []"
  "offers_of this (ev # evs) = offered this ev @ offers_of this evs"
  "offers_of this (xs @ ys) = offers_of this xs @ offers_of this ys"
  by (simp_all add: offers_of_def)

text \<open>An accept callback that reports an error, or no control block, breaks the listener.\<close>

fun refused :: "obj \<Rightarrow> LwipEvent \<Rightarrow> bool" where
  "refused this (TcpAcceptEvent arg newpcb err) \<longleftrightarrow> arg = Some this \<and> (err \<noteq> ERR_OK \<or> newpcb = None)"
| "refused this ev \<longleftrightarrow> False"

definition waiting_pcbs :: "TcpListener \<Rightarrow> pcb option list" where
  "waiting_pcbs l = map tcp_pcb (tcpl_pending l)"

lemma offered_other: "arg \<noteq> Some this \<Longrightarrow> offered this (TcpAcceptEvent arg newpcb err) = []"
  by (cases "(this, TcpAcceptEvent arg newpcb err)" rule: offered.cases) auto

lemma tcpl_dispatch_step:
  assumes "tcpl_dispatch lw ev (l, w) = (l', w')" and "\<not> tcpl_is_closed l"
  shows "waiting_pcbs l' = waiting_pcbs l @ map Some (offered (tcpl_this l) ev)"
    "tcpl_this l' = tcpl_this l" "tcpl_pcb l' = tcpl_pcb l" "\<not> tcpl_is_closed l'"
    "tcpl_has_error l' \<longleftrightarrow> tcpl_has_error l \<or> refused (tcpl_this l) ev"
    "delivered w' = delivered w" "calls w' = calls w"
  using assms
  by (auto simp: tcpl_dispatch_def tcp_accept_callback_def handle_tcp_accept_def waiting_pcbs_def
      new_TcpConnection_def world_simps offered_other Let_def case_prod_beta
      split: LwipEvent.splits if_splits option.splits err_t.splits prod.splits)

lemma tcpl_dispatch_all:
  "fold (tcpl_dispatch lw) evs (l, w) = (l', w') \<Longrightarrow> \<not> tcpl_is_closed l \<Longrightarrow>
     waiting_pcbs l' = waiting_pcbs l @ map Some (offers_of (tcpl_this l) evs) \<and>
     tcpl_this l' = tcpl_this l \<and> tcpl_pcb l' = tcpl_pcb l \<and> \<not> tcpl_is_closed l' \<and>
     (tcpl_has_error l' \<longleftrightarrow> tcpl_has_error l \<or> list_ex (refused (tcpl_this l)) evs) \<and>
     delivered w' = delivered w \<and> calls w' = calls w"
proof (induction evs arbitrary: l w)
  case (Cons ev evs)
  obtain l1 w1 where d: "tcpl_dispatch lw ev (l, w) = (l1, w1)" by fastforce
  note step = tcpl_dispatch_step [OF d Cons.prems(2)]
  have "fold (tcpl_dispatch lw) evs (l1, w1) = (l', w')" using Cons.prems(1) d by simp
  from Cons.IH [OF this step(4)] step show ?case by auto
qed simp

text \<open>The calls that give a connection its callbacks, and those that close one.\<close>

definition attach_calls :: "TcpConnection \<Rightarrow> LwipCall list" where
  "attach_calls c = (case tcp_pcb c of
     None \<Rightarrow> [] | Some p \<Rightarrow> [TcpArg p (Some (tcp_this c)), TcpRecv p True, TcpErr p True])"

definition close_calls :: "TcpConnection \<Rightarrow> LwipCall list" where
  "close_calls c = (case tcp_pcb c of
     None \<Rightarrow> [] | Some p \<Rightarrow> [TcpArg p None, TcpRecv p False, TcpSent p False, TcpErr p False, TcpClose p])"

text \<open>A number of tries to accept, with their results.\<close>

primrec tcpl_accepts ::
  "'e Lwip \<Rightarrow> nat \<Rightarrow> TcpListener \<Rightarrow> 'e World \<Rightarrow> TcpConnection option result list \<times> TcpListener \<times> 'e World" where
  "tcpl_accepts lw 0 l w = ([], l, w)"
| "tcpl_accepts lw (Suc k) l w =
     (let (r, l, w) = tcpl_accept_nonblocking lw l w; (rs, l, w) = tcpl_accepts lw k l w in (r # rs, l, w))"

definition accepted :: "TcpConnection option result list \<Rightarrow> TcpConnection list" where
  "accepted rs = concat (map (\<lambda>r. case r of Inr (Some c) \<Rightarrow> [c] | _ \<Rightarrow> []) rs)"

lemma accepted_simps [simp]:
  "accepted [] = []"
  "accepted (r # rs) = (case r of Inr (Some c) \<Rightarrow> [c] | _ \<Rightarrow> []) @ accepted rs"
  by (simp_all add: accepted_def)

text \<open>One try: it takes the connection at the front of those that wait, or have just arrived.\<close>

lemma accept_step:
  assumes "tcpl_accept_nonblocking lw l w = (r, l', w')" and "\<not> tcpl_is_closed l"
    and "None \<notin> set (waiting_pcbs l)"
  shows "\<exists>evs. delivered w' = delivered w @ evs \<and>
      map tcp_pcb (accepted [r]) @ waiting_pcbs l' = waiting_pcbs l @ map Some (offers_of (tcpl_this l) evs) \<and>
      (tcpl_has_error l' \<longleftrightarrow> tcpl_has_error l \<or> list_ex (refused (tcpl_this l)) evs)"
    and "map fst (calls w') = map fst (calls w) @ concat (map attach_calls (accepted [r]))"
    and "fault_free r" "tcpl_this l' = tcpl_this l" "\<not> tcpl_is_closed l'" "None \<notin> set (waiting_pcbs l')"
proof -
  have "(\<exists>evs. delivered w' = delivered w @ evs \<and>
      map tcp_pcb (accepted [r]) @ waiting_pcbs l' = waiting_pcbs l @ map Some (offers_of (tcpl_this l) evs) \<and>
      (tcpl_has_error l' \<longleftrightarrow> tcpl_has_error l \<or> list_ex (refused (tcpl_this l)) evs)) \<and>
    map fst (calls w') = map fst (calls w) @ concat (map attach_calls (accepted [r])) \<and>
    fault_free r \<and> tcpl_this l' = tcpl_this l \<and> \<not> tcpl_is_closed l' \<and> None \<notin> set (waiting_pcbs l')"
  proof (cases "tcpl_has_error l")
    case True
    then show ?thesis
      using assms by (intro conjI exI [of _ "[]"]) (auto simp: tcpl_accept_nonblocking_def tcpl_take_def)
  next
    case False
    let ?evs = "fst (arch_poll lw w)"
    obtain l1 w1 where p: "tcpl_poll lw l w = (l1, w1)" by fastforce
    have "fold (tcpl_dispatch lw) ?evs (l, snd (arch_poll lw w)) = (l1, w1)"
      using p by (simp add: tcpl_poll_def case_prod_beta)
    note all = tcpl_dispatch_all [OF this assms(2)]
    have some: "None \<notin> set (waiting_pcbs l1)" using all assms(3) by auto
    have w1: "delivered w1 = delivered w @ ?evs" "calls w1 = calls w" using all by (simp_all add: world_simps)
    show ?thesis
    proof (cases "tcpl_pending l1")
      case Nil
      then have r: "r = Inr None" "l' = l1" "w' = w1"
        using assms(1,2) False p by (simp_all add: tcpl_accept_nonblocking_def tcpl_take_def)
      show ?thesis unfolding r using all w1 some by (intro conjI exI [of _ ?evs]) simp_all
    next
      case (Cons c cs)
      obtain q where q: "tcp_pcb c = Some q" using some Cons by (cases "tcp_pcb c") (auto simp: waiting_pcbs_def)
      have r: "r = Inr (Some c)" "l' = l1\<lparr>tcpl_pending := cs\<rparr>" "Inr w' = tcp_attach_callbacks lw c w1"
        using assms(1,2) False p Cons q
        by (simp_all add: tcpl_accept_nonblocking_def tcpl_take_def tcp_attach_callbacks_def Let_def)
      have w': "delivered w' = delivered w1" "map fst (calls w') = map fst (calls w1) @ attach_calls c"
        using r(3) q by (simp_all add: tcp_attach_callbacks_def Let_def world_simps attach_calls_def)
      have "waiting_pcbs l1 = Some q # waiting_pcbs l'" using Cons q by (simp add: waiting_pcbs_def r(2))
      then show ?thesis
        using all w1 w' some q by (intro conjI exI [of _ ?evs]) (simp_all add: r(1,2))
    qed
  qed
  then show "\<exists>evs. delivered w' = delivered w @ evs \<and>
      map tcp_pcb (accepted [r]) @ waiting_pcbs l' = waiting_pcbs l @ map Some (offers_of (tcpl_this l) evs) \<and>
      (tcpl_has_error l' \<longleftrightarrow> tcpl_has_error l \<or> list_ex (refused (tcpl_this l)) evs)"
    "map fst (calls w') = map fst (calls w) @ concat (map attach_calls (accepted [r]))"
    "fault_free r" "tcpl_this l' = tcpl_this l" "\<not> tcpl_is_closed l'" "None \<notin> set (waiting_pcbs l')"
    by blast+
qed

lemma accepts_all:
  "tcpl_accepts lw k l w = (rs, l', w') \<Longrightarrow> \<not> tcpl_is_closed l \<Longrightarrow> None \<notin> set (waiting_pcbs l) \<Longrightarrow>
     (\<exists>evs. delivered w' = delivered w @ evs \<and>
        map tcp_pcb (accepted rs) @ waiting_pcbs l' = waiting_pcbs l @ map Some (offers_of (tcpl_this l) evs)) \<and>
     map fst (calls w') = map fst (calls w) @ concat (map attach_calls (accepted rs)) \<and>
     list_all fault_free rs"
proof (induction k arbitrary: l w rs)
  case 0
  then show ?case by auto
next
  case (Suc k)
  obtain r l1 w1 where r: "tcpl_accept_nonblocking lw l w = (r, l1, w1)" by (metis prod_cases3)
  obtain rs1 where rest: "tcpl_accepts lw k l1 w1 = (rs1, l', w')" and rs: "rs = r # rs1"
    using Suc.prems(1) r by (auto split: prod.splits)
  note step = accept_step [OF r Suc.prems(2,3)]
  obtain evs1 where e1: "delivered w1 = delivered w @ evs1"
      "map tcp_pcb (accepted [r]) @ waiting_pcbs l1 = waiting_pcbs l @ map Some (offers_of (tcpl_this l) evs1)"
    using step(1) by blast
  from Suc.IH [OF rest step(5,6)] obtain evs2 where e2: "delivered w' = delivered w1 @ evs2"
      "map tcp_pcb (accepted rs1) @ waiting_pcbs l' = waiting_pcbs l1 @ map Some (offers_of (tcpl_this l1) evs2)"
      "map fst (calls w') = map fst (calls w1) @ concat (map attach_calls (accepted rs1))"
      "list_all fault_free rs1"
    by blast
  have split: "accepted rs = accepted [r] @ accepted rs1" by (simp add: rs)
  have "map tcp_pcb (accepted rs) @ waiting_pcbs l' =
      (map tcp_pcb (accepted [r]) @ waiting_pcbs l1) @ map Some (offers_of (tcpl_this l) evs2)"
    unfolding split using e2(2) step(4) by simp
  also have "\<dots> = waiting_pcbs l @ map Some (offers_of (tcpl_this l) (evs1 @ evs2))" using e1(2) by simp
  finally have "\<exists>evs. delivered w' = delivered w @ evs \<and>
      map tcp_pcb (accepted rs) @ waiting_pcbs l' = waiting_pcbs l @ map Some (offers_of (tcpl_this l) evs)"
    using e1(1) e2(1) by (intro exI [of _ "evs1 @ evs2"]) simp
  then show ?case
    using e2(3,4) step(2,3) unfolding split by (simp add: rs)
qed

section \<open>Closing\<close>

lemma tcp_close_calls:
  assumes "tcp_close lw c w = (e, c', w')"
  shows "map fst (calls w') = map fst (calls w) @ close_calls c" "tcp_pcb c' = None"
  using assms by (auto simp: tcp_close_def close_calls_def Let_def world_simps case_prod_beta
      split: option.splits if_splits)

lemma close_waiting_calls:
  "close_waiting lw cs w = (cs', w') \<Longrightarrow>
     map fst (calls w') = map fst (calls w) @ concat (map close_calls cs) \<and> list_all (\<lambda>c. tcp_pcb c = None) cs'"
proof (induction cs arbitrary: w cs')
  case (Cons c cs)
  obtain e c1 w1 where c: "tcp_close lw c w = (e, c1, w1)" by (metis prod_cases3)
  obtain cs1 where rest: "close_waiting lw cs w1 = (cs1, w')" and cs': "cs' = c1 # cs1"
    using Cons.prems c by (auto split: prod.splits)
  from Cons.IH [OF rest] tcp_close_calls [OF c] show ?case by (simp add: cs')
qed simp

lemma destroy_closed: "list_all (\<lambda>c. tcp_pcb c = None) cs \<Longrightarrow> fold (tcp_destroy lw) cs w = w"
  by (induction cs arbitrary: w) (simp_all add: tcp_closed_quiet)

lemma tcpl_close_calls:
  assumes "tcpl_pcb l = Some p" and "tcpl_close lw l w = (e, l', w')"
  shows "map fst (calls w') = map fst (calls w) @ concat (map close_calls (tcpl_pending l)) @
      [TcpArg p None, TcpAccept p False, TcpClose p] @ (if e = None then [] else [TcpAbort (Some p)])"
    "tcpl_pending l' = []" "tcpl_pcb l' = None" "tcpl_is_closed l'"
proof -
  obtain cs w1 where c: "close_waiting lw (tcpl_pending l) w = (cs, w1)" by fastforce
  note close_waiting_calls [OF c]
  moreover from this have "fold (tcp_destroy lw) cs w1 = w1" by (intro destroy_closed) simp
  ultimately show "map fst (calls w') = map fst (calls w) @ concat (map close_calls (tcpl_pending l)) @
      [TcpArg p None, TcpAccept p False, TcpClose p] @ (if e = None then [] else [TcpAbort (Some p)])"
    "tcpl_pending l' = []" "tcpl_pcb l' = None" "tcpl_is_closed l'"
    using assms c by (auto simp: tcpl_close_def Let_def world_simps case_prod_beta split: if_splits)
qed

section \<open>The contract of Listener\<close>

text \<open>Every connection that waits has its control block, until the listener is closed.\<close>

definition tcpl_ok :: "TcpListener \<Rightarrow> 'e World \<Rightarrow> bool" where
  "tcpl_ok l w \<longleftrightarrow> None \<notin> set (waiting_pcbs l)"

lemma tcpl_try_ok:
  assumes "tcpl_ok l w" and "tcpl_accept_nonblocking lw l w = (r, l', w')"
  shows "fault_free r \<and> tcpl_ok l' w'"
  using assms accept_step(3,6) [OF assms(2)]
  by (cases "tcpl_is_closed l") (auto simp: tcpl_ok_def tcpl_accept_nonblocking_def tcpl_take_def)

lemma tcpl_close_ok:
  assumes "tcpl_ok l w" and "tcpl_close lw l w = (e, l', w')"
  shows "(case e of None \<Rightarrow> True | Some err \<Rightarrow> \<not> is_fault err) \<and> tcpl_ok l' w'"
  using assms
  by (auto simp: tcpl_ok_def tcpl_close_def waiting_pcbs_def Let_def split: option.splits if_splits prod.splits)

interpretation tcp_listening: listener "tcpl_ops pf lw" tcpl_ok "sleep_ms (world_platform pf) 10"
  for pf :: "'e Platform" and lw :: "'e Lwip"
proof unfold_locales
  fix l l' :: TcpListener and w w' :: "'e World" and r e
  show "lst_accept (tcpl_ops pf lw) l w =
      accept_loop (sleep_ms (world_platform pf) 10) (lst_accept_nonblocking (tcpl_ops pf lw)) l w"
    by (simp add: tcpl_ops_def tcpl_accept_def)
  assume ok: "tcpl_ok l w"
  show "tcpl_ok l (sleep_ms (world_platform pf) 10 w)" using ok by (simp add: tcpl_ok_def)
  show "fault_free r \<and> tcpl_ok l' w'" if "lst_accept_nonblocking (tcpl_ops pf lw) l w = (r, l', w')"
    using tcpl_try_ok [OF ok] that by (simp add: tcpl_ops_def)
  show "(case e of None \<Rightarrow> True | Some err \<Rightarrow> \<not> is_fault err) \<and> tcpl_ok l' w'"
    if "lst_close (tcpl_ops pf lw) l w = (e, l', w')"
    using tcpl_close_ok [OF ok] that by (simp add: tcpl_ops_def)
qed

section \<open>Properties\<close>

definition sample_listener :: TcpListener where
  "sample_listener = new_TcpListener 5 3 \<lparr>address_network = ''tcp'', address_ip = ''10.0.0.2'', address_port = 80\<rparr>"

lemma sample_listener_sel [simp]:
  "tcpl_this sample_listener = 5" "tcpl_pcb sample_listener = Some 3" "\<not> tcpl_is_closed sample_listener"
  "waiting_pcbs sample_listener = []" "\<not> tcpl_has_error sample_listener" "tcpl_pending sample_listener = []"
  by (simp_all add: sample_listener_def new_TcpListener_def waiting_pcbs_def)

text \<open>
  C22: Connections are accepted in the order in which lwIP offers them, none lost and none twice:
  after any number of tries, the control blocks of the connections accepted, followed by those of
  the ones that still wait, are those that waited before, followed by the ones lwIP has offered
  to this listener. Every connection handed out has had its own callbacks registered, which is all
  that accepting calls of lwIP, and no try, and no blocking accept, commits a memory fault.
\<close>

theorem tcp_accepts_in_order:
  assumes "tcpl_accepts lw k l w = (rs, l', w')" and "\<not> tcpl_is_closed l"
    and "None \<notin> set (waiting_pcbs l)"
  shows "(\<exists>evs. delivered w' = delivered w @ evs \<and>
      map tcp_pcb (accepted rs) @ waiting_pcbs l' = waiting_pcbs l @ map Some (offers_of (tcpl_this l) evs)) \<and>
    map fst (calls w') = map fst (calls w) @ concat (map attach_calls (accepted rs)) \<and>
    list_all fault_free rs \<and>
    (\<forall>r l2 w2. tcpl_accept pf lw l w = Some (r, l2, w2) \<longrightarrow> fault_free r)"
proof -
  have "fault_free r" if "tcpl_accept pf lw l w = Some (r, l2, w2)" for r l2 w2
    using tcp_listening.accept_safe(1) [of pf lw l w r l2 w2] that assms(3) by (simp add: tcpl_ops_def tcpl_ok_def)
  then show ?thesis using accepts_all [OF assms] by blast
qed

lemma sample_accepts_run:
  "\<exists>r1 r2 l' w'. tcpl_accepts sample_lwip 2 sample_listener
     (sample_world 0 [TcpAcceptEvent (Some 5) (Some 8) ERR_OK, TcpAcceptEvent (Some 5) (Some 9) ERR_OK]) =
     ([Inr (Some r1), Inr (Some r2)], l', w') \<and> tcp_pcb r1 = Some 8 \<and> tcp_pcb r2 = Some 9 \<and> waiting_pcbs l' = []"
  by (simp add: numeral_2_eq_2 tcpl_accept_nonblocking_def tcpl_take_def sample_listener_def new_TcpListener_def tcpl_poll_def
      tcpl_dispatch_def tcp_accept_callback_def handle_tcp_accept_def new_TcpConnection_def on_env_def
      arch_poll_def sample_world_def sample_lwip_def tcp_attach_callbacks_def call_void_def call_def waiting_pcbs_def)

theorem tcp_accepts_in_order_witness:
  "\<exists>c1 c2 l' w' evs. tcpl_accepts sample_lwip 2 sample_listener
     (sample_world 0 [TcpAcceptEvent (Some 5) (Some 8) ERR_OK, TcpAcceptEvent (Some 5) (Some 9) ERR_OK]) =
     ([Inr (Some c1), Inr (Some c2)], l', w') \<and> delivered w' = evs \<and> offers_of 5 evs = [8, 9] \<and>
     map fst (calls w') = attach_calls c1 @ attach_calls c2"
proof -
  obtain c1 c2 l' w' where run: "tcpl_accepts sample_lwip 2 sample_listener
     (sample_world 0 [TcpAcceptEvent (Some 5) (Some 8) ERR_OK, TcpAcceptEvent (Some 5) (Some 9) ERR_OK]) =
     ([Inr (Some c1), Inr (Some c2)], l', w')" "tcp_pcb c1 = Some 8" "tcp_pcb c2 = Some 9" "waiting_pcbs l' = []"
    using sample_accepts_run by blast
  obtain evs where "delivered w' = evs" "map Some (offers_of 5 evs) = [Some 8, Some 9]"
    "map fst (calls w') = attach_calls c1 @ attach_calls c2"
    using tcp_accepts_in_order [OF run(1)] run(2-4) by (auto simp: sample_world_def)
  then show ?thesis using run(1) by auto
qed

text \<open>
  One failure to accept is final. The try whose callbacks report an error, or no control block,
  leaves the listener failed, and from then on every try returns the error and calls nothing, for
  ever, though connections lwIP has offered go on waiting.
\<close>

lemma tcp_accept_failure_is_final:
  assumes "tcpl_accept_nonblocking lw l w = (r, l', w')" and "\<not> tcpl_is_closed l" and "\<not> tcpl_has_error l"
    and "None \<notin> set (waiting_pcbs l)"
  shows "\<exists>evs. delivered w' = delivered w @ evs \<and>
    (tcpl_has_error l' \<longleftrightarrow> list_ex (refused (tcpl_this l)) evs) \<and>
    (tcpl_has_error l' \<longrightarrow>
       tcpl_accepts lw k l' w'' = (replicate k (Inl (Error (tcpl_last_error_message l'))), l', w''))"
proof -
  note step = accept_step [OF assms(1,2,4)]
  have "tcpl_accepts lw k l' w'' = (replicate k (Inl (Error (tcpl_last_error_message l'))), l', w'')"
    if "tcpl_has_error l'" for k
    using that step(5) by (induction k) (simp_all add: tcpl_accept_nonblocking_def tcpl_take_def)
  then show ?thesis using step(1) assms(3) by auto
qed

text \<open>
  Closing a listener closes every connection that waits, in order, each with its callbacks taken
  away first, and then its own control block, which is aborted when it cannot be closed; the
  connections that cannot be closed are not aborted. The destructor of an open listener does the
  same and then, if closing its control block has failed, aborts a null pointer.
\<close>

lemma tcp_listener_close_closes_all:
  assumes "tcpl_pcb l = Some p" and "tcpl_close lw l w = (e, l', w')"
  shows "map fst (calls w') = map fst (calls w) @ concat (map close_calls (tcpl_pending l)) @
      [TcpArg p None, TcpAccept p False, TcpClose p] @ (if e = None then [] else [TcpAbort (Some p)]) \<and>
    tcpl_pending l' = [] \<and> tcpl_pcb l' = None \<and> tcpl_is_closed l' \<and>
    map fst (calls (tcpl_destroy lw l w)) = map fst (calls w') @ (if e = None then [] else [TcpAbort None])"
  using tcpl_close_calls [OF assms] assms(2) by (simp add: tcpl_destroy_def world_simps)

end
