(* ===== verification/Udp_Connection.thy ===== *)
theory Udp_Connection
  imports Sample_Environment
begin

text \<open>
  \<^verbatim>\<open>UdpConnection\<close> (\<^verbatim>\<open>pico_net/src/udp_connection.cpp\<close>) as an object of its own: the queue of
  datagrams, the filter on the peer's address, reading, writing and closing. A connection that
  belongs to a \<^verbatim>\<open>UdpListener\<close> shares the listener's control block; closing it asks the listener
  to forget it, which is the first component of the result of \<open>udp_close\<close>. The objects of a
  listener and their sharing are in the theory of the listener.
\<close>

section \<open>State and callbacks\<close>

record Datagram =
  dg_data :: "u8 list"
  dg_from :: Address

record UdpConnection =
  udp_this :: obj
  udp_pcb :: "pcb option"
  udp_local_addr :: Address
  udp_remote_addr :: Address
  udp_owns_pcb :: bool
  udp_listener_owner :: "obj option"
  udp_rx_queue :: "Datagram list"
  udp_is_closed :: bool
  udp_has_error :: bool
  udp_last_error_message :: string
  udp_read_deadline_ms :: "u32 option"
  udp_write_deadline_ms :: "u32 option"

definition new_UdpConnection :: "obj \<Rightarrow> pcb option \<Rightarrow> Address \<Rightarrow> Address \<Rightarrow> bool \<Rightarrow> obj option \<Rightarrow> UdpConnection" where
  "new_UdpConnection this p local_addr remote_addr owns_pcb listener_owner =
     \<lparr>udp_this = this, udp_pcb = p, udp_local_addr = local_addr, udp_remote_addr = remote_addr,
      udp_owns_pcb = owns_pcb, udp_listener_owner = listener_owner, udp_rx_queue = [],
      udp_is_closed = False, udp_has_error = False, udp_last_error_message = [],
      udp_read_deadline_ms = None, udp_write_deadline_ms = None\<rparr>"

definition udp_attach_callbacks :: "'e Lwip \<Rightarrow> UdpConnection \<Rightarrow> 'e World \<Rightarrow> 'e World" where
  "udp_attach_callbacks lw c w =
     (case udp_pcb c of
        None \<Rightarrow> w
      | Some p \<Rightarrow> if \<not> udp_owns_pcb c then w else call_void lw (UdpRecv p (Some (udp_this c))) w)"

definition udp_enqueue_datagram :: "Datagram \<Rightarrow> UdpConnection \<Rightarrow> UdpConnection" where
  "udp_enqueue_datagram d c =
     (if udp_is_closed c then c else c\<lparr>udp_rx_queue := udp_rx_queue c @ [d]\<rparr>)"

definition sender_ip :: "'e Lwip \<Rightarrow> ip_addr_t option \<Rightarrow> string" where
  "sender_ip lw addr = (case addr of Some (IPADDR_TYPE_V4 a) \<Rightarrow> lwip_ntoa lw a | _ \<Rightarrow> [])"

definition handle_udp_recv ::
  "'e Lwip \<Rightarrow> u8 list option \<Rightarrow> ip_addr_t option \<Rightarrow> u16 \<Rightarrow> UdpConnection \<Rightarrow> 'e World \<Rightarrow> UdpConnection \<times> 'e World" where
  "handle_udp_recv lw p addr port c w =
     (case p of
        None \<Rightarrow> (c, w)
      | Some bs \<Rightarrow>
          let source = \<lparr>address_network = ''udp'', address_ip = sender_ip lw addr, address_port = port\<rparr>
          in if address_ip source \<noteq> address_ip (udp_remote_addr c) \<or>
                address_port source \<noteq> address_port (udp_remote_addr c)
             then (c, call_void lw (PbufFree bs) w)
             else (udp_enqueue_datagram \<lparr>dg_data = bs, dg_from = source\<rparr> c, call_void lw (PbufFree bs) w))"

definition udp_recv_callback ::
  "'e Lwip \<Rightarrow> UdpConnection option \<Rightarrow> u8 list option \<Rightarrow> ip_addr_t option \<Rightarrow> u16 \<Rightarrow> 'e World \<Rightarrow>
     UdpConnection option \<times> 'e World" where
  "udp_recv_callback lw arg p addr port w =
     (case arg of
        None \<Rightarrow> (None, case p of None \<Rightarrow> w | Some bs \<Rightarrow> call_void lw (PbufFree bs) w)
      | Some c \<Rightarrow> (let (c, w) = handle_udp_recv lw p addr port c w in (Some c, w)))"

text \<open>One callback, as far as it concerns this object, and the callbacks of a poll in order.\<close>

definition udp_dispatch ::
  "'e Lwip \<Rightarrow> LwipEvent \<Rightarrow> UdpConnection \<times> 'e World \<Rightarrow> UdpConnection \<times> 'e World" where
  "udp_dispatch lw ev = (\<lambda>(c, w).
     case ev of
       UdpRecvEvent arg pcb p addr port \<Rightarrow>
         if arg = Some (udp_this c)
         then (case udp_recv_callback lw (Some c) p addr port w of (Some c, w) \<Rightarrow> (c, w) | (None, w) \<Rightarrow> (c, w))
         else (c, w)
     | _ \<Rightarrow> (c, w))"

definition udp_poll :: "'e Lwip \<Rightarrow> UdpConnection \<Rightarrow> 'e World \<Rightarrow> UdpConnection \<times> 'e World" where
  "udp_poll lw c w = (let (evs, w) = arch_poll lw w in fold (udp_dispatch lw) evs (c, w))"

section \<open>The virtual functions\<close>

text \<open>What \<^verbatim>\<open>read_nonblocking\<close> does after polling.\<close>

definition udp_take :: "nat \<Rightarrow> UdpConnection \<Rightarrow> u8 list result \<times> UdpConnection" where
  "udp_take n c =
     (if udp_has_error c then (Inl (Error (udp_last_error_message c)), c)
      else if udp_is_closed c \<or> udp_pcb c = None then (Inl (Error ''connection is closed''), c)
      else case udp_rx_queue c of
        [] \<Rightarrow> (Inr [], c)
      | d # ds \<Rightarrow>
          let bytes_to_copy = min n (length (dg_data d))
          in (Inr (take bytes_to_copy (dg_data d)), c\<lparr>udp_rx_queue := ds\<rparr>))"

definition udp_read_nonblocking ::
  "'e Lwip \<Rightarrow> nat \<Rightarrow> UdpConnection \<Rightarrow> 'e World \<Rightarrow> u8 list result \<times> UdpConnection \<times> 'e World" where
  "udp_read_nonblocking lw n c w =
     (if n = 0 then (Inr [], c, w)
      else
        let (c, w) = udp_poll lw c w;
            (r, c) = udp_take n c
        in (r, c, w))"

definition udp_read ::
  "'e Platform \<Rightarrow> 'e Lwip \<Rightarrow> nat \<Rightarrow> UdpConnection \<Rightarrow> 'e World \<Rightarrow>
     (u8 list result \<times> UdpConnection \<times> 'e World) option" where
  "udp_read pf lw n c w =
     blocking_read (world_platform pf) (udp_read_nonblocking lw) (udp_read_deadline_ms c) n c w"

definition udp_write ::
  "'e Lwip \<Rightarrow> u8 list \<Rightarrow> UdpConnection \<Rightarrow> 'e World \<Rightarrow> nat result \<times> UdpConnection \<times> 'e World" where
  "udp_write lw buffer c w =
     (case udp_pcb c of
        None \<Rightarrow> (Inl (Error ''connection is closed''), c, w)
      | Some p \<Rightarrow>
          if udp_is_closed c then (Inl (Error ''connection is closed''), c, w)
          else if length buffer = 0 then (Inr 0, c, w)
          else if length buffer > 65535 then (Inl (Error ''udp packet too large''), c, w)
          else
            let (allocated, w) = on_env (lwip_pbuf_alloc lw (length buffer)) w
            in if \<not> allocated then (Inl (Error ''pbuf_alloc failed''), c, w)
               else
                 let (sent, w) =
                   (if udp_owns_pcb c then (let (err, w) = call lw (UdpSend p buffer) w in (Some err, w))
                    else case lwip_aton lw (address_ip (udp_remote_addr c)) of
                      None \<Rightarrow> (None, w)
                    | Some remote_ip \<Rightarrow>
                        (let (err, w) = call lw (UdpSendto p buffer (IPADDR_TYPE_V4 remote_ip)
                                           (address_port (udp_remote_addr c))) w
                         in (Some err, w)));
                     w = call_void lw (PbufFree buffer) w
                 in case sent of
                      None \<Rightarrow> (Inl (Error ''Invalid IPv4 address format''), c, w)
                    | Some err \<Rightarrow>
                        if err \<noteq> ERR_OK then (Inl (Error ''udp_send failed''), c, w)
                        else (Inr (length buffer), c, w))"

definition udp_close ::
  "'e Lwip \<Rightarrow> UdpConnection \<Rightarrow> 'e World \<Rightarrow> (obj \<times> Address) option \<times> UdpConnection \<times> 'e World" where
  "udp_close lw c w =
     (case udp_pcb c of
        None \<Rightarrow> (None, c\<lparr>udp_is_closed := True, udp_rx_queue := []\<rparr>, w)
      | Some p \<Rightarrow>
          let w = (if udp_owns_pcb c
                   then call_void lw (UdpRemove p) (call_void lw (UdpRecv p None) w) else w);
              (removal, c) =
                (case udp_listener_owner c of
                   Some l \<Rightarrow>
                     if \<not> udp_owns_pcb c
                     then (Some (l, udp_remote_addr c), c\<lparr>udp_listener_owner := None\<rparr>) else (None, c)
                 | None \<Rightarrow> (None, c))
          in (removal, c\<lparr>udp_pcb := None, udp_is_closed := True, udp_rx_queue := []\<rparr>, w))"

definition udp_set_deadline :: "u32 \<Rightarrow> UdpConnection \<Rightarrow> Error option \<times> UdpConnection" where
  "udp_set_deadline timeout_ms c =
     (None, c\<lparr>udp_read_deadline_ms := Some timeout_ms, udp_write_deadline_ms := Some timeout_ms\<rparr>)"

definition udp_set_read_deadline :: "u32 \<Rightarrow> UdpConnection \<Rightarrow> Error option \<times> UdpConnection" where
  "udp_set_read_deadline timeout_ms c = (None, c\<lparr>udp_read_deadline_ms := Some timeout_ms\<rparr>)"

definition udp_set_write_deadline :: "u32 \<Rightarrow> UdpConnection \<Rightarrow> Error option \<times> UdpConnection" where
  "udp_set_write_deadline timeout_ms c = (None, c\<lparr>udp_write_deadline_ms := Some timeout_ms\<rparr>)"

text \<open>
  The class as an implementation of \<open>Connection\<close>, for a connection without a listener, as
  \<^verbatim>\<open>Network::dial_udp\<close> makes it: \<^verbatim>\<open>close\<close> has nothing to remove and returns no error.
\<close>

definition udp_ops :: "'e Platform \<Rightarrow> 'e Lwip \<Rightarrow> (UdpConnection, 'e World) Connection" where
  "udp_ops pf lw =
     \<lparr>conn_destroy = (\<lambda>c w. snd (snd (udp_close lw c w))),
      conn_read = udp_read pf lw,
      conn_write = udp_write lw,
      conn_close = (\<lambda>c w. (None, snd (udp_close lw c w))),
      conn_local_address = (\<lambda>c w. Inr (udp_local_addr c)),
      conn_remote_address = (\<lambda>c w. Inr (udp_remote_addr c)),
      conn_set_deadline = (\<lambda>ms. on_object (udp_set_deadline ms)),
      conn_set_read_deadline = (\<lambda>ms. on_object (udp_set_read_deadline ms)),
      conn_set_write_deadline = (\<lambda>ms. on_object (udp_set_write_deadline ms)),
      conn_read_nonblocking = udp_read_nonblocking lw\<rparr>"

lemma udp_ops_sel [simp]:
  "conn_read (udp_ops pf lw) = udp_read pf lw"
  "conn_write (udp_ops pf lw) = udp_write lw"
  "conn_read_nonblocking (udp_ops pf lw) = udp_read_nonblocking lw"
  by (simp_all add: udp_ops_def)

section \<open>The contract of Connection\<close>

text \<open>What a connection has handed to lwIP for its peer: the data of its successful sends.\<close>

definition peer_send :: "'e Lwip \<Rightarrow> UdpConnection \<Rightarrow> pcb \<Rightarrow> u8 list \<Rightarrow> LwipCall option" where
  "peer_send lw c p bs =
     (if udp_owns_pcb c then Some (UdpSend p bs)
      else map_option (\<lambda>a. UdpSendto p bs (IPADDR_TYPE_V4 a) (address_port (udp_remote_addr c)))
        (lwip_aton lw (address_ip (udp_remote_addr c))))"

fun payload_of :: "LwipCall \<Rightarrow> u8 list" where
  "payload_of (UdpSend p bs) = bs"
| "payload_of (UdpSendto p bs a port) = bs"
| "payload_of c = []"

definition udp_sent :: "'e Lwip \<Rightarrow> UdpConnection \<Rightarrow> 'e World \<Rightarrow> u8 list" where
  "udp_sent lw c w =
     (case udp_pcb c of
        None \<Rightarrow> []
      | Some p \<Rightarrow> concat (map (\<lambda>(k, e).
          if e = ERR_OK \<and> peer_send lw c p (payload_of k) = Some k then payload_of k else [])
          (calls w)))"

lemma peer_send_payload: "peer_send lw c p bs = Some k \<Longrightarrow> payload_of k = bs"
  by (auto simp: peer_send_def split: if_splits)

lemma peer_send_pbuf: "peer_send lw c p bs \<noteq> Some (PbufFree bs')"
  by (auto simp: peer_send_def)

text \<open>A write is one datagram, or nothing.\<close>

lemma udp_write_Inr:
  assumes "udp_write lw bs c w = (Inr n, c', w')"
  shows "c' = c" "n = length bs" "length bs \<le> 65535"
    "bs = [] \<and> w' = w \<or> (\<exists>p k e. udp_pcb c = Some p \<and> peer_send lw c p bs = Some k \<and>
       calls w' = calls w @ [(k, ERR_OK), (PbufFree bs, e)])"
  using assms
  by (auto simp: udp_write_def Let_def world_simps case_prod_beta peer_send_def
      split: option.splits if_splits)

lemma udp_write_sent:
  assumes "udp_write lw bs c w = (Inr n, c', w')"
  shows "udp_sent lw c' w' = udp_sent lw c w @ take n bs"
  using udp_write_Inr [OF assms]
  by (auto simp: udp_sent_def peer_send_payload peer_send_pbuf split: option.split)

lemma udp_write_fault_free: "fault_free (fst (udp_write lw bs c w))"
  by (auto simp: udp_write_def Let_def case_prod_beta split: option.split)

lemma udp_take_bounds:
  "fault_free (fst (udp_take n c))" "udp_take n c = (Inr bs, c') \<Longrightarrow> length bs \<le> n"
  by (auto simp: udp_take_def Let_def split: list.splits if_splits)

lemma udp_read_fault_free: "fault_free (fst (udp_read_nonblocking lw n c w))"
  using udp_take_bounds(1) by (simp add: udp_read_nonblocking_def Let_def case_prod_beta)

lemma udp_read_length:
  "udp_read_nonblocking lw n c w = (Inr bs, c', w') \<Longrightarrow> length bs \<le> n"
  using udp_take_bounds(2) by (auto simp: udp_read_nonblocking_def Let_def split: if_splits prod.splits)

interpretation udp: timed_connection "udp_ops pf lw" "udp_sent lw" "world_platform pf"
  for pf :: "'e Platform" and lw :: "'e Lwip"
proof unfold_locales
  fix bs n and c c' :: UdpConnection and w w' :: "'e World"
  assume "conn_write (udp_ops pf lw) bs c w = (Inr n, c', w')"
  then have w: "udp_write lw bs c w = (Inr n, c', w')" by simp
  show "n \<le> length bs" using udp_write_Inr(2) [OF w] by simp
  show "udp_sent lw c' w' = udp_sent lw c w @ take n bs" using w by (rule udp_write_sent)
next
  fix bs and c :: UdpConnection and w :: "'e World"
  show "fault_free (fst (conn_write (udp_ops pf lw) bs c w))" by (simp add: udp_write_fault_free)
next
  fix n and c :: UdpConnection and w :: "'e World"
  show "fault_free (fst (conn_read_nonblocking (udp_ops pf lw) n c w))" by (simp add: udp_read_fault_free)
next
  fix n bs and c c' :: UdpConnection and w w' :: "'e World"
  assume "conn_read_nonblocking (udp_ops pf lw) n c w = (Inr bs, c', w')"
  then show "length bs \<le> n" using udp_read_length by simp
next
  fix c and w :: "'e World"
  show "udp_sent lw c (snd (get_absolute_time (world_platform pf) w)) = udp_sent lw c w"
    by (simp add: udp_sent_def world_simps split: option.split)
qed

section \<open>Received datagrams\<close>

text \<open>The datagrams of the peer among the callbacks of an object.\<close>

definition from_peer :: "'e Lwip \<Rightarrow> Address \<Rightarrow> ip_addr_t option \<Rightarrow> u16 \<Rightarrow> bool" where
  "from_peer lw remote addr port \<longleftrightarrow> sender_ip lw addr = address_ip remote \<and> port = address_port remote"

fun event_datagrams :: "'e Lwip \<Rightarrow> obj \<Rightarrow> Address \<Rightarrow> LwipEvent \<Rightarrow> Datagram list" where
  "event_datagrams lw this remote (UdpRecvEvent arg pcb (Some bs) addr port) =
     (if arg = Some this \<and> from_peer lw remote addr port
      then [\<lparr>dg_data = bs, dg_from = \<lparr>address_network = ''udp'', address_ip = sender_ip lw addr, address_port = port\<rparr>\<rparr>]
      else [])"
| "event_datagrams lw this remote ev = []"

lemma event_datagrams_other:
  "arg \<noteq> Some this \<Longrightarrow> event_datagrams lw this remote (UdpRecvEvent arg pcb p addr port) = []"
  by (cases p) simp_all

definition datagrams_of :: "'e Lwip \<Rightarrow> UdpConnection \<Rightarrow> LwipEvent list \<Rightarrow> Datagram list" where
  "datagrams_of lw c evs = concat (map (event_datagrams lw (udp_this c) (udp_remote_addr c)) evs)"

text \<open>Callbacks change nothing of an object but its queue.\<close>

lemma udp_dispatch_step:
  assumes "udp_dispatch lw ev (c, w) = (c', w')"
  shows "c' = c\<lparr>udp_rx_queue := udp_rx_queue c @
      (if udp_is_closed c then [] else event_datagrams lw (udp_this c) (udp_remote_addr c) ev)\<rparr>"
    "delivered w' = delivered w"
    "lwip_keeps_time lw now \<Longrightarrow> now (env w) \<le> now (env w')"
proof -
  have id: "c\<lparr>udp_rx_queue := udp_rx_queue c\<rparr> = c" by simp
  show "c' = c\<lparr>udp_rx_queue := udp_rx_queue c @
      (if udp_is_closed c then [] else event_datagrams lw (udp_this c) (udp_remote_addr c) ev)\<rparr>"
    using assms
    by (auto simp: udp_dispatch_def udp_recv_callback_def handle_udp_recv_def udp_enqueue_datagram_def
        from_peer_def event_datagrams_other split: LwipEvent.splits if_splits option.splits)
  show "delivered w' = delivered w" "lwip_keeps_time lw now \<Longrightarrow> now (env w) \<le> now (env w')"
    using assms
    by (auto simp: udp_dispatch_def udp_recv_callback_def handle_udp_recv_def world_simps lwip_keeps_time_def
        split: LwipEvent.splits if_splits option.splits)
qed

lemma udp_dispatch_all:
  "fold (udp_dispatch lw) evs (c, w) = (c', w') \<Longrightarrow>
     c' = c\<lparr>udp_rx_queue := udp_rx_queue c @ (if udp_is_closed c then [] else datagrams_of lw c evs)\<rparr> \<and>
     delivered w' = delivered w \<and> (lwip_keeps_time lw now \<longrightarrow> now (env w) \<le> now (env w'))"
proof (induction evs arbitrary: c w)
  case (Cons ev evs)
  obtain c1 w1 where d: "udp_dispatch lw ev (c, w) = (c1, w1)" by fastforce
  note step = udp_dispatch_step [OF d]
  have "fold (udp_dispatch lw) evs (c1, w1) = (c', w')" using Cons.prems d by simp
  from Cons.IH [OF this] step(1,2) step(3) [of now] show ?case
    by (auto simp: datagrams_of_def intro: le_trans)
qed (simp add: datagrams_of_def)

lemma udp_read_datagram:
  assumes "udp_read_nonblocking lw n c w = (r, c', w')" and "0 < n"
  shows "\<exists>evs q. delivered w' = delivered w @ evs \<and>
      q = udp_rx_queue c @ (if udp_is_closed c then [] else datagrams_of lw c evs) \<and>
      (case r of
         Inl err \<Rightarrow> c' = c\<lparr>udp_rx_queue := q\<rparr>
       | Inr bs \<Rightarrow> (q = [] \<and> bs = [] \<and> c' = c) \<or>
           (\<exists>d. q = d # udp_rx_queue c' \<and> bs = take n (dg_data d) \<and> c' = c\<lparr>udp_rx_queue := udp_rx_queue c'\<rparr>))"
    and "lwip_keeps_time lw now \<Longrightarrow> now (env w) \<le> now (env w')"
proof -
  obtain c1 w1 where p: "udp_poll lw c w = (c1, w1)" by fastforce
  let ?evs = "fst (arch_poll lw w)"
  have f: "fold (udp_dispatch lw) ?evs (c, snd (arch_poll lw w)) = (c1, w1)"
    using p by (simp add: udp_poll_def case_prod_beta)
  note all = udp_dispatch_all [OF f]
  obtain t where t: "udp_take n c1 = (r, c')" "w' = w1"
    using assms p by (auto simp: udp_read_nonblocking_def Let_def split: prod.splits)
  let ?q = "udp_rx_queue c @ (if udp_is_closed c then [] else datagrams_of lw c ?evs)"
  have c1: "c1 = c\<lparr>udp_rx_queue := ?q\<rparr>" using all by blast
  have "delivered w' = delivered w @ ?evs" using all t(2) by (simp add: world_simps)
  moreover have "case r of
         Inl err \<Rightarrow> c' = c\<lparr>udp_rx_queue := ?q\<rparr>
       | Inr bs \<Rightarrow> (?q = [] \<and> bs = [] \<and> c' = c) \<or>
           (\<exists>d. ?q = d # udp_rx_queue c' \<and> bs = take n (dg_data d) \<and> c' = c\<lparr>udp_rx_queue := udp_rx_queue c'\<rparr>)"
    using t(1) unfolding c1
    by (auto simp: udp_take_def Let_def min_def split: if_splits list.splits)
  ultimately show "\<exists>evs q. delivered w' = delivered w @ evs \<and>
      q = udp_rx_queue c @ (if udp_is_closed c then [] else datagrams_of lw c evs) \<and>
      (case r of
         Inl err \<Rightarrow> c' = c\<lparr>udp_rx_queue := q\<rparr>
       | Inr bs \<Rightarrow> (q = [] \<and> bs = [] \<and> c' = c) \<or>
           (\<exists>d. q = d # udp_rx_queue c' \<and> bs = take n (dg_data d) \<and> c' = c\<lparr>udp_rx_queue := udp_rx_queue c'\<rparr>))"
    by blast
  show "now (env w) \<le> now (env w')" if "lwip_keeps_time lw now"
    using all [of now] t(2) that arch_poll_time [OF that, of w] by simp
qed

end
