(* ===== verification/Udp_Listener.thy ===== *)
theory Udp_Listener
  imports Udp_Connection
begin

text \<open>
  \<^verbatim>\<open>UdpListener\<close> (\<^verbatim>\<open>pico_net/src/udp_listener.cpp\<close>) with the connections it makes. A connection
  is reached from the listener's table and queue, from the user who has accepted it, and itself
  points back to the listener, so the objects live in a heap and are known by their addresses;
  following an address with no object behind it is a fault.
\<close>

section \<open>Objects\<close>

record UdpListener =
  udpl_pcb :: "pcb option"
  udpl_local_addr :: Address
  udpl_is_closed :: bool
  udpl_has_error :: bool
  udpl_last_error_message :: string
  pending_connections :: "obj list"
  active_connections :: "string \<rightharpoonup> obj"

text \<open>
  The heap: the objects by address, and the next address \<^verbatim>\<open>new\<close> will return, which is never one
  in use.
\<close>

record 'e UdpHeap =
  hworld :: "'e World"
  udp_listeners :: "obj \<rightharpoonup> UdpListener"
  udp_connections :: "obj \<rightharpoonup> UdpConnection"
  next_object :: obj

definition deref :: "(obj \<rightharpoonup> 'a) \<Rightarrow> obj \<Rightarrow> 'a result" where
  "deref objects a = (case objects a of None \<Rightarrow> Inl NullDeref | Some x \<Rightarrow> Inr x)"

lemma deref_Some [simp]: "objects a = Some x \<Longrightarrow> deref objects a = Inr x"
  by (simp add: deref_def)

definition put_listener :: "obj \<Rightarrow> UdpListener \<Rightarrow> 'e UdpHeap \<Rightarrow> 'e UdpHeap" where
  "put_listener a l h = h\<lparr>udp_listeners := (udp_listeners h)(a \<mapsto> l)\<rparr>"

definition put_connection :: "obj \<Rightarrow> UdpConnection \<Rightarrow> 'e UdpHeap \<Rightarrow> 'e UdpHeap" where
  "put_connection a c h = h\<lparr>udp_connections := (udp_connections h)(a \<mapsto> c)\<rparr>"

definition heap_call :: "'e Lwip \<Rightarrow> LwipCall \<Rightarrow> 'e UdpHeap \<Rightarrow> 'e UdpHeap" where
  "heap_call lw k h = h\<lparr>hworld := call_void lw k (hworld h)\<rparr>"

lemma heap_sel [simp]:
  "udp_listeners (put_listener a l h) = (udp_listeners h)(a \<mapsto> l)"
  "udp_connections (put_listener a l h) = udp_connections h"
  "next_object (put_listener a l h) = next_object h"
  "hworld (put_listener a l h) = hworld h"
  "udp_listeners (put_connection a c h) = udp_listeners h"
  "udp_connections (put_connection a c h) = (udp_connections h)(a \<mapsto> c)"
  "next_object (put_connection a c h) = next_object h"
  "hworld (put_connection a c h) = hworld h"
  "udp_listeners (heap_call lw k h) = udp_listeners h"
  "udp_connections (heap_call lw k h) = udp_connections h"
  "next_object (heap_call lw k h) = next_object h"
  by (simp_all add: put_listener_def put_connection_def heap_call_def)

definition new_UdpListener :: "pcb \<Rightarrow> Address \<Rightarrow> UdpListener" where
  "new_UdpListener p local_addr =
     \<lparr>udpl_pcb = Some p, udpl_local_addr = local_addr, udpl_is_closed = False, udpl_has_error = False,
      udpl_last_error_message = [], pending_connections = [], active_connections = Map.empty\<rparr>"

section \<open>Keys\<close>

text \<open>\<^verbatim>\<open>std::to_string\<close> of a port, in decimal.\<close>

fun decimal :: "nat \<Rightarrow> string" where
  "decimal n = (if n < 10 then [char_of (48 + n)] else decimal (n div 10) @ [char_of (48 + n mod 10)])"

declare decimal.simps [simp del]

definition make_peer_key :: "Address \<Rightarrow> string" where
  "make_peer_key a = address_ip a @ '':'' @ decimal (unat (address_port a))"

section \<open>Callbacks\<close>

definition udpl_attach_callbacks :: "'e Lwip \<Rightarrow> obj \<Rightarrow> 'e UdpHeap \<Rightarrow> 'e UdpHeap result" where
  "udpl_attach_callbacks lw this h =
     bindE (deref (udp_listeners h) this) (\<lambda>l.
       case udpl_pcb l of
         None \<Rightarrow> Inl NullDeref
       | Some p \<Rightarrow> Inr (heap_call lw (UdpRecv p (Some this)) h))"

definition udpl_handle_udp_recv ::
  "'e Lwip \<Rightarrow> obj \<Rightarrow> u8 list option \<Rightarrow> ip_addr_t option \<Rightarrow> u16 \<Rightarrow> 'e UdpHeap \<Rightarrow> 'e UdpHeap result" where
  "udpl_handle_udp_recv lw this p addr port h =
     bindE (deref (udp_listeners h) this) (\<lambda>l.
       if udpl_is_closed l
       then Inr (case p of None \<Rightarrow> h | Some bs \<Rightarrow> heap_call lw (PbufFree bs) h)
       else case p of
         None \<Rightarrow> Inr h
       | Some bs \<Rightarrow>
           (case addr of
              Some (IPADDR_TYPE_V4 a) \<Rightarrow>
                let remote_addr = \<lparr>address_network = ''udp'', address_ip = lwip_ntoa lw a, address_port = port\<rparr>;
                    datagram = \<lparr>dg_data = bs, dg_from = remote_addr\<rparr>;
                    h = heap_call lw (PbufFree bs) h;
                    key = make_peer_key remote_addr
                in (case active_connections l key of
                      Some existing \<Rightarrow>
                        bindE (deref (udp_connections h) existing) (\<lambda>c.
                          Inr (put_connection existing (udp_enqueue_datagram datagram c) h))
                    | None \<Rightarrow>
                        let conn = next_object h;
                            c = udp_enqueue_datagram datagram
                              (new_UdpConnection conn (udpl_pcb l) (udpl_local_addr l) remote_addr False (Some this));
                            h = put_connection conn c (h\<lparr>next_object := conn + 1\<rparr>)
                        in Inr (put_listener this
                             (l\<lparr>active_connections := (active_connections l)(key \<mapsto> conn),
                                pending_connections := pending_connections l @ [conn]\<rparr>) h))
            | _ \<Rightarrow> Inr (heap_call lw (PbufFree bs) h)))"

definition udpl_recv_callback ::
  "'e Lwip \<Rightarrow> obj option \<Rightarrow> u8 list option \<Rightarrow> ip_addr_t option \<Rightarrow> u16 \<Rightarrow> 'e UdpHeap \<Rightarrow> 'e UdpHeap result" where
  "udpl_recv_callback lw arg p addr port h =
     (case arg of
        None \<Rightarrow> Inr (case p of None \<Rightarrow> h | Some bs \<Rightarrow> heap_call lw (PbufFree bs) h)
      | Some this \<Rightarrow> udpl_handle_udp_recv lw this p addr port h)"

text \<open>
  A callback goes to the object that is its argument; one whose argument is neither a listener nor a
  connection of the heap concerns another part of the program.
\<close>

definition heap_dispatch :: "'e Lwip \<Rightarrow> LwipEvent \<Rightarrow> 'e UdpHeap \<Rightarrow> 'e UdpHeap result" where
  "heap_dispatch lw ev h =
     (case ev of
        UdpRecvEvent (Some a) pcb p addr port \<Rightarrow>
          if udp_listeners h a \<noteq> None then udpl_recv_callback lw (Some a) p addr port h
          else (case udp_connections h a of
                  Some c \<Rightarrow> (let (c, w) = handle_udp_recv lw p addr port c (hworld h)
                             in Inr (put_connection a c (h\<lparr>hworld := w\<rparr>)))
                | None \<Rightarrow> Inr h)
      | _ \<Rightarrow> Inr h)"

fun heap_dispatch_all :: "'e Lwip \<Rightarrow> LwipEvent list \<Rightarrow> 'e UdpHeap \<Rightarrow> 'e UdpHeap result" where
  "heap_dispatch_all lw [] h = Inr h"
| "heap_dispatch_all lw (ev # evs) h = bindE (heap_dispatch lw ev h) (heap_dispatch_all lw evs)"

definition heap_poll :: "'e Lwip \<Rightarrow> 'e UdpHeap \<Rightarrow> 'e UdpHeap result" where
  "heap_poll lw h = (let (evs, w) = arch_poll lw (hworld h) in heap_dispatch_all lw evs (h\<lparr>hworld := w\<rparr>))"

section \<open>Operations\<close>

definition udpl_remove_connection :: "obj \<Rightarrow> Address \<Rightarrow> 'e UdpHeap \<Rightarrow> 'e UdpHeap result" where
  "udpl_remove_connection this remote_addr h =
     bindE (deref (udp_listeners h) this) (\<lambda>l.
       Inr (put_listener this
         (l\<lparr>active_connections := (active_connections l)(make_peer_key remote_addr := None)\<rparr>) h))"

text \<open>\<^verbatim>\<open>UdpConnection::close\<close> through a pointer, with its call of the listener; and \<^verbatim>\<open>delete\<close>.\<close>

definition peer_close :: "'e Lwip \<Rightarrow> obj \<Rightarrow> 'e UdpHeap \<Rightarrow> 'e UdpHeap result" where
  "peer_close lw a h =
     bindE (deref (udp_connections h) a) (\<lambda>c.
       let (removal, c, w) = udp_close lw c (hworld h);
           h = put_connection a c (h\<lparr>hworld := w\<rparr>)
       in case removal of
            None \<Rightarrow> Inr h
          | Some (l, remote_addr) \<Rightarrow> udpl_remove_connection l remote_addr h)"

definition peer_delete :: "'e Lwip \<Rightarrow> obj \<Rightarrow> 'e UdpHeap \<Rightarrow> 'e UdpHeap result" where
  "peer_delete lw a h =
     bindE (peer_close lw a h) (\<lambda>h. Inr (h\<lparr>udp_connections := (udp_connections h)(a := None)\<rparr>))"

definition peer_read_nonblocking :: "'e Lwip \<Rightarrow> nat \<Rightarrow> obj \<Rightarrow> 'e UdpHeap \<Rightarrow> (u8 list result \<times> 'e UdpHeap) result" where
  "peer_read_nonblocking lw n a h =
     (if n = 0 then Inr (Inr [], h)
      else bindE (heap_poll lw h) (\<lambda>h.
        bindE (deref (udp_connections h) a) (\<lambda>c.
          let (r, c) = udp_take n c in Inr (r, put_connection a c h))))"

definition peer_write :: "'e Lwip \<Rightarrow> u8 list \<Rightarrow> obj \<Rightarrow> 'e UdpHeap \<Rightarrow> (nat result \<times> 'e UdpHeap) result" where
  "peer_write lw bs a h =
     bindE (deref (udp_connections h) a) (\<lambda>c.
       let (r, c, w) = udp_write lw bs c (hworld h) in Inr (r, put_connection a c (h\<lparr>hworld := w\<rparr>)))"

definition udpl_accept_nonblocking :: "'e Lwip \<Rightarrow> obj \<Rightarrow> 'e UdpHeap \<Rightarrow> (obj option result \<times> 'e UdpHeap) result" where
  "udpl_accept_nonblocking lw this h =
     bindE (deref (udp_listeners h) this) (\<lambda>l.
       if udpl_is_closed l then Inr (Inl (Error ''listener is closed''), h)
       else if udpl_has_error l then Inr (Inl (Error (udpl_last_error_message l)), h)
       else bindE (heap_poll lw h) (\<lambda>h.
         bindE (deref (udp_listeners h) this) (\<lambda>l.
           case pending_connections l of
             [] \<Rightarrow> Inr (Inr None, h)
           | conn # conns \<Rightarrow> Inr (Inr (Some conn), put_listener this (l\<lparr>pending_connections := conns\<rparr>) h))))"

definition udpl_accept ::
  "'e Platform \<Rightarrow> 'e Lwip \<Rightarrow> obj \<Rightarrow> 'e UdpHeap \<Rightarrow> (obj result \<times> obj \<times> 'e UdpHeap) option" where
  "udpl_accept pf lw this h =
     accept_loop (\<lambda>h. h\<lparr>hworld := sleep_ms (world_platform pf) 10 (hworld h)\<rparr>)
       (\<lambda>this h. case udpl_accept_nonblocking lw this h of
          Inl fault \<Rightarrow> (Inl fault, this, h)
        | Inr (r, h) \<Rightarrow> (r, this, h)) this h"

primrec close_all :: "'e Lwip \<Rightarrow> obj list \<Rightarrow> 'e UdpHeap \<Rightarrow> 'e UdpHeap result" where
  "close_all lw [] h = Inr h"
| "close_all lw (a # as) h = bindE (peer_close lw a h) (close_all lw as)"

primrec delete_all :: "'e Lwip \<Rightarrow> obj list \<Rightarrow> 'e UdpHeap \<Rightarrow> 'e UdpHeap result" where
  "delete_all lw [] h = Inr h"
| "delete_all lw (a # as) h = bindE (peer_delete lw a h) (delete_all lw as)"

definition udpl_close :: "'e Lwip \<Rightarrow> obj \<Rightarrow> 'e UdpHeap \<Rightarrow> (Error option \<times> 'e UdpHeap) result" where
  "udpl_close lw this h =
     bindE (deref (udp_listeners h) this) (\<lambda>l.
       case udpl_pcb l of
         None \<Rightarrow> Inr (None, put_listener this (l\<lparr>udpl_is_closed := True\<rparr>) h)
       | Some p \<Rightarrow>
           bindE (close_all lw (pending_connections l) (heap_call lw (UdpRecv p None) h)) (\<lambda>h.
           bindE (delete_all lw (pending_connections l) h) (\<lambda>h.
           bindE (deref (udp_listeners h) this) (\<lambda>l.
             Inr (None, put_listener this
               (l\<lparr>pending_connections := [], active_connections := Map.empty, udpl_pcb := None,
                  udpl_is_closed := True\<rparr>) (heap_call lw (UdpRemove p) h))))))"

definition udpl_delete :: "'e Lwip \<Rightarrow> obj \<Rightarrow> 'e UdpHeap \<Rightarrow> 'e UdpHeap result" where
  "udpl_delete lw this h =
     bindE (udpl_close lw this h) (\<lambda>(ignored, h).
       Inr (h\<lparr>udp_listeners := (udp_listeners h)(this := None)\<rparr>))"

definition udpl_handle_udp_error :: "string \<Rightarrow> UdpListener \<Rightarrow> UdpListener" where
  "udpl_handle_udp_error msg l = l\<lparr>udpl_has_error := True, udpl_last_error_message := msg\<rparr>"

text \<open>
  The class as an implementation of \<open>Listener\<close>, through a pointer to the object. A fault is the
  error of the function that commits it.
\<close>

definition udpl_ops :: "'e Platform \<Rightarrow> 'e Lwip \<Rightarrow> (obj, obj, 'e UdpHeap) Listener" where
  "udpl_ops pf lw =
     \<lparr>lst_accept = udpl_accept pf lw,
      lst_close = (\<lambda>this h. case udpl_close lw this h of
         Inl fault \<Rightarrow> (Some fault, this, h) | Inr (err, h) \<Rightarrow> (err, this, h)),
      lst_address = (\<lambda>this h. bindE (deref (udp_listeners h) this) (\<lambda>l. Inr (udpl_local_addr l))),
      lst_accept_nonblocking = (\<lambda>this h. case udpl_accept_nonblocking lw this h of
         Inl fault \<Rightarrow> (Inl fault, this, h) | Inr (r, h) \<Rightarrow> (r, this, h))\<rparr>"

end
