(* ===== verification/Network.thy ===== *)
theory Network
  imports Tcp_Listener Udp_Listener Dhcp_Server Dns_Server
begin

text \<open>
  \<^verbatim>\<open>Network\<close> (\<^verbatim>\<open>pico_net/src/network.cpp\<close>): bringing the radio up as a station or as an access
  point, and making connections and listeners. The object keeps a pointer to the DNS server that
  was added to it, so the DNS servers are known by their addresses. A dial keeps its state on the
  stack and registers the address of it as the argument of the control block.
\<close>

section \<open>State\<close>

record Network =
  is_initialized :: bool
  is_connected_to_station_wifi :: bool
  is_access_point_active :: bool
  dhcp_server :: DhcpServer
  attached_dns_server :: "obj option"

definition new_Network :: "obj \<Rightarrow> Network" where
  "new_Network dhcp =
     \<lparr>is_initialized = False, is_connected_to_station_wifi = False, is_access_point_active = False,
      dhcp_server = new_DhcpServer dhcp, attached_dns_server = None\<rparr>"

definition is_ready :: "Network \<Rightarrow> bool" where
  "is_ready net \<longleftrightarrow> is_connected_to_station_wifi net \<or> is_access_point_active net"

record TcpDialState =
  dial_done :: bool
  dial_success :: bool
  dial_error :: err_t
  connected_pcb :: "pcb option"

definition new_TcpDialState :: TcpDialState where
  "new_TcpDialState = \<lparr>dial_done = False, dial_success = False, dial_error = ERR_OK, connected_pcb = None\<rparr>"

section \<open>The radio\<close>

definition initialize :: "'e Lwip \<Rightarrow> Network \<Rightarrow> 'e World \<Rightarrow> Error option \<times> Network \<times> 'e World" where
  "initialize lw net w =
     (if is_initialized net then (None, net, w)
      else
        let (err, w) = call lw Cyw43Init w
        in if err \<noteq> ERR_OK then (Some (Error ''cyw43_arch_init failed''), net, w)
           else (None, net\<lparr>is_initialized := True\<rparr>, w))"

definition connect_to_wifi_station ::
  "'e Lwip \<Rightarrow> string \<Rightarrow> string \<Rightarrow> u32 \<Rightarrow> Network \<Rightarrow> 'e World \<Rightarrow> Error option \<times> Network \<times> 'e World" where
  "connect_to_wifi_station lw ssid password timeout_ms net w =
     (if \<not> is_initialized net then (Some (Error ''Network not initialized''), net, w)
      else if is_access_point_active net
      then (Some (Error ''Cannot connect to WiFi station while in AP mode''), net, w)
      else if is_connected_to_station_wifi net
      then (Some (Error ''Already connected to WiFi station''), net, w)
      else
        let w = call_void lw Cyw43EnableSta w;
            (res, w) = call lw (Cyw43WifiConnect ssid password timeout_ms) w
        in if res \<noteq> ERR_OK then (Some (Error ''WiFi connect failed''), net, w)
           else (None, net\<lparr>is_connected_to_station_wifi := True\<rparr>, w))"

definition setup_wifi_access_point ::
  "'e Lwip \<Rightarrow> string \<Rightarrow> string \<Rightarrow> Network \<Rightarrow> 'e World \<Rightarrow> Error option \<times> Network \<times> 'e World" where
  "setup_wifi_access_point lw ssid password net w =
     (if \<not> is_initialized net then (Some (Error ''Network not initialized''), net, w)
      else if is_connected_to_station_wifi net
      then (Some (Error ''Cannot set up WiFi access point while in station mode''), net, w)
      else if is_access_point_active net then (Some (Error ''Already in AP mode''), net, w)
      else
        let w = call_void lw (Cyw43EnableAp ssid password) w;
            (dhcp_err, dhcp, w) = dhcp_start_string lw ''192.168.4.1'' ''255.255.255.0'' (dhcp_server net) w;
            net = net\<lparr>dhcp_server := dhcp\<rparr>
        in case dhcp_err of
             Some err \<Rightarrow> (Some err, net, w)
           | None \<Rightarrow> (None, net\<lparr>is_access_point_active := True\<rparr>, w))"

text \<open>The DNS server is passed by reference: it is returned, and its address is kept.\<close>

definition add_dns_server ::
  "'e Lwip \<Rightarrow> DnsServer \<Rightarrow> Network \<Rightarrow> 'e World \<Rightarrow> Error option \<times> DnsServer \<times> Network \<times> 'e World" where
  "add_dns_server lw dns net w =
     (if \<not> is_initialized net then (Some (Error ''Network not initialized''), dns, net, w)
      else if \<not> is_access_point_active net
      then (Some (Error ''DNS server requires access point mode''), dns, net, w)
      else case lwip_netif_ip lw (env w) of
        None \<Rightarrow> (Some (Error ''No local IP address''), dns, net, w)
      | Some ip \<Rightarrow>
          let (err, dns, w) = dns_start lw (IPADDR_TYPE_V4 ip) dns w
          in case err of
               Some e \<Rightarrow> (Some e, dns, net, w)
             | None \<Rightarrow> (None, dns, net\<lparr>attached_dns_server := Some (dns_this dns)\<rparr>, w))"

text \<open>
  The destructor, over the DNS servers that exist when it runs; the DHCP server is a member and is
  destroyed after it.
\<close>

definition network_destroy ::
  "'e Lwip \<Rightarrow> Network \<Rightarrow> (obj \<rightharpoonup> DnsServer) \<Rightarrow> 'e World \<Rightarrow> ((obj \<rightharpoonup> DnsServer) \<times> 'e World) result" where
  "network_destroy lw net servers w =
     (let w = (if is_connected_to_station_wifi net then call_void lw Cyw43Deinit w else w);
          (dhcp, w) =
            (if is_access_point_active net
             then (let (err, dhcp, w) = dhcp_stop lw (dhcp_server net) w in (dhcp, call_void lw Cyw43Deinit w))
             else (dhcp_server net, w))
      in bindE
           (case attached_dns_server net of
              None \<Rightarrow> Inr (servers, w)
            | Some a \<Rightarrow>
                (case servers a of
                   None \<Rightarrow> Inl NullDeref
                 | Some dns \<Rightarrow> (let (err, dns, w) = dns_stop lw dns w in Inr (servers(a \<mapsto> dns), w))))
           (\<lambda>(servers, w). Inr (servers, dhcp_destroy lw dhcp w)))"

section \<open>Dialling\<close>

definition tcp_dial_connected_callback ::
  "TcpDialState option \<Rightarrow> pcb \<Rightarrow> err_t \<Rightarrow> (err_t \<times> TcpDialState) result" where
  "tcp_dial_connected_callback arg p err =
     (case arg of
        None \<Rightarrow> Inl NullDeref
      | Some state \<Rightarrow>
          let state = state\<lparr>dial_done := True, dial_error := err\<rparr>
          in Inr (ERR_OK, if err = ERR_OK then state\<lparr>dial_success := True, connected_pcb := Some p\<rparr> else state))"

text \<open>
  The callbacks of a poll, as far as they concern the dial whose state is at address \<open>at\<close>; a
  connected callback without an argument is one without a state to write to.
\<close>

definition dial_dispatch :: "obj \<Rightarrow> LwipEvent \<Rightarrow> TcpDialState \<Rightarrow> TcpDialState result" where
  "dial_dispatch at ev state =
     (case ev of
        TcpConnectedEvent None p err \<Rightarrow> bindE (tcp_dial_connected_callback None p err) (\<lambda>(e, s). Inr s)
      | TcpConnectedEvent (Some a) p err \<Rightarrow>
          if a = at then bindE (tcp_dial_connected_callback (Some state) p err) (\<lambda>(e, s). Inr s)
          else Inr state
      | _ \<Rightarrow> Inr state)"

fun dial_dispatch_all :: "obj \<Rightarrow> LwipEvent list \<Rightarrow> TcpDialState \<Rightarrow> TcpDialState result" where
  "dial_dispatch_all at [] state = Inr state"
| "dial_dispatch_all at (ev # evs) state = bindE (dial_dispatch at ev state) (dial_dispatch_all at evs)"

definition dial_cleanup :: "'e Lwip \<Rightarrow> pcb \<Rightarrow> string \<Rightarrow> 'e World \<Rightarrow> 'a result \<times> 'e World" where
  "dial_cleanup lw p error_message w =
     (let w = call_void lw (TcpArg p None) w;
          (close_error, w) = call lw (TcpClose p) w;
          w = (if close_error \<noteq> ERR_OK then call_void lw (TcpAbort (Some p)) w else w)
      in (Inl (Error error_message), w))"

text \<open>The waiting loop: \<open>Inr None\<close> when the time is over before the callback.\<close>

partial_function (option) dial_wait ::
  "'e Platform \<Rightarrow> 'e Lwip \<Rightarrow> obj \<Rightarrow> absolute_time_t \<Rightarrow> TcpDialState \<Rightarrow> 'e World \<Rightarrow>
     (TcpDialState option result \<times> 'e World) option" where
  "dial_wait pf lw at until state w =
     (if dial_done state then Some (Inr (Some state), w)
      else case arch_poll lw w of (evs, w) \<Rightarrow>
        (case dial_dispatch_all at evs state of
           Inl fault \<Rightarrow> Some (Inl fault, w)
         | Inr state \<Rightarrow>
             (case get_absolute_time (world_platform pf) (sleep_ms (world_platform pf) 10 w) of (now, w) \<Rightarrow>
                if absolute_time_diff_us (world_platform pf) now until \<le> 0 then Some (Inr None, w)
                else dial_wait pf lw at until state w)))"

definition local_ip :: "'e Lwip \<Rightarrow> 'e World \<Rightarrow> string" where
  "local_ip lw w = (case lwip_netif_ip lw (env w) of None \<Rightarrow> [] | Some ip \<Rightarrow> lwip_ntoa lw ip)"

text \<open>What follows the loop.\<close>

definition dial_finish ::
  "'e Lwip \<Rightarrow> pcb \<Rightarrow> Address \<Rightarrow> TcpDialState \<Rightarrow> 'e World \<Rightarrow> TcpConnection result \<times> 'e World" where
  "dial_finish lw p address state w =
     (case connected_pcb state of
        None \<Rightarrow> dial_cleanup lw p ''tcp connect failed'' w
      | Some q \<Rightarrow>
          if \<not> dial_success state then dial_cleanup lw p ''tcp connect failed'' w
          else
            let local_addr = \<lparr>address_network = ''tcp'', address_ip = local_ip lw w,
                  address_port = lwip_local_port lw q (env w)\<rparr>;
                (this, w) = on_env (new_object lw) w;
                conn = new_TcpConnection this q local_addr address
            in case tcp_attach_callbacks lw conn w of
                 Inl fault \<Rightarrow> (Inl fault, w)
               | Inr w \<Rightarrow> (Inr conn, w))"

text \<open>What precedes the loop: the control block, with the address of the state as its argument.\<close>

definition dial_start ::
  "'e Lwip \<Rightarrow> Network \<Rightarrow> Address \<Rightarrow> 'e World \<Rightarrow> (pcb \<times> obj) result \<times> 'e World" where
  "dial_start lw net address w =
     (if \<not> is_initialized net then (Inl (Error ''Network not initialized''), w)
      else if \<not> is_ready net then (Inl (Error ''Network not ready''), w)
      else case lwip_aton lw (address_ip address) of
        None \<Rightarrow> (Inl (Error ''Invalid IPv4 address format''), w)
      | Some remote_address \<Rightarrow>
          let (pcb, w) = on_env (lwip_tcp_new lw) w
          in case pcb of
               None \<Rightarrow> (Inl (Error ''tcp_new failed''), w)
             | Some p \<Rightarrow>
                 let (at, w) = on_env (new_object lw) w;
                     w = call_void lw (TcpArg p (Some at)) w;
                     (err, w) = call lw (TcpConnect p remote_address (address_port address)) w
                 in if err \<noteq> ERR_OK then dial_cleanup lw p ''tcp_connect failed'' w
                    else (Inr (p, at), w))"

definition dial_tcp ::
  "'e Platform \<Rightarrow> 'e Lwip \<Rightarrow> Network \<Rightarrow> Address \<Rightarrow> u32 \<Rightarrow> 'e World \<Rightarrow> (TcpConnection result \<times> 'e World) option" where
  "dial_tcp pf lw net address timeout_ms w =
     (case dial_start lw net address w of
        (Inl err, w) \<Rightarrow> Some (Inl err, w)
      | (Inr (p, at), w) \<Rightarrow>
          let (until, w) = make_timeout_time_ms (world_platform pf) timeout_ms w
          in case dial_wait pf lw at until new_TcpDialState w of
               None \<Rightarrow> None
             | Some (Inl fault, w) \<Rightarrow> Some (Inl fault, w)
             | Some (Inr None, w) \<Rightarrow> Some (dial_cleanup lw p ''tcp connect timeout'' w)
             | Some (Inr (Some state), w) \<Rightarrow> Some (dial_finish lw p address state w))"

definition dial_udp ::
  "'e Lwip \<Rightarrow> Network \<Rightarrow> Address \<Rightarrow> 'e World \<Rightarrow> UdpConnection result \<times> 'e World" where
  "dial_udp lw net address w =
     (if \<not> is_initialized net then (Inl (Error ''Network not initialized''), w)
      else if \<not> is_ready net then (Inl (Error ''Network not ready''), w)
      else case lwip_aton lw (address_ip address) of
        None \<Rightarrow> (Inl (Error ''Invalid IPv4 address format''), w)
      | Some remote_ip \<Rightarrow>
          let (pcb, w) = on_env (lwip_udp_new lw) w
          in case pcb of
               None \<Rightarrow> (Inl (Error ''udp_new failed''), w)
             | Some p \<Rightarrow>
                 let (err, w) = call lw (UdpConnect p remote_ip (address_port address)) w
                 in if err \<noteq> ERR_OK
                    then (Inl (Error ''udp_connect failed''), call_void lw (UdpRemove p) w)
                    else
                      let local_addr = \<lparr>address_network = ''udp'', address_ip = local_ip lw w,
                            address_port = lwip_local_port lw p (env w)\<rparr>;
                          (this, w) = on_env (new_object lw) w;
                          conn = new_UdpConnection this (Some p) local_addr address True None
                      in (Inr conn, udp_attach_callbacks lw conn w))"

section \<open>Listening\<close>

definition listen_tcp :: "'e Lwip \<Rightarrow> Network \<Rightarrow> u16 \<Rightarrow> 'e World \<Rightarrow> TcpListener result \<times> 'e World" where
  "listen_tcp lw net port w =
     (if \<not> is_initialized net then (Inl (Error ''Network not initialized''), w)
      else if \<not> is_ready net then (Inl (Error ''Network not ready''), w)
      else
        let (pcb, w) = on_env (lwip_tcp_new lw) w
        in case pcb of
             None \<Rightarrow> (Inl (Error ''tcp_new failed''), w)
           | Some p \<Rightarrow>
               let (err, w) = call lw (TcpBind p port) w
               in if err \<noteq> ERR_OK
                  then (Inl (Error ''tcp_bind failed''), call_void lw (TcpAbort (Some p)) w)
                  else
                    let (pcb, w) = on_env (lwip_tcp_listen lw p 4) w
                    in case pcb of
                         None \<Rightarrow> (Inl (Error ''tcp_listen_with_backlog failed''), call_void lw (TcpAbort None) w)
                       | Some q \<Rightarrow>
                           let local_addr = \<lparr>address_network = ''tcp'', address_ip = local_ip lw w,
                                 address_port = port\<rparr>;
                               (this, w) = on_env (new_object lw) w;
                               listener = new_TcpListener this q local_addr
                           in case tcpl_attach_callbacks lw listener w of
                                Inl fault \<Rightarrow> (Inl fault, w)
                              | Inr w \<Rightarrow> (Inr listener, w))"

text \<open>A UDP listener shares its objects with its connections and is made in their heap.\<close>

definition listen_udp ::
  "'e Lwip \<Rightarrow> Network \<Rightarrow> u16 \<Rightarrow> 'e UdpHeap \<Rightarrow> (obj result \<times> 'e UdpHeap) result" where
  "listen_udp lw net port h =
     (if \<not> is_initialized net then Inr (Inl (Error ''Network not initialized''), h)
      else if \<not> is_ready net then Inr (Inl (Error ''Network not ready''), h)
      else
        let (pcb, w) = on_env (lwip_udp_new lw) (hworld h)
        in case pcb of
             None \<Rightarrow> Inr (Inl (Error ''udp_new failed''), h\<lparr>hworld := w\<rparr>)
           | Some p \<Rightarrow>
               let (err, w) = call lw (UdpBind p (Some (IPADDR_TYPE_V4 (IP4 0 0 0 0))) port) w
               in if err \<noteq> ERR_OK
                  then Inr (Inl (Error ''udp_bind failed''), h\<lparr>hworld := call_void lw (UdpRemove p) w\<rparr>)
                  else
                    let local_addr = \<lparr>address_network = ''udp'', address_ip = local_ip lw w,
                          address_port = port\<rparr>;
                        this = next_object h;
                        h = put_listener this (new_UdpListener p local_addr)
                              (h\<lparr>hworld := w, next_object := this + 1\<rparr>)
                    in bindE (udpl_attach_callbacks lw this h) (\<lambda>h. Inr (Inr this, h)))"

end
