(* ===== verification/Udp_Listener_Laws.thy ===== *)
theory Udp_Listener_Laws
  imports Udp_Listener
begin

text \<open>
  The correctness of \<^verbatim>\<open>UdpListener\<close>: the table of active connections agrees with the objects of
  the heap whatever happens, no operation follows a dangling pointer while the listener lives,
  and the datagrams of each peer reach that peer's connection, in order and no other.
\<close>

section \<open>Keys\<close>

lemma decimal_digits: "c \<in> set (decimal n) \<Longrightarrow> \<exists>d<10. c = char_of (48 + d :: nat)"
proof (induction n rule: decimal.induct)
  case (1 n)
  show ?case
  proof (cases "n < 10")
    case True
    then show ?thesis using 1(2) by (intro exI [of _ n]) (simp add: decimal.simps [of n])
  next
    case False
    then consider "c \<in> set (decimal (n div 10))" | "c = char_of (48 + n mod 10)"
      using 1(2) by (auto simp: decimal.simps [of n])
    then show ?thesis
    proof cases
      case 1
      then show ?thesis using "1.IH" False by blast
    next
      case 2
      then show ?thesis by (intro exI [of _ "n mod 10"]) simp
    qed
  qed
qed

lemma decimal_no_colon: "CHR '':'' \<notin> set (decimal n)"
proof
  assume "CHR '':'' \<in> set (decimal n)"
  then obtain d where "d < 10" "CHR '':'' = char_of (48 + d :: nat)" using decimal_digits by blast
  then have "(of_char CHR '':'' :: nat) = 48 + d" by simp
  then show False using \<open>d < 10\<close> by simp
qed

lemma decimal_nonempty [simp]: "decimal n \<noteq> []" "[] \<noteq> decimal n"
  by (simp_all add: decimal.simps [of n])

lemma digit_inj: "d < 10 \<Longrightarrow> e < 10 \<Longrightarrow> char_of (48 + d :: nat) = char_of (48 + e) \<Longrightarrow> d = e"
  by simp

lemma decimal_inj: "decimal m = decimal n \<Longrightarrow> m = n"
proof (induction m arbitrary: n rule: less_induct)
  case (less m)
  have split: "decimal k = (if k < 10 then [] else decimal (k div 10)) @ [char_of (48 + k mod 10)]" for k
    by (simp add: decimal.simps [of k])
  have eq: "(if m < 10 then [] else decimal (m div 10)) = (if n < 10 then [] else decimal (n div 10))"
      "char_of (48 + m mod 10) = (char_of (48 + n mod 10) :: char)"
    using less.prems unfolding split [of m] split [of n] by (simp_all only: append1_eq_conv)
  have "m mod 10 = n mod 10" using digit_inj eq(2) by simp
  moreover have "m div 10 = n div 10"
  proof (cases "m < 10 \<or> n < 10")
    case True
    then show ?thesis using eq(1) by (auto split: if_splits)
  next
    case False
    then show ?thesis using eq(1) by (intro less.IH) simp_all
  qed
  ultimately show ?case by (metis mod_mult_div_eq)
qed

lemma split_at_last:
  assumes "xs @ c # ys = xs' @ c # ys'" and "c \<notin> set ys" and "c \<notin> set ys'"
  shows "xs = xs' \<and> ys = ys'"
proof -
  have t: "takeWhile (\<lambda>x. x \<noteq> c) (rev (zs @ c # us)) = rev us" if "c \<notin> set us" for zs us
    using that by (auto simp: takeWhile_append2 takeWhile_tail intro: takeWhile_eq_all_conv [THEN iffD2])
  have "rev ys = rev ys'" using t [OF assms(2), of xs] t [OF assms(3), of xs'] assms(1) by simp
  then show ?thesis using assms(1) by simp
qed

text \<open>Different peers have different keys.\<close>

lemma make_peer_key_inj:
  "make_peer_key a = make_peer_key b \<longleftrightarrow> address_ip a = address_ip b \<and> address_port a = address_port b"
proof
  assume "make_peer_key a = make_peer_key b"
  then have "address_ip a @ CHR '':'' # decimal (unat (address_port a)) =
      address_ip b @ CHR '':'' # decimal (unat (address_port b))"
    by (simp add: make_peer_key_def)
  from split_at_last [OF this decimal_no_colon decimal_no_colon]
  show "address_ip a = address_ip b \<and> address_port a = address_port b"
    using decimal_inj by (auto simp: word_unat_eq_iff)
qed (simp add: make_peer_key_def)

section \<open>The invariant\<close>

text \<open>A connection that the table of the listener must hold, under the key of its peer.\<close>

definition member :: "obj \<Rightarrow> UdpListener \<Rightarrow> string \<Rightarrow> UdpConnection \<Rightarrow> bool" where
  "member this l k c \<longleftrightarrow> k = make_peer_key (udp_remote_addr c) \<and> udp_listener_owner c = Some this \<and>
     udp_pcb c = udpl_pcb l \<and> \<not> udp_is_closed c"

definition connection_ok :: "obj \<Rightarrow> UdpListener \<Rightarrow> UdpConnection \<Rightarrow> bool" where
  "connection_ok this l c \<longleftrightarrow> (udp_pcb c = None \<longleftrightarrow> udp_is_closed c) \<and>
     (case udp_listener_owner c of
        None \<Rightarrow> True
      | Some l' \<Rightarrow> l' = this \<and> \<not> udp_owns_pcb c \<and> (udpl_is_closed l \<or> udp_pcb c = udpl_pcb l \<and> \<not> udp_is_closed c))"

definition table_ok :: "obj \<Rightarrow> UdpListener \<Rightarrow> 'e UdpHeap \<Rightarrow> bool" where
  "table_ok this l h \<longleftrightarrow>
     udp_listeners h = [this \<mapsto> l] \<and> udp_connections h this = None \<and> this < next_object h \<and>
     (udpl_is_closed l \<longleftrightarrow> udpl_pcb l = None) \<and>
     (udpl_is_closed l \<longrightarrow> active_connections l = Map.empty) \<and>
     (\<forall>a c. udp_connections h a = Some c \<longrightarrow> a < next_object h \<and> connection_ok this l c) \<and>
     (\<forall>k a. active_connections l k = Some a \<longleftrightarrow> (\<exists>c. udp_connections h a = Some c \<and> member this l k c))"

definition pending_ok :: "UdpListener \<Rightarrow> bool" where
  "pending_ok l \<longleftrightarrow> distinct (pending_connections l) \<and>
     set (pending_connections l) \<subseteq> ran (active_connections l)"

lemma table_okD:
  assumes "table_ok this l h"
  shows "udp_listeners h this = Some l" "udp_connections h this = None" "this < next_object h"
    "udpl_is_closed l \<longleftrightarrow> udpl_pcb l = None" "udpl_is_closed l \<Longrightarrow> active_connections l = Map.empty"
    "udp_connections h a = Some c \<Longrightarrow> a < next_object h"
    "udp_connections h a = Some c \<Longrightarrow> connection_ok this l c"
    "active_connections l k = Some a \<longleftrightarrow> (\<exists>c. udp_connections h a = Some c \<and> member this l k c)"
  using assms unfolding table_ok_def by (simp, blast+)

text \<open>Changes of a connection that keep what the table sees of it.\<close>

lemma table_ok_update:
  assumes ok: "table_ok this l h" and c: "udp_connections h a = Some c"
    and same: "\<And>k. member this l k c' = member this l k c" and c': "connection_ok this l c'"
  shows "table_ok this l (put_connection a c' (h\<lparr>hworld := w\<rparr>))"
proof -
  have "a \<noteq> this" using c table_okD(2) [OF ok] by auto
  then show ?thesis
    using ok c same c' by (auto simp: table_ok_def)
qed

lemma table_ok_world [simp]: "table_ok this l (h\<lparr>hworld := w\<rparr>) = table_ok this l h"
  by (simp add: table_ok_def)

lemma table_ok_call [simp]: "table_ok this l (heap_call lw k h) = table_ok this l h"
  by (simp add: heap_call_def)

section \<open>Receiving\<close>

lemma active_connection:
  assumes "table_ok this l h" and "active_connections l k = Some a"
  obtains c where "udp_connections h a = Some c" "make_peer_key (udp_remote_addr c) = k" "\<not> udp_is_closed c"
    "udp_pcb c = udpl_pcb l" "udp_listener_owner c = Some this"
  using assms table_okD(8) [OF assms(1), of k a] by (auto simp: member_def)

lemma enqueue_same:
  "member this l k (udp_enqueue_datagram d c) = member this l k c"
  "connection_ok this l (udp_enqueue_datagram d c) = connection_ok this l c"
  by (simp_all add: udp_enqueue_datagram_def member_def connection_ok_def split: option.split)

text \<open>A datagram of an IPv4 peer goes to the connection of the peer, made when there is none.\<close>

definition peer_address :: "'e Lwip \<Rightarrow> ip4_addr_t \<Rightarrow> u16 \<Rightarrow> Address" where
  "peer_address lw a port = \<lparr>address_network = ''udp'', address_ip = lwip_ntoa lw a, address_port = port\<rparr>"

text \<open>What the datagrams for the listener amount to: the key of the sender with each.\<close>

definition peer_datagram :: "'e Lwip \<Rightarrow> u8 list \<Rightarrow> ip4_addr_t \<Rightarrow> u16 \<Rightarrow> Datagram" where
  "peer_datagram lw bs i port = \<lparr>dg_data = bs, dg_from = peer_address lw i port\<rparr>"

definition arrival :: "'e Lwip \<Rightarrow> u8 list option \<Rightarrow> ip_addr_t option \<Rightarrow> u16 \<Rightarrow> (string \<times> Datagram) list" where
  "arrival lw buf addr port =
     (case (buf, addr) of
        (Some bs, Some (IPADDR_TYPE_V4 i)) \<Rightarrow>
          [(make_peer_key (peer_address lw i port), peer_datagram lw bs i port)]
      | _ \<Rightarrow> [])"

definition peer_queue :: "UdpListener \<Rightarrow> 'e UdpHeap \<Rightarrow> string \<Rightarrow> Datagram list" where
  "peer_queue l h k =
     (case active_connections l k of None \<Rightarrow> [] | Some a \<Rightarrow> udp_rx_queue (the (udp_connections h a)))"

definition waiting_peers :: "UdpListener \<Rightarrow> 'e UdpHeap \<Rightarrow> string list" where
  "waiting_peers l h =
     map (\<lambda>a. make_peer_key (udp_remote_addr (the (udp_connections h a)))) (pending_connections l)"

fun first_seen :: "string set \<Rightarrow> string list \<Rightarrow> string list" where
  "first_seen known [] = []"
| "first_seen known (k # ks) =
     (if k \<in> known then first_seen known ks else k # first_seen (insert k known) ks)"

lemma first_seen_append:
  "first_seen known (xs @ ys) = first_seen known xs @ first_seen (known \<union> set xs) ys"
  by (induction xs arbitrary: known) (auto simp: insert_absorb)

text \<open>The objects a user of the listener may hold: those of the heap that do not wait in its queue.\<close>

definition held :: "UdpListener \<Rightarrow> 'e UdpHeap \<Rightarrow> obj \<Rightarrow> bool" where
  "held l h a \<longleftrightarrow> udp_connections h a \<noteq> None \<and> a \<notin> set (pending_connections l)"

text \<open>The listener's own fields but its tables do not change.\<close>

definition same_listener :: "UdpListener \<Rightarrow> UdpListener \<Rightarrow> bool" where
  "same_listener l l' \<longleftrightarrow> udpl_pcb l' = udpl_pcb l \<and> udpl_is_closed l' = udpl_is_closed l \<and>
     udpl_local_addr l' = udpl_local_addr l \<and> udpl_has_error l' = udpl_has_error l"

lemma same_listener_refl [simp]: "same_listener l l"
  by (simp add: same_listener_def)

lemma same_listener_trans: "same_listener l l' \<Longrightarrow> same_listener l' l'' \<Longrightarrow> same_listener l l''"
  by (simp add: same_listener_def)

definition grows :: "UdpListener \<Rightarrow> 'e UdpHeap \<Rightarrow> UdpListener \<Rightarrow> 'e UdpHeap \<Rightarrow> bool" where
  "grows l h l' h' \<longleftrightarrow> same_listener l l' \<and> (\<forall>a. held l h a \<longrightarrow> held l' h' a)"

lemma grows_refl [simp]: "grows l h l h"
  by (simp add: grows_def)

lemma grows_trans: "grows l h l1 h1 \<Longrightarrow> grows l1 h1 l2 h2 \<Longrightarrow> grows l h l2 h2"
  unfolding grows_def using same_listener_trans by blast

definition received ::
  "(string \<times> Datagram) list \<Rightarrow> UdpListener \<Rightarrow> 'e UdpHeap \<Rightarrow> UdpListener \<Rightarrow> 'e UdpHeap \<Rightarrow> bool" where
  "received ds l h l' h' \<longleftrightarrow>
     (\<forall>k. peer_queue l' h' k = peer_queue l h k @ map snd (filter (\<lambda>x. fst x = k) ds)) \<and>
     waiting_peers l' h' = waiting_peers l h @ first_seen (dom (active_connections l)) (map fst ds) \<and>
     dom (active_connections l') = dom (active_connections l) \<union> set (map fst ds)"

lemma received_nil [simp]: "received [] l h l h"
  by (simp add: received_def)

lemma received_trans:
  "received ds l h l1 h1 \<Longrightarrow> received es l1 h1 l2 h2 \<Longrightarrow> received (ds @ es) l h l2 h2"
  by (auto simp: received_def first_seen_append)

lemma received_call [simp]:
  "received ds l h l' (heap_call lw k h') = received ds l h l' h'"
  "grows l h l' (heap_call lw k h') = grows l h l' h'"
  by (simp_all add: received_def peer_queue_def waiting_peers_def grows_def held_def split: option.split)

lemma recv_known:
  assumes ok: "table_ok this l h" and "\<not> udpl_is_closed l"
    and k: "active_connections l (make_peer_key (peer_address lw i port)) = Some a"
    and c: "udp_connections h a = Some c"
  shows "udpl_handle_udp_recv lw this (Some bs) (Some (IPADDR_TYPE_V4 i)) port h =
      Inr (put_connection a (udp_enqueue_datagram \<lparr>dg_data = bs, dg_from = peer_address lw i port\<rparr> c)
        (heap_call lw (PbufFree bs) h))"
    and "table_ok this l (put_connection a (udp_enqueue_datagram d c) (heap_call lw (PbufFree bs) h))"
    and "received [(make_peer_key (peer_address lw i port), d)] l h l
      (put_connection a (udp_enqueue_datagram d c) (heap_call lw (PbufFree bs) h))"
    and "grows l h l (put_connection a (udp_enqueue_datagram d c) (heap_call lw (PbufFree bs) h))"
proof -
  have open_c: "\<not> udp_is_closed c" and key: "make_peer_key (udp_remote_addr c) = make_peer_key (peer_address lw i port)"
    by (rule active_connection [OF ok k]; use c in simp)+
  have other: "b \<noteq> a" if "active_connections l k' = Some b" "k' \<noteq> make_peer_key (peer_address lw i port)" for k' b
    by (rule active_connection [OF ok that(1)]) (use c key that(2) in auto)
  let ?h = "put_connection a (udp_enqueue_datagram d c) (heap_call lw (PbufFree bs) h)"
  have "peer_queue l ?h k' = peer_queue l h k' @ (if k' = make_peer_key (peer_address lw i port) then [d] else [])" for k'
    using k c open_c other [of k'] by (auto simp: peer_queue_def udp_enqueue_datagram_def split: option.split)
  moreover have "waiting_peers l ?h = waiting_peers l h"
    using c by (auto simp: waiting_peers_def udp_enqueue_datagram_def)
  ultimately show "received [(make_peer_key (peer_address lw i port), d)] l h l ?h"
    using k by (auto simp: received_def)
  show "grows l h l ?h" by (auto simp: grows_def held_def)
  show "udpl_handle_udp_recv lw this (Some bs) (Some (IPADDR_TYPE_V4 i)) port h =
      Inr (put_connection a (udp_enqueue_datagram \<lparr>dg_data = bs, dg_from = peer_address lw i port\<rparr> c)
        (heap_call lw (PbufFree bs) h))"
    using assms(2) k c table_okD(1) [OF ok]
    by (simp add: udpl_handle_udp_recv_def peer_address_def Let_def)
  have "connection_ok this l c" using table_okD(7) [OF ok c] .
  then show "table_ok this l (put_connection a (udp_enqueue_datagram d c) (heap_call lw (PbufFree bs) h))"
    unfolding heap_call_def by (intro table_ok_update [OF ok c]) (simp_all add: enqueue_same)
qed

lemma recv_unknown:
  assumes ok: "table_ok this l h" and "\<not> udpl_is_closed l"
    and k: "k = make_peer_key (peer_address lw i port)" and none: "active_connections l k = None"
    and c: "c = (new_UdpConnection (next_object h) (udpl_pcb l) (udpl_local_addr l) (peer_address lw i port) False (Some this))
      \<lparr>udp_rx_queue := [\<lparr>dg_data = bs, dg_from = peer_address lw i port\<rparr>]\<rparr>"
    and l': "l' = l\<lparr>active_connections := (active_connections l)(k \<mapsto> next_object h),
      pending_connections := pending_connections l @ [next_object h]\<rparr>"
    and h': "h' = put_listener this l' (put_connection (next_object h) c
      (heap_call lw (PbufFree bs) h\<lparr>next_object := next_object h + 1\<rparr>))"
  shows "udpl_handle_udp_recv lw this (Some bs) (Some (IPADDR_TYPE_V4 i)) port h = Inr h'"
    and "table_ok this l' h'" and "pending_ok l \<Longrightarrow> pending_ok l'"
    and "pending_ok l \<Longrightarrow> received [(k, peer_datagram lw bs i port)] l h l' h'" and "grows l h l' h'"
proof -
  have new: "udp_connections h (next_object h) = None" "next_object h \<noteq> this"
    using table_okD(6) [OF ok, of "next_object h"] table_okD(3) [OF ok]
    by (cases "udp_connections h (next_object h)"; auto)+
  show "udpl_handle_udp_recv lw this (Some bs) (Some (IPADDR_TYPE_V4 i)) port h = Inr h'"
    using assms(2) none table_okD(1) [OF ok]
    by (simp add: udpl_handle_udp_recv_def peer_address_def Let_def k c l' h' udp_enqueue_datagram_def
        new_UdpConnection_def)
  have pcb: "udpl_pcb l \<noteq> None" using table_okD(4) [OF ok] assms(2) by simp
  have c_ok: "connection_ok this l' c" using pcb by (simp add: connection_ok_def c new_UdpConnection_def l')
  have member: "member this l' k' c' = member this l k' c'" "connection_ok this l' c' = connection_ok this l c'" for k' c'
    by (simp_all add: member_def connection_ok_def l' split: option.split)
  have mc: "member this l k' c \<longleftrightarrow> k' = k" for k'
    by (auto simp: member_def c new_UdpConnection_def k)
  have nomember: "\<not> (\<exists>c'. udp_connections h a = Some c' \<and> member this l k c')" for a
    using table_okD(8) [OF ok, of k a] none by simp
  have listeners: "udp_listeners h = [this \<mapsto> l]" using ok by (simp add: table_ok_def)
  have "a < next_object h + 1" if "udp_connections h a = Some c'" for a c'
    using table_okD(6) [OF ok that] by simp
  then show "table_ok this l' h'"
    using new c_ok assms(2) table_okD(2-4) [OF ok] table_okD(7,8) [OF ok] nomember listeners
    by (auto simp: table_ok_def h' member mc) (auto simp: l' mc split: if_splits)
  show "grows l h l' h'" using new(1) by (auto simp: grows_def held_def same_listener_def l' h')
  have old: "b \<noteq> next_object h" if "active_connections l k' = Some b" for k' b
    using table_okD(8) [OF ok, of k' b] that new(1) by auto
  show "received [(k, peer_datagram lw bs i port)] l h l' h'" if "pending_ok l"
  proof -
    have "peer_queue l' h' k' = peer_queue l h k' @ (if k' = k then [peer_datagram lw bs i port] else [])" for k'
      using none old [of k']
      by (auto simp: peer_queue_def h' l' c peer_datagram_def new_UdpConnection_def split: option.split)
    moreover have "next_object h \<notin> set (pending_connections l)"
      using that old unfolding pending_ok_def ran_def by blast
    then have "waiting_peers l' h' = waiting_peers l h @ [k]"
      by (auto simp: waiting_peers_def h' l' c new_UdpConnection_def k)
    moreover have "k \<notin> dom (active_connections l)" using none by auto
    moreover have "dom (active_connections l') = insert k (dom (active_connections l))" by (simp add: l')
    ultimately show ?thesis by (auto simp: received_def)
  qed
  show "pending_ok l'" if "pending_ok l"
  proof -
    have "next_object h \<notin> ran (active_connections l)"
      using table_okD(8) [OF ok] new(1) by (auto simp: ran_def)
    moreover have "ran ((active_connections l)(k \<mapsto> next_object h)) = insert (next_object h) (ran (active_connections l))"
      using none by simp
    ultimately show ?thesis using that by (auto simp: pending_ok_def l')
  qed
qed

text \<open>Any callback keeps the invariant.\<close>

lemma recv_total:
  assumes ok: "table_ok this l h" and p: "pending_ok l"
  shows "\<exists>h' l'. udpl_handle_udp_recv lw this buf addr port h = Inr h' \<and> table_ok this l' h' \<and> pending_ok l' \<and>
    grows l h l' h' \<and> received (if udpl_is_closed l then [] else arrival lw buf addr port) l h l' h'"
proof -
  note l = table_okD(1) [OF ok]
  consider (skip) h' where "udpl_handle_udp_recv lw this buf addr port h = Inr h'" "table_ok this l h'"
      "grows l h l h'" "received (if udpl_is_closed l then [] else arrival lw buf addr port) l h l h'"
    | (datagram) bs i where "buf = Some bs" "addr = Some (IPADDR_TYPE_V4 i)" "\<not> udpl_is_closed l"
  proof (cases "udpl_is_closed l")
    case True
    let ?h = "case buf of None \<Rightarrow> h | Some bs \<Rightarrow> heap_call lw (PbufFree bs) h"
    have "udpl_handle_udp_recv lw this buf addr port h = Inr ?h" "table_ok this l ?h" "grows l h l ?h"
        "received (if udpl_is_closed l then [] else arrival lw buf addr port) l h l ?h"
      using l ok True by (simp_all add: udpl_handle_udp_recv_def split: option.split)
    then show ?thesis by (rule skip)
  next
    case False
    show ?thesis
    proof (cases buf)
      case None
      show ?thesis
        by (rule skip) (use l ok False None in \<open>auto simp: udpl_handle_udp_recv_def arrival_def\<close>)
    next
      case (Some bs)
      show ?thesis
      proof (cases "\<exists>i. addr = Some (IPADDR_TYPE_V4 i)")
        case True
        then show ?thesis using datagram Some False by blast
      next
        case no: False
        then have "udpl_handle_udp_recv lw this buf addr port h = Inr (heap_call lw (PbufFree bs) h)"
            "arrival lw buf addr port = []"
          using l False Some
          by (cases addr; auto simp: udpl_handle_udp_recv_def arrival_def split: ip_addr_t.split)+
        then show ?thesis using skip ok by simp
      qed
    qed
  qed
  then show ?thesis
  proof cases
    case skip
    then show ?thesis using p by (intro exI [of _ h'] exI [of _ l]) simp
  next
    case datagram
    let ?k = "make_peer_key (peer_address lw i port)"
    have arr: "arrival lw buf addr port = [(?k, peer_datagram lw bs i port)]"
      using datagram by (simp add: arrival_def)
    show ?thesis
    proof (cases "active_connections l ?k")
      case None
      note r = recv_unknown [OF ok datagram(3) refl None refl refl refl]
      show ?thesis
        using r(1,2,5) [of bs] r(3) [OF p] r(4) [OF p, of bs] datagram(3) arr
        unfolding datagram(1,2) by (intro exI conjI) (assumption | simp)+
    next
      case (Some a)
      obtain c where c: "udp_connections h a = Some c" by (rule active_connection [OF ok Some]) blast
      show ?thesis
        using recv_known [OF ok datagram(3) Some c, where bs = bs] p datagram(3) arr
        unfolding datagram(1,2) by (intro exI conjI) (assumption | simp add: peer_datagram_def)+
    qed
  qed
qed

lemma connection_recv_ok:
  assumes ok: "table_ok this l h" and c: "udp_connections h a = Some c"
    and r: "handle_udp_recv lw buf addr port c (hworld h) = (c', w)"
  shows "table_ok this l (put_connection a c' (h\<lparr>hworld := w\<rparr>))"
    and "grows l h l (put_connection a c' (h\<lparr>hworld := w\<rparr>))"
proof -
  show "grows l h l (put_connection a c' (h\<lparr>hworld := w\<rparr>))" by (simp add: grows_def held_def)
  have "c' = c \<or> (\<exists>d. c' = udp_enqueue_datagram d c)"
    using r by (auto simp: handle_udp_recv_def Let_def split: option.splits if_splits)
  then show "table_ok this l (put_connection a c' (h\<lparr>hworld := w\<rparr>))"
    using table_okD(7) [OF ok c] by (intro table_ok_update [OF ok c]) (auto simp: enqueue_same)
qed

text \<open>The invariant of the listener.\<close>

definition listener_ok :: "obj \<Rightarrow> UdpListener \<Rightarrow> 'e UdpHeap \<Rightarrow> bool" where
  "listener_ok this l h \<longleftrightarrow> table_ok this l h \<and> pending_ok l"

text \<open>
  The events of a run of callbacks, as long as every datagram goes to the listener, which is the
  object its control block is registered with.
\<close>

fun for_listener :: "obj \<Rightarrow> LwipEvent \<Rightarrow> bool" where
  "for_listener this (UdpRecvEvent (Some a) pcb buf addr port) \<longleftrightarrow> a = this"
| "for_listener this ev \<longleftrightarrow> True"

fun event_arrival :: "'e Lwip \<Rightarrow> obj \<Rightarrow> LwipEvent \<Rightarrow> (string \<times> Datagram) list" where
  "event_arrival lw this (UdpRecvEvent (Some a) pcb buf addr port) =
     (if a = this then arrival lw buf addr port else [])"
| "event_arrival lw this ev = []"

definition arrivals :: "'e Lwip \<Rightarrow> obj \<Rightarrow> LwipEvent list \<Rightarrow> (string \<times> Datagram) list" where
  "arrivals lw this evs = concat (map (event_arrival lw this) evs)"

lemma dispatch_total:
  assumes ok: "listener_ok this l h"
  shows "\<exists>h' l'. heap_dispatch lw ev h = Inr h' \<and> listener_ok this l' h' \<and> grows l h l' h' \<and>
    (for_listener this ev \<longrightarrow> received (if udpl_is_closed l then [] else event_arrival lw this ev) l h l' h')"
proof -
  have t: "table_ok this l h" and p: "pending_ok l" using ok by (simp_all add: listener_ok_def)
  have ls: "udp_listeners h = [this \<mapsto> l]" using t by (simp add: table_ok_def)
  have skip: ?thesis if "heap_dispatch lw ev h = Inr h" "event_arrival lw this ev = []"
    using that ok by (intro exI [of _ h] exI [of _ l]) simp
  show ?thesis
  proof (cases ev)
    case (UdpRecvEvent arg pcb buf addr port)
    show ?thesis
    proof (cases arg)
      case None
      then show ?thesis using skip UdpRecvEvent by (simp add: heap_dispatch_def)
    next
      case (Some a)
      show ?thesis
      proof (cases "a = this")
        case True
        obtain h' l' where r: "udpl_handle_udp_recv lw this buf addr port h = Inr h'" "table_ok this l' h'"
            "pending_ok l'" "grows l h l' h'"
            "received (if udpl_is_closed l then [] else arrival lw buf addr port) l h l' h'"
          using recv_total [OF t p] by blast
        then show ?thesis
          using UdpRecvEvent Some ls True
          by (intro exI [of _ h'] exI [of _ l']) (simp add: heap_dispatch_def udpl_recv_callback_def listener_ok_def split: if_splits)
      next
        case False
        show ?thesis
        proof (cases "udp_connections h a")
          case None
          then show ?thesis using skip UdpRecvEvent Some ls False by (simp add: heap_dispatch_def)
        next
          case c: (Some c)
          obtain c' w where r: "handle_udp_recv lw buf addr port c (hworld h) = (c', w)" by fastforce
          from connection_recv_ok [OF t c r] p show ?thesis
            using UdpRecvEvent Some ls False c r
            by (intro exI [of _ "put_connection a c' (h\<lparr>hworld := w\<rparr>)"] exI [of _ l])
              (simp add: heap_dispatch_def listener_ok_def)
        qed
      qed
    qed
  qed (use skip in \<open>simp_all add: heap_dispatch_def\<close>)
qed

lemma dispatch_all_total:
  "listener_ok this l h \<Longrightarrow>
     \<exists>h' l'. heap_dispatch_all lw evs h = Inr h' \<and> listener_ok this l' h' \<and> grows l h l' h' \<and>
       (list_all (for_listener this) evs \<longrightarrow>
          received (if udpl_is_closed l then [] else arrivals lw this evs) l h l' h')"
proof (induction evs arbitrary: l h)
  case Nil
  then show ?case by (intro exI [of _ h] exI [of _ l]) (simp add: arrivals_def)
next
  case (Cons ev evs)
  obtain h1 l1 where s: "heap_dispatch lw ev h = Inr h1" "listener_ok this l1 h1" "grows l h l1 h1"
      "for_listener this ev \<longrightarrow> received (if udpl_is_closed l then [] else event_arrival lw this ev) l h l1 h1"
    using dispatch_total [OF Cons.prems] by blast
  obtain h2 l2 where s': "heap_dispatch_all lw evs h1 = Inr h2" "listener_ok this l2 h2" "grows l1 h1 l2 h2"
      "list_all (for_listener this) evs \<longrightarrow>
         received (if udpl_is_closed l1 then [] else arrivals lw this evs) l1 h1 l2 h2"
    using Cons.IH [OF s(2)] by blast
  have "udpl_is_closed l1 = udpl_is_closed l" using s(3) by (simp add: grows_def same_listener_def)
  then have "received (if udpl_is_closed l then [] else arrivals lw this (ev # evs)) l h l2 h2"
    if "list_all (for_listener this) (ev # evs)"
    using that s(4) s'(4) received_trans by (fastforce simp: arrivals_def split: if_splits)
  then show ?case
    using s(1) s'(1,2) grows_trans [OF s(3) s'(3)] by (intro exI [of _ h2] exI [of _ l2]) simp
qed

lemma listener_ok_world [simp]: "listener_ok this l (h\<lparr>hworld := w\<rparr>) = listener_ok this l h"
  by (simp add: listener_ok_def)

lemma grows_world [simp]: "grows l (h\<lparr>hworld := w\<rparr>) l' h' = grows l h l' h'"
  by (simp add: grows_def held_def)

lemma poll_total:
  assumes "listener_ok this l h"
  shows "\<exists>h' l'. heap_poll lw h = Inr h' \<and> listener_ok this l' h' \<and> grows l h l' h'"
  using dispatch_all_total [of this l "h\<lparr>hworld := snd (arch_poll lw (hworld h))\<rparr>" lw] assms
  by (fastforce simp: heap_poll_def case_prod_beta)

section \<open>Operations\<close>

lemma pending_member:
  assumes "listener_ok this l h" and "a \<in> set (pending_connections l)"
  shows "\<exists>c k. udp_connections h a = Some c \<and> active_connections l k = Some a"
proof -
  obtain k where k: "active_connections l k = Some a"
    using assms by (auto simp: listener_ok_def pending_ok_def ran_def)
  moreover have "table_ok this l h" using assms(1) by (simp add: listener_ok_def)
  ultimately show ?thesis using table_okD(8) by blast
qed

lemma accept_total:
  assumes ok: "listener_ok this l h"
  shows "\<exists>r h' l'. udpl_accept_nonblocking lw this h = Inr (r, h') \<and> listener_ok this l' h' \<and> grows l h l' h' \<and>
    (\<forall>a. r = Inr (Some a) \<longrightarrow> held l' h' a)"
proof -
  have ls: "udp_listeners h this = Some l" using ok table_okD(1) unfolding listener_ok_def by blast
  consider "udpl_is_closed l" | "\<not> udpl_is_closed l" "udpl_has_error l" | "\<not> udpl_is_closed l" "\<not> udpl_has_error l"
    by blast
  then show ?thesis
  proof cases
    case 3
    obtain h1 l1 where p: "heap_poll lw h = Inr h1" "listener_ok this l1 h1" "grows l h l1 h1"
      using poll_total [OF ok] by blast
    have ls1: "udp_listeners h1 = [this \<mapsto> l1]" using p(2) by (simp add: listener_ok_def table_ok_def)
    show ?thesis
    proof (cases "pending_connections l1")
      case Nil
      then show ?thesis using 3 ls p ls1 by (auto simp: udpl_accept_nonblocking_def)
    next
      case (Cons a as)
      let ?l = "l1\<lparr>pending_connections := as\<rparr>"
      let ?h = "put_listener this ?l h1"
      obtain c where c: "udp_connections h1 a = Some c" using pending_member [OF p(2), of a] Cons by auto
      have t1: "table_ok this l1 h1" and p1: "pending_ok l1" using p(2) by (simp_all add: listener_ok_def)
      have same: "member this ?l k c = member this l1 k c" "connection_ok this ?l c = connection_ok this l1 c" for k c
        by (simp_all add: member_def connection_ok_def split: option.split)
      have "table_ok this ?l ?h" using t1 by (simp add: table_ok_def same)
      moreover have "pending_ok ?l" "a \<notin> set as" using p1 Cons by (simp_all add: pending_ok_def)
      moreover have "grows l1 h1 ?l ?h" using Cons by (simp add: grows_def held_def same_listener_def)
      with p(3) have "grows l h ?l ?h" by (rule grows_trans)
      ultimately show ?thesis
        using 3 ls p(1) ls1 Cons c
        by (intro exI [of _ "Inr (Some a)"] exI [of _ ?h] exI [of _ ?l])
          (simp add: udpl_accept_nonblocking_def listener_ok_def held_def)
    qed
  qed (use ls ok in \<open>auto simp: udpl_accept_nonblocking_def\<close>)
qed

lemma udp_close_simps:
  assumes "udp_close lw c w = (removal, c', w')"
  shows "udp_is_closed c'" "udp_pcb c' = None" "udp_rx_queue c' = []" "udp_remote_addr c' = udp_remote_addr c"
    "udp_pcb c = None \<Longrightarrow> removal = None \<and> udp_listener_owner c' = udp_listener_owner c \<and> w' = w"
    "udp_pcb c = Some p \<Longrightarrow> removal = (case udp_listener_owner c of None \<Rightarrow> None | Some l \<Rightarrow>
       if udp_owns_pcb c then None else Some (l, udp_remote_addr c))"
    "udp_pcb c = Some p \<Longrightarrow> \<not> udp_owns_pcb c \<Longrightarrow> udp_listener_owner c' = None \<and> w' = w"
    "udp_owns_pcb c' = udp_owns_pcb c"
    "udp_listener_owner c' = None \<or> udp_listener_owner c' = udp_listener_owner c"
  using assms by (auto simp: udp_close_def split: option.splits if_splits)

lemma close_connection_ok:
  assumes "connection_ok this l c" and r: "udp_close lw c w = (removal, c', w')"
  shows "connection_ok this l c'"
proof (cases "udp_listener_owner c'")
  case None
  then show ?thesis using udp_close_simps(1,2) [OF r] by (simp add: connection_ok_def)
next
  case (Some l')
  then have owner: "udp_listener_owner c = Some l'" using udp_close_simps(9) [OF r] by auto
  then have "l' = this" "\<not> udp_owns_pcb c" "udpl_is_closed l \<or> \<not> udp_is_closed c"
    using assms(1) by (auto simp: connection_ok_def)
  moreover have "udp_pcb c = None"
    using udp_close_simps(7) [OF r] Some \<open>\<not> udp_owns_pcb c\<close> by (cases "udp_pcb c") simp_all
  moreover have "udp_is_closed c" using \<open>udp_pcb c = None\<close> assms(1) by (simp add: connection_ok_def)
  ultimately show ?thesis using Some udp_close_simps(1,2,8) [OF r] by (simp add: connection_ok_def)
qed

text \<open>Forgetting the entry of a connection that has become closed.\<close>

lemma table_ok_forget:
  fixes l k
  defines "l' \<equiv> l\<lparr>active_connections := (active_connections l)(k := None)\<rparr>"
  assumes ok: "table_ok this l h" and c: "udp_connections h a = Some c"
    and c': "connection_ok this l c'" "udp_is_closed c'"
    and entry: "\<And>k'. active_connections l k' = Some a \<Longrightarrow> k' = k" "\<And>b. active_connections l k = Some b \<Longrightarrow> b = a"
  shows "table_ok this l' (put_listener this l' (put_connection a c' (h\<lparr>hworld := w\<rparr>)))"
proof -
  have same: "member this l' k d = member this l k d" "connection_ok this l' d = connection_ok this l d"
      "udpl_is_closed l' = udpl_is_closed l" "udpl_pcb l' = udpl_pcb l" for k d
    by (simp_all add: member_def connection_ok_def l'_def split: option.split)
  have a: "a \<noteq> this" using c table_okD(2) [OF ok] by auto
  let ?h = "put_listener this l' (put_connection a c' (h\<lparr>hworld := w\<rparr>))"
  have "active_connections l' k' = Some b \<longleftrightarrow> (\<exists>d. udp_connections ?h b = Some d \<and> member this l' k' d)" for k' b
  proof (cases "b = a")
    case True
    then have "active_connections l' k' \<noteq> Some b" using entry(1) by (auto simp: l'_def)
    then show ?thesis using True c'(2) by (simp add: member_def)
  next
    case False
    then have "active_connections l' k' = Some b \<longleftrightarrow> active_connections l k' = Some b"
      using entry(2) by (auto simp: l'_def)
    also have "\<dots> \<longleftrightarrow> (\<exists>d. udp_connections h b = Some d \<and> member this l k' d)" by (rule table_okD(8) [OF ok])
    finally show ?thesis using False same by simp
  qed
  moreover have "b < next_object h \<and> connection_ok this l' d" if "udp_connections ?h b = Some d" for b d
    using that c' table_okD(6,7) [OF ok] c by (cases "b = a") (auto simp: same)
  moreover have "udp_listeners ?h = [this \<mapsto> l']" using ok by (simp add: table_ok_def)
  moreover have "udpl_is_closed l' \<Longrightarrow> active_connections l' = Map.empty"
    using table_okD(5) [OF ok] by (simp add: l'_def)
  ultimately show ?thesis
    using table_okD(2,3,4) [OF ok] a unfolding table_ok_def by (simp add: same)
qed

lemma ran_forget:
  "(\<And>k'. m k' = Some a \<Longrightarrow> k' = k) \<Longrightarrow> (\<And>b. m k = Some b \<Longrightarrow> b = a) \<Longrightarrow>
     ran (m(k := None)) = ran m - {a}"
  unfolding ran_def by (auto, metis)

text \<open>Closing a connection takes its entry, and no other, out of the table.\<close>

lemma peer_close_total:
  assumes ok: "table_ok this l h" and c: "udp_connections h a = Some c"
  shows "\<exists>h' l' c'. peer_close lw a h = Inr h' \<and> table_ok this l' h' \<and> same_listener l l' \<and>
    pending_connections l' = pending_connections l \<and>
    udp_connections h' = (udp_connections h)(a \<mapsto> c') \<and> udp_is_closed c' \<and>
    ran (active_connections l') = ran (active_connections l) - {a}"
proof -
  note ls = table_okD(1) [OF ok]
  have listeners: "udp_listeners h = [this \<mapsto> l]" using ok by (simp add: table_ok_def)
  have a: "a \<noteq> this" using c table_okD(2) [OF ok] by auto
  have c_ok: "connection_ok this l c" using table_okD(7) [OF ok c] .
  obtain removal c' w' where r: "udp_close lw c (hworld h) = (removal, c', w')" by (metis prod_cases3)
  note close = udp_close_simps [OF r]
  let ?h = "put_connection a c' (h\<lparr>hworld := w'\<rparr>)"
  have nomember: "\<not> member this l' k c'" for l' k using close(1) by (simp add: member_def)
  show ?thesis
  proof (cases "removal = None")
    case True
    have no: "\<not> member this l k c" for k
      using True c_ok close(6) by (cases "udp_pcb c") (auto simp: member_def connection_ok_def)
    have "connection_ok this l c'" using close_connection_ok [OF c_ok r] .
    then have "table_ok this l ?h" using no nomember by (intro table_ok_update [OF ok c]) simp_all
    moreover have "a \<notin> ran (active_connections l)"
      using table_okD(8) [OF ok] c no by (auto simp: ran_def)
    ultimately show ?thesis
      using c r True close(1) by (intro exI [of _ ?h] exI [of _ l] exI [of _ c']) (simp add: peer_close_def)
  next
    case False
    then obtain p where p: "udp_pcb c = Some p" using close(5) by (cases "udp_pcb c") auto
    have owner: "udp_listener_owner c = Some this" "\<not> udp_owns_pcb c" "removal = Some (this, udp_remote_addr c)"
      using close(6) [OF p] False c_ok by (auto simp: connection_ok_def split: option.splits if_splits)
    let ?k = "make_peer_key (udp_remote_addr c)"
    let ?l = "l\<lparr>active_connections := (active_connections l)(?k := None)\<rparr>"
    let ?h' = "put_listener this ?l ?h"
    have res: "peer_close lw a h = Inr ?h'"
      using c r owner(3) listeners by (simp add: peer_close_def udpl_remove_connection_def)
    have c'_ok: "connection_ok this l c'" using close_connection_ok [OF c_ok r] .
    have entry: "active_connections l k = Some a \<longleftrightarrow> k = ?k \<and> \<not> udpl_is_closed l" for k
    proof -
      have "\<not> udp_is_closed c" and same: "udpl_is_closed l \<or> Some p = udpl_pcb l"
        using c_ok owner(1) p by (simp add: connection_ok_def, simp add: connection_ok_def) blast
      then have "member this l k c \<longleftrightarrow> k = ?k \<and> Some p = udpl_pcb l"
        using owner(1) p by (simp add: member_def)
      also have "Some p = udpl_pcb l \<longleftrightarrow> \<not> udpl_is_closed l"
        using same table_okD(4) [OF ok] by (cases "udpl_pcb l") simp_all
      finally have "member this l k c \<longleftrightarrow> k = ?k \<and> \<not> udpl_is_closed l" .
      then show ?thesis using table_okD(8) [OF ok, of k a] c by simp
    qed
    have open_l: "\<not> udpl_is_closed l" if "active_connections l k = Some b" for k b
      using that table_okD(5) [OF ok] by (cases "udpl_is_closed l") simp_all
    have key: "k = ?k" if "active_connections l k = Some a" for k
      using entry [of k] that by simp
    have same: "b = a" if "active_connections l ?k = Some b" for b
      using entry [of ?k] that open_l [OF that] by simp
    have "table_ok this ?l ?h'" by (rule table_ok_forget [OF ok c c'_ok close(1) key same])
    moreover have "ran (active_connections ?l) = ran (active_connections l) - {a}"
      using ran_forget [OF key same] by simp
    ultimately show ?thesis
      using res close(1) by (intro exI [of _ ?h'] exI [of _ ?l] exI [of _ c']) (simp add: same_listener_def)
  qed
qed

text \<open>An object no table holds any more can go.\<close>

lemma table_ok_remove:
  assumes ok: "table_ok this l h" and c: "\<And>c. udp_connections h a = Some c \<Longrightarrow> udp_is_closed c"
  shows "table_ok this l (h\<lparr>udp_connections := (udp_connections h)(a := None)\<rparr>)"
proof -
  have "\<not> member this l k c" if "udp_connections h a = Some c" for k c
    using assms(2) [OF that] by (simp add: member_def)
  then show ?thesis using ok by (auto simp: table_ok_def)
qed

lemma peer_delete_total:
  assumes ok: "table_ok this l h" and c: "udp_connections h a = Some c"
  shows "\<exists>h' l'. peer_delete lw a h = Inr h' \<and> table_ok this l' h' \<and> same_listener l l' \<and>
    pending_connections l' = pending_connections l \<and>
    udp_connections h' = (udp_connections h)(a := None) \<and>
    ran (active_connections l') = ran (active_connections l) - {a}"
proof -
  obtain h1 l1 c1 where s: "peer_close lw a h = Inr h1" "table_ok this l1 h1" "same_listener l l1"
      "pending_connections l1 = pending_connections l" "udp_connections h1 = (udp_connections h)(a \<mapsto> c1)"
      "udp_is_closed c1" "ran (active_connections l1) = ran (active_connections l) - {a}"
    using peer_close_total [OF assms] by blast
  let ?h = "h1\<lparr>udp_connections := (udp_connections h1)(a := None)\<rparr>"
  have "table_ok this l1 ?h" using s(5,6) by (intro table_ok_remove [OF s(2)]) simp
  then show ?thesis using s by (intro exI [of _ ?h] exI [of _ l1]) (simp add: peer_delete_def)
qed

lemma pending_ok_remove:
  assumes "pending_ok l" and "pending_connections l' = pending_connections l"
    and "ran (active_connections l') = ran (active_connections l) - {a}"
    and "a \<notin> set (pending_connections l)"
  shows "pending_ok l'"
  using assms by (auto simp: pending_ok_def)

text \<open>Reading and writing leave the table alone.\<close>

lemma peer_write_total:
  assumes ok: "listener_ok this l h" and c: "udp_connections h a = Some c"
  shows "\<exists>r h'. peer_write lw bs a h = Inr (r, h') \<and> listener_ok this l h' \<and> udp_connections h' = udp_connections h"
proof -
  obtain r c' w where w: "udp_write lw bs c (hworld h) = (r, c', w)" by (metis prod_cases3)
  then have "c' = c" by (auto simp: udp_write_def Let_def case_prod_beta split: option.splits if_splits)
  moreover have "listener_ok this l (put_connection a c (h\<lparr>hworld := w\<rparr>))"
    using ok table_ok_update [OF _ c] table_okD(7) [OF _ c] by (auto simp: listener_ok_def)
  moreover have "(udp_connections h)(a \<mapsto> c) = udp_connections h" using c by auto
  ultimately show ?thesis using c w by (simp add: peer_write_def)
qed

lemma take_same:
  assumes "udp_take n c = (r, c')"
  shows "member this l k c' = member this l k c" "connection_ok this l c' = connection_ok this l c"
  using assms
  by (auto simp: udp_take_def Let_def member_def connection_ok_def split: if_splits list.splits option.splits)

lemma peer_read_total:
  assumes ok: "listener_ok this l h" and a: "held l h a"
  shows "\<exists>r h' l'. peer_read_nonblocking lw n a h = Inr (r, h') \<and> listener_ok this l' h' \<and> grows l h l' h'"
proof (cases "n = 0")
  case True
  then show ?thesis using ok by (auto simp: peer_read_nonblocking_def)
next
  case False
  obtain h1 l1 where p: "heap_poll lw h = Inr h1" "listener_ok this l1 h1" "grows l h l1 h1"
    using poll_total [OF ok] by blast
  then obtain c where c: "udp_connections h1 a = Some c" using a by (auto simp: grows_def held_def)
  obtain r c' where t: "udp_take n c = (r, c')" by fastforce
  have t1: "table_ok this l1 h1" and p1: "pending_ok l1" using p(2) by (simp_all add: listener_ok_def)
  let ?h = "put_connection a c' (h1\<lparr>hworld := hworld h1\<rparr>)"
  have "table_ok this l1 ?h"
    using table_okD(7) [OF t1 c] by (intro table_ok_update [OF t1 c]) (simp_all add: take_same [OF t])
  moreover have "grows l1 h1 l1 ?h" by (simp add: grows_def held_def)
  with p(3) have "grows l h l1 ?h" by (rule grows_trans)
  ultimately show ?thesis
    using False p(1) c t p1 by (intro exI [of _ r] exI [of _ ?h] exI [of _ l1])
      (simp add: peer_read_nonblocking_def listener_ok_def)
qed

text \<open>Closing and deleting the connections nobody has accepted, which the listener does when it is closed.\<close>

lemma close_all_total:
  assumes "table_ok this l h" and "\<And>a. a \<in> set as \<Longrightarrow> udp_connections h a \<noteq> None"
  shows "\<exists>h' l'. close_all lw as h = Inr h' \<and> table_ok this l' h' \<and> same_listener l l' \<and>
    pending_connections l' = pending_connections l \<and> dom (udp_connections h') = dom (udp_connections h) \<and>
    (\<forall>b. b \<notin> set as \<longrightarrow> udp_connections h' b = udp_connections h b)"
  using assms
proof (induction as arbitrary: l h)
  case Nil
  then show ?case by (intro exI [of _ h] exI [of _ l]) simp
next
  case (Cons a as)
  obtain c where "udp_connections h a = Some c" using Cons.prems(2) [of a] by auto
  from peer_close_total [OF Cons.prems(1) this]
  obtain h1 l1 c1 where s: "peer_close lw a h = Inr h1" "table_ok this l1 h1" "same_listener l l1"
      "pending_connections l1 = pending_connections l" "udp_connections h1 = (udp_connections h)(a \<mapsto> c1)"
    by blast
  have "udp_connections h1 b \<noteq> None" if "b \<in> set as" for b using Cons.prems(2) [of b] that s(5) by simp
  from Cons.IH [OF s(2) this]
  obtain h2 l2 where s': "close_all lw as h1 = Inr h2" "table_ok this l2 h2" "same_listener l1 l2"
      "pending_connections l2 = pending_connections l1" "dom (udp_connections h2) = dom (udp_connections h1)"
      "\<forall>b. b \<notin> set as \<longrightarrow> udp_connections h2 b = udp_connections h1 b"
    by blast
  have "dom (udp_connections h2) = dom (udp_connections h)"
    using s'(5) s(5) Cons.prems(2) [of a] by (auto simp: dom_def)
  then show ?case
    using s(1,4,5) s'(1,2,4,6) same_listener_trans [OF s(3) s'(3)]
    by (intro exI [of _ h2] exI [of _ l2]) simp
qed

lemma delete_all_total:
  assumes "table_ok this l h" and "\<And>a. a \<in> set as \<Longrightarrow> udp_connections h a \<noteq> None" and "distinct as"
  shows "\<exists>h' l'. delete_all lw as h = Inr h' \<and> table_ok this l' h' \<and> same_listener l l' \<and>
    dom (udp_connections h') = dom (udp_connections h) - set as \<and>
    (\<forall>b. b \<notin> set as \<longrightarrow> udp_connections h' b = udp_connections h b)"
  using assms
proof (induction as arbitrary: l h)
  case Nil
  then show ?case by (intro exI [of _ h] exI [of _ l]) simp
next
  case (Cons a as)
  obtain c where "udp_connections h a = Some c" using Cons.prems(2) [of a] by auto
  from peer_delete_total [OF Cons.prems(1) this]
  obtain h1 l1 where s: "peer_delete lw a h = Inr h1" "table_ok this l1 h1" "same_listener l l1"
      "udp_connections h1 = (udp_connections h)(a := None)"
    by blast
  have "udp_connections h1 b \<noteq> None" if "b \<in> set as" for b
    using Cons.prems(2) [of b] Cons.prems(3) that s(4) by auto
  moreover have "distinct as" using Cons.prems(3) by simp
  ultimately obtain h2 l2 where s': "delete_all lw as h1 = Inr h2" "table_ok this l2 h2" "same_listener l1 l2"
      "dom (udp_connections h2) = dom (udp_connections h1) - set as"
      "\<forall>b. b \<notin> set as \<longrightarrow> udp_connections h2 b = udp_connections h1 b"
    using Cons.IH [OF s(2)] by blast
  have "dom (udp_connections h2) = dom (udp_connections h) - set (a # as)" using s'(4) s(4) by auto
  then show ?case
    using s(1,4) s'(1,2,5) same_listener_trans [OF s(3) s'(3)]
    by (intro exI [of _ h2] exI [of _ l2]) simp
qed

definition closed_listener :: "UdpListener \<Rightarrow> UdpListener" where
  "closed_listener l = l\<lparr>pending_connections := [], active_connections := Map.empty, udpl_pcb := None,
     udpl_is_closed := True\<rparr>"

lemma table_ok_closed:
  assumes ok: "table_ok this l h"
  shows "table_ok this (closed_listener l) (put_listener this (closed_listener l) h)"
proof -
  have c: "connection_ok this (closed_listener l) c" if "connection_ok this l c" for c
    using that by (simp add: connection_ok_def closed_listener_def split: option.splits)
  have no: "\<not> member this (closed_listener l) k c" if "connection_ok this l c" for k c
    using that by (auto simp: member_def connection_ok_def closed_listener_def)
  have sel: "udpl_is_closed (closed_listener l)" "udpl_pcb (closed_listener l) = None"
      "active_connections (closed_listener l) = Map.empty"
    by (simp_all add: closed_listener_def)
  show ?thesis
    using ok c no unfolding table_ok_def by (auto simp: sel)
qed

lemma udpl_close_total:
  assumes ok: "listener_ok this l h"
  shows "\<exists>h' l'. udpl_close lw this h = Inr (None, h') \<and> listener_ok this l' h' \<and> udpl_is_closed l' \<and>
    (\<forall>a. held l h a \<longrightarrow> held l' h' a \<and> udp_connections h' a = udp_connections h a) \<and>
    (\<forall>p. udpl_pcb l = Some p \<longrightarrow> UdpRemove p \<in> fst ` set (calls (hworld h')))"
proof -
  have t: "table_ok this l h" and p: "pending_ok l" using ok by (simp_all add: listener_ok_def)
  have ls: "udp_listeners h = [this \<mapsto> l]" using t by (simp add: table_ok_def)
  show ?thesis
  proof (cases "udpl_pcb l")
    case None
    then have c: "udpl_is_closed l" using table_okD(4) [OF t] by simp
    let ?l = "l\<lparr>udpl_is_closed := True\<rparr>"
    have "?l = l" using c by simp
    then have "listener_ok this ?l (put_listener this ?l h)" using ok ls by (simp add: listener_ok_def table_ok_def)
    then show ?thesis
      using None ls by (intro exI [of _ "put_listener this ?l h"] exI [of _ ?l]) (simp add: udpl_close_def held_def)
  next
    case (Some pcb)
    let ?h = "heap_call lw (UdpRecv pcb None) h"
    have mem: "udp_connections h a \<noteq> None" if "a \<in> set (pending_connections l)" for a
      using pending_member [OF ok that] by auto
    have t0: "table_ok this l ?h" using t by simp
    obtain h1 l1 where s1: "close_all lw (pending_connections l) ?h = Inr h1" "table_ok this l1 h1"
        "pending_connections l1 = pending_connections l" "dom (udp_connections h1) = dom (udp_connections h)"
        "\<forall>b. b \<notin> set (pending_connections l) \<longrightarrow> udp_connections h1 b = udp_connections h b"
      using close_all_total [OF t0, of "pending_connections l" lw] mem by auto
    have mem1: "udp_connections h1 a \<noteq> None" if "a \<in> set (pending_connections l)" for a
      using mem [OF that] s1(4) by (metis domIff)
    have "distinct (pending_connections l)" using p by (simp add: pending_ok_def)
    from delete_all_total [OF s1(2) mem1 this, of lw]
    obtain h2 l2 where s2: "delete_all lw (pending_connections l) h1 = Inr h2" "table_ok this l2 h2"
        "dom (udp_connections h2) = dom (udp_connections h1) - set (pending_connections l)"
        "\<forall>b. b \<notin> set (pending_connections l) \<longrightarrow> udp_connections h2 b = udp_connections h1 b"
      by blast
    let ?l = "closed_listener l2"
    let ?h' = "put_listener this ?l (heap_call lw (UdpRemove pcb) h2)"
    have t': "table_ok this ?l ?h'" using table_ok_closed [of this l2 "heap_call lw (UdpRemove pcb) h2"] s2(2) by simp
    have "held ?l ?h' a \<and> udp_connections ?h' a = udp_connections h a" if "held l h a" for a
      using that s2(4) s1(5) by (simp add: held_def closed_listener_def)
    moreover have "UdpRemove pcb \<in> fst ` set (calls (hworld ?h'))"
      by (simp add: heap_call_def world_simps)
    ultimately show ?thesis
      using Some ls s1(1) s2(1) t' table_okD(1) [OF s2(2)]
      by (intro exI [of _ ?h'] exI [of _ ?l])
        (simp add: udpl_close_def listener_ok_def pending_ok_def closed_listener_def)
  qed
qed

end
