(* ===== verification/Udp_Service.thy ===== *)
theory Udp_Service
  imports Udp_Listener_Laws
begin

text \<open>
  The properties of UDP: the life of a listener with the connections it makes, as the reachable
  states of its heap, the way datagrams are told apart by their senders, and what reading and
  writing a connection does.
\<close>

section \<open>The life of a listener\<close>

text \<open>A user may use a connection it has accepted and not deleted.\<close>

definition user_holds :: "obj \<Rightarrow> 'e UdpHeap \<Rightarrow> obj \<Rightarrow> bool" where
  "user_holds this h a \<longleftrightarrow> (case udp_listeners h this of None \<Rightarrow> False | Some l \<Rightarrow> held l h a)"

inductive udp_step :: "'e Lwip \<Rightarrow> obj \<Rightarrow> 'e UdpHeap \<Rightarrow> 'e UdpHeap \<Rightarrow> bool" for lw this where
  udp_polls: "heap_poll lw h = Inr h' \<Longrightarrow> udp_step lw this h h'"
| udp_accepts: "udpl_accept_nonblocking lw this h = Inr (r, h') \<Longrightarrow> udp_step lw this h h'"
| udp_reads: "user_holds this h a \<Longrightarrow> peer_read_nonblocking lw n a h = Inr (r, h') \<Longrightarrow> udp_step lw this h h'"
| udp_writes: "user_holds this h a \<Longrightarrow> peer_write lw bs a h = Inr (r, h') \<Longrightarrow> udp_step lw this h h'"
| udp_closes: "user_holds this h a \<Longrightarrow> peer_close lw a h = Inr h' \<Longrightarrow> udp_step lw this h h'"
| udp_deletes: "user_holds this h a \<Longrightarrow> peer_delete lw a h = Inr h' \<Longrightarrow> udp_step lw this h h'"
| udp_stops: "udpl_close lw this h = Inr (r, h') \<Longrightarrow> udp_step lw this h h'"

text \<open>The listener starts as its constructor leaves it, the only UDP object of the heap.\<close>

definition udp_start :: "obj \<Rightarrow> 'e UdpHeap \<Rightarrow> bool" where
  "udp_start this h \<longleftrightarrow> (\<exists>p local_addr. udp_listeners h = [this \<mapsto> new_UdpListener p local_addr]) \<and>
     udp_connections h = Map.empty \<and> this < next_object h"

inductive udp_reach :: "'e Lwip \<Rightarrow> obj \<Rightarrow> 'e UdpHeap \<Rightarrow> bool" for lw this where
  udp_reach_start: "udp_start this h \<Longrightarrow> udp_reach lw this h"
| udp_reach_step: "udp_reach lw this h \<Longrightarrow> udp_step lw this h h' \<Longrightarrow> udp_reach lw this h'"

lemma start_listener_ok: "udp_start this h \<Longrightarrow> \<exists>l. listener_ok this l h"
  by (auto simp: udp_start_def listener_ok_def table_ok_def pending_ok_def new_UdpListener_def)

lemma user_holds_held: "listener_ok this l h \<Longrightarrow> user_holds this h a = held l h a"
  by (simp add: listener_ok_def user_holds_def table_ok_def)

lemma held_conn: "held l h a \<Longrightarrow> \<exists>c. udp_connections h a = Some c"
  by (auto simp: held_def)

lemma peer_close_ok:
  assumes ok: "listener_ok this l h" and a: "held l h a"
  shows "\<exists>h' l'. peer_close lw a h = Inr h' \<and> listener_ok this l' h'"
    "\<exists>h' l'. peer_delete lw a h = Inr h' \<and> listener_ok this l' h'"
proof -
  obtain c where c: "udp_connections h a = Some c" using held_conn [OF a] by blast
  have t: "table_ok this l h" "pending_ok l" using ok by (simp_all add: listener_ok_def)
  have "a \<notin> set (pending_connections l)" using a by (simp add: held_def)
  from peer_close_total [OF t(1) c] peer_delete_total [OF t(1) c] pending_ok_remove [OF t(2) _ _ this]
  show "\<exists>h' l'. peer_close lw a h = Inr h' \<and> listener_ok this l' h'"
    "\<exists>h' l'. peer_delete lw a h = Inr h' \<and> listener_ok this l' h'"
    unfolding listener_ok_def by (metis (no_types, lifting))+
qed

lemma step_ok:
  assumes ok: "listener_ok this l h" and s: "udp_step lw this h h'"
  shows "\<exists>l'. listener_ok this l' h'"
  using s
proof cases
  case udp_polls
  then show ?thesis using poll_total [OF ok, of lw] by auto
next
  case udp_accepts
  then show ?thesis using accept_total [OF ok, of lw] by auto
next
  case (udp_reads a n r)
  then show ?thesis using peer_read_total [OF ok, of a lw n] user_holds_held [OF ok] by auto
next
  case (udp_writes a bs r)
  then obtain c where "udp_connections h a = Some c" using user_holds_held [OF ok] held_conn by blast
  then show ?thesis using peer_write_total [OF ok, of a c lw bs] udp_writes by auto
next
  case (udp_closes a)
  then show ?thesis using peer_close_ok(1) [OF ok, of a lw] user_holds_held [OF ok] by auto
next
  case (udp_deletes a)
  then show ?thesis using peer_close_ok(2) [OF ok, of a lw] user_holds_held [OF ok] by auto
next
  case udp_stops
  then show ?thesis using udpl_close_total [OF ok, of lw] by auto
qed

lemma reach_ok: "udp_reach lw this h \<Longrightarrow> \<exists>l. listener_ok this l h"
  by (induction rule: udp_reach.induct) (blast intro: start_listener_ok dest: step_ok)+

section \<open>The contract of Listener\<close>

definition udpl_ok :: "obj \<Rightarrow> 'e UdpHeap \<Rightarrow> bool" where
  "udpl_ok this h \<longleftrightarrow> (\<exists>l. listener_ok this l h)"

lemma udpl_try_fault_free:
  "udpl_accept_nonblocking lw this h = Inr (r, h') \<Longrightarrow> listener_ok this l h \<Longrightarrow> fault_free r"
  by (auto simp: udpl_accept_nonblocking_def bindE_Inr_iff neq_Nil_conv split: if_split_asm list.splits)

interpretation udp_listening: listener "udpl_ops pf lw" udpl_ok
    "\<lambda>h. h\<lparr>hworld := sleep_ms (world_platform pf) 10 (hworld h)\<rparr>"
  for pf :: "'e Platform" and lw :: "'e Lwip"
proof unfold_locales
  fix this this' :: obj and h h' :: "'e UdpHeap" and r e
  show "lst_accept (udpl_ops pf lw) this h =
      accept_loop (\<lambda>h. h\<lparr>hworld := sleep_ms (world_platform pf) 10 (hworld h)\<rparr>)
        (lst_accept_nonblocking (udpl_ops pf lw)) this h"
    by (simp add: udpl_ops_def udpl_accept_def)
  assume "udpl_ok this h"
  then obtain l where ok: "listener_ok this l h" by (auto simp: udpl_ok_def)
  show "udpl_ok this (h\<lparr>hworld := sleep_ms (world_platform pf) 10 (hworld h)\<rparr>)"
    using ok by (auto simp: udpl_ok_def)
  show "fault_free r \<and> udpl_ok this' h'" if "lst_accept_nonblocking (udpl_ops pf lw) this h = (r, this', h')"
    using accept_total [OF ok, of lw] udpl_try_fault_free [OF _ ok, of lw] that
    by (auto simp: udpl_ops_def udpl_ok_def)
  show "(case e of None \<Rightarrow> True | Some err \<Rightarrow> \<not> is_fault err) \<and> udpl_ok this' h'"
    if "lst_close (udpl_ops pf lw) this h = (e, this', h')"
    using udpl_close_total [OF ok, of lw] that by (auto simp: udpl_ops_def udpl_ok_def)
qed

section \<open>A sample listener\<close>

text \<open>A listener at address 5 and a peer that has sent two datagrams.\<close>

definition sample_peer_event :: "u8 list \<Rightarrow> LwipEvent" where
  "sample_peer_event bs = UdpRecvEvent (Some 5) 9 (Some bs) (Some (IPADDR_TYPE_V4 (IP4 10 0 0 1))) 53"

definition sample_udp_heap :: "LwipEvent list \<Rightarrow> sample_env UdpHeap" where
  "sample_udp_heap evs =
     \<lparr>hworld = sample_world 0 evs,
      udp_listeners = [5 \<mapsto> new_UdpListener 9 \<lparr>address_network = ''udp'', address_ip = ''0.0.0.0'', address_port = 53\<rparr>],
      udp_connections = Map.empty, next_object = 6\<rparr>"

lemma sample_udp_reach: "udp_reach sample_lwip 5 (sample_udp_heap evs)"
  by (rule udp_reach_start) (auto simp: udp_start_def sample_udp_heap_def)

text \<open>The heap once the first datagram has been delivered and its connection accepted.\<close>

definition sample_accepted_heap :: "sample_env UdpHeap" where
  "sample_accepted_heap =
     (case udpl_accept_nonblocking sample_lwip 5 (sample_udp_heap [sample_peer_event [1, 2, 3]]) of
        Inl fault \<Rightarrow> sample_udp_heap [] | Inr (r, h) \<Rightarrow> h)"

lemmas udp_eval =
  udpl_accept_nonblocking_def heap_poll_def heap_dispatch_def udpl_recv_callback_def udpl_handle_udp_recv_def
  sample_udp_heap_def sample_peer_event_def sample_world_def new_UdpListener_def new_UdpConnection_def
  udp_enqueue_datagram_def put_listener_def put_connection_def heap_call_def Let_def
  on_env_def call_void_def call_def arch_poll_def

lemma sample_accepted:
  "udpl_accept_nonblocking sample_lwip 5 (sample_udp_heap [sample_peer_event [1, 2, 3]]) =
     Inr (Inr (Some 6), sample_accepted_heap)"
  "user_holds 5 sample_accepted_heap 6"
  "\<exists>c. udp_connections sample_accepted_heap 6 = Some c \<and> udp_listener_owner c = Some 5"
  "\<exists>l. udp_listeners sample_accepted_heap 5 = Some l \<and> udpl_pcb l = Some 9 \<and> \<not> udpl_is_closed l"
  by (simp_all add: sample_accepted_heap_def udp_eval user_holds_def held_def)

lemma sample_accepted_reach: "udp_reach sample_lwip 5 sample_accepted_heap"
  using udp_reach_step [OF sample_udp_reach udp_accepts [OF sample_accepted(1)]] .

section \<open>Properties\<close>

text \<open>
  C16: Whatever callbacks, reads, writes, accepts and closes happen, in any order, the table of the
  listener holds exactly the live connections it has made, each under the key of its peer, and the
  connections that wait to be accepted are among them, without repetition.
\<close>

theorem udp_table_agrees:
  assumes "udp_reach lw this h"
  shows "\<exists>l. udp_listeners h = [this \<mapsto> l] \<and>
     (\<forall>k a. active_connections l k = Some a \<longleftrightarrow>
        (\<exists>c. udp_connections h a = Some c \<and> k = make_peer_key (udp_remote_addr c) \<and>
           udp_listener_owner c = Some this \<and> udp_pcb c = udpl_pcb l \<and> \<not> udp_is_closed c)) \<and>
     distinct (pending_connections l) \<and> set (pending_connections l) \<subseteq> ran (active_connections l)"
proof -
  obtain l where "listener_ok this l h" using reach_ok [OF assms] by blast
  then show ?thesis
    by (intro exI [of _ l]) (simp add: listener_ok_def table_ok_def pending_ok_def member_def)
qed

theorem udp_table_agrees_witness:
  "\<exists>l. udp_listeners sample_accepted_heap = [5 \<mapsto> l] \<and>
     (\<forall>k a. active_connections l k = Some a \<longleftrightarrow>
        (\<exists>c. udp_connections sample_accepted_heap a = Some c \<and> k = make_peer_key (udp_remote_addr c) \<and>
           udp_listener_owner c = Some 5 \<and> udp_pcb c = udpl_pcb l \<and> \<not> udp_is_closed c)) \<and>
     distinct (pending_connections l) \<and> set (pending_connections l) \<subseteq> ran (active_connections l)"
  using udp_table_agrees [OF sample_accepted_reach] .



text \<open>
  C17: Demultiplexing. Every datagram for an open listener goes to the end of the queue of the one
  connection whose peer sent it, in the order of arrival and to no other; a peer seen for the first
  time gets a new connection, and these wait to be accepted in the order in which their first
  datagrams came.
\<close>

theorem udp_demultiplexes:
  assumes "udp_reach lw this h" and "udp_listeners h this = Some l" and "\<not> udpl_is_closed l"
    and "list_all (for_listener this) evs"
  shows "\<exists>h' l'. heap_dispatch_all lw evs h = Inr h' \<and> udp_listeners h' this = Some l' \<and>
    (\<forall>k. peer_queue l' h' k =
       peer_queue l h k @ map snd (filter (\<lambda>x. fst x = k) (arrivals lw this evs))) \<and>
    waiting_peers l' h' =
      waiting_peers l h @ first_seen (dom (active_connections l)) (map fst (arrivals lw this evs))"
proof -
  obtain l0 where "listener_ok this l0 h" using reach_ok [OF assms(1)] by blast
  then have "listener_ok this l h" using assms(2) by (simp add: listener_ok_def table_ok_def)
  from dispatch_all_total [OF this, of lw evs]
  obtain h' l' where "heap_dispatch_all lw evs h = Inr h'" "listener_ok this l' h'"
      "received (arrivals lw this evs) l h l' h'"
    using assms(3,4) by auto
  then show ?thesis
    by (intro exI [of _ h'] exI [of _ l']) (simp add: received_def listener_ok_def table_ok_def)
qed

theorem udp_demultiplexes_witness:
  "\<exists>h' l'. heap_dispatch_all sample_lwip [sample_peer_event [1], sample_peer_event [2]] (sample_udp_heap []) = Inr h' \<and>
    udp_listeners h' 5 = Some l' \<and>
    map dg_data (peer_queue l' h' (make_peer_key (peer_address sample_lwip (IP4 10 0 0 1) 53))) = [[1], [2]] \<and>
    waiting_peers l' h' = [make_peer_key (peer_address sample_lwip (IP4 10 0 0 1) 53)]"
proof -
  let ?l = "new_UdpListener 9 \<lparr>address_network = ''udp'', address_ip = ''0.0.0.0'', address_port = 53\<rparr>"
  let ?evs = "[sample_peer_event [1], sample_peer_event [2]]"
  have l: "udp_listeners (sample_udp_heap []) 5 = Some ?l" "\<not> udpl_is_closed ?l" "list_all (for_listener 5) ?evs"
    by (simp_all add: sample_udp_heap_def new_UdpListener_def sample_peer_event_def)
  have "peer_queue ?l (sample_udp_heap []) k = []" "waiting_peers ?l (sample_udp_heap []) = []" for k
    by (simp_all add: peer_queue_def waiting_peers_def new_UdpListener_def)
  moreover let ?k = "make_peer_key (peer_address sample_lwip (IP4 10 0 0 1) 53)"
  have "arrivals sample_lwip 5 ?evs =
      [(?k, peer_datagram sample_lwip [1] (IP4 10 0 0 1) 53), (?k, peer_datagram sample_lwip [2] (IP4 10 0 0 1) 53)]"
    by (simp add: arrivals_def sample_peer_event_def arrival_def)
  moreover have "dom (active_connections ?l) = {}" by (simp add: new_UdpListener_def)
  moreover obtain h' l' where "heap_dispatch_all sample_lwip ?evs (sample_udp_heap []) = Inr h'"
      "udp_listeners h' 5 = Some l'"
      "peer_queue l' h' ?k = peer_queue ?l (sample_udp_heap []) ?k @
         map snd (filter (\<lambda>x. fst x = ?k) (arrivals sample_lwip 5 ?evs))"
      "waiting_peers l' h' = waiting_peers ?l (sample_udp_heap []) @
         first_seen (dom (active_connections ?l)) (map fst (arrivals sample_lwip 5 ?evs))"
    using udp_demultiplexes [OF sample_udp_reach l] by blast
  ultimately show ?thesis by (intro exI [of _ h'] exI [of _ l']) (simp add: peer_datagram_def)
qed

text \<open>
  C32: An accepted connection outlives its listener badly. Closing the listener gives its control
  block back to lwIP but leaves the connections the user has accepted open on that block, and once
  the listener is destroyed, closing such a connection follows a dangling pointer to it.
\<close>

theorem udp_accepted_outlives_listener:
  assumes "udp_reach lw this h" and "udp_listeners h this = Some l" and "\<not> udpl_is_closed l"
    and "udpl_pcb l = Some p" and "user_holds this h a"
    and "udp_connections h a = Some c" and "udp_listener_owner c = Some this"
  shows "\<exists>h'. udpl_close lw this h = Inr (None, h') \<and> UdpRemove p \<in> fst ` set (calls (hworld h')) \<and>
    udp_connections h' a = Some c \<and> udp_pcb c = Some p \<and> \<not> udp_is_closed c \<and>
    (\<exists>h''. udpl_delete lw this h = Inr h'' \<and> peer_close lw a h'' = Inl NullDeref)"
proof -
  obtain l0 where "listener_ok this l0 h" using reach_ok [OF assms(1)] by blast
  then have ok: "listener_ok this l h" using assms(2) by (simp add: listener_ok_def table_ok_def)
  have held: "held l h a" using assms(5) user_holds_held [OF ok] by simp
  have "connection_ok this l c" using table_okD(7) assms(6) ok unfolding listener_ok_def by blast
  then have c: "udp_pcb c = Some p" "\<not> udp_is_closed c" "\<not> udp_owns_pcb c"
    using assms(3,4,7) by (simp_all add: connection_ok_def)
  obtain h' l' where h': "udpl_close lw this h = Inr (None, h')" "listener_ok this l' h'"
      "udp_connections h' a = Some c" "UdpRemove p \<in> fst ` set (calls (hworld h'))"
    using udpl_close_total [OF ok, of lw] held assms(4,6) by metis
  let ?h = "h'\<lparr>udp_listeners := (udp_listeners h')(this := None)\<rparr>"
  have "udpl_delete lw this h = Inr ?h" using h'(1) by (simp add: udpl_delete_def)
  moreover obtain c' w where "udp_close lw c (hworld ?h) = (Some (this, udp_remote_addr c), c', w)"
    using c assms(7) by (simp add: udp_close_def)
  then have "peer_close lw a ?h = Inl NullDeref"
    using h'(3) by (simp add: peer_close_def udpl_remove_connection_def deref_def)
  ultimately show ?thesis using h' c by auto
qed

theorem udp_accepted_outlives_listener_witness:
  "\<exists>h'. udpl_delete sample_lwip 5 sample_accepted_heap = Inr h' \<and> peer_close sample_lwip 6 h' = Inl NullDeref"
proof -
  obtain c where c: "udp_connections sample_accepted_heap 6 = Some c" "udp_listener_owner c = Some 5"
    using sample_accepted(3) by blast
  obtain l where "udp_listeners sample_accepted_heap 5 = Some l" "udpl_pcb l = Some 9" "\<not> udpl_is_closed l"
    using sample_accepted(4) by blast
  from udp_accepted_outlives_listener [OF sample_accepted_reach this(1,3,2) sample_accepted(2) c]
  show ?thesis by blast
qed

text \<open>
  A read of a UDP connection keeps datagrams apart: it takes the next datagram of the peer from the
  queue, the ones that the poll has just delivered at its end, and returns its first bytes; what does
  not fit is dropped with it, and the rest of the queue stays. Nothing of another peer is ever read.
\<close>

lemma udp_read_is_one_datagram:
  assumes "udp_read_nonblocking lw n c w = (Inr bs, c', w')" and "0 < n" and "bs \<noteq> []"
  shows "\<exists>evs d. delivered w' = delivered w @ evs \<and>
    udp_rx_queue c @ datagrams_of lw c evs = d # udp_rx_queue c' \<and> bs = take n (dg_data d) \<and>
    (\<forall>d'\<in>set (datagrams_of lw c evs). address_ip (dg_from d') = address_ip (udp_remote_addr c) \<and>
       address_port (dg_from d') = address_port (udp_remote_addr c))"
proof -
  obtain evs q where r: "delivered w' = delivered w @ evs"
      "q = udp_rx_queue c @ (if udp_is_closed c then [] else datagrams_of lw c evs)"
      "\<exists>d. q = d # udp_rx_queue c' \<and> bs = take n (dg_data d)"
    using udp_read_datagram(1) [OF assms(1,2)] assms(3) by auto
  have "\<not> udp_is_closed c"
  proof
    assume closed: "udp_is_closed c"
    obtain c1 w1 where p: "udp_poll lw c w = (c1, w1)" by fastforce
    then have "udp_is_closed c1"
      using closed udp_dispatch_all [of lw "fst (arch_poll lw w)" c "snd (arch_poll lw w)" c1 w1]
      by (simp add: udp_poll_def case_prod_beta)
    then show False
      using assms(1,2) p by (auto simp: udp_read_nonblocking_def udp_take_def split: if_splits)
  qed
  moreover have "address_ip (dg_from d') = address_ip (udp_remote_addr c) \<and>
      address_port (dg_from d') = address_port (udp_remote_addr c)" if "d' \<in> set (event_datagrams lw this (udp_remote_addr c) ev)" for d' ev this
    using that by (induction lw this "udp_remote_addr c" ev rule: event_datagrams.induct)
      (auto simp: from_peer_def split: if_splits)
  ultimately show ?thesis
    using r by (intro exI [of _ evs]) (auto simp: datagrams_of_def)
qed

end
