(* ===== verification/Network_Service.thy ===== *)
theory Network_Service
  imports Network Udp_Service Mqtt_Over_Tcp Mqtt_Wire
begin

text \<open>
  The properties of \<^verbatim>\<open>Network\<close>: the modes of the radio, what dialling and listening do to lwIP,
  that a dial returns, and \<^verbatim>\<open>MqttClient\<close> over connections that \<^verbatim>\<open>dial_tcp\<close> has made.
\<close>

section \<open>The modes of the radio\<close>

text \<open>
  What happens to the object and to the DNS servers of its user. A server that is attached may be
  changed by its user, or destroyed.
\<close>

inductive network_reach :: "'e Lwip \<Rightarrow> Network \<Rightarrow> bool" for lw where
  network_new: "network_reach lw (new_Network dhcp)"
| network_initialize: "network_reach lw net \<Longrightarrow> initialize lw net w = (e, net', w') \<Longrightarrow> network_reach lw net'"
| network_station: "network_reach lw net \<Longrightarrow>
    connect_to_wifi_station lw ssid password t net w = (e, net', w') \<Longrightarrow> network_reach lw net'"
| network_access_point: "network_reach lw net \<Longrightarrow>
    setup_wifi_access_point lw ssid password net w = (e, net', w') \<Longrightarrow> network_reach lw net'"
| network_dns: "network_reach lw net \<Longrightarrow>
    add_dns_server lw dns net w = (e, dns', net', w') \<Longrightarrow> network_reach lw net'"
| network_dhcp: "network_reach lw net \<Longrightarrow> dhcp_udp s = dhcp_udp (dhcp_server net) \<Longrightarrow>
    network_reach lw (net\<lparr>dhcp_server := s\<rparr>)"

definition modes_ok :: "Network \<Rightarrow> bool" where
  "modes_ok net \<longleftrightarrow>
     \<not> (is_connected_to_station_wifi net \<and> is_access_point_active net) \<and>
     (is_ready net \<longrightarrow> is_initialized net) \<and>
     (is_access_point_active net \<longleftrightarrow> dhcp_udp (dhcp_server net) \<noteq> None) \<and>
     (attached_dns_server net \<noteq> None \<longrightarrow> is_access_point_active net)"

lemma dhcp_start_string_udp:
  "dhcp_start_string lw ip nm s w = (e, s', w') \<Longrightarrow> dhcp_udp s = None \<Longrightarrow>
     (dhcp_udp s' \<noteq> None \<longleftrightarrow> e = None)"
  by (auto simp: dhcp_start_string_def dhcp_start_def Let_def case_prod_beta split: option.splits if_splits)

lemma reach_modes: "network_reach lw net \<Longrightarrow> modes_ok net"
proof (induction rule: network_reach.induct)
  case (network_new dhcp)
  then show ?case by (simp add: modes_ok_def new_Network_def is_ready_def new_DhcpServer_def)
next
  case (network_initialize net w e net' w')
  then show ?case by (auto simp: initialize_def modes_ok_def is_ready_def Let_def split: if_splits prod.splits)
next
  case (network_station net ssid password t w e net' w')
  then show ?case
    by (auto simp: connect_to_wifi_station_def modes_ok_def is_ready_def Let_def split: if_splits prod.splits)
next
  case (network_access_point net ssid password w e net' w')
  then show ?case
    using dhcp_start_string_udp
    by (cases "dhcp_udp (dhcp_server net)")
      (fastforce simp: setup_wifi_access_point_def modes_ok_def is_ready_def Let_def
        split: if_splits prod.splits option.splits)+
next
  case (network_dns net dns w e dns' net' w')
  then show ?case
    by (auto simp: add_dns_server_def modes_ok_def is_ready_def Let_def
        split: if_splits prod.splits option.splits)
next
  case (network_dhcp net s)
  then show ?case by (auto simp: modes_ok_def is_ready_def)
qed

section \<open>Dialling\<close>

text \<open>
  lwIP calls a connected callback with the argument of its control block; a dial that gives up
  takes the argument away and closes the block, after which lwIP does not call it.
\<close>

definition connects_with_argument :: "'e Lwip \<Rightarrow> bool" where
  "connects_with_argument lw \<longleftrightarrow> (\<forall>e p err. TcpConnectedEvent None p err \<notin> set (fst (lwip_poll lw e)))"

text \<open>What a state may hold: a control block exactly when a callback has reported success.\<close>

definition dial_state_ok :: "obj \<Rightarrow> LwipEvent list \<Rightarrow> TcpDialState \<Rightarrow> bool" where
  "dial_state_ok at evs state \<longleftrightarrow>
     (\<forall>q. connected_pcb state = Some q \<longrightarrow> TcpConnectedEvent (Some at) q ERR_OK \<in> set evs)"

lemma dial_dispatch_ok:
  assumes "\<forall>p err. ev \<noteq> TcpConnectedEvent None p err" and "dial_state_ok at evs state"
  shows "\<exists>state'. dial_dispatch at ev state = Inr state' \<and> dial_state_ok at (evs @ [ev]) state'"
  using assms
  by (cases ev)
    (auto simp: dial_dispatch_def dial_state_ok_def tcp_dial_connected_callback_def Let_def split: option.split)

lemma dial_dispatch_all_ok:
  "\<forall>p err. TcpConnectedEvent None p err \<notin> set evs \<Longrightarrow> dial_state_ok at evs0 state \<Longrightarrow>
     \<exists>state'. dial_dispatch_all at evs state = Inr state' \<and> dial_state_ok at (evs0 @ evs) state'"
proof (induction evs arbitrary: evs0 state)
  case (Cons ev evs)
  obtain s1 where s1: "dial_dispatch at ev state = Inr s1" "dial_state_ok at (evs0 @ [ev]) s1"
    using dial_dispatch_ok [of ev at evs0 state] Cons.prems by auto
  have "\<forall>p err. TcpConnectedEvent None p err \<notin> set evs" using Cons.prems(1) by simp
  from Cons.IH [OF this s1(2)] s1(1) show ?case by simp
qed simp

lemma dial_wait_returns:
  assumes clock: "clock_law pf now" and lw: "lwip_keeps_time lw now"
  shows "dial_wait pf lw at t state w \<noteq> None"
proof (induction "t - now (env w)" arbitrary: state w rule: less_induct)
  case less
  obtain evs w1 where p: "arch_poll lw w = (evs, w1)" by fastforce
  have w1: "now (env w) \<le> now (env w1)" using arch_poll_time [OF lw, of w] p by simp
  let ?e = "sleep_ms pf 10 (env w1)"
  let ?now = "fst (get_absolute_time pf ?e)" and ?w3 = "w1\<lparr>env := snd (get_absolute_time pf ?e)\<rparr>"
  note law = clock_lawD [OF clock]
  have t: "now (env w1) < ?now" "?now \<le> now (env ?w3)" "absolute_time_diff_us pf ?now t \<le> 0 \<longleftrightarrow> t \<le> ?now"
    using law(5) [of "env w1" 10] law(1,2) [of ?e] law(4) [of ?now t] by simp_all
  have IH: "dial_wait pf lw at t s ?w3 \<noteq> None" if "\<not> t \<le> ?now" for s
    using w1 t(1,2) that by (intro less) simp
  show ?case
    by (subst dial_wait.simps)
      (use IH t(3) in \<open>simp add: p on_env_def case_prod_beta del: not_None_eq split: sum.split\<close>)
qed

definition wait_result :: "obj \<Rightarrow> LwipEvent list \<Rightarrow> 'e World \<Rightarrow> TcpDialState option result \<times> 'e World \<Rightarrow> bool" where
  "wait_result at old w y \<longleftrightarrow> calls (snd y) = calls w \<and>
     (\<exists>evs. delivered (snd y) = old @ evs \<and>
        (case fst y of
           Inl fault \<Rightarrow> False
         | Inr None \<Rightarrow> True
         | Inr (Some state) \<Rightarrow> dial_state_ok at evs state \<and> dial_done state))"

lemma dial_wait_result:
  assumes "connects_with_argument lw" and "dial_wait pf lw at t state w = Some y"
    and "delivered w = old @ evs" and "dial_state_ok at evs state"
  shows "wait_result at old w y"
proof -
  have "lw' = lw \<longrightarrow> (\<forall>evs. delivered w = old @ evs \<longrightarrow> dial_state_ok at evs state \<longrightarrow> wait_result at old w y)"
    if "dial_wait pf lw' at t state w = Some y" for pf :: "'a Platform" and lw' at t state and w :: "'a World" and y
    using that
  proof (induction rule: dial_wait.raw_induct [rotated, consumes 1, case_names step])
    case (step wait pf lw' at t state w y)
    show ?case
    proof (intro impI allI)
      fix evs0
      assume lw': "lw' = lw" and w: "delivered w = old @ evs0" and ok: "dial_state_ok at evs0 state"
      show "wait_result at old w y"
      proof (cases "dial_done state")
        case True
        then show ?thesis using step(2) ok w by (auto simp: wait_result_def)
      next
        case False
        obtain evs w1 where p: "arch_poll lw w = (evs, w1)" by fastforce
        have w1: "delivered w1 = old @ (evs0 @ evs)" "calls w1 = calls w"
          using arch_poll_log [of lw w] p w by simp_all
        have "\<forall>p err. TcpConnectedEvent None p err \<notin> set evs"
          using assms(1) p by (auto simp: connects_with_argument_def arch_poll_def split: prod.splits) (metis fst_conv)
        then obtain s1 where s1: "dial_dispatch_all at evs state = Inr s1" "dial_state_ok at (evs0 @ evs) s1"
          using dial_dispatch_all_ok ok by metis
        let ?g = "on_env (get_absolute_time pf) (w1\<lparr>env := sleep_ms pf 10 (env w1)\<rparr>)"
        have g: "delivered (snd ?g) = delivered w1" "calls (snd ?g) = calls w1" by (simp_all add: world_simps)
        show ?thesis
        proof (cases "absolute_time_diff_us pf (fst ?g) t \<le> 0")
          case True
          then have "y = (Inr None, snd ?g)"
            using step(2) False p s1(1) lw' by (simp add: case_prod_beta)
          then show ?thesis using g w1 by (simp add: wait_result_def)
        next
          case go: False
          have "wait pf lw at t s1 (snd ?g) = Some y"
            using step(2) False p s1(1) lw' go by (simp add: case_prod_beta)
          from step(1) [OF this] show ?thesis using s1(2) g w1 by (simp add: wait_result_def)
        qed
      qed
    qed
  qed
  from this [OF assms(2)] assms(3,4) show ?thesis by simp
qed

text \<open>The calls of a dial that gives up on its control block: it is closed, or else aborted.\<close>

definition give_up_calls :: "pcb \<Rightarrow> LwipCall list \<Rightarrow> bool" where
  "give_up_calls p cs \<longleftrightarrow> cs = [TcpArg p None, TcpClose p] \<or> cs = [TcpArg p None, TcpClose p, TcpAbort (Some p)]"

lemma dial_cleanup_calls:
  assumes "dial_cleanup lw p msg w = (r, w')"
  shows "r = Inl (Error msg)" "\<exists>cs. map fst (calls w') = map fst (calls w) @ cs \<and> give_up_calls p cs"
  using assms by (auto simp: dial_cleanup_def Let_def world_simps give_up_calls_def case_prod_beta split: if_splits)

text \<open>The outcome of a dial in terms of its calls.\<close>

definition dial_outcome :: "'e Lwip \<Rightarrow> Network \<Rightarrow> Address \<Rightarrow> 'e World \<Rightarrow> TcpConnection result \<Rightarrow> 'e World \<Rightarrow> bool" where
  "dial_outcome lw net address w r w' \<longleftrightarrow>
     (case r of
        Inl e \<Rightarrow> \<not> is_fault e \<and>
          (calls w' = calls w \<or>
           (\<exists>p at ip cs. map fst (calls w') = map fst (calls w) @
              [TcpArg p (Some at), TcpConnect p ip (address_port address)] @ cs \<and> give_up_calls p cs))
      | Inr c \<Rightarrow> is_initialized net \<and> is_ready net \<and> tcp_remote_addr c = address \<and>
          \<not> tcp_is_closed c \<and> tcp_rx_buffer c = [] \<and>
          (\<exists>p q at ip evs. lwip_aton lw (address_ip address) = Some ip \<and> tcp_pcb c = Some q \<and>
             delivered w' = delivered w @ evs \<and> TcpConnectedEvent (Some at) q ERR_OK \<in> set evs \<and>
             map fst (calls w') = map fst (calls w) @
               [TcpArg p (Some at), TcpConnect p ip (address_port address)] @ attach_calls c))"

lemma dial_outcome_give_up:
  assumes "dial_cleanup lw p msg w1 = (r, w')"
    and "map fst (calls w1) = map fst (calls w) @ [TcpArg p (Some at), TcpConnect p ip (address_port address)]"
  shows "dial_outcome lw net address w r w'"
proof -
  obtain cs where "r = Inl (Error msg)" "map fst (calls w') = map fst (calls w1) @ cs" "give_up_calls p cs"
    using dial_cleanup_calls [OF assms(1)] by blast
  moreover from this have "map fst (calls w') = map fst (calls w) @
      [TcpArg p (Some at), TcpConnect p ip (address_port address)] @ cs"
    using assms(2) by simp
  ultimately show ?thesis unfolding dial_outcome_def by auto
qed

lemma dial_finish_outcome:
  assumes fin: "dial_finish lw p address state w1 = (r, w')"
    and c1: "map fst (calls w1) = map fst (calls w) @ [TcpArg p (Some at), TcpConnect p ip (address_port address)]"
    and d1: "delivered w1 = delivered w @ evs" and ok: "dial_state_ok at evs state"
    and net: "is_initialized net" "is_ready net" "lwip_aton lw (address_ip address) = Some ip"
  shows "dial_outcome lw net address w r w'"
proof (cases "\<exists>q. connected_pcb state = Some q \<and> dial_success state")
  case False
  then have "dial_cleanup lw p ''tcp connect failed'' w1 = (r, w')"
    using fin by (auto simp: dial_finish_def split: option.splits)
  then show ?thesis using dial_outcome_give_up [OF _ c1] by blast
next
  case True
  then obtain q where q: "connected_pcb state = Some q" "dial_success state" by blast
  have event: "TcpConnectedEvent (Some at) q ERR_OK \<in> set evs" using ok q by (simp add: dial_state_ok_def)
  obtain this w2 where n: "on_env (new_object lw) w1 = (this, w2)" by fastforce
  have w2: "calls w2 = calls w1" "delivered w2 = delivered w1"
    using on_env_log(1,2) [of "new_object lw" w1] n by simp_all
  define c where "c = new_TcpConnection this q \<lparr>address_network = ''tcp'', address_ip = local_ip lw w1,
    address_port = lwip_local_port lw q (env w1)\<rparr> address"
  have c: "r = Inr c" "Inr w' = tcp_attach_callbacks lw c w2" "tcp_pcb c = Some q"
      "tcp_remote_addr c = address" "\<not> tcp_is_closed c" "tcp_rx_buffer c = []"
    using fin q n by (auto simp: c_def dial_finish_def tcp_attach_callbacks_def new_TcpConnection_def Let_def)
  have w': "map fst (calls w') = map fst (calls w2) @ attach_calls c" "delivered w' = delivered w2"
    using c(2,3) by (simp_all add: tcp_attach_callbacks_def attach_calls_def Let_def world_simps)
  have "map fst (calls w') = map fst (calls w) @
      [TcpArg p (Some at), TcpConnect p ip (address_port address)] @ attach_calls c" "delivered w' = delivered w @ evs"
    using w' w2 c1 d1 by simp_all
  then show ?thesis
    unfolding dial_outcome_def c(1) sum.case using c(3-6) net event by blast
qed

lemma dial_tcp_outcome:
  assumes run: "dial_tcp pf lw net address timeout w = Some (r, w')" and lw: "connects_with_argument lw"
  shows "dial_outcome lw net address w r w'"
proof -
  have early: "dial_outcome lw net address w (Inl (Error msg)) w'" if "calls w' = calls w" for msg w'
    using that by (simp add: dial_outcome_def)
  show ?thesis
  proof (cases "is_initialized net \<and> is_ready net")
    case False
    then show ?thesis using run early by (auto simp: dial_tcp_def dial_start_def split: if_splits)
  next
    case net: True
    show ?thesis
    proof (cases "lwip_aton lw (address_ip address)")
      case None
      then show ?thesis using run net early by (auto simp: dial_tcp_def dial_start_def)
    next
      case (Some ip)
      obtain pcb w1 where new: "on_env (lwip_tcp_new lw) w = (pcb, w1)" by fastforce
      have w1: "calls w1 = calls w" "delivered w1 = delivered w"
        using on_env_log(1,2) [of "lwip_tcp_new lw" w] new by simp_all
      show ?thesis
      proof (cases pcb)
        case None
        then show ?thesis using run net Some new w1 early by (auto simp: dial_tcp_def dial_start_def)
      next
        case p: (Some p)
        obtain at w2 where at: "on_env (new_object lw) w1 = (at, w2)" by fastforce
        obtain err w3 where con: "call lw (TcpConnect p ip (address_port address))
            (call_void lw (TcpArg p (Some at)) w2) = (err, w3)" by fastforce
        have w2: "calls w2 = calls w" "delivered w2 = delivered w"
          using on_env_log(1,2) [of "new_object lw" w1] at w1 by simp_all
        have w3: "map fst (calls w3) = map fst (calls w) @ [TcpArg p (Some at), TcpConnect p ip (address_port address)]"
            "delivered w3 = delivered w"
          using call_log(1,2) [of lw "TcpConnect p ip (address_port address)" "call_void lw (TcpArg p (Some at)) w2"]
            con w2 by (simp_all add: world_simps)
        note eval = dial_tcp_def dial_start_def net Some new p at con Let_def
        show ?thesis
        proof (cases "err = ERR_OK")
          case False
          then have "dial_cleanup lw p ''tcp_connect failed'' w3 = (r, w')"
            using run by (simp add: eval dial_cleanup_def case_prod_beta)
          then show ?thesis using dial_outcome_give_up [OF _ w3(1)] by blast
        next
          case True
          obtain until w4 where u: "on_env (make_timeout_time_ms pf timeout) w3 = (until, w4)" by fastforce
          have w4: "map fst (calls w4) = map fst (calls w) @ [TcpArg p (Some at), TcpConnect p ip (address_port address)]"
              "delivered w4 = delivered w @ []"
            using on_env_log(1,2) [of "make_timeout_time_ms pf timeout" w3] u w3 by simp_all
          obtain y where y: "dial_wait pf lw at until new_TcpDialState w4 = Some y"
            using run True by (auto simp: eval u split: option.splits)
          have "dial_state_ok at [] new_TcpDialState" by (simp add: dial_state_ok_def new_TcpDialState_def)
          from dial_wait_result [OF lw y w4(2) this] have res: "wait_result at (delivered w) w4 y" .
          obtain x w5 where xy: "y = (x, w5)" by fastforce
          have w5: "map fst (calls w5) = map fst (calls w) @ [TcpArg p (Some at), TcpConnect p ip (address_port address)]"
            using res w4(1) xy by (simp add: wait_result_def)
          show ?thesis
          proof (cases x)
            case (Inl fault)
            then show ?thesis using res xy by (simp add: wait_result_def)
          next
            case (Inr s)
            show ?thesis
            proof (cases s)
              case None
              then have "dial_cleanup lw p ''tcp connect timeout'' w5 = (r, w')"
                using run True y xy Inr by (simp add: eval u)
              then show ?thesis using dial_outcome_give_up [OF _ w5] by blast
            next
              case st: (Some state)
              then have fin: "dial_finish lw p address state w5 = (r, w')"
                using run True y xy Inr by (simp add: eval u)
              obtain evs where evs: "delivered w5 = delivered w @ evs" "dial_state_ok at evs state"
                using res xy Inr st by (auto simp: wait_result_def)
              show ?thesis using dial_finish_outcome [OF fin w5 evs] net Some by simp
            qed
          qed
        qed
      qed
    qed
  qed
qed

lemma dial_tcp_returns:
  assumes "clock_law pf now" and "lwip_keeps_time lw now"
  shows "dial_tcp pf lw net address timeout w \<noteq> None"
  using dial_wait_returns [OF assms]
  by (simp add: dial_tcp_def dial_start_def Let_def case_prod_beta del: not_None_eq split: option.split sum.split)

lemma dial_tcp_safe: "connects_with_argument lw \<Longrightarrow> dial_safe (dial_tcp pf lw net)"
  using dial_tcp_outcome [of pf lw net]
  by (force simp: dial_safe_def dial_outcome_def split: sum.splits)

section \<open>Going down\<close>

definition deinits :: "'e World \<Rightarrow> nat" where
  "deinits w = length (filter (\<lambda>k. k = Cyw43Deinit) (map fst (calls w)))"

lemma deinits_call [simp]:
  "deinits (call_void lw k w) = deinits w + (if k = Cyw43Deinit then 1 else 0)"
  by (simp add: deinits_def world_simps)

lemma stop_deinits:
  "dns_stop lw s w = (e, s', w') \<Longrightarrow> deinits w' = deinits w"
  "dhcp_stop lw d w = (e, d', w') \<Longrightarrow> deinits w' = deinits w"
  "deinits (dhcp_destroy lw d w) = deinits w"
  by (auto simp: dns_stop_def dhcp_stop_def dhcp_destroy_def split: option.splits)

lemma network_destroy_deinits:
  assumes "modes_ok net" and "network_destroy lw net servers w = Inr (servers', w')"
  shows "deinits w' = deinits w + (if is_ready net then 1 else 0)"
  using assms
  by (auto simp: network_destroy_def modes_ok_def is_ready_def Let_def stop_deinits
      split: prod.splits option.splits if_splits)

lemma network_destroy_fault:
  "isl (network_destroy lw net servers w) \<longleftrightarrow> (\<exists>a. attached_dns_server net = Some a \<and> servers a = None)"
  by (auto simp: network_destroy_def Let_def case_prod_beta split: option.split)

section \<open>Listening\<close>

lemma listen_udp_start:
  assumes "listen_udp lw net port h = Inr (Inr this, h')"
    and "udp_listeners h = Map.empty" and "udp_connections h = Map.empty"
  shows "udp_start this h'"
    "\<exists>p. map fst (calls (hworld h')) = map fst (calls (hworld h)) @
       [UdpBind p (Some (IPADDR_TYPE_V4 (IP4 0 0 0 0))) port, UdpRecv p (Some this)]"
proof -
  have pcb: "udpl_pcb (new_UdpListener p a) = Some p" for p a by (simp add: new_UdpListener_def)
  note eval = listen_udp_def udpl_attach_callbacks_def Let_def heap_call_def put_listener_def pcb case_prod_beta
  show "udp_start this h'"
    using assms by (auto simp: eval udp_start_def split: option.splits if_splits) blast
  show "\<exists>p. map fst (calls (hworld h')) = map fst (calls (hworld h)) @
       [UdpBind p (Some (IPADDR_TYPE_V4 (IP4 0 0 0 0))) port, UdpRecv p (Some this)]"
    using assms by (auto simp: eval world_simps split: option.splits if_splits)
qed

text \<open>
  What \<open>listen_tcp\<close> does with its control block. When the listening fails, the call of \<^verbatim>\<open>tcp_abort\<close>
  has a null pointer, and the block that was bound is neither closed nor aborted.
\<close>

lemma listen_tcp_result:
  assumes "listen_tcp lw net port w = (r, w')"
  shows "case r of
      Inl e \<Rightarrow> \<not> is_fault e \<and> (calls w' = calls w \<or>
        (\<exists>p. map fst (calls w') = map fst (calls w) @ [TcpBind p port, TcpAbort (Some p)]) \<or>
        (\<exists>p e. map fst (calls w') = map fst (calls w) @ [TcpBind p port, TcpAbort None] \<and>
           fst (lwip_tcp_listen lw p 4 e) = None))
    | Inr l \<Rightarrow> is_initialized net \<and> is_ready net \<and> \<not> tcpl_is_closed l \<and> \<not> tcpl_has_error l \<and> tcpl_pending l = [] \<and>
        address_port (tcpl_local_addr l) = port \<and>
        (\<exists>p q e. tcpl_pcb l = Some q \<and> fst (lwip_tcp_listen lw p 4 e) = Some q \<and>
           map fst (calls w') = map fst (calls w) @
             [TcpBind p port, TcpArg q (Some (tcpl_this l)), TcpAccept q True])"
proof -
  have pcb: "tcpl_pcb (new_TcpListener t p a) = Some p" for t p a by (simp add: new_TcpListener_def)
  note eval = listen_tcp_def tcpl_attach_callbacks_def pcb Let_def case_prod_beta
  show ?thesis
    using assms
    by (auto simp: eval world_simps new_TcpListener_def split: option.splits if_splits)
qed

section \<open>A sample network\<close>

text \<open>The sample environment, in which a connected callback always carries its argument.\<close>

definition carries_argument :: "LwipEvent \<Rightarrow> bool" where
  "carries_argument ev = (case ev of TcpConnectedEvent None p err \<Rightarrow> False | _ \<Rightarrow> True)"

definition dialling_lwip :: "sample_env Lwip" where
  "dialling_lwip = sample_lwip\<lparr>lwip_poll := (\<lambda>e. (filter carries_argument (snd e), (fst e, [])))\<rparr>"

definition sample_network :: Network where
  "sample_network = (new_Network 8)\<lparr>is_initialized := True, is_connected_to_station_wifi := True\<rparr>"

definition sample_broker :: Address where
  "sample_broker = \<lparr>address_network = ''tcp'', address_ip = ''10.0.0.1'', address_port = 1883\<rparr>"

lemma dialling_laws:
  "lwip_keeps_time dialling_lwip fst" "connects_with_argument dialling_lwip"
  by (auto simp: lwip_keeps_time_def dialling_lwip_def sample_lwip_def connects_with_argument_def carries_argument_def)

section \<open>Properties\<close>

text \<open>
  C34: The modes of the radio, whatever functions are called in whatever order: never a station and an
  access point at once, neither without the driver, the DHCP server runs exactly as long as there
  is an access point, and a DNS server is attached only to one. The destructor switches the driver
  off exactly when there is a station or an access point, so one that was only initialised is left
  on, and it follows a dangling pointer exactly when the DNS server that was added has been
  destroyed before the network.
\<close>

theorem network_modes:
  assumes "network_reach lw net"
  shows "\<not> (is_connected_to_station_wifi net \<and> is_access_point_active net) \<and>
    (is_ready net \<longrightarrow> is_initialized net) \<and>
    (is_access_point_active net \<longleftrightarrow> dhcp_udp (dhcp_server net) \<noteq> None) \<and>
    (attached_dns_server net \<noteq> None \<longrightarrow> is_access_point_active net) \<and>
    (case network_destroy lw net servers w of
       Inl fault \<Rightarrow> \<exists>a. attached_dns_server net = Some a \<and> servers a = None
     | Inr (servers', w') \<Rightarrow>
         (\<forall>a. attached_dns_server net = Some a \<longrightarrow> servers a \<noteq> None) \<and>
         deinits w' = deinits w + (if is_ready net then 1 else 0))"
proof -
  note ok = reach_modes [OF assms]
  have "case network_destroy lw net servers w of
       Inl fault \<Rightarrow> \<exists>a. attached_dns_server net = Some a \<and> servers a = None
     | Inr (servers', w') \<Rightarrow>
         (\<forall>a. attached_dns_server net = Some a \<longrightarrow> servers a \<noteq> None) \<and>
         deinits w' = deinits w + (if is_ready net then 1 else 0)"
    using network_destroy_fault [of lw net servers w] network_destroy_deinits [OF ok, of lw servers w]
    by (auto split: sum.split prod.split)
  then show ?thesis using ok unfolding modes_ok_def by blast
qed

lemma sample_network_reach: "network_reach sample_lwip sample_network"
proof -
  let ?w = "sample_world 0 []"
  have "initialize sample_lwip (new_Network 8) ?w = (None, (new_Network 8)\<lparr>is_initialized := True\<rparr>,
      snd (call sample_lwip Cyw43Init ?w))"
    by (simp add: initialize_def new_Network_def call_def)
  from network_initialize [OF network_new this]
  have up: "network_reach sample_lwip ((new_Network 8)\<lparr>is_initialized := True\<rparr>)" .
  have "fst (snd (connect_to_wifi_station sample_lwip [] [] 1000 ((new_Network 8)\<lparr>is_initialized := True\<rparr>) ?w)) = sample_network"
    by (simp add: connect_to_wifi_station_def new_Network_def sample_network_def call_def Let_def)
  then show ?thesis using network_station [OF up] by (metis prod.collapse)
qed

theorem network_modes_witness:
  "is_initialized sample_network \<and> \<not> is_access_point_active sample_network \<and>
    (\<exists>servers w'. network_destroy sample_lwip sample_network Map.empty (sample_world 0 []) = Inr (servers, w') \<and>
       deinits w' = deinits (sample_world 0 []) + 1)"
proof -
  have "is_connected_to_station_wifi sample_network" "attached_dns_server sample_network = None"
    by (simp_all add: sample_network_def new_Network_def)
  moreover from this(1) have "is_ready sample_network" by (simp add: is_ready_def)
  moreover note network_modes [OF sample_network_reach, of Map.empty "sample_world 0 []"]
  ultimately show ?thesis
    by (cases "network_destroy sample_lwip sample_network Map.empty (sample_world 0 [])") auto
qed


lemma sample_dial_run:
  "\<exists>c w'. dial_tcp sample_platform dialling_lwip sample_network sample_broker 50
     (sample_world 0 [TcpConnectedEvent (Some 7) 1 ERR_OK]) = Some (Inr c, w')"
  by (simp add: dial_tcp_def dial_start_def sample_network_def new_Network_def is_ready_def sample_broker_def dialling_lwip_def
      sample_lwip_def on_env_def sample_world_def call_def call_void_def dial_wait.simps new_TcpDialState_def
      arch_poll_def carries_argument_def dial_dispatch_def tcp_dial_connected_callback_def dial_finish_def
      tcp_attach_callbacks_def new_TcpConnection_def Let_def)





lemma sample_reach:
  "client_reach (world_platform sample_platform) (tcp_ops sample_platform dialling_lwip)
     (dial_tcp sample_platform dialling_lwip sample_network)
     [Some (Error ''MQTT client is not connected'')] (new_MqttClient (world_platform sample_platform))"
  by (rule reach_poll [OF reach_new, where w = "sample_world 0 []" and w' = "sample_world 0 []"])
     (simp add: poll_def new_MqttClient_def)


text \<open>
  C14: \<open>connect\<close> over a network returns: when the clock runs and lwIP does not turn it back, a client
  that is not connected gets an answer, dial and CONNACK included, and the client is connected
  afterwards exactly when the answer is no error.
\<close>

theorem connect_answers:
  assumes "clock_law pf now" and "lwip_keeps_time lw now" and "connects_with_argument lw"
    and "client_inv cl" and "\<not> is_connected cl"
  shows "\<exists>e cl' w'. connect (world_platform pf) (tcp_ops pf lw) (dial_tcp pf lw net) broker m timeout_ms cl w =
      Some (e, cl', w') \<and> client_inv cl' \<and> (e = None \<longleftrightarrow> is_connected cl')"
  using connect_over_tcp_answers [OF assms(1,2) dial_tcp_safe [OF assms(3)] dial_tcp_returns [OF assms(1,2)] assms(4,5)] .

theorem connect_answers_witness:
  "\<exists>e cl' w'. connect (world_platform sample_platform) (tcp_ops sample_platform dialling_lwip)
      (dial_tcp sample_platform dialling_lwip sample_network) sample_broker sample_connect 10
      (new_MqttClient (world_platform sample_platform)) (sample_world 0 [TcpConnectedEvent (Some 7) 1 ERR_OK]) =
      Some (e, cl', w') \<and> client_inv cl' \<and> (e = None \<longleftrightarrow> is_connected cl')"
  by (rule connect_answers [OF sample_clock dialling_laws new_client_inv])
     (simp add: is_connected_def new_MqttClient_def)

end
