(* ===== verification/Lwip_Callbacks.thy ===== *)
theory Lwip_Callbacks
  imports Lwip
begin

text \<open>
  What lwIP documents of its control blocks and callbacks, as far as several objects of the program
  depend on it: which argument and functions are registered with a control block, how the calls of
  the program change that, and that a poll runs registered callbacks only, with the registered
  argument. lwIP itself stays a parameter: its registrations are an observation \<open>regs\<close> of the
  environment, and the law says how the observation changes.
\<close>

section \<open>Registrations\<close>

record PcbView =
  pv_live :: bool
  pv_arg :: "obj option"
  pv_recv :: bool
  pv_err :: bool
  pv_accept :: bool
  pv_connecting :: bool

type_synonym Registrations = "pcb \<Rightarrow> PcbView"

definition free_block :: PcbView where
  "free_block = \<lparr>pv_live = False, pv_arg = None, pv_recv = False, pv_err = False, pv_accept = False,
     pv_connecting = False\<rparr>"

definition new_block :: "obj option \<Rightarrow> PcbView" where
  "new_block arg = \<lparr>pv_live = True, pv_arg = arg, pv_recv = False, pv_err = False, pv_accept = False,
     pv_connecting = False\<rparr>"

definition idle :: "PcbView \<Rightarrow> bool" where
  "idle b \<longleftrightarrow> \<not> pv_recv b \<and> \<not> pv_err b \<and> \<not> pv_accept b \<and> \<not> pv_connecting b"

lemma block_sel [simp]:
  "\<not> pv_live free_block" "pv_arg free_block = None" "idle free_block"
  "pv_live (new_block x)" "pv_arg (new_block x) = x" "idle (new_block x)"
  by (simp_all add: free_block_def new_block_def idle_def)

lemma idleD [dest]: "idle b \<Longrightarrow> \<not> pv_recv b \<and> \<not> pv_err b \<and> \<not> pv_accept b \<and> \<not> pv_connecting b"
  by (simp add: idle_def)

text \<open>
  The calls: \<^verbatim>\<open>tcp_close\<close> leaves the registered functions of an established connection in place, but
  ends a connect that is under way; \<^verbatim>\<open>tcp_abort\<close> frees the block.
\<close>

fun view_call :: "LwipCall \<Rightarrow> err_t \<Rightarrow> Registrations \<Rightarrow> Registrations" where
  "view_call (TcpArg p a) err v = v(p := (v p)\<lparr>pv_arg := a\<rparr>)"
| "view_call (TcpRecv p f) err v = v(p := (v p)\<lparr>pv_recv := f\<rparr>)"
| "view_call (TcpErr p f) err v = v(p := (v p)\<lparr>pv_err := f\<rparr>)"
| "view_call (TcpAccept p f) err v = v(p := (v p)\<lparr>pv_accept := f\<rparr>)"
| "view_call (TcpConnect p ip port) err v =
     (if err = ERR_OK then v(p := (v p)\<lparr>pv_connecting := True\<rparr>) else v)"
| "view_call (TcpClose p) err v =
     (if err = ERR_OK then v(p := (v p)\<lparr>pv_connecting := False\<rparr>) else v)"
| "view_call (TcpAbort (Some p)) err v = v(p := free_block)"
| "view_call k err v = v"

section \<open>A poll\<close>

text \<open>
  The callbacks of a poll in order, with the registrations before and after. An error callback
  frees its block, a new connection has a block that was free and inherits the argument of its
  listener, a connected callback is run once. A block without an argument may be freed silently;
  one that has an argument is not, which leaves out that the peer resets a connection that has no
  error function yet.
\<close>

inductive lwip_run :: "Registrations \<Rightarrow> LwipEvent list \<Rightarrow> Registrations \<Rightarrow> bool" where
  run_end: "lwip_run v [] v"
| run_free: "pv_arg (v p) = None \<Longrightarrow> lwip_run (v(p := free_block)) evs v' \<Longrightarrow> lwip_run v evs v'"
| run_recv: "pv_recv (v p) \<Longrightarrow> lwip_run v evs v' \<Longrightarrow>
    lwip_run v (TcpRecvEvent (pv_arg (v p)) p buf err # evs) v'"
| run_err: "pv_err (v p) \<Longrightarrow> lwip_run (v(p := free_block)) evs v' \<Longrightarrow>
    lwip_run v (TcpErrEvent (pv_arg (v p)) err # evs) v'"
| run_accept: "pv_accept (v p) \<Longrightarrow> \<not> pv_live (v q) \<Longrightarrow>
    lwip_run (v(q := new_block (pv_arg (v p)))) evs v' \<Longrightarrow>
    lwip_run v (TcpAcceptEvent (pv_arg (v p)) (Some q) err # evs) v'"
| run_refuse: "pv_accept (v p) \<Longrightarrow> lwip_run v evs v' \<Longrightarrow>
    lwip_run v (TcpAcceptEvent (pv_arg (v p)) None err # evs) v'"
| run_connected: "pv_connecting (v p) \<Longrightarrow> lwip_run (v(p := (v p)\<lparr>pv_connecting := False\<rparr>)) evs v' \<Longrightarrow>
    lwip_run v (TcpConnectedEvent (pv_arg (v p)) p err # evs) v'"
| run_udp: "lwip_run v evs v' \<Longrightarrow> lwip_run v (UdpRecvEvent arg p buf ip port # evs) v'"

section \<open>The law\<close>

text \<open>
  \<open>next_addr\<close> bounds the addresses that have been allocated: an address stands for one object in the
  whole run, so a dangling pointer never becomes valid again.
\<close>

definition lwip_law :: "'e Lwip \<Rightarrow> ('e \<Rightarrow> Registrations) \<Rightarrow> ('e \<Rightarrow> obj) \<Rightarrow> bool" where
  "lwip_law lw regs next_addr \<longleftrightarrow>
     (\<forall>k e. regs (snd (lwip_call lw k e)) = view_call k (fst (lwip_call lw k e)) (regs e) \<and>
        next_addr (snd (lwip_call lw k e)) = next_addr e) \<and>
     (\<forall>e. lwip_run (regs e) (fst (lwip_poll lw e)) (regs (snd (lwip_poll lw e))) \<and>
        next_addr (snd (lwip_poll lw e)) = next_addr e) \<and>
     (\<forall>e. (case fst (lwip_tcp_new lw e) of
          None \<Rightarrow> regs (snd (lwip_tcp_new lw e)) = regs e
        | Some p \<Rightarrow> \<not> pv_live (regs e p) \<and> regs (snd (lwip_tcp_new lw e)) = (regs e)(p := new_block None)) \<and>
        next_addr (snd (lwip_tcp_new lw e)) = next_addr e) \<and>
     (\<forall>p n e. (case fst (lwip_tcp_listen lw p n e) of
          None \<Rightarrow> regs (snd (lwip_tcp_listen lw p n e)) = regs e
        | Some q \<Rightarrow> (q = p \<or> \<not> pv_live (regs e q)) \<and>
            regs (snd (lwip_tcp_listen lw p n e)) = (regs e)(p := free_block, q := regs e p)) \<and>
        next_addr (snd (lwip_tcp_listen lw p n e)) = next_addr e) \<and>
     (\<forall>e. next_addr e \<le> fst (new_object lw e) \<and> fst (new_object lw e) < next_addr (snd (new_object lw e)) \<and>
        regs (snd (new_object lw e)) = regs e)"

lemma law_call:
  assumes "lwip_law lw regs next_addr"
  shows "regs (snd (lwip_call lw k e)) = view_call k (fst (lwip_call lw k e)) (regs e)"
    "next_addr (snd (lwip_call lw k e)) = next_addr e"
  using assms by (simp_all add: lwip_law_def)

lemma law_poll:
  assumes "lwip_law lw regs next_addr"
  shows "lwip_run (regs e) (fst (lwip_poll lw e)) (regs (snd (lwip_poll lw e)))"
    "next_addr (snd (lwip_poll lw e)) = next_addr e"
  using assms by (simp_all add: lwip_law_def)

lemma law_tcp_new:
  assumes "lwip_law lw regs next_addr" and "lwip_tcp_new lw e = (r, e')"
  shows "next_addr e' = next_addr e" "r = None \<Longrightarrow> regs e' = regs e"
    "r = Some p \<Longrightarrow> \<not> pv_live (regs e p) \<and> regs e' = (regs e)(p := new_block None)"
proof -
  have "(case fst (lwip_tcp_new lw e) of
        None \<Rightarrow> regs (snd (lwip_tcp_new lw e)) = regs e
      | Some p \<Rightarrow> \<not> pv_live (regs e p) \<and> regs (snd (lwip_tcp_new lw e)) = (regs e)(p := new_block None)) \<and>
      next_addr (snd (lwip_tcp_new lw e)) = next_addr e"
    using assms(1) unfolding lwip_law_def by (elim conjE) (erule spec)
  then have "(case r of None \<Rightarrow> regs e' = regs e
      | Some p \<Rightarrow> \<not> pv_live (regs e p) \<and> regs e' = (regs e)(p := new_block None)) \<and> next_addr e' = next_addr e"
    unfolding assms(2) fst_conv snd_conv .
  then show "next_addr e' = next_addr e" "r = None \<Longrightarrow> regs e' = regs e"
    "r = Some p \<Longrightarrow> \<not> pv_live (regs e p) \<and> regs e' = (regs e)(p := new_block None)"
    by auto
qed

lemma law_listen:
  assumes "lwip_law lw regs next_addr" and "lwip_tcp_listen lw p n e = (r, e')"
  shows "next_addr e' = next_addr e" "r = None \<Longrightarrow> regs e' = regs e"
    "r = Some q \<Longrightarrow> (q = p \<or> \<not> pv_live (regs e q)) \<and> regs e' = (regs e)(p := free_block, q := regs e p)"
proof -
  have "\<forall>n e. (case fst (lwip_tcp_listen lw p n e) of
          None \<Rightarrow> regs (snd (lwip_tcp_listen lw p n e)) = regs e
        | Some q \<Rightarrow> (q = p \<or> \<not> pv_live (regs e q)) \<and>
            regs (snd (lwip_tcp_listen lw p n e)) = (regs e)(p := free_block, q := regs e p)) \<and>
        next_addr (snd (lwip_tcp_listen lw p n e)) = next_addr e"
    using assms(1) unfolding lwip_law_def by (elim conjE) (erule spec)
  from spec [OF spec [OF this, of n], of e]
  have "(case r of None \<Rightarrow> regs e' = regs e
      | Some q \<Rightarrow> (q = p \<or> \<not> pv_live (regs e q)) \<and> regs e' = (regs e)(p := free_block, q := regs e p)) \<and>
      next_addr e' = next_addr e"
    unfolding assms(2) fst_conv snd_conv .
  then show "next_addr e' = next_addr e" "r = None \<Longrightarrow> regs e' = regs e"
    "r = Some q \<Longrightarrow> (q = p \<or> \<not> pv_live (regs e q)) \<and> regs e' = (regs e)(p := free_block, q := regs e p)"
    by auto
qed

lemma law_new_object:
  assumes "lwip_law lw regs next_addr" and "new_object lw e = (a, e')"
  shows "next_addr e \<le> a" "a < next_addr e'" "regs e' = regs e"
proof -
  have "next_addr e \<le> fst (new_object lw e) \<and> fst (new_object lw e) < next_addr (snd (new_object lw e)) \<and>
      regs (snd (new_object lw e)) = regs e"
    using assms(1) unfolding lwip_law_def by (elim conjE) (erule spec)
  then have "next_addr e \<le> a \<and> a < next_addr e' \<and> regs e' = regs e" by (simp add: assms(2))
  then show "next_addr e \<le> a" "a < next_addr e'" "regs e' = regs e" by simp_all
qed

text \<open>The registrations of a world, along the calls made on it.\<close>

lemma law_call_world:
  assumes "lwip_law lw regs next_addr"
  shows "regs (env (call_void lw k w)) = view_call k (fst (call lw k w)) (regs (env w))"
    "regs (env (snd (call lw k w))) = view_call k (fst (call lw k w)) (regs (env w))"
    "next_addr (env (call_void lw k w)) = next_addr (env w)" "next_addr (env (snd (call lw k w))) = next_addr (env w)"
  using law_call [OF assms] by (simp_all add: world_simps)

end
