(* ===== verification/Tcp_System.thy ===== *)
theory Tcp_System
  imports Lwip_Callbacks Network
begin

text \<open>
  The TCP objects of a program together: connections, listeners, and the states of dials that are
  under way, in one heap over one world. A poll by one of them runs the callbacks of all; each
  callback goes to the object whose address is its argument, as the \<^verbatim>\<open>static_cast\<close> in the callback
  functions of \<^verbatim>\<open>tcp_connection.cpp\<close>, \<^verbatim>\<open>tcp_listener.cpp\<close> and \<^verbatim>\<open>network.cpp\<close> has it, and faults
  when there is no such object behind the address. The operations are those of the classes.
\<close>

section \<open>The heap\<close>

text \<open>A dial is known by the address of its \<^verbatim>\<open>state\<close>; with it are its control block and address.\<close>

datatype TcpObject =
    ConnObject TcpConnection
  | ListenerObject TcpListener
  | DialObject pcb Address TcpDialState

record 'e TcpSystem =
  sys_world :: "'e World"
  sys_objects :: "obj \<rightharpoonup> TcpObject"

definition get_conn :: "(obj \<rightharpoonup> TcpObject) \<Rightarrow> obj \<Rightarrow> TcpConnection result" where
  "get_conn objs a = (case objs a of Some (ConnObject c) \<Rightarrow> Inr c | _ \<Rightarrow> Inl NullDeref)"

definition get_listener :: "(obj \<rightharpoonup> TcpObject) \<Rightarrow> obj \<Rightarrow> TcpListener result" where
  "get_listener objs a = (case objs a of Some (ListenerObject l) \<Rightarrow> Inr l | _ \<Rightarrow> Inl NullDeref)"

definition get_dial :: "(obj \<rightharpoonup> TcpObject) \<Rightarrow> obj \<Rightarrow> (pcb \<times> Address \<times> TcpDialState) result" where
  "get_dial objs a = (case objs a of Some (DialObject p addr st) \<Rightarrow> Inr (p, addr, st) | _ \<Rightarrow> Inl NullDeref)"

lemma get_simps [simp]:
  "objs a = Some (ConnObject c) \<Longrightarrow> get_conn objs a = Inr c"
  "objs a = Some (ListenerObject l) \<Longrightarrow> get_listener objs a = Inr l"
  "objs a = Some (DialObject p addr st) \<Longrightarrow> get_dial objs a = Inr (p, addr, st)"
  by (simp_all add: get_conn_def get_listener_def get_dial_def)

definition put :: "obj \<Rightarrow> TcpObject \<Rightarrow> 'e World \<Rightarrow> 'e TcpSystem \<Rightarrow> 'e TcpSystem" where
  "put a x w s = s\<lparr>sys_world := w, sys_objects := (sys_objects s)(a \<mapsto> x)\<rparr>"

lemma put_sel [simp]:
  "sys_world (put a x w s) = w" "sys_objects (put a x w s) = (sys_objects s)(a \<mapsto> x)"
  by (simp_all add: put_def)

section \<open>Callbacks\<close>

text \<open>UDP callbacks are those of other control blocks and concern other objects.\<close>

definition sys_dispatch :: "'e Lwip \<Rightarrow> LwipEvent \<Rightarrow> 'e TcpSystem \<Rightarrow> 'e TcpSystem result" where
  "sys_dispatch lw ev s =
     (case ev of
        TcpRecvEvent None p buf err \<Rightarrow>
          (case tcp_recv_callback lw None p buf err (sys_world s) of (e, c, w) \<Rightarrow> Inr (s\<lparr>sys_world := w\<rparr>))
      | TcpRecvEvent (Some a) p buf err \<Rightarrow>
          bindE (get_conn (sys_objects s) a) (\<lambda>c.
            let (c, w) = tcp_dispatch lw ev (c, sys_world s) in Inr (put a (ConnObject c) w s))
      | TcpErrEvent None err \<Rightarrow> Inr s
      | TcpErrEvent (Some a) err \<Rightarrow>
          bindE (get_conn (sys_objects s) a) (\<lambda>c.
            let (c, w) = tcp_dispatch lw ev (c, sys_world s) in Inr (put a (ConnObject c) w s))
      | TcpAcceptEvent None newpcb err \<Rightarrow>
          (case tcp_accept_callback lw None newpcb err (sys_world s) of (e, l, w) \<Rightarrow> Inr (s\<lparr>sys_world := w\<rparr>))
      | TcpAcceptEvent (Some a) newpcb err \<Rightarrow>
          bindE (get_listener (sys_objects s) a) (\<lambda>l.
            let (l, w) = tcpl_dispatch lw ev (l, sys_world s) in Inr (put a (ListenerObject l) w s))
      | TcpConnectedEvent None p err \<Rightarrow>
          bindE (tcp_dial_connected_callback None p err) (\<lambda>(e, st). Inr s)
      | TcpConnectedEvent (Some a) p err \<Rightarrow>
          bindE (get_dial (sys_objects s) a) (\<lambda>(q, addr, st).
            bindE (dial_dispatch a ev st) (\<lambda>st. Inr (put a (DialObject q addr st) (sys_world s) s)))
      | UdpRecvEvent arg p buf ip port \<Rightarrow> Inr s)"

fun sys_dispatch_all :: "'e Lwip \<Rightarrow> LwipEvent list \<Rightarrow> 'e TcpSystem \<Rightarrow> 'e TcpSystem result" where
  "sys_dispatch_all lw [] s = Inr s"
| "sys_dispatch_all lw (ev # evs) s = bindE (sys_dispatch lw ev s) (sys_dispatch_all lw evs)"

definition sys_poll :: "'e Lwip \<Rightarrow> 'e TcpSystem \<Rightarrow> 'e TcpSystem result" where
  "sys_poll lw s = (let (evs, w) = arch_poll lw (sys_world s) in sys_dispatch_all lw evs (s\<lparr>sys_world := w\<rparr>))"

section \<open>Connections\<close>

definition sys_read :: "'e Lwip \<Rightarrow> nat \<Rightarrow> obj \<Rightarrow> 'e TcpSystem \<Rightarrow> (u8 list result \<times> 'e TcpSystem) result" where
  "sys_read lw n a s =
     (if n = 0 then Inr (Inr [], s)
      else bindE (sys_poll lw s) (\<lambda>s.
        bindE (get_conn (sys_objects s) a) (\<lambda>c.
          let (r, c) = tcp_take n c in Inr (r, put a (ConnObject c) (sys_world s) s))))"

definition sys_write :: "'e Lwip \<Rightarrow> u8 list \<Rightarrow> obj \<Rightarrow> 'e TcpSystem \<Rightarrow> (nat result \<times> 'e TcpSystem) result" where
  "sys_write lw bs a s =
     bindE (get_conn (sys_objects s) a) (\<lambda>c.
       let (r, c, w) = tcp_write lw bs c (sys_world s) in Inr (r, put a (ConnObject c) w s))"

definition sys_close :: "'e Lwip \<Rightarrow> obj \<Rightarrow> 'e TcpSystem \<Rightarrow> (Error option \<times> 'e TcpSystem) result" where
  "sys_close lw a s =
     bindE (get_conn (sys_objects s) a) (\<lambda>c.
       let (err, c, w) = tcp_close lw c (sys_world s) in Inr (err, put a (ConnObject c) w s))"

definition sys_destroy :: "'e Lwip \<Rightarrow> obj \<Rightarrow> 'e TcpSystem \<Rightarrow> 'e TcpSystem result" where
  "sys_destroy lw a s =
     bindE (get_conn (sys_objects s) a) (\<lambda>c.
       Inr (s\<lparr>sys_world := tcp_destroy lw c (sys_world s), sys_objects := (sys_objects s)(a := None)\<rparr>))"

section \<open>Listeners\<close>

definition sys_listen :: "'e Lwip \<Rightarrow> Network \<Rightarrow> u16 \<Rightarrow> 'e TcpSystem \<Rightarrow> obj result \<times> 'e TcpSystem" where
  "sys_listen lw net port s =
     (case listen_tcp lw net port (sys_world s) of
        (Inl err, w) \<Rightarrow> (Inl err, s\<lparr>sys_world := w\<rparr>)
      | (Inr l, w) \<Rightarrow> (Inr (tcpl_this l), put (tcpl_this l) (ListenerObject l) w s))"

text \<open>An accepted connection leaves the listener and becomes an object of its user.\<close>

definition sys_accept :: "'e Lwip \<Rightarrow> obj \<Rightarrow> 'e TcpSystem \<Rightarrow> (obj option result \<times> 'e TcpSystem) result" where
  "sys_accept lw a s =
     bindE (get_listener (sys_objects s) a) (\<lambda>l.
       if tcpl_is_closed l then Inr (Inl (Error ''listener is closed''), s)
       else if tcpl_has_error l then Inr (Inl (Error (tcpl_last_error_message l)), s)
       else bindE (sys_poll lw s) (\<lambda>s.
         bindE (get_listener (sys_objects s) a) (\<lambda>l.
           case tcpl_take lw l (sys_world s) of
             (Inl fault, l, w) \<Rightarrow> Inl fault
           | (Inr None, l, w) \<Rightarrow> Inr (Inr None, put a (ListenerObject l) w s)
           | (Inr (Some c), l, w) \<Rightarrow>
               Inr (Inr (Some (tcp_this c)), put (tcp_this c) (ConnObject c) w (put a (ListenerObject l) w s)))))"

definition sys_close_listener :: "'e Lwip \<Rightarrow> obj \<Rightarrow> 'e TcpSystem \<Rightarrow> (Error option \<times> 'e TcpSystem) result" where
  "sys_close_listener lw a s =
     bindE (get_listener (sys_objects s) a) (\<lambda>l.
       let (err, l, w) = tcpl_close lw l (sys_world s) in Inr (err, put a (ListenerObject l) w s))"

definition sys_destroy_listener :: "'e Lwip \<Rightarrow> obj \<Rightarrow> 'e TcpSystem \<Rightarrow> 'e TcpSystem result" where
  "sys_destroy_listener lw a s =
     bindE (get_listener (sys_objects s) a) (\<lambda>l.
       Inr (s\<lparr>sys_world := tcpl_destroy lw l (sys_world s), sys_objects := (sys_objects s)(a := None)\<rparr>))"

section \<open>Dials\<close>

text \<open>
  \<^verbatim>\<open>Network::dial_tcp\<close> in the parts that a poll separates: up to its loop, behind the loop, and when
  the time is over. While it waits its state is on the stack, afterwards no longer.
\<close>

definition sys_dial_start :: "'e Lwip \<Rightarrow> Network \<Rightarrow> Address \<Rightarrow> 'e TcpSystem \<Rightarrow> obj result \<times> 'e TcpSystem" where
  "sys_dial_start lw net address s =
     (case dial_start lw net address (sys_world s) of
        (Inl err, w) \<Rightarrow> (Inl err, s\<lparr>sys_world := w\<rparr>)
      | (Inr (p, at), w) \<Rightarrow> (Inr at, put at (DialObject p address new_TcpDialState) w s))"

definition sys_dial_finish :: "'e Lwip \<Rightarrow> obj \<Rightarrow> 'e TcpSystem \<Rightarrow> (obj result \<times> 'e TcpSystem) result" where
  "sys_dial_finish lw at s =
     bindE (get_dial (sys_objects s) at) (\<lambda>(p, address, state).
       let (r, w) = dial_finish lw p address state (sys_world s);
           s = s\<lparr>sys_world := w, sys_objects := (sys_objects s)(at := None)\<rparr>
       in case r of
            Inl err \<Rightarrow> Inr (Inl err, s)
          | Inr c \<Rightarrow> Inr (Inr (tcp_this c), put (tcp_this c) (ConnObject c) w s))"

definition sys_dial_timeout :: "'e Lwip \<Rightarrow> obj \<Rightarrow> 'e TcpSystem \<Rightarrow> (obj result \<times> 'e TcpSystem) result" where
  "sys_dial_timeout lw at s =
     bindE (get_dial (sys_objects s) at) (\<lambda>(p, address, state).
       let (r, w) = dial_cleanup lw p ''tcp connect timeout'' (sys_world s)
       in Inr (r, s\<lparr>sys_world := w, sys_objects := (sys_objects s)(at := None)\<rparr>))"

section \<open>Runs\<close>

datatype TcpOp =
    OpPoll
  | OpRead obj nat | OpWrite obj "u8 list" | OpClose obj | OpDestroy obj
  | OpListen u16 | OpAccept obj | OpCloseListener obj | OpDestroyListener obj
  | OpDial Address | OpDialFinish obj | OpDialTimeout obj

datatype TcpOut =
    OutDone "Error option"
  | OutRead "u8 list result" | OutWritten "nat result" | OutObject "obj option result"

definition returning :: "('a \<Rightarrow> TcpOut) \<Rightarrow> ('a \<times> 'e TcpSystem) result \<Rightarrow> (TcpOut \<times> 'e TcpSystem) result" where
  "returning f r = bindE r (\<lambda>(x, s). Inr (f x, s))"

definition out_object :: "obj result \<Rightarrow> TcpOut" where
  "out_object r = OutObject (case r of Inl err \<Rightarrow> Inl err | Inr a \<Rightarrow> Inr (Some a))"

fun sys_exec :: "'e Lwip \<Rightarrow> Network \<Rightarrow> TcpOp \<Rightarrow> 'e TcpSystem \<Rightarrow> (TcpOut \<times> 'e TcpSystem) result" where
  "sys_exec lw net OpPoll s = bindE (sys_poll lw s) (\<lambda>s. Inr (OutDone None, s))"
| "sys_exec lw net (OpRead a n) s = returning OutRead (sys_read lw n a s)"
| "sys_exec lw net (OpWrite a bs) s = returning OutWritten (sys_write lw bs a s)"
| "sys_exec lw net (OpClose a) s = returning OutDone (sys_close lw a s)"
| "sys_exec lw net (OpDestroy a) s = bindE (sys_destroy lw a s) (\<lambda>s. Inr (OutDone None, s))"
| "sys_exec lw net (OpListen port) s = returning out_object (Inr (sys_listen lw net port s))"
| "sys_exec lw net (OpAccept a) s = returning OutObject (sys_accept lw a s)"
| "sys_exec lw net (OpCloseListener a) s = returning OutDone (sys_close_listener lw a s)"
| "sys_exec lw net (OpDestroyListener a) s = bindE (sys_destroy_listener lw a s) (\<lambda>s. Inr (OutDone None, s))"
| "sys_exec lw net (OpDial address) s = returning out_object (Inr (sys_dial_start lw net address s))"
| "sys_exec lw net (OpDialFinish a) s = returning out_object (sys_dial_finish lw a s)"
| "sys_exec lw net (OpDialTimeout a) s = returning out_object (sys_dial_timeout lw a s)"

text \<open>The peer has ended the stream of the connection.\<close>

fun ends_stream :: "obj \<Rightarrow> LwipEvent \<Rightarrow> bool" where
  "ends_stream a (TcpRecvEvent arg p buf err) \<longleftrightarrow> arg = Some a \<and> buf = None"
| "ends_stream a ev \<longleftrightarrow> False"

definition fin_seen :: "obj \<Rightarrow> LwipEvent list \<Rightarrow> bool" where
  "fin_seen a evs \<longleftrightarrow> list_ex (ends_stream a) evs"

text \<open>
  What the program may do in a state: use the objects it has, which it does not have any more once
  it has destroyed them, finish a dial whose callback has been run, and destroy a connection unless
  the peer has ended its stream.
\<close>

fun usable :: "TcpOp \<Rightarrow> 'e TcpSystem \<Rightarrow> bool" where
  "usable (OpRead a n) s \<longleftrightarrow> get_conn (sys_objects s) a \<noteq> Inl NullDeref"
| "usable (OpWrite a bs) s \<longleftrightarrow> get_conn (sys_objects s) a \<noteq> Inl NullDeref"
| "usable (OpClose a) s \<longleftrightarrow> get_conn (sys_objects s) a \<noteq> Inl NullDeref"
| "usable (OpDestroy a) s \<longleftrightarrow>
     get_conn (sys_objects s) a \<noteq> Inl NullDeref \<and> \<not> fin_seen a (delivered (sys_world s))"
| "usable (OpAccept a) s \<longleftrightarrow> get_listener (sys_objects s) a \<noteq> Inl NullDeref"
| "usable (OpCloseListener a) s \<longleftrightarrow> get_listener (sys_objects s) a \<noteq> Inl NullDeref"
| "usable (OpDestroyListener a) s \<longleftrightarrow> get_listener (sys_objects s) a \<noteq> Inl NullDeref"
| "usable (OpDialFinish a) s \<longleftrightarrow> (\<exists>p addr st. sys_objects s a = Some (DialObject p addr st) \<and> dial_done st)"
| "usable (OpDialTimeout a) s \<longleftrightarrow> get_dial (sys_objects s) a \<noteq> Inl NullDeref"
| "usable op s \<longleftrightarrow> True"

inductive sys_steps ::
  "'e Lwip \<Rightarrow> Network \<Rightarrow> 'e TcpSystem \<Rightarrow> (TcpOp \<times> TcpOut) list \<Rightarrow> 'e TcpSystem \<Rightarrow> bool" for lw net s where
  steps_nil: "sys_steps lw net s [] s"
| steps_snoc: "sys_steps lw net s tr s1 \<Longrightarrow> usable op s1 \<Longrightarrow> sys_exec lw net op s1 = Inr (out, s2) \<Longrightarrow>
    sys_steps lw net s (tr @ [(op, out)]) s2"

text \<open>A program starts without objects, in an lwIP without registered functions.\<close>

definition sys_start :: "('e \<Rightarrow> Registrations) \<Rightarrow> 'e TcpSystem \<Rightarrow> bool" where
  "sys_start regs s \<longleftrightarrow> sys_objects s = Map.empty \<and> (\<forall>p. idle (regs (env (sys_world s)) p))"

definition sys_reach :: "'e Lwip \<Rightarrow> Network \<Rightarrow> ('e \<Rightarrow> Registrations) \<Rightarrow> 'e TcpSystem \<Rightarrow> bool" where
  "sys_reach lw net regs s \<longleftrightarrow> (\<exists>s0 tr. sys_start regs s0 \<and> sys_steps lw net s0 tr s)"

end
