(* ===== verification/Tcp_System_Laws.thy ===== *)
theory Tcp_System_Laws
  imports Tcp_System
begin

text \<open>
  The invariant of the TCP objects together: every function registered with a control block has an
  argument behind which is the object it belongs to, and every object's control block is its own.
  Each operation keeps it, whatever the other objects are.
\<close>

section \<open>The invariant\<close>

text \<open>What lies behind the functions of a block, \<open>H\<close> being the callbacks delivered so far.\<close>

definition block_ok :: "LwipEvent list \<Rightarrow> (obj \<rightharpoonup> TcpObject) \<Rightarrow> pcb \<Rightarrow> PcbView \<Rightarrow> bool" where
  "block_ok H objs p b \<longleftrightarrow>
     (pv_recv b \<or> pv_err b \<longrightarrow> (\<exists>a c. pv_arg b = Some a \<and> objs a = Some (ConnObject c) \<and>
        (tcp_pcb c = Some p \<or> fin_seen a H))) \<and>
     (pv_accept b \<longrightarrow> (\<exists>a l. pv_arg b = Some a \<and> objs a = Some (ListenerObject l) \<and> tcpl_pcb l = Some p)) \<and>
     (pv_connecting b \<longrightarrow> (\<exists>a addr st. pv_arg b = Some a \<and> objs a = Some (DialObject p addr st) \<and>
        connected_pcb st = None))"

text \<open>The blocks of an object are its own; those of waiting connections have no functions yet.\<close>

definition listener_obj_ok :: "Registrations \<Rightarrow> obj \<Rightarrow> TcpListener \<Rightarrow> bool" where
  "listener_obj_ok v a l \<longleftrightarrow> tcpl_this l = a \<and>
     (\<forall>p. tcpl_pcb l = Some p \<longrightarrow> \<not> tcpl_is_closed l \<and> pv_live (v p) \<and> pv_arg (v p) = Some a \<and> pv_accept (v p)) \<and>
     (\<forall>c \<in> set (tcpl_pending l). \<exists>q. tcp_pcb c = Some q \<and> pv_live (v q) \<and> pv_arg (v q) = Some a \<and> idle (v q)) \<and>
     distinct (map tcp_pcb (tcpl_pending l))"

definition object_ok :: "Registrations \<Rightarrow> obj \<Rightarrow> TcpObject \<Rightarrow> bool" where
  "object_ok v a x = (case x of
     ConnObject c \<Rightarrow> tcp_this c = a \<and>
       (\<forall>p. tcp_pcb c = Some p \<longrightarrow> pv_live (v p) \<and> pv_arg (v p) = Some a \<and> pv_err (v p))
   | ListenerObject l \<Rightarrow> listener_obj_ok v a l
   | DialObject p addr st \<Rightarrow> pv_live (v p) \<and> pv_arg (v p) = Some a \<and> connected_pcb st \<in> {None, Some p})"

text \<open>The addresses of waiting connections, which become objects when they are accepted.\<close>

definition waiting_ok :: "obj \<Rightarrow> (obj \<rightharpoonup> TcpObject) \<Rightarrow> bool" where
  "waiting_ok t objs \<longleftrightarrow> (\<forall>a l. objs a = Some (ListenerObject l) \<longrightarrow>
     distinct (map tcp_this (tcpl_pending l)) \<and>
     (\<forall>c \<in> set (tcpl_pending l). tcp_this c < t \<and> objs (tcp_this c) = None \<and>
        (\<forall>b l' c'. objs b = Some (ListenerObject l') \<longrightarrow> c' \<in> set (tcpl_pending l') \<longrightarrow>
           tcp_this c' = tcp_this c \<longrightarrow> b = a)))"

definition sys_inv :: "Registrations \<Rightarrow> obj \<Rightarrow> LwipEvent list \<Rightarrow> (obj \<rightharpoonup> TcpObject) \<Rightarrow> bool" where
  "sys_inv v t H objs \<longleftrightarrow> (\<forall>p. block_ok H objs p (v p)) \<and>
     (\<forall>a x. objs a = Some x \<longrightarrow> a < t \<and> object_ok v a x) \<and> waiting_ok t objs"

definition sys_ok :: "('e \<Rightarrow> Registrations) \<Rightarrow> ('e \<Rightarrow> obj) \<Rightarrow> 'e TcpSystem \<Rightarrow> bool" where
  "sys_ok regs next_addr s \<longleftrightarrow>
     sys_inv (regs (env (sys_world s))) (next_addr (env (sys_world s))) (delivered (sys_world s)) (sys_objects s)"

lemma sys_invD:
  assumes "sys_inv v t H objs"
  shows "block_ok H objs p (v p)" "objs a = Some x \<Longrightarrow> a < t" "objs a = Some x \<Longrightarrow> object_ok v a x"
    "waiting_ok t objs"
  using assms by (simp_all add: sys_inv_def)

lemma block_okD:
  assumes "block_ok H objs p b"
  shows "pv_recv b \<or> pv_err b \<Longrightarrow>
      \<exists>a c. pv_arg b = Some a \<and> objs a = Some (ConnObject c) \<and> (tcp_pcb c = Some p \<or> fin_seen a H)"
    "pv_accept b \<Longrightarrow> \<exists>a l. pv_arg b = Some a \<and> objs a = Some (ListenerObject l) \<and> tcpl_pcb l = Some p"
    "pv_connecting b \<Longrightarrow> \<exists>a addr st. pv_arg b = Some a \<and> objs a = Some (DialObject p addr st) \<and> connected_pcb st = None"
  using assms by (auto simp: block_ok_def)

lemma idle_block_ok [simp]: "idle b \<Longrightarrow> block_ok H objs p b"
  by (simp add: block_ok_def idle_def)

lemma fin_seen_simps [simp]:
  "\<not> fin_seen a []" "fin_seen a (ev # evs) \<longleftrightarrow> ends_stream a ev \<or> fin_seen a evs"
  "fin_seen a (xs @ ys) \<longleftrightarrow> fin_seen a xs \<or> fin_seen a ys"
  by (simp_all add: fin_seen_def)

lemma fin_seen_in: "ev \<in> set H \<Longrightarrow> ends_stream a ev \<Longrightarrow> fin_seen a H"
  by (auto simp: fin_seen_def list_ex_iff)

section \<open>Changing one object\<close>

lemma block_ok_frame:
  "block_ok H objs p b \<Longrightarrow> (\<And>a. pv_arg b = Some a \<Longrightarrow> objs' a = objs a) \<Longrightarrow> block_ok H objs' p b"
  by (fastforce simp: block_ok_def)

lemma object_ok_frame:
  assumes "object_ok v a x" and "\<And>p. pv_live (v p) \<Longrightarrow> pv_arg (v p) = Some a \<Longrightarrow> v' p = v p"
  shows "object_ok v' a x"
  using assms(1)
proof (cases x)
  case (ListenerObject l)
  then have l: "listener_obj_ok v a l" using assms(1) by (simp add: object_ok_def)
  have "\<exists>q. tcp_pcb c = Some q \<and> pv_live (v' q) \<and> pv_arg (v' q) = Some a \<and> idle (v' q)"
    if "c \<in> set (tcpl_pending l)" for c
    using l that assms(2) unfolding listener_obj_ok_def by metis
  moreover have "pv_live (v' p) \<and> pv_arg (v' p) = Some a \<and> pv_accept (v' p)" if "tcpl_pcb l = Some p" for p
    using l that assms(2) [of p] unfolding listener_obj_ok_def by simp
  ultimately show ?thesis
    using l ListenerObject by (simp add: object_ok_def listener_obj_ok_def)
qed (use assms in \<open>auto simp: object_ok_def\<close>)

lemma waiting_ok_same:
  assumes "waiting_ok t objs" and "t \<le> t'" and "objs' = objs(a := y)"
    and "case y of Some (ListenerObject l') \<Rightarrow>
        (\<exists>l. objs a = Some (ListenerObject l) \<and> tcpl_pending l' = tcpl_pending l) \<or> tcpl_pending l' = [] | _ \<Rightarrow> True"
    and "objs a = None \<Longrightarrow> t \<le> a \<or> y = None"
  shows "waiting_ok t' objs'"
proof -
  have pend: "\<exists>l. objs b = Some (ListenerObject l) \<and> tcpl_pending l = tcpl_pending l' \<or> tcpl_pending l' = []"
    if "objs' b = Some (ListenerObject l')" for b l'
    using that assms(3,4) by (cases "b = a") auto
  have none: "objs' x = None" if "objs x = None" "x < t" for x
    using that assms(3,5) by auto
  show ?thesis
    unfolding waiting_ok_def
  proof (intro allI impI conjI ballI)
    fix b l' assume l': "objs' b = Some (ListenerObject l')"
    show "distinct (map tcp_this (tcpl_pending l'))"
      using pend [OF l'] assms(1) unfolding waiting_ok_def by (metis distinct.simps(1) list.simps(8))
    fix c assume c: "c \<in> set (tcpl_pending l')"
    obtain l where l: "objs b = Some (ListenerObject l)" "tcpl_pending l = tcpl_pending l'"
      using pend [OF l'] c by auto
    have ok: "tcp_this c < t" "objs (tcp_this c) = None"
        "\<And>b' l2 c'. objs b' = Some (ListenerObject l2) \<Longrightarrow> c' \<in> set (tcpl_pending l2) \<Longrightarrow>
           tcp_this c' = tcp_this c \<Longrightarrow> b' = b"
      using assms(1) l c unfolding waiting_ok_def by metis+
    show "tcp_this c < t'" using ok(1) assms(2) by simp
    show "objs' (tcp_this c) = None" using none ok(1,2) by blast
    fix b2 l2 c2
    assume "objs' b2 = Some (ListenerObject l2)" "c2 \<in> set (tcpl_pending l2)" "tcp_this c2 = tcp_this c"
    then show "b2 = b" using pend [of b2 l2] ok(3) by (metis empty_iff empty_set)
  qed
qed

lemma sys_inv_update:
  assumes inv: "sys_inv v t H objs"
    and H: "\<And>b. fin_seen b H \<Longrightarrow> fin_seen b H'"
    and frame: "\<And>p. v' p \<noteq> v p \<Longrightarrow> pv_arg (v p) = Some a \<or> \<not> pv_live (v p) \<or> pv_arg (v p) = None"
    and blocks: "\<And>p. v' p \<noteq> v p \<or> pv_arg (v p) = Some a \<Longrightarrow> block_ok H' (objs(a := y)) p (v' p)"
    and obj: "\<And>x. y = Some x \<Longrightarrow> a < t' \<and> object_ok v' a x"
    and t: "t \<le> t'" and waiting: "waiting_ok t' (objs(a := y))"
  shows "sys_inv v' t' H' (objs(a := y))"
  unfolding sys_inv_def
proof (intro conjI allI impI)
  fix p
  show "block_ok H' (objs(a := y)) p (v' p)"
  proof (cases "v' p \<noteq> v p \<or> pv_arg (v p) = Some a")
    case False
    then have "block_ok H (objs(a := y)) p (v' p)"
      using sys_invD(1) [OF inv, of p] by (auto intro!: block_ok_frame [of H objs p "v p" "objs(a := y)"])
    then show ?thesis using H by (fastforce simp: block_ok_def)
  qed (rule blocks)
next
  fix b x assume x: "(objs(a := y)) b = Some x"
  show "b < t'" using x obj sys_invD(2) [OF inv, of b x] t by (auto split: if_splits)
  show "object_ok v' b x"
  proof (cases "b = a")
    case True
    then show ?thesis using x obj by simp
  next
    case False
    then have "object_ok v b x" using x sys_invD(3) [OF inv] by simp
    then show ?thesis by (rule object_ok_frame) (use frame False in \<open>metis option.distinct(1) option.inject\<close>)
  qed
qed (rule waiting)

lemma sys_inv_mono:
  assumes "sys_inv v t H objs" and "t \<le> t'" and "\<And>b. fin_seen b H \<Longrightarrow> fin_seen b H'"
  shows "sys_inv v t' H' objs"
proof -
  have "waiting_ok t' objs"
    using sys_invD(4) [OF assms(1)] assms(2) unfolding waiting_ok_def by (meson order_less_le_trans)
  moreover have "block_ok H' objs p (v p)" for p
    using sys_invD(1) [OF assms(1), of p] assms(3) by (fastforce simp: block_ok_def)
  ultimately show ?thesis using assms(1,2) by (fastforce simp: sys_inv_def)
qed

section \<open>Callbacks\<close>

lemma run_free_ok:
  assumes "sys_inv v t H objs" and "pv_arg (v p) = None"
  shows "sys_inv (v(p := free_block)) t H objs"
proof -
  have "block_ok H objs q ((v(p := free_block)) q)" for q using sys_invD(1) [OF assms(1)] by simp
  moreover have "object_ok (v(p := free_block)) a x" if "objs a = Some x" for a x
    by (rule object_ok_frame [OF sys_invD(3) [OF assms(1) that]]) (use assms(2) in auto)
  ultimately show ?thesis using assms(1) by (auto simp: sys_inv_def)
qed

lemma recv_dispatch:
  assumes "tcp_dispatch lw (TcpRecvEvent (Some a) p buf err) (c, w) = (c', w')"
    and "tcp_this c = a" and "lwip_law lw regs next_addr"
  shows "tcp_this c' = a" "tcp_pcb c' = tcp_pcb c \<or> buf = None \<and> tcp_pcb c' = None"
    "regs (env w') = regs (env w)" "next_addr (env w') = next_addr (env w)" "delivered w' = delivered w"
  using assms(1,2)
  by (auto simp: tcp_dispatch_def tcp_recv_callback_def handle_tcp_recv_def world_simps law_call [OF assms(3)]
      split: option.splits if_splits)

lemma conn_changes:
  assumes inv: "sys_inv v t H objs" and "objs a = Some (ConnObject c)" and "tcp_this c' = a"
    and "tcp_pcb c' = tcp_pcb c \<or> fin_seen a H \<and> tcp_pcb c' = None"
  shows "sys_inv v t H (objs(a \<mapsto> ConnObject c'))"
proof (rule sys_inv_update [OF inv])
  fix p assume "v p \<noteq> v p \<or> pv_arg (v p) = Some a"
  then show "block_ok H (objs(a \<mapsto> ConnObject c')) p (v p)"
    using sys_invD(1) [OF inv, of p] assms(2,4) by (fastforce simp: block_ok_def)
next
  have ok: "object_ok v a (ConnObject c)" "a < t" using sys_invD(2,3) [OF inv assms(2)] by simp_all
  fix x assume "Some (ConnObject c') = Some x"
  then show "a < t \<and> object_ok v a x" using ok assms(3,4) by (auto simp: object_ok_def)
next
  show "waiting_ok t (objs(a \<mapsto> ConnObject c'))"
    by (rule waiting_ok_same [OF sys_invD(4) [OF inv] order_refl refl]) (simp_all add: assms(2))
qed auto

lemma err_dispatch:
  assumes "tcp_dispatch lw (TcpErrEvent (Some a) err) (c, w) = (c', w')" and "tcp_this c = a"
  shows "tcp_this c' = a" "tcp_pcb c' = None" "w' = w"
  using assms by (auto simp: tcp_dispatch_def tcp_err_callback_def handle_tcp_err_def)

lemma conn_fails:
  assumes inv: "sys_inv v t H objs" and c: "objs a = Some (ConnObject c)" and "tcp_this c' = a"
    and "tcp_pcb c' = None" and p: "pv_err (v p)" "pv_arg (v p) = Some a"
  shows "sys_inv (v(p := free_block)) t H (objs(a \<mapsto> ConnObject c'))"
proof (rule sys_inv_update [OF inv])
  fix q assume "(v(p := free_block)) q \<noteq> v q \<or> pv_arg (v q) = Some a"
  then have a: "q = p \<or> pv_arg (v q) = Some a" by (auto split: if_splits)
  show "block_ok H (objs(a \<mapsto> ConnObject c')) q ((v(p := free_block)) q)"
  proof (cases "q = p")
    case False
    have "tcp_pcb c = Some p \<or> fin_seen a H" using block_okD(1) [OF sys_invD(1) [OF inv, of p]] p c by auto
    then show ?thesis using False a sys_invD(1) [OF inv, of q] c by (fastforce simp: block_ok_def)
  qed simp
next
  fix x assume "Some (ConnObject c') = Some x"
  then show "a < t \<and> object_ok (v(p := free_block)) a x"
    using sys_invD(2) [OF inv c] assms(3,4) by (auto simp: object_ok_def)
next
  show "waiting_ok t (objs(a \<mapsto> ConnObject c'))"
    by (rule waiting_ok_same [OF sys_invD(4) [OF inv] order_refl refl]) (simp_all add: c)
qed (use p in \<open>auto split: if_splits\<close>)

lemma new_TcpConnection_sel [simp]:
  "tcp_this (new_TcpConnection this p la ra) = this" "tcp_pcb (new_TcpConnection this p la ra) = Some p"
  by (simp_all add: new_TcpConnection_def)

lemma accept_dispatch:
  assumes "tcpl_dispatch lw (TcpAcceptEvent (Some a) newpcb err) (l, w) = (l', w')"
    and "tcpl_this l = a" and "\<not> tcpl_is_closed l" and law: "lwip_law lw regs next_addr"
  shows "tcpl_this l' = a" "tcpl_pcb l' = tcpl_pcb l" "\<not> tcpl_is_closed l'"
    "regs (env w') = regs (env w)" "delivered w' = delivered w"
    "(tcpl_pending l' = tcpl_pending l \<and> next_addr (env w') = next_addr (env w)) \<or>
     (\<exists>q c. newpcb = Some q \<and> tcpl_pending l' = tcpl_pending l @ [c] \<and> tcp_pcb c = Some q \<and>
        next_addr (env w) \<le> tcp_this c \<and> tcp_this c < next_addr (env w'))"
proof -
  obtain x e where new: "new_object lw (env w) = (x, e)" by fastforce
  note laws = law_new_object [OF law new]
  have step: "handle_tcp_accept lw newpcb err l w = (fst (handle_tcp_accept lw newpcb err l w), l', w')"
    using assms(1,2)
    by (simp add: tcpl_dispatch_def tcp_accept_callback_def case_prod_beta)
      (metis prod.collapse)
  have res: "tcpl_this l' = a \<and> tcpl_pcb l' = tcpl_pcb l \<and> \<not> tcpl_is_closed l' \<and>
    regs (env w') = regs (env w) \<and> delivered w' = delivered w \<and>
    ((tcpl_pending l' = tcpl_pending l \<and> next_addr (env w') = next_addr (env w)) \<or>
     (\<exists>q c. newpcb = Some q \<and> tcpl_pending l' = tcpl_pending l @ [c] \<and> tcp_pcb c = Some q \<and>
        next_addr (env w) \<le> tcp_this c \<and> tcp_this c < next_addr (env w')))"
  proof (cases "err = ERR_OK \<and> newpcb \<noteq> None")
    case True
    then obtain q where q: "newpcb = Some q" "err = ERR_OK" by blast
    define c where "c = new_TcpConnection x q
      \<lparr>address_network = ''tcp'', address_ip = address_ip (tcpl_local_addr l),
        address_port = lwip_local_port lw q (env w)\<rparr>
      \<lparr>address_network = ''tcp'',
        address_ip = (case lwip_remote_ip lw q (env w) of IPADDR_TYPE_V4 a \<Rightarrow> lwip_ntoa lw a | _ \<Rightarrow> []),
        address_port = lwip_remote_port lw q (env w)\<rparr>"
    have c: "tcp_pcb c = Some q" "tcp_this c = x" by (simp_all add: c_def)
    have "l' = l\<lparr>tcpl_pending := tcpl_pending l @ [c]\<rparr>" "w' = w\<lparr>env := e\<rparr>"
      using step assms(3) unfolding handle_tcp_accept_def q Let_def on_env_def new
      by (simp_all add: c_def)
    then have "tcpl_pending l' = tcpl_pending l @ [c]" "env w' = e" "delivered w' = delivered w"
        "tcpl_this l' = tcpl_this l" "tcpl_pcb l' = tcpl_pcb l" "tcpl_is_closed l' = tcpl_is_closed l"
      by simp_all
    then show ?thesis using q(1) assms(2,3) laws by (simp add: c)
  next
    case False
    then have "handle_tcp_accept lw newpcb err l w = (if err \<noteq> ERR_OK then err else ERR_ABRT,
        l\<lparr>tcpl_has_error := True, tcpl_last_error_message := ''tcp accept failed''\<rparr>, w)"
      using assms(3) unfolding handle_tcp_accept_def by (cases err; cases newpcb) simp_all
    then have "l' = l\<lparr>tcpl_has_error := True, tcpl_last_error_message := ''tcp accept failed''\<rparr>" "w' = w"
      using step by simp_all
    then show ?thesis using assms(2,3) by simp
  qed
  then show "tcpl_this l' = a" "tcpl_pcb l' = tcpl_pcb l" "\<not> tcpl_is_closed l'"
    "regs (env w') = regs (env w)" "delivered w' = delivered w"
    "(tcpl_pending l' = tcpl_pending l \<and> next_addr (env w') = next_addr (env w)) \<or>
     (\<exists>q c. newpcb = Some q \<and> tcpl_pending l' = tcpl_pending l @ [c] \<and> tcp_pcb c = Some q \<and>
        next_addr (env w) \<le> tcp_this c \<and> tcp_this c < next_addr (env w'))"
    by simp_all
qed

lemma block_ok_listener:
  assumes "block_ok H objs p b" and "objs a = Some (ListenerObject l)" and "tcpl_pcb l' = tcpl_pcb l"
  shows "block_ok H (objs(a \<mapsto> ListenerObject l')) p b"
  unfolding block_ok_def
proof (intro conjI impI)
  assume "pv_recv b \<or> pv_err b"
  then obtain x c where "pv_arg b = Some x" "objs x = Some (ConnObject c)" "tcp_pcb c = Some p \<or> fin_seen x H"
    using block_okD(1) [OF assms(1)] by blast
  moreover from this have "x \<noteq> a" using assms(2) by auto
  ultimately show "\<exists>x c. pv_arg b = Some x \<and>
      (objs(a \<mapsto> ListenerObject l')) x = Some (ConnObject c) \<and> (tcp_pcb c = Some p \<or> fin_seen x H)" by auto
next
  assume "pv_accept b"
  from block_okD(2) [OF assms(1) this] show "\<exists>x m. pv_arg b = Some x \<and>
      (objs(a \<mapsto> ListenerObject l')) x = Some (ListenerObject m) \<and> tcpl_pcb m = Some p"
    using assms(2,3) by auto
next
  assume "pv_connecting b"
  then obtain x addr st where "pv_arg b = Some x" "objs x = Some (DialObject p addr st)" "connected_pcb st = None"
    using block_okD(3) [OF assms(1)] by blast
  moreover from this have "x \<noteq> a" using assms(2) by auto
  ultimately show "\<exists>x addr st. pv_arg b = Some x \<and>
      (objs(a \<mapsto> ListenerObject l')) x = Some (DialObject p addr st) \<and> connected_pcb st = None" by auto
qed

lemma listener_obj_adds:
  assumes old: "listener_obj_ok v a l" and l': "tcpl_this l' = a" "tcpl_pcb l' = tcpl_pcb l"
    and q: "\<not> pv_live (v q)" and pend: "tcpl_pending l' = tcpl_pending l @ [c]" "tcp_pcb c = Some q"
    and "\<not> tcpl_is_closed l'"
  shows "listener_obj_ok (v(q := new_block (Some a))) a l'"
proof -
  let ?v = "v(q := new_block (Some a))"
  have "\<exists>r. tcp_pcb d = Some r \<and> pv_live (v r) \<and> pv_arg (v r) = Some a \<and> idle (v r)"
    if "d \<in> set (tcpl_pending l)" for d using old that by (simp add: listener_obj_ok_def)
  then have waiting: "\<exists>r. tcp_pcb d = Some r \<and> r \<noteq> q \<and> pv_live (v r) \<and> pv_arg (v r) = Some a \<and> idle (v r)"
    if "d \<in> set (tcpl_pending l)" for d using q that by blast
  have "\<exists>r. tcp_pcb d = Some r \<and> pv_live (?v r) \<and> pv_arg (?v r) = Some a \<and> idle (?v r)"
    if "d \<in> set (tcpl_pending l')" for d
  proof (cases "d = c")
    case False
    then have "d \<in> set (tcpl_pending l)" using that pend(1) by simp
    then obtain r where "tcp_pcb d = Some r" "r \<noteq> q" "pv_live (v r)" "pv_arg (v r) = Some a" "idle (v r)"
      using waiting by blast
    then show ?thesis by simp
  qed (simp add: pend(2))
  moreover have "pv_live (?v p) \<and> pv_arg (?v p) = Some a \<and> pv_accept (?v p)" if "tcpl_pcb l' = Some p" for p
  proof -
    have "pv_live (v p) \<and> pv_arg (v p) = Some a \<and> pv_accept (v p)"
      using that old l'(2) by (simp add: listener_obj_ok_def)
    then show ?thesis using q by auto
  qed
  moreover have "distinct (map tcp_pcb (tcpl_pending l'))"
  proof -
    have "distinct (map tcp_pcb (tcpl_pending l))" using old by (simp add: listener_obj_ok_def)
    moreover have "Some q \<notin> tcp_pcb ` set (tcpl_pending l)" using waiting by force
    ultimately show ?thesis by (simp add: pend)
  qed
  ultimately show ?thesis using l'(1) assms(7) by (simp add: listener_obj_ok_def)
qed

lemma waiting_okD:
  assumes "waiting_ok t objs" and "objs a = Some (ListenerObject l)"
  shows "distinct (map tcp_this (tcpl_pending l))"
    "c \<in> set (tcpl_pending l) \<Longrightarrow> tcp_this c < t" "c \<in> set (tcpl_pending l) \<Longrightarrow> objs (tcp_this c) = None"
    "c \<in> set (tcpl_pending l) \<Longrightarrow> objs b = Some (ListenerObject l') \<Longrightarrow> c' \<in> set (tcpl_pending l') \<Longrightarrow>
       tcp_this c' = tcp_this c \<Longrightarrow> b = a"
  using assms unfolding waiting_ok_def by blast+

lemma waiting_ok_add:
  assumes ok: "waiting_ok t objs" and l: "objs a = Some (ListenerObject l)"
    and pend: "tcpl_pending l' = tcpl_pending l @ [c]" and t: "t \<le> tcp_this c" "tcp_this c < t'"
    and fresh: "\<And>x. t \<le> x \<Longrightarrow> objs x = None"
  shows "waiting_ok t' (objs(a \<mapsto> ListenerObject l'))"
  unfolding waiting_ok_def
proof (intro allI impI)
  have source: "\<exists>k. objs b = Some (ListenerObject k) \<and>
      (b \<noteq> a \<and> tcpl_pending m = tcpl_pending k \<or> b = a \<and> tcpl_pending m = tcpl_pending k @ [c])"
    if "(objs(a \<mapsto> ListenerObject l')) b = Some (ListenerObject m)" for b m
    using that l pend by (cases "b = a") auto
  have a: "a < t" using fresh [of a] l by (metis leI option.distinct(1))
  fix b m assume "(objs(a \<mapsto> ListenerObject l')) b = Some (ListenerObject m)"
  from source [OF this] obtain k where k: "objs b = Some (ListenerObject k)"
      "b \<noteq> a \<and> tcpl_pending m = tcpl_pending k \<or> b = a \<and> tcpl_pending m = tcpl_pending k @ [c]" by blast
  note w = waiting_okD [OF ok k(1)]
  have old: "tcp_this c \<notin> tcp_this ` set (tcpl_pending k)" using w(2) t(1) by force
  have elems: "tcp_this d < t' \<and> (objs(a \<mapsto> ListenerObject l')) (tcp_this d) = None \<and>
      (\<forall>b2 m2 d2. (objs(a \<mapsto> ListenerObject l')) b2 = Some (ListenerObject m2) \<longrightarrow>
         d2 \<in> set (tcpl_pending m2) \<longrightarrow> tcp_this d2 = tcp_this d \<longrightarrow> b2 = b)"
    if d: "d \<in> set (tcpl_pending m)" for d
  proof (cases "d \<in> set (tcpl_pending k)")
    case True
    have "b2 = b"
      if m2: "(objs(a \<mapsto> ListenerObject l')) b2 = Some (ListenerObject m2)" "d2 \<in> set (tcpl_pending m2)"
        "tcp_this d2 = tcp_this d" for b2 m2 d2
    proof -
      obtain k2 where k2: "objs b2 = Some (ListenerObject k2)"
          "tcpl_pending m2 = tcpl_pending k2 \<or> tcpl_pending m2 = tcpl_pending k2 @ [c]"
        using source [OF m2(1)] by blast
      have "d2 \<noteq> c" using w(2) [OF True] m2(3) t(1) by auto
      then have "d2 \<in> set (tcpl_pending k2)" using m2(2) k2(2) by auto
      from w(4) [OF True k2(1) this m2(3)] show ?thesis .
    qed
    moreover have "tcp_this d \<noteq> a" using w(3) [OF True] l by auto
    ultimately show ?thesis using w(2,3) [OF True] t by (intro conjI allI impI) (simp, simp, blast)
  next
    case False
    then have dc: "d = c" "b = a" using d k(2) by auto
    have "b2 = b"
      if m2: "(objs(a \<mapsto> ListenerObject l')) b2 = Some (ListenerObject m2)" "d2 \<in> set (tcpl_pending m2)"
        "tcp_this d2 = tcp_this d" for b2 m2 d2
    proof (rule ccontr)
      assume "b2 \<noteq> b"
      then obtain k2 where k2: "objs b2 = Some (ListenerObject k2)" "tcpl_pending m2 = tcpl_pending k2"
        using source [OF m2(1)] dc by blast
      have "tcp_this d2 < t" using waiting_okD(2) [OF ok k2(1)] m2(2) k2(2) by simp
      then show False using m2(3) dc t(1) by simp
    qed
    moreover have "tcp_this d < t'" "(objs(a \<mapsto> ListenerObject l')) (tcp_this d) = None"
      using dc a t fresh [OF t(1)] by auto
    ultimately show ?thesis by blast
  qed
  have "distinct (map tcp_this (tcpl_pending m))" using k(2)
  proof (elim disjE conjE)
    assume "tcpl_pending m = tcpl_pending k @ [c]"
    then show ?thesis using w(1) old by simp
  qed (simp add: w(1))
  from conjI [OF this ballI [OF elems]] show "distinct (map tcp_this (tcpl_pending m)) \<and> (\<forall>d \<in> set (tcpl_pending m). tcp_this d < t' \<and>
      (objs(a \<mapsto> ListenerObject l')) (tcp_this d) = None \<and>
      (\<forall>b2 m2 d2. (objs(a \<mapsto> ListenerObject l')) b2 = Some (ListenerObject m2) \<longrightarrow>
         d2 \<in> set (tcpl_pending m2) \<longrightarrow> tcp_this d2 = tcp_this d \<longrightarrow> b2 = b))" .
qed

lemma listener_accepts:
  assumes inv: "sys_inv v t H objs" and l: "objs a = Some (ListenerObject l)" and "tcpl_this l' = a"
    and "tcpl_pcb l' = tcpl_pcb l" and "\<not> tcpl_is_closed l'"
    and q: "\<not> pv_live (v q)" and pend: "tcpl_pending l' = tcpl_pending l @ [c]" "tcp_pcb c = Some q"
    and t: "t \<le> tcp_this c" "tcp_this c < t'"
  shows "sys_inv (v(q := new_block (Some a))) t' H (objs(a \<mapsto> ListenerObject l'))"
proof (rule sys_inv_update [OF inv])
  have old: "listener_obj_ok v a l" "a < t" using sys_invD(2,3) [OF inv l] by (simp_all add: object_ok_def)
  show "a < t' \<and> object_ok (v(q := new_block (Some a))) a x" if "Some (ListenerObject l') = Some x" for x
    using that old(2) t listener_obj_adds [OF old(1) assms(3,4) q pend assms(5)] by (auto simp: object_ok_def)
  show "block_ok H (objs(a \<mapsto> ListenerObject l')) p ((v(q := new_block (Some a))) p)" for p
    using block_ok_listener [OF sys_invD(1) [OF inv, of p] l assms(4)] by simp
  have "objs x = None" if "t \<le> x" for x using sys_invD(2) [OF inv, of x] that by (metis leD option.exhaust)
  then show "waiting_ok t' (objs(a \<mapsto> ListenerObject l'))"
    by (rule waiting_ok_add [OF sys_invD(4) [OF inv] l pend(1) t])
qed (use q t in \<open>auto split: if_splits\<close>)

lemma listener_changes:
  assumes inv: "sys_inv v t H objs" and l: "objs a = Some (ListenerObject l)" and "tcpl_this l' = a"
    and "tcpl_pcb l' = tcpl_pcb l" and "\<not> tcpl_is_closed l'" and pend: "tcpl_pending l' = tcpl_pending l"
  shows "sys_inv v t H (objs(a \<mapsto> ListenerObject l'))"
proof (rule sys_inv_update [OF inv])
  have old: "listener_obj_ok v a l" "a < t" using sys_invD(2,3) [OF inv l] by (simp_all add: object_ok_def)
  then show "a < t \<and> object_ok v a x" if "Some (ListenerObject l') = Some x" for x
    using that assms(3-6) by (auto simp: object_ok_def listener_obj_ok_def)
  show "block_ok H (objs(a \<mapsto> ListenerObject l')) p (v p)" for p
    by (rule block_ok_listener [OF sys_invD(1) [OF inv] l assms(4)])
  show "waiting_ok t (objs(a \<mapsto> ListenerObject l'))"
    by (rule waiting_ok_same [OF sys_invD(4) [OF inv] order_refl refl]) (simp_all add: l pend)
qed auto

lemma dial_changes:
  assumes inv: "sys_inv v t H objs" and d: "objs a = Some (DialObject p addr st)"
    and "connected_pcb st' \<in> {None, Some p}"
  shows "sys_inv (v(p := (v p)\<lparr>pv_connecting := False\<rparr>)) t H (objs(a \<mapsto> DialObject p addr st'))"
proof (rule sys_inv_update [OF inv])
  have old: "pv_live (v p)" "pv_arg (v p) = Some a" "a < t"
    using sys_invD(2,3) [OF inv d] by (simp_all add: object_ok_def)
  let ?v = "v(p := (v p)\<lparr>pv_connecting := False\<rparr>)"
  show "a < t \<and> object_ok ?v a x" if "Some (DialObject p addr st') = Some x" for x
    using that old assms(3) by (auto simp: object_ok_def)
  show "pv_arg (v q) = Some a \<or> \<not> pv_live (v q) \<or> pv_arg (v q) = None" if "?v q \<noteq> v q" for q
    using that old by (auto split: if_splits)
  show "block_ok H (objs(a \<mapsto> DialObject p addr st')) q (?v q)" if "?v q \<noteq> v q \<or> pv_arg (v q) = Some a" for q
  proof -
    have arg: "pv_arg (v q) = Some a" using that old(2) by (auto split: if_splits)
    then have "\<not> pv_recv (v q)" "\<not> pv_err (v q)" "\<not> pv_accept (v q)" "q \<noteq> p \<Longrightarrow> \<not> pv_connecting (v q)"
      using block_okD [OF sys_invD(1) [OF inv, of q]] d by auto
    then show ?thesis by (auto simp: block_ok_def)
  qed
  show "waiting_ok t (objs(a \<mapsto> DialObject p addr st'))"
    by (rule waiting_ok_same [OF sys_invD(4) [OF inv] order_refl refl]) (simp_all add: d)
qed auto

text \<open>The callbacks of a poll, along the registrations lwIP has at each of them.\<close>

definition dispatched ::
  "('e \<Rightarrow> Registrations) \<Rightarrow> ('e \<Rightarrow> obj) \<Rightarrow> Registrations \<Rightarrow> LwipEvent list \<Rightarrow> 'e TcpSystem \<Rightarrow> 'e TcpSystem \<Rightarrow> bool" where
  "dispatched regs next_addr v H s s' \<longleftrightarrow>
     sys_inv v (next_addr (env (sys_world s'))) H (sys_objects s') \<and>
     regs (env (sys_world s')) = regs (env (sys_world s)) \<and> delivered (sys_world s') = delivered (sys_world s)"

lemma dispatched_trans:
  "dispatched regs next_addr v H s s1 \<Longrightarrow> dispatched regs next_addr v' H s1 s' \<Longrightarrow> dispatched regs next_addr v' H s s'"
  by (simp add: dispatched_def)

lemma recv_step:
  assumes law: "lwip_law lw regs next_addr"
    and inv: "sys_inv v (next_addr (env (sys_world s))) H (sys_objects s)" and p: "pv_recv (v p)"
    and H: "TcpRecvEvent (pv_arg (v p)) p buf err \<in> set H"
  shows "\<exists>s'. sys_dispatch lw (TcpRecvEvent (pv_arg (v p)) p buf err) s = Inr s' \<and> dispatched regs next_addr v H s s'"
proof -
  obtain a c where c: "pv_arg (v p) = Some a" "sys_objects s a = Some (ConnObject c)"
    using block_okD(1) [OF sys_invD(1) [OF inv, of p]] p by blast
  obtain c' w' where d: "tcp_dispatch lw (TcpRecvEvent (Some a) p buf err) (c, sys_world s) = (c', w')" by fastforce
  have this: "tcp_this c = a" using sys_invD(3) [OF inv c(2)] by (simp add: object_ok_def)
  note rd = recv_dispatch [OF d this law]
  have "fin_seen a H" if "buf = None" using H that c(1) fin_seen_in [of _ H a] by force
  then have "sys_inv v (next_addr (env w')) H ((sys_objects s)(a \<mapsto> ConnObject c'))"
    using conn_changes [OF inv c(2) rd(1)] rd(2,4) by auto
  then show ?thesis using c d rd by (simp add: sys_dispatch_def dispatched_def)
qed

lemma err_step:
  assumes inv: "sys_inv v (next_addr (env (sys_world s))) H (sys_objects s)" and p: "pv_err (v p)"
  shows "\<exists>s'. sys_dispatch lw (TcpErrEvent (pv_arg (v p)) err) s = Inr s' \<and>
    dispatched regs next_addr (v(p := free_block)) H s s'"
proof -
  obtain a c where c: "pv_arg (v p) = Some a" "sys_objects s a = Some (ConnObject c)"
    using block_okD(1) [OF sys_invD(1) [OF inv, of p]] p by blast
  obtain c' w' where d: "tcp_dispatch lw (TcpErrEvent (Some a) err) (c, sys_world s) = (c', w')" by fastforce
  have this: "tcp_this c = a" using sys_invD(3) [OF inv c(2)] by (simp add: object_ok_def)
  note ed = err_dispatch [OF d this]
  from conn_fails [OF inv c(2) ed(1,2) p c(1)] show ?thesis
    using c d ed(3) by (simp add: sys_dispatch_def dispatched_def)
qed

lemma accept_step_ok:
  assumes law: "lwip_law lw regs next_addr"
    and inv: "sys_inv v (next_addr (env (sys_world s))) H (sys_objects s)" and p: "pv_accept (v p)"
    and q: "\<And>q. newpcb = Some q \<Longrightarrow> \<not> pv_live (v q)"
    and v': "v' = (case newpcb of None \<Rightarrow> v | Some q \<Rightarrow> v(q := new_block (pv_arg (v p))))"
  shows "\<exists>s'. sys_dispatch lw (TcpAcceptEvent (pv_arg (v p)) newpcb err) s = Inr s' \<and>
    dispatched regs next_addr v' H s s'"
proof -
  obtain a l where l: "pv_arg (v p) = Some a" "sys_objects s a = Some (ListenerObject l)" "tcpl_pcb l = Some p"
    using block_okD(2) [OF sys_invD(1) [OF inv, of p]] p by blast
  have ok: "tcpl_this l = a" "\<not> tcpl_is_closed l"
    using sys_invD(3) [OF inv l(2)] l(3) by (simp_all add: object_ok_def listener_obj_ok_def)
  obtain l' w' where d: "tcpl_dispatch lw (TcpAcceptEvent (Some a) newpcb err) (l, sys_world s) = (l', w')" by fastforce
  note ad = accept_dispatch [OF d ok law]
  have "sys_inv v' (next_addr (env w')) H ((sys_objects s)(a \<mapsto> ListenerObject l'))"
  proof (cases newpcb)
    case None
    then show ?thesis using listener_changes [OF inv l(2) ad(1-3)] ad(6) v' by auto
  next
    case (Some q)
    have new: "sys_inv (v(q := new_block (Some a))) (next_addr (env w')) H ((sys_objects s)(a \<mapsto> ListenerObject l'))"
      using ad(6)
    proof (elim disjE exE conjE)
      assume same: "tcpl_pending l' = tcpl_pending l" "next_addr (env w') = next_addr (env (sys_world s))"
      note inv' = listener_changes [OF inv l(2) ad(1-3) same(1)]
      have "object_ok (v(q := new_block (Some a))) b x"
        if "((sys_objects s)(a \<mapsto> ListenerObject l')) b = Some x" for b x
        by (rule object_ok_frame [OF sys_invD(3) [OF inv' that]]) (use q Some in auto)
      moreover have "block_ok H ((sys_objects s)(a \<mapsto> ListenerObject l')) r ((v(q := new_block (Some a))) r)" for r
        using sys_invD(1) [OF inv', of r] by simp
      ultimately show ?thesis using inv' same(2) unfolding sys_inv_def by auto
    next
      fix q' c
      assume "newpcb = Some q'" "tcpl_pending l' = tcpl_pending l @ [c]" "tcp_pcb c = Some q'"
        "next_addr (env (sys_world s)) \<le> tcp_this c" "tcp_this c < next_addr (env w')"
      then show ?thesis using listener_accepts [OF inv l(2) ad(1-3), of q c] q Some by simp
    qed
    then show ?thesis using v' Some l(1) by simp
  qed
  then show ?thesis using l d ad by (simp add: sys_dispatch_def dispatched_def)
qed

lemma connected_step:
  assumes inv: "sys_inv v (next_addr (env (sys_world s))) H (sys_objects s)" and p: "pv_connecting (v p)"
  shows "\<exists>s'. sys_dispatch lw (TcpConnectedEvent (pv_arg (v p)) p err) s = Inr s' \<and>
    dispatched regs next_addr (v(p := (v p)\<lparr>pv_connecting := False\<rparr>)) H s s'"
proof -
  obtain a addr st where d: "pv_arg (v p) = Some a" "sys_objects s a = Some (DialObject p addr st)"
      "connected_pcb st = None"
    using block_okD(3) [OF sys_invD(1) [OF inv, of p]] p by blast
  obtain st' where st': "dial_dispatch a (TcpConnectedEvent (Some a) p err) st = Inr st'"
      "connected_pcb st' \<in> {None, Some p}"
    using d(3) by (auto simp: dial_dispatch_def tcp_dial_connected_callback_def Let_def)
  from dial_changes [OF inv d(2) st'(2)] show ?thesis
    using d st'(1) by (simp add: sys_dispatch_def dispatched_def)
qed

lemma dispatch_cons:
  assumes "sys_dispatch lw ev s = Inr s1" and "dispatched regs next_addr v H s s1"
    and "sys_inv v (next_addr (env (sys_world s1))) H (sys_objects s1) \<Longrightarrow>
      \<exists>s'. sys_dispatch_all lw evs s1 = Inr s' \<and> dispatched regs next_addr v' H s1 s'"
  shows "\<exists>s'. sys_dispatch_all lw (ev # evs) s = Inr s' \<and> dispatched regs next_addr v' H s s'"
proof -
  obtain s' where "sys_dispatch_all lw evs s1 = Inr s'" "dispatched regs next_addr v' H s1 s'"
    using assms(2,3) by (auto simp: dispatched_def)
  then show ?thesis using assms(1) dispatched_trans [OF assms(2)] by simp
qed

lemma run_dispatch:
  assumes law: "lwip_law lw regs next_addr"
  shows "lwip_run v evs v' \<Longrightarrow> sys_inv v (next_addr (env (sys_world s))) H (sys_objects s) \<Longrightarrow> set evs \<subseteq> set H \<Longrightarrow>
    \<exists>s'. sys_dispatch_all lw evs s = Inr s' \<and> dispatched regs next_addr v' H s s'"
proof (induction v evs v' arbitrary: s rule: lwip_run.induct)
  case (run_end v)
  then show ?case by (simp add: dispatched_def)
next
  case (run_free v p evs v')
  show ?case by (rule run_free.IH [OF run_free_ok [OF run_free.prems(1) run_free.hyps(1)] run_free.prems(2)])
next
  case (run_recv v p evs v' buf err)
  have ev: "TcpRecvEvent (pv_arg (v p)) p buf err \<in> set H" using run_recv.prems(2) by simp
  obtain s1 where s1: "sys_dispatch lw (TcpRecvEvent (pv_arg (v p)) p buf err) s = Inr s1"
      "dispatched regs next_addr v H s s1"
    using recv_step [OF law run_recv.prems(1) run_recv.hyps(1) ev] by blast
  show ?case by (rule dispatch_cons [OF s1 run_recv.IH]) (use run_recv.prems(2) in \<open>simp_all add: fun_upd_def\<close>)
next
  case (run_err v p evs v' err)
  obtain s1 where s1: "sys_dispatch lw (TcpErrEvent (pv_arg (v p)) err) s = Inr s1"
      "dispatched regs next_addr (v(p := free_block)) H s s1"
    using err_step [where next_addr = next_addr and regs = regs, OF run_err.prems(1) run_err.hyps(1)] by blast
  show ?case by (rule dispatch_cons [OF s1 run_err.IH]) (use run_err.prems(2) in \<open>simp_all add: fun_upd_def\<close>)
next
  case (run_accept v p q evs v' err)
  obtain s1 where s1: "sys_dispatch lw (TcpAcceptEvent (pv_arg (v p)) (Some q) err) s = Inr s1"
      "dispatched regs next_addr (v(q := new_block (pv_arg (v p)))) H s s1"
    using accept_step_ok [OF law run_accept.prems(1) run_accept.hyps(1), of "Some q"] run_accept.hyps(2) by auto
  show ?case by (rule dispatch_cons [OF s1 run_accept.IH]) (use run_accept.prems(2) in \<open>simp_all add: fun_upd_def\<close>)
next
  case (run_refuse v p evs v' err)
  obtain s1 where s1: "sys_dispatch lw (TcpAcceptEvent (pv_arg (v p)) None err) s = Inr s1"
      "dispatched regs next_addr v H s s1"
    using accept_step_ok [OF law run_refuse.prems(1) run_refuse.hyps(1), of None] by auto
  show ?case by (rule dispatch_cons [OF s1 run_refuse.IH]) (use run_refuse.prems(2) in \<open>simp_all add: fun_upd_def\<close>)
next
  case (run_connected v p evs v' err)
  obtain s1 where s1: "sys_dispatch lw (TcpConnectedEvent (pv_arg (v p)) p err) s = Inr s1"
      "dispatched regs next_addr (v(p := (v p)\<lparr>pv_connecting := False\<rparr>)) H s s1"
    using connected_step [where next_addr = next_addr and regs = regs, OF run_connected.prems(1) run_connected.hyps(1)] by blast
  show ?case by (rule dispatch_cons [OF s1 run_connected.IH]) (use run_connected.prems(2) in \<open>simp_all add: fun_upd_def\<close>)
next
  case (run_udp v evs v' arg p buf ip port)
  then show ?case by (simp add: sys_dispatch_def)
qed

lemma poll_ok:
  assumes law: "lwip_law lw regs next_addr" and ok: "sys_ok regs next_addr s"
  shows "\<exists>s'. sys_poll lw s = Inr s' \<and> sys_ok regs next_addr s'"
proof -
  obtain evs w1 where p: "arch_poll lw (sys_world s) = (evs, w1)" by fastforce
  have w1: "delivered w1 = delivered (sys_world s) @ evs"
      "lwip_run (regs (env (sys_world s))) evs (regs (env w1))"
      "next_addr (env w1) = next_addr (env (sys_world s))"
    using p law_poll [OF law, of "env (sys_world s)"] by (auto simp: arch_poll_def split: prod.splits)
  let ?s = "s\<lparr>sys_world := w1\<rparr>"
  have "sys_inv (regs (env (sys_world s))) (next_addr (env (sys_world ?s))) (delivered w1) (sys_objects ?s)"
    using sys_inv_mono [OF ok [unfolded sys_ok_def] order_refl, of "delivered w1"] w1 by simp
  from run_dispatch [OF law w1(2) this] show ?thesis
    using w1 by (auto simp: sys_poll_def p dispatched_def sys_ok_def)
qed

section \<open>What a callback does to one object\<close>

primrec kind :: "TcpObject \<Rightarrow> nat" where
  "kind (ConnObject c) = 0"
| "kind (ListenerObject l) = 1"
| "kind (DialObject p addr st) = 2"

lemma get_conn_Inr: "get_conn objs a = Inr c \<longleftrightarrow> objs a = Some (ConnObject c)"
  by (auto simp: get_conn_def split: option.splits TcpObject.splits)

lemma get_listener_Inr: "get_listener objs a = Inr l \<longleftrightarrow> objs a = Some (ListenerObject l)"
  by (auto simp: get_listener_def split: option.splits TcpObject.splits)

lemma get_dial_Inr: "get_dial objs a = Inr (p, addr, st) \<longleftrightarrow> objs a = Some (DialObject p addr st)"
  by (auto simp: get_dial_def split: option.splits TcpObject.splits)

lemmas get_Inr = get_conn_Inr get_listener_Inr get_dial_Inr

lemma get_none [simp]:
  "get_conn objs a \<noteq> Inl NullDeref \<longleftrightarrow> (\<exists>c. objs a = Some (ConnObject c))"
  "get_listener objs a \<noteq> Inl NullDeref \<longleftrightarrow> (\<exists>l. objs a = Some (ListenerObject l))"
  "get_dial objs a \<noteq> Inl NullDeref \<longleftrightarrow> (\<exists>p addr st. objs a = Some (DialObject p addr st))"
  by (auto simp: get_conn_def get_listener_def get_dial_def split: option.splits TcpObject.splits)

lemma dispatch_kind:
  assumes "sys_dispatch lw ev s = Inr s'"
  shows "map_option kind (sys_objects s' a) = map_option kind (sys_objects s a)"
  using assms
  by (auto simp: sys_dispatch_def bindE_Inr_iff get_Inr case_prod_beta Let_def split: LwipEvent.splits option.splits)

lemma dispatch_all_kind:
  "sys_dispatch_all lw evs s = Inr s' \<Longrightarrow> map_option kind (sys_objects s' a) = map_option kind (sys_objects s a)"
proof (induction evs arbitrary: s)
  case (Cons ev evs)
  then obtain s1 where "sys_dispatch lw ev s = Inr s1" "sys_dispatch_all lw evs s1 = Inr s'" by (auto simp: bindE_Inr_iff)
  then show ?case using Cons.IH dispatch_kind by metis
qed simp

lemma poll_kind:
  assumes "sys_poll lw s = Inr s'"
  shows "map_option kind (sys_objects s' a) = map_option kind (sys_objects s a)"
  using assms dispatch_all_kind [of lw _ "s\<lparr>sys_world := _\<rparr>" s'] by (auto simp: sys_poll_def split: prod.splits)

lemma kind_simps [simp]:
  "map_option kind x = Some 0 \<longleftrightarrow> (\<exists>c. x = Some (ConnObject c))"
  "map_option kind x = Some (Suc 0) \<longleftrightarrow> (\<exists>l. x = Some (ListenerObject l))"
proof -
  have "kind y = 0 \<longleftrightarrow> (\<exists>c. y = ConnObject c)" "kind y = Suc 0 \<longleftrightarrow> (\<exists>l. y = ListenerObject l)" for y
    by (cases y; simp)+
  then show "map_option kind x = Some 0 \<longleftrightarrow> (\<exists>c. x = Some (ConnObject c))"
    "map_option kind x = Some (Suc 0) \<longleftrightarrow> (\<exists>l. x = Some (ListenerObject l))" by (cases x; simp)+
qed

lemma poll_keeps_kind:
  assumes "sys_poll lw s = Inr s'"
  shows "sys_objects s a = Some (ConnObject c) \<Longrightarrow> \<exists>c'. sys_objects s' a = Some (ConnObject c')"
    "sys_objects s a = Some (ListenerObject l) \<Longrightarrow> \<exists>l'. sys_objects s' a = Some (ListenerObject l')"
  using poll_kind [OF assms, of a] kind_simps [of "sys_objects s' a"] by simp_all

text \<open>A connection changes as \<open>Tcp_Connection\<close> has it, whatever the world is.\<close>

lemma tcp_dispatch_world: "fst (tcp_dispatch lw ev (c, w)) = fst (tcp_dispatch lw ev (c, w'))"
  by (auto simp: tcp_dispatch_def tcp_recv_callback_def handle_tcp_recv_def tcp_err_callback_def
      split: LwipEvent.split option.split)

lemma tcp_dispatch_other:
  "(\<forall>p buf err. ev \<noteq> TcpRecvEvent (Some (tcp_this c)) p buf err) \<Longrightarrow>
   (\<forall>err. ev \<noteq> TcpErrEvent (Some (tcp_this c)) err) \<Longrightarrow> tcp_dispatch lw ev (c, w) = (c, w)"
  by (cases ev) (auto simp: tcp_dispatch_def)

lemma dispatch_conn:
  assumes d: "sys_dispatch lw ev s = Inr s'" and c: "sys_objects s a = Some (ConnObject c)" and "tcp_this c = a"
  shows "sys_objects s' a = Some (ConnObject (fst (tcp_dispatch lw ev (c, w))))"
proof (cases "(\<exists>p buf err. ev = TcpRecvEvent (Some a) p buf err) \<or> (\<exists>err. ev = TcpErrEvent (Some a) err)")
  case True
  then show ?thesis
    using d c tcp_dispatch_world [of lw ev c "sys_world s" w]
    by (auto simp: sys_dispatch_def case_prod_beta Let_def)
next
  case False
  then have "tcp_dispatch lw ev (c, w) = (c, w)" using assms(3) by (intro tcp_dispatch_other) auto
  moreover have "sys_objects s' a = sys_objects s a"
    using d c False
    by (auto simp: sys_dispatch_def bindE_Inr_iff get_Inr case_prod_beta Let_def split: LwipEvent.splits option.splits)
  ultimately show ?thesis using c by simp
qed

lemma fold_dispatch_world:
  "fst (fold (tcp_dispatch lw) evs (c, w)) = fst (fold (tcp_dispatch lw) evs (c, w'))"
proof (induction evs arbitrary: c w w')
  case (Cons ev evs)
  have "tcp_dispatch lw ev (c, w) = (fst (tcp_dispatch lw ev (c, w)), snd (tcp_dispatch lw ev (c, w)))"
    "tcp_dispatch lw ev (c, w') = (fst (tcp_dispatch lw ev (c, w)), snd (tcp_dispatch lw ev (c, w')))"
    using tcp_dispatch_world [of lw ev c w w'] by (simp_all add: prod_eq_iff)
  then show ?case using Cons.IH by (metis fold_simps(2))
qed simp

lemma dispatch_all_conn:
  "sys_dispatch_all lw evs s = Inr s' \<Longrightarrow> sys_objects s a = Some (ConnObject c) \<Longrightarrow> tcp_this c = a \<Longrightarrow>
     sys_objects s' a = Some (ConnObject (fst (fold (tcp_dispatch lw) evs (c, w))))"
proof (induction evs arbitrary: s c w)
  case (Cons ev evs)
  obtain s1 where s1: "sys_dispatch lw ev s = Inr s1" "sys_dispatch_all lw evs s1 = Inr s'"
    using Cons.prems(1) by (auto simp: bindE_Inr_iff)
  obtain c1 w1 where d: "tcp_dispatch lw ev (c, w) = (c1, w1)" by fastforce
  have "sys_objects s1 a = Some (ConnObject c1)"
    using dispatch_conn [OF s1(1) Cons.prems(2,3), of w] d by simp
  moreover have "tcp_this c1 = a" using tcp_dispatch_step(2) [OF d] Cons.prems(3) by simp
  ultimately show ?case using Cons.IH [OF s1(2), of c1 w1] d by simp
qed simp

end
