(* ===== verification/Tcp_System_Steps.thy ===== *)
theory Tcp_System_Steps
  imports Tcp_System_Laws
begin

text \<open>
  Every operation on the TCP objects keeps the invariant and commits no fault; hence so do all
  runs. What an operation does to the registrations of lwIP comes first, then the operations.
\<close>

section \<open>Registrations along the operations\<close>

text \<open>What changes is of blocks that were free, and has no functions.\<close>

definition fresh_only :: "Registrations \<Rightarrow> Registrations \<Rightarrow> bool" where
  "fresh_only v v' \<longleftrightarrow> (\<forall>q. v' q \<noteq> v q \<longrightarrow> \<not> pv_live (v q) \<and> idle (v' q))"

lemma fresh_only_refl [simp]: "fresh_only v v"
  by (simp add: fresh_only_def)

text \<open>Steps that leave the registrations alone.\<close>

definition untouched :: "('e \<Rightarrow> Registrations) \<Rightarrow> ('e \<Rightarrow> obj) \<Rightarrow> 'e World \<Rightarrow> 'e World \<Rightarrow> bool" where
  "untouched regs next_addr w w' \<longleftrightarrow> regs (env w') = regs (env w) \<and> next_addr (env w') = next_addr (env w) \<and>
     delivered w' = delivered w"

lemma tcp_write_untouched:
  assumes "lwip_law lw regs next_addr"
  shows "untouched regs next_addr w (snd (snd (tcp_write lw bs c w)))" "fst (snd (tcp_write lw bs c w)) = c"
  by (auto simp: tcp_write_def untouched_def Let_def case_prod_beta law_call_world [OF assms] world_simps
      law_call [OF assms] split: option.split)

text \<open>Closing a connection frees its block of its functions and its argument.\<close>

definition released :: "PcbView \<Rightarrow> PcbView \<Rightarrow> bool" where
  "released b b' \<longleftrightarrow> pv_arg b' = None \<and> \<not> pv_recv b' \<and> \<not> pv_err b' \<and>
     (pv_accept b' \<longrightarrow> pv_accept b) \<and> (pv_connecting b' \<longrightarrow> pv_connecting b)"

lemma released_idle: "released b b' \<Longrightarrow> \<not> pv_accept b \<Longrightarrow> \<not> pv_connecting b \<Longrightarrow> idle b'"
  by (auto simp: released_def idle_def)

lemma tcp_close_regs:
  assumes law: "lwip_law lw regs next_addr" and close: "tcp_close lw c w = (e, c', w')"
    and p: "tcp_pcb c = Some p"
  shows "\<exists>b. released (regs (env w) p) b \<and> regs (env w') = (regs (env w))(p := b)"
    "next_addr (env w') = next_addr (env w)" "delivered w' = delivered w"
    "tcp_pcb c' = None" "tcp_this c' = tcp_this c"
proof -
  let ?w4 = "call_void lw (TcpErr p False) (call_void lw (TcpSent p False)
      (call_void lw (TcpRecv p False) (call_void lw (TcpArg p None) w)))"
  have w': "w' = snd (call lw (TcpClose p) ?w4)" and c': "c' = c\<lparr>tcp_pcb := None, tcp_is_closed := True\<rparr>"
    using close p by (auto simp: tcp_close_def Let_def case_prod_beta split: if_splits)
  show "\<exists>b. released (regs (env w) p) b \<and> regs (env w') = (regs (env w))(p := b)"
    by (intro exI [of _ "regs (env w') p"])
      (auto simp: w' law_call_world [OF law] released_def)
  show "next_addr (env w') = next_addr (env w)" "delivered w' = delivered w"
    by (simp_all add: w' law_call_world [OF law] call_log(2) call_void_log(2))
  show "tcp_pcb c' = None" "tcp_this c' = tcp_this c" by (simp_all add: c')
qed

lemma tcp_destroy_regs:
  assumes law: "lwip_law lw regs next_addr" and close: "tcp_close lw c w = (e, c', w')"
  shows "untouched regs next_addr w' (tcp_destroy lw c w)"
proof -
  have "tcp_pcb c' = None" using close by (auto simp: tcp_close_def Let_def case_prod_beta split: option.splits if_splits)
  then show ?thesis
    by (simp add: tcp_destroy_def close untouched_def law_call_world [OF law] call_log(2) call_void_log(2))
qed

text \<open>A dial that gives up, and one that succeeds.\<close>

lemma dial_cleanup_regs:
  assumes law: "lwip_law lw regs next_addr" and run: "dial_cleanup lw p msg w = (r, w')"
  shows "r = Inl (Error msg)" "next_addr (env w') = next_addr (env w)" "delivered w' = delivered w"
    "\<exists>b. regs (env w') = (regs (env w))(p := b) \<and> pv_arg b = None \<and> \<not> pv_connecting b \<and>
       (pv_recv b \<longrightarrow> pv_recv (regs (env w) p)) \<and> (pv_err b \<longrightarrow> pv_err (regs (env w) p)) \<and>
       (pv_accept b \<longrightarrow> pv_accept (regs (env w) p))"
proof -
  let ?w1 = "call_void lw (TcpArg p None) w"
  let ?r2 = "call lw (TcpClose p) ?w1"
  have w': "w' = (if fst ?r2 \<noteq> ERR_OK then call_void lw (TcpAbort (Some p)) (snd ?r2) else snd ?r2)"
    and r: "r = Inl (Error msg)"
    using run by (auto simp: dial_cleanup_def Let_def case_prod_beta)
  show "r = Inl (Error msg)" by (rule r)
  show "next_addr (env w') = next_addr (env w)" "delivered w' = delivered w"
    by (simp_all add: w' law_call_world [OF law] call_log(2) call_void_log(2))
  have "idle free_block" by simp
  then show "\<exists>b. regs (env w') = (regs (env w))(p := b) \<and> pv_arg b = None \<and> \<not> pv_connecting b \<and>
       (pv_recv b \<longrightarrow> pv_recv (regs (env w) p)) \<and> (pv_err b \<longrightarrow> pv_err (regs (env w) p)) \<and>
       (pv_accept b \<longrightarrow> pv_accept (regs (env w) p))"
    by (intro exI [of _ "regs (env w') p"])
      (auto simp: w' law_call_world [OF law] simp del: block_sel(3) dest!: idleD)
qed

lemma dial_start_regs:
  assumes law: "lwip_law lw regs next_addr" and run: "dial_start lw net address w = (r, w')"
  shows "next_addr (env w) \<le> next_addr (env w')" "delivered w' = delivered w"
    "case r of
       Inl err \<Rightarrow> \<not> is_fault err \<and> fresh_only (regs (env w)) (regs (env w'))
     | Inr (p, at) \<Rightarrow> \<not> pv_live (regs (env w) p) \<and>
         regs (env w') = (regs (env w))(p := (new_block (Some at))\<lparr>pv_connecting := True\<rparr>) \<and>
         next_addr (env w) \<le> at \<and> at < next_addr (env w')"
proof -
  have "next_addr (env w) \<le> next_addr (env w') \<and> delivered w' = delivered w \<and> (case r of
       Inl err \<Rightarrow> \<not> is_fault err \<and> fresh_only (regs (env w)) (regs (env w'))
     | Inr (p, at) \<Rightarrow> \<not> pv_live (regs (env w) p) \<and>
         regs (env w') = (regs (env w))(p := (new_block (Some at))\<lparr>pv_connecting := True\<rparr>) \<and>
         next_addr (env w) \<le> at \<and> at < next_addr (env w'))"
  proof (cases "is_initialized net \<and> is_ready net \<and> lwip_aton lw (address_ip address) \<noteq> None")
    case False
    then show ?thesis using run by (auto simp: dial_start_def split: if_splits)
  next
    case True
    then obtain ip where go: "is_initialized net" "is_ready net" "lwip_aton lw (address_ip address) = Some ip" by blast
    obtain pcb e1 where new: "lwip_tcp_new lw (env w) = (pcb, e1)" by fastforce
    note n = law_tcp_new [OF law new]
    show ?thesis
    proof (cases pcb)
      case None
      then show ?thesis using run go new n by (auto simp: dial_start_def on_env_def)
    next
      case (Some p)
      obtain at e2 where at: "new_object lw e1 = (at, e2)" by fastforce
      note o = law_new_object [OF law at]
      let ?w2 = "call_void lw (TcpArg p (Some at)) (w\<lparr>env := e2\<rparr>)"
      obtain err w3 where con: "call lw (TcpConnect p ip (address_port address)) ?w2 = (err, w3)" by fastforce
      have w3: "regs (env w3) = (if err = ERR_OK
            then (regs (env w))(p := (new_block (Some at))\<lparr>pv_connecting := True\<rparr>)
            else (regs (env w))(p := new_block (Some at)))"
          "next_addr (env w3) = next_addr e2" "delivered w3 = delivered w"
        using law_call_world [OF law, of "TcpConnect p ip (address_port address)" ?w2] con n(3) [OF Some] o
          law_call_world [OF law, of "TcpArg p (Some at)" "w\<lparr>env := e2\<rparr>"]
          call_log(2) [of lw "TcpConnect p ip (address_port address)" ?w2]
        by (auto simp: call_log(2) call_void_log(2) new_block_def)
      show ?thesis
      proof (cases "err = ERR_OK")
        case True
        then have "r = Inr (p, at)" "w' = w3"
          using run go new at con Some by (simp_all add: dial_start_def on_env_def Let_def)
        then show ?thesis using w3 n o Some True by simp
      next
        case False
        then have clean: "dial_cleanup lw p ''tcp_connect failed'' w3 = (r, w')"
          using run go new at con Some by (simp add: dial_start_def on_env_def Let_def)
        note dc = dial_cleanup_regs [OF law clean]
        obtain b where b: "regs (env w') = (regs (env w3))(p := b)" "idle b"
          using dc(4) w3(1) False by (auto simp: new_block_def idle_def)
        have "fresh_only (regs (env w)) (regs (env w'))"
          using b w3(1) False n(3) [OF Some] by (auto simp: fresh_only_def)
        then show ?thesis using dc(1-3) w3 n(1) o by simp
      qed
    qed
  qed
  then show "next_addr (env w) \<le> next_addr (env w')" "delivered w' = delivered w"
    "case r of
       Inl err \<Rightarrow> \<not> is_fault err \<and> fresh_only (regs (env w)) (regs (env w'))
     | Inr (p, at) \<Rightarrow> \<not> pv_live (regs (env w) p) \<and>
         regs (env w') = (regs (env w))(p := (new_block (Some at))\<lparr>pv_connecting := True\<rparr>) \<and>
         next_addr (env w) \<le> at \<and> at < next_addr (env w')" by blast+
qed

lemma new_TcpListener_sel [simp]:
  "tcpl_this (new_TcpListener this p la) = this" "tcpl_pcb (new_TcpListener this p la) = Some p"
  "\<not> tcpl_is_closed (new_TcpListener this p la)" "tcpl_pending (new_TcpListener this p la) = []"
  by (simp_all add: new_TcpListener_def)

lemma listen_tcp_regs:
  assumes law: "lwip_law lw regs next_addr" and run: "listen_tcp lw net port w = (r, w')"
  shows "next_addr (env w) \<le> next_addr (env w') \<and> delivered w' = delivered w \<and> (case r of
       Inl err \<Rightarrow> \<not> is_fault err \<and> fresh_only (regs (env w)) (regs (env w'))
     | Inr l \<Rightarrow> (\<exists>q. tcpl_pcb l = Some q \<and> \<not> tcpl_is_closed l \<and> tcpl_pending l = [] \<and>
         \<not> pv_live (regs (env w) q) \<and>
         regs (env w') q = (new_block (Some (tcpl_this l)))\<lparr>pv_accept := True\<rparr> \<and>
         fresh_only ((regs (env w))(q := regs (env w') q)) (regs (env w')) \<and>
         next_addr (env w) \<le> tcpl_this l \<and> tcpl_this l < next_addr (env w')))"
proof (cases "is_initialized net \<and> is_ready net")
  case False
  then show ?thesis using run by (auto simp: listen_tcp_def split: if_splits)
next
  case go: True
  obtain pcb e1 where new: "lwip_tcp_new lw (env w) = (pcb, e1)" by fastforce
  note n = law_tcp_new [OF law new]
  show ?thesis
  proof (cases pcb)
    case None
    then show ?thesis using run go new n by (auto simp: listen_tcp_def on_env_def)
  next
    case (Some p)
    obtain err w2 where bind: "call lw (TcpBind p port) (w\<lparr>env := e1\<rparr>) = (err, w2)" by fastforce
    have w2: "regs (env w2) = (regs (env w))(p := new_block None)" "next_addr (env w2) = next_addr (env w)"
        "delivered w2 = delivered w"
      using law_call_world [OF law, of "TcpBind p port" "w\<lparr>env := e1\<rparr>"] bind n(1) n(3) [OF Some]
        call_log(2) [of lw "TcpBind p port" "w\<lparr>env := e1\<rparr>"] by auto
    have p: "\<not> pv_live (regs (env w) p)" using n(3) [OF Some] by simp
    show ?thesis
    proof (cases "err = ERR_OK")
      case False
      then have "r = Inl (Error ''tcp_bind failed'')" "w' = call_void lw (TcpAbort (Some p)) w2"
        using run go new bind Some by (simp_all add: listen_tcp_def on_env_def)
      then show ?thesis using w2 p by (auto simp: law_call_world [OF law] call_log(2) call_void_log(2) fresh_only_def)
    next
      case ok: True
      obtain pcb2 e3 where lis: "lwip_tcp_listen lw p 4 (env w2) = (pcb2, e3)" by fastforce
      note ll = law_listen [OF law lis]
      show ?thesis
      proof (cases pcb2)
        case None
        then have "r = Inl (Error ''tcp_listen_with_backlog failed'')"
            "w' = call_void lw (TcpAbort None) (w2\<lparr>env := e3\<rparr>)"
          using run go new bind Some ok lis by (simp_all add: listen_tcp_def on_env_def)
        then show ?thesis using w2 p ll(1) ll(2) [OF None]
          by (auto simp: law_call_world [OF law] call_log(2) call_void_log(2) fresh_only_def)
      next
        case q: (Some q)
        obtain this e4 where obj: "new_object lw e3 = (this, e4)" by fastforce
        note o = law_new_object [OF law obj]
        define l where "l = new_TcpListener this q \<lparr>address_network = ''tcp'',
          address_ip = local_ip lw (w2\<lparr>env := e3\<rparr>), address_port = port\<rparr>"
        let ?w5 = "call_void lw (TcpArg q (Some this)) (w2\<lparr>env := e4\<rparr>)"
        have r: "r = Inr l" "w' = call_void lw (TcpAccept q True) ?w5"
          using run go new bind Some ok lis q obj
          by (simp_all add: listen_tcp_def on_env_def Let_def tcpl_attach_callbacks_def l_def)
        have old: "\<not> pv_live (regs (env w) q)" using ll(3) [OF q] w2(1) p by (cases "q = p") auto
        have "regs (env w') = (regs (env w))(p := free_block,
            q := (new_block (Some this))\<lparr>pv_accept := True\<rparr>)"
          using ll(3) [OF q] w2(1) o(3)
          by (auto simp: r(2) law_call_world [OF law] call_log(2) call_void_log(2) new_block_def)
        then show ?thesis
          using r old p w2 o ll(1) by (auto simp: l_def law_call_world [OF law] call_log(2) call_void_log(2) fresh_only_def)
      qed
    qed
  qed
qed

lemma close_waiting_regs:
  assumes law: "lwip_law lw regs next_addr"
  shows "close_waiting lw cs w = (cs', w') \<Longrightarrow> \<forall>c \<in> set cs. tcp_pcb c \<noteq> None \<Longrightarrow>
    next_addr (env w') = next_addr (env w) \<and> delivered w' = delivered w \<and> (\<forall>c \<in> set cs'. tcp_pcb c = None) \<and>
    (\<forall>q. (regs (env w') q \<noteq> regs (env w) q \<longrightarrow> Some q \<in> tcp_pcb ` set cs) \<and>
      (Some q \<in> tcp_pcb ` set cs \<longrightarrow> pv_arg (regs (env w') q) = None) \<and>
      (idle (regs (env w) q) \<longrightarrow> idle (regs (env w') q)))"
proof (induction cs arbitrary: w cs')
  case (Cons c cs)
  obtain e c1 w1 where close: "tcp_close lw c w = (e, c1, w1)" by (cases "tcp_close lw c w")
  obtain cs1 where rest: "close_waiting lw cs w1 = (cs1, w')" and cs': "cs' = c1 # cs1"
    using Cons.prems(1) close by (auto split: prod.splits)
  obtain p where p: "tcp_pcb c = Some p" using Cons.prems(2) by auto
  note cr = tcp_close_regs [OF law close p]
  obtain b where b: "released (regs (env w) p) b" "regs (env w1) = (regs (env w))(p := b)" using cr(1) by blast
  have IH: "next_addr (env w') = next_addr (env w1)" "delivered w' = delivered w1" "\<forall>c \<in> set cs1. tcp_pcb c = None"
    "\<And>q. regs (env w') q \<noteq> regs (env w1) q \<Longrightarrow> Some q \<in> tcp_pcb ` set cs"
    "\<And>q. Some q \<in> tcp_pcb ` set cs \<Longrightarrow> pv_arg (regs (env w') q) = None"
    "\<And>q. idle (regs (env w1) q) \<Longrightarrow> idle (regs (env w') q)"
    using Cons.IH [OF rest] Cons.prems(2) by auto
  have idle1: "idle (regs (env w1) q)" if "idle (regs (env w) q)" for q
    using that b by (auto simp: released_def idle_def)
  have arg: "pv_arg (regs (env w') p) = None"
    using IH(4,5) [of p] b by (cases "Some p \<in> tcp_pcb ` set cs") (auto simp: released_def)
  have touched: "Some q \<in> tcp_pcb ` set (c # cs)" if "regs (env w') q \<noteq> regs (env w) q" for q
    using that IH(4) [of q] b(2) p by (cases "q = p") auto
  show ?case
  proof (intro conjI allI impI)
    show "next_addr (env w') = next_addr (env w)" "delivered w' = delivered w" using IH cr by simp_all
    show "\<forall>c \<in> set cs'. tcp_pcb c = None" using IH(3) cr(4) cs' by simp
    show "Some q \<in> tcp_pcb ` set (c # cs)" if "regs (env w') q \<noteq> regs (env w) q" for q by (rule touched [OF that])
    show "pv_arg (regs (env w') q) = None" if "Some q \<in> tcp_pcb ` set (c # cs)" for q
      using that IH(5) [of q] arg p by auto
    show "idle (regs (env w') q)" if "idle (regs (env w) q)" for q by (rule IH(6) [OF idle1 [OF that]])
  qed
qed simp

section \<open>Objects that come and go\<close>

lemma addr_free:
  assumes "sys_inv v t H objs" and "t \<le> a"
  shows "objs a = None"
  using sys_invD(2) [OF assms(1), of a] assms(2) by (metis leD option.exhaust)

lemma inv_fresh:
  assumes inv: "sys_inv v t H objs" and "fresh_only v v'" and "t \<le> t'"
  shows "sys_inv v' t' H objs"
proof -
  have same: "objs(t := None) = objs" using addr_free [OF inv order_refl] by auto
  have "sys_inv v' t' H (objs(t := None))"
  proof (rule sys_inv_update [OF inv])
    fix p assume "v' p \<noteq> v p \<or> pv_arg (v p) = Some t"
    then show "block_ok H (objs(t := None)) p (v' p)"
      using assms(2) sys_invD(1) [OF inv, of p] same by (cases "v' p = v p") (auto simp: fresh_only_def)
  next
    show "waiting_ok t' (objs(t := None))"
      using sys_invD(4) [OF sys_inv_mono [OF inv assms(3)]] same by simp
  qed (use assms in \<open>auto simp: fresh_only_def\<close>)
  then show ?thesis using same by simp
qed

text \<open>An object gives up its blocks, and changes or goes.\<close>

lemma inv_retire:
  assumes inv: "sys_inv v t H objs" and x: "objs a = Some x"
    and frame: "\<And>q. v' q \<noteq> v q \<Longrightarrow> pv_arg (v q) = Some a \<and> idle (v' q)"
    and rest: "\<And>q. v' q = v q \<Longrightarrow> pv_arg (v q) = Some a \<Longrightarrow> block_ok H (objs(a := y)) q (v q)"
    and y: "\<And>z. y = Some z \<Longrightarrow> object_ok v' a z"
    and pend: "case y of Some (ListenerObject l) \<Rightarrow> tcpl_pending l = [] | _ \<Rightarrow> True"
  shows "sys_inv v' t H (objs(a := y))"
proof (rule sys_inv_update [OF inv])
  show "block_ok H (objs(a := y)) p (v' p)" if "v' p \<noteq> v p \<or> pv_arg (v p) = Some a" for p
    using that frame [of p] rest [of p] by (cases "v' p = v p") auto
  show "waiting_ok t (objs(a := y))"
    by (rule waiting_ok_same [OF sys_invD(4) [OF inv] order_refl refl])
      (use pend x in \<open>auto split: option.splits TcpObject.splits\<close>)
qed (use frame y sys_invD(2) [OF inv x] in auto)

text \<open>A new object takes a block that nobody owns.\<close>

lemma inv_new:
  assumes inv: "sys_inv v t H objs" and a: "objs a = None" "a < t'" and t: "t \<le> t'"
    and frame: "\<And>q. v' q \<noteq> v q \<Longrightarrow> \<not> pv_live (v q) \<or> pv_arg (v q) = None"
    and blocks: "\<And>q. v' q \<noteq> v q \<Longrightarrow> block_ok H (objs(a \<mapsto> x)) q (v' q)"
    and x: "object_ok v' a x" and waiting: "waiting_ok t' (objs(a \<mapsto> x))"
  shows "sys_inv v' t' H (objs(a \<mapsto> x))"
proof (rule sys_inv_update [OF inv])
  fix p assume p: "v' p \<noteq> v p \<or> pv_arg (v p) = Some a"
  show "block_ok H (objs(a \<mapsto> x)) p (v' p)"
  proof (cases "v' p = v p")
    case True
    then have "idle (v p)" using p block_okD [OF sys_invD(1) [OF inv, of p]] a(1) by (auto simp: idle_def)
    then show ?thesis using True by simp
  qed (rule blocks)
qed (use frame x a t waiting in auto)

lemma conn_block:
  assumes inv: "sys_inv v t H objs" and c: "objs a = Some (ConnObject c)" "tcp_pcb c = Some p"
  shows "pv_live (v p)" "pv_arg (v p) = Some a" "\<not> pv_accept (v p)" "\<not> pv_connecting (v p)"
proof -
  show arg: "pv_live (v p)" "pv_arg (v p) = Some a" using sys_invD(3) [OF inv c(1)] c(2) by (auto simp: object_ok_def)
  show "\<not> pv_accept (v p)" "\<not> pv_connecting (v p)"
    using block_okD(2,3) [OF sys_invD(1) [OF inv, of p]] arg(2) c(1) by auto
qed

text \<open>A connection without its block, or no connection when its peer has not ended the stream.\<close>

lemma conn_closes:
  assumes inv: "sys_inv v t H objs" and c: "objs a = Some (ConnObject c)" "tcp_pcb c = Some p"
    and b: "released (v p) b"
    and y: "y = None \<and> \<not> fin_seen a H \<or> (\<exists>c'. y = Some (ConnObject c') \<and> tcp_pcb c' = None \<and> tcp_this c' = a)"
  shows "sys_inv (v(p := b)) t H (objs(a := y))"
proof (rule inv_retire [OF inv c(1)])
  note blk = conn_block [OF inv c]
  show "pv_arg (v q) = Some a \<and> idle ((v(p := b)) q)" if "(v(p := b)) q \<noteq> v q" for q
    using that blk released_idle [OF b blk(3,4)] by (auto split: if_splits)
  show "block_ok H (objs(a := y)) q (v q)" if same: "(v(p := b)) q = v q" and arg: "pv_arg (v q) = Some a" for q
  proof (cases "q = p")
    case True
    then show ?thesis using same arg b by (simp add: released_def)
  next
    case False
    have "\<not> pv_accept (v q)" "\<not> pv_connecting (v q)" "pv_recv (v q) \<or> pv_err (v q) \<Longrightarrow> fin_seen a H"
      using block_okD [OF sys_invD(1) [OF inv, of q]] arg c False by auto
    then show ?thesis using y arg by (auto simp: block_ok_def)
  qed
  show "object_ok (v(p := b)) a z" if "y = Some z" for z using y that by (auto simp: object_ok_def)
  show "case y of Some (ListenerObject l) \<Rightarrow> tcpl_pending l = [] | _ \<Rightarrow> True" using y by auto
qed

lemma conn_goes:
  assumes inv: "sys_inv v t H objs" and c: "objs a = Some (ConnObject c)" "tcp_pcb c = None" and "\<not> fin_seen a H"
  shows "sys_inv v t H (objs(a := None))"
proof (rule inv_retire [OF inv c(1)])
  show "block_ok H (objs(a := None)) q (v q)" if "v q = v q" "pv_arg (v q) = Some a" for q
    using block_okD [OF sys_invD(1) [OF inv, of q]] that c assms(4) by (auto simp: block_ok_def)
qed auto

lemma listener_block:
  assumes inv: "sys_inv v t H objs" and l: "objs a = Some (ListenerObject l)" "tcpl_pcb l = Some p"
  shows "pv_live (v p)" "pv_arg (v p) = Some a" "\<not> pv_recv (v p)" "\<not> pv_err (v p)" "\<not> pv_connecting (v p)"
proof -
  show arg: "pv_live (v p)" "pv_arg (v p) = Some a"
    using sys_invD(3) [OF inv l(1)] l(2) by (auto simp: object_ok_def listener_obj_ok_def)
  show "\<not> pv_recv (v p)" "\<not> pv_err (v p)" "\<not> pv_connecting (v p)"
    using block_okD [OF sys_invD(1) [OF inv, of p]] arg(2) l(1) by auto
qed

lemma dial_block:
  assumes inv: "sys_inv v t H objs" and d: "objs a = Some (DialObject p addr st)"
  shows "pv_live (v p)" "pv_arg (v p) = Some a" "\<not> pv_recv (v p)" "\<not> pv_err (v p)" "\<not> pv_accept (v p)"
    "connected_pcb st = None \<or> connected_pcb st = Some p \<and> \<not> pv_connecting (v p)"
proof -
  show arg: "pv_live (v p)" "pv_arg (v p) = Some a" using sys_invD(3) [OF inv d] by (auto simp: object_ok_def)
  show "\<not> pv_recv (v p)" "\<not> pv_err (v p)" "\<not> pv_accept (v p)"
    using block_okD [OF sys_invD(1) [OF inv, of p]] arg(2) d by auto
  show "connected_pcb st = None \<or> connected_pcb st = Some p \<and> \<not> pv_connecting (v p)"
    using block_okD(3) [OF sys_invD(1) [OF inv, of p]] arg(2) d sys_invD(3) [OF inv d] by (auto simp: object_ok_def)
qed

lemma dial_goes:
  assumes inv: "sys_inv v t H objs" and d: "objs a = Some (DialObject p addr st)" and "idle b"
  shows "sys_inv (v(p := b)) t H (objs(a := None))"
proof (rule inv_retire [OF inv d])
  note blk = dial_block [OF inv d]
  show "pv_arg (v q) = Some a \<and> idle ((v(p := b)) q)" if "(v(p := b)) q \<noteq> v q" for q
    using that blk assms(3) by (auto split: if_splits)
  show "block_ok H (objs(a := None)) q (v q)" if "(v(p := b)) q = v q" "pv_arg (v q) = Some a" for q
    using block_okD [OF sys_invD(1) [OF inv, of q]] that d assms(3) by (cases "q = p") (auto simp: block_ok_def)
qed auto

text \<open>A connection is made on a block without owner, and registers itself.\<close>

definition attached :: "obj \<Rightarrow> PcbView \<Rightarrow> PcbView" where
  "attached a b = b\<lparr>pv_arg := Some a, pv_recv := True, pv_err := True\<rparr>"

lemma attach_regs:
  assumes law: "lwip_law lw regs next_addr" and "tcp_pcb c = Some p" and "tcp_attach_callbacks lw c w = r"
  shows "\<exists>w'. r = Inr w' \<and> regs (env w') = (regs (env w))(p := attached (tcp_this c) (regs (env w) p)) \<and>
    next_addr (env w') = next_addr (env w) \<and> delivered w' = delivered w"
  using assms(2,3)
  by (auto simp: tcp_attach_callbacks_def Let_def law_call_world [OF law] call_void_log(2) attached_def)

lemma conn_comes:
  assumes inv: "sys_inv v t H objs" and a: "objs a = None" "a < t'" and t: "t \<le> t'"
    and c: "tcp_this c = a" "tcp_pcb c = Some p"
    and p: "pv_live (v p)" "pv_arg (v p) = None" "idle (v p)"
    and waiting: "\<And>b l d. objs b = Some (ListenerObject l) \<Longrightarrow> d \<in> set (tcpl_pending l) \<Longrightarrow> tcp_this d \<noteq> a"
  shows "sys_inv (v(p := attached a (v p))) t' H (objs(a \<mapsto> ConnObject c))"
proof (rule inv_new [OF inv a t])
  show "object_ok (v(p := attached a (v p))) a (ConnObject c)"
    using c p by (simp add: object_ok_def attached_def)
  have "waiting_ok t' objs" using sys_invD(4) [OF sys_inv_mono [OF inv t]] by simp
  then show "waiting_ok t' (objs(a \<mapsto> ConnObject c))"
    using waiting unfolding waiting_ok_def by (auto split: if_splits)
  show "block_ok H (objs(a \<mapsto> ConnObject c)) q ((v(p := attached a (v p))) q)"
    if "(v(p := attached a (v p))) q \<noteq> v q" for q
    using that c p(3) by (auto simp: block_ok_def attached_def idle_def split: if_splits)
qed (use p in \<open>auto split: if_splits\<close>)

section \<open>The operations\<close>

lemma sys_ok_put:
  "sys_ok regs next_addr (put a x w s) =
     sys_inv (regs (env w)) (next_addr (env w)) (delivered w) ((sys_objects s)(a \<mapsto> x))"
  by (simp add: sys_ok_def)

lemma conn_this: "sys_ok regs next_addr s \<Longrightarrow> sys_objects s a = Some (ConnObject c) \<Longrightarrow> tcp_this c = a"
  using sys_invD(3) unfolding sys_ok_def by (fastforce simp: object_ok_def)

lemma read_ok:
  assumes law: "lwip_law lw regs next_addr" and ok: "sys_ok regs next_addr s"
    and c: "sys_objects s a = Some (ConnObject c)"
  shows "\<exists>r s'. sys_read lw n a s = Inr (r, s') \<and> sys_ok regs next_addr s'"
proof (cases "n = 0")
  case True
  then show ?thesis using ok by (simp add: sys_read_def)
next
  case False
  obtain s1 where s1: "sys_poll lw s = Inr s1" "sys_ok regs next_addr s1" using poll_ok [OF law ok] by blast
  obtain c1 where c1: "sys_objects s1 a = Some (ConnObject c1)" using poll_keeps_kind(1) [OF s1(1) c] by blast
  obtain r c2 where t: "tcp_take n c1 = (r, c2)" by fastforce
  have "sys_ok regs next_addr (put a (ConnObject c2) (sys_world s1) s1)"
    using conn_changes [OF s1(2) [unfolded sys_ok_def] c1, of c2] tcp_take_step(4,5) [OF t] conn_this [OF s1(2) c1]
    by (simp add: sys_ok_def)
  then show ?thesis using False s1(1) c1 t by (simp add: sys_read_def)
qed

lemma write_ok:
  assumes law: "lwip_law lw regs next_addr" and ok: "sys_ok regs next_addr s"
    and c: "sys_objects s a = Some (ConnObject c)"
  shows "\<exists>r s'. sys_write lw bs a s = Inr (r, s') \<and> sys_ok regs next_addr s'"
proof -
  obtain r c1 w where w: "tcp_write lw bs c (sys_world s) = (r, c1, w)" by (metis prod_cases3)
  have "c1 = c" "untouched regs next_addr (sys_world s) w"
    using tcp_write_untouched [OF law, where w = "sys_world s" and bs = bs and c = c] w by simp_all
  moreover from this have "sys_objects (put a (ConnObject c1) w s) = sys_objects s" using c by auto
  ultimately have "sys_ok regs next_addr (put a (ConnObject c1) w s)"
    using ok by (simp add: sys_ok_def untouched_def)
  then show ?thesis using c w by (simp add: sys_write_def)
qed

lemma close_ok:
  assumes law: "lwip_law lw regs next_addr" and ok: "sys_ok regs next_addr s"
    and c: "sys_objects s a = Some (ConnObject c)"
  shows "\<exists>e s'. sys_close lw a s = Inr (e, s') \<and> sys_ok regs next_addr s'"
proof -
  obtain e c1 w where w: "tcp_close lw c (sys_world s) = (e, c1, w)" by (metis prod_cases3)
  note inv = ok [unfolded sys_ok_def] and own = conn_this [OF ok c]
  have "sys_ok regs next_addr (put a (ConnObject c1) w s)"
  proof (cases "tcp_pcb c")
    case None
    then have "c1 = c\<lparr>tcp_is_closed := True\<rparr>" "w = sys_world s" using w tcp_closed_quiet(2) [OF None, of lw "sys_world s"] by simp_all
    then show ?thesis using conn_changes [OF inv c, of c1] own by (simp add: sys_ok_def)
  next
    case (Some p)
    note cr = tcp_close_regs [OF law w Some]
    obtain b where "released (regs (env (sys_world s)) p) b" "regs (env w) = (regs (env (sys_world s)))(p := b)"
      using cr(1) by blast
    then show ?thesis
      using conn_closes [OF inv c Some, of b "Some (ConnObject c1)"] cr(2-5) own by (simp add: sys_ok_def)
  qed
  then show ?thesis using c w by (simp add: sys_close_def)
qed

lemma destroy_ok:
  assumes law: "lwip_law lw regs next_addr" and ok: "sys_ok regs next_addr s"
    and c: "sys_objects s a = Some (ConnObject c)" and fin: "\<not> fin_seen a (delivered (sys_world s))"
  shows "\<exists>s'. sys_destroy lw a s = Inr s' \<and> sys_ok regs next_addr s'"
proof -
  obtain e c1 w where w: "tcp_close lw c (sys_world s) = (e, c1, w)" by (metis prod_cases3)
  let ?w = "tcp_destroy lw c (sys_world s)"
  note inv = ok [unfolded sys_ok_def]
  have w': "regs (env ?w) = regs (env w)" "next_addr (env ?w) = next_addr (env w)" "delivered ?w = delivered w"
    using tcp_destroy_regs [OF law w] by (simp_all add: untouched_def)
  have "sys_inv (regs (env ?w)) (next_addr (env ?w)) (delivered ?w) ((sys_objects s)(a := None))"
  proof (cases "tcp_pcb c")
    case None
    then have "w = sys_world s" using w tcp_closed_quiet(2) [OF None, of lw "sys_world s"] by simp
    then show ?thesis using conn_goes [OF inv c None fin] w' by simp
  next
    case (Some p)
    note cr = tcp_close_regs [OF law w Some]
    obtain b where "released (regs (env (sys_world s)) p) b" "regs (env w) = (regs (env (sys_world s)))(p := b)"
      using cr(1) by blast
    then show ?thesis using conn_closes [OF inv c Some, of b None] cr(2,3) fin w' by simp
  qed
  then show ?thesis using c by (simp add: sys_destroy_def sys_ok_def)
qed

lemma listen_ok:
  assumes law: "lwip_law lw regs next_addr" and ok: "sys_ok regs next_addr s"
  shows "sys_ok regs next_addr (snd (sys_listen lw net port s))"
proof -
  obtain r w where run: "listen_tcp lw net port (sys_world s) = (r, w)" by fastforce
  note inv = ok [unfolded sys_ok_def] and lr = listen_tcp_regs [OF law run]
  show ?thesis
  proof (cases r)
    case (Inl err)
    then show ?thesis using inv_fresh [OF inv] lr run by (auto simp: sys_listen_def sys_ok_def)
  next
    case (Inr l)
    let ?v = "regs (env (sys_world s))" and ?v' = "regs (env w)" and ?a = "tcpl_this l"
    obtain q where q: "tcpl_pcb l = Some q" "\<not> tcpl_is_closed l" "tcpl_pending l = []" "\<not> pv_live (?v q)"
        "?v' q = (new_block (Some ?a))\<lparr>pv_accept := True\<rparr>" "fresh_only (?v(q := ?v' q)) ?v'"
        "next_addr (env (sys_world s)) \<le> ?a" "?a < next_addr (env w)"
      and t: "next_addr (env (sys_world s)) \<le> next_addr (env w)" "delivered w = delivered (sys_world s)"
      using lr Inr by auto
    note free = addr_free [OF inv q(7)]
    have "sys_inv ?v' (next_addr (env w)) (delivered (sys_world s)) ((sys_objects s)(?a \<mapsto> ListenerObject l))"
    proof (rule inv_new [OF inv free q(8) t(1)])
      fix p assume p: "?v' p \<noteq> ?v p"
      show "\<not> pv_live (?v p) \<or> pv_arg (?v p) = None"
        using p q(4) q(6) [unfolded fresh_only_def, rule_format, of p] by (cases "p = q") simp_all
      show "block_ok (delivered (sys_world s)) ((sys_objects s)(?a \<mapsto> ListenerObject l)) p (?v' p)"
      proof (cases "p = q")
        case True
        then show ?thesis using q(1,5) by (simp add: block_ok_def new_block_def)
      next
        case False
        then have "idle (?v' p)" using p q(6) [unfolded fresh_only_def, rule_format, of p] by simp
        then show ?thesis by simp
      qed
    next
      show "object_ok ?v' ?a (ListenerObject l)"
        using q by (simp add: object_ok_def listener_obj_ok_def new_block_def)
      show "waiting_ok (next_addr (env w)) ((sys_objects s)(?a \<mapsto> ListenerObject l))"
        by (rule waiting_ok_same [OF sys_invD(4) [OF inv] t(1) refl]) (use q in auto)
    qed
    then show ?thesis using run Inr t(2) by (simp add: sys_listen_def sys_ok_def)
  qed
qed

text \<open>An accepted connection leaves its listener.\<close>

lemma listener_drops:
  assumes inv: "sys_inv v t H objs" and l: "objs a = Some (ListenerObject l)" and pend: "tcpl_pending l = c # cs"
    and q: "tcp_pcb c = Some q"
  shows "sys_inv (v(q := (v q)\<lparr>pv_arg := None\<rparr>)) t H (objs(a \<mapsto> ListenerObject (l\<lparr>tcpl_pending := cs\<rparr>)))"
    "pv_live (v q)" "pv_arg (v q) = Some a" "idle (v q)"
proof -
  let ?v = "v(q := (v q)\<lparr>pv_arg := None\<rparr>)" and ?l = "l\<lparr>tcpl_pending := cs\<rparr>"
  have l_ok: "listener_obj_ok v a l" using sys_invD(3) [OF inv l] by (simp add: object_ok_def)
  show blk: "pv_live (v q)" "pv_arg (v q) = Some a" "idle (v q)"
    using l_ok pend q by (auto simp: listener_obj_ok_def)
  then have idle: "idle (?v q)" by (simp add: idle_def)
  have own: "tcpl_pcb l \<noteq> Some q" using l_ok idleD [OF blk(3)] by (auto simp: listener_obj_ok_def)
  have others: "tcp_pcb d \<noteq> Some q" if "d \<in> set cs" for d
    using l_ok pend q that by (force simp: listener_obj_ok_def)
  show "sys_inv ?v t H (objs(a \<mapsto> ListenerObject ?l))"
  proof (rule sys_inv_update [OF inv])
    show "block_ok H (objs(a \<mapsto> ListenerObject ?l)) p (?v p)" for p
      using block_ok_listener [OF sys_invD(1) [OF inv, of p] l, of ?l] idle by (cases "p = q") auto
    show "pv_arg (v p) = Some a \<or> \<not> pv_live (v p) \<or> pv_arg (v p) = None" if "?v p \<noteq> v p" for p
      using that blk by (auto split: if_splits)
    have "\<exists>r. tcp_pcb d = Some r \<and> pv_live (?v r) \<and> pv_arg (?v r) = Some a \<and> idle (?v r)" if "d \<in> set cs" for d
    proof -
      obtain r where "tcp_pcb d = Some r" "pv_live (v r)" "pv_arg (v r) = Some a" "idle (v r)"
        using l_ok pend \<open>d \<in> set cs\<close> by (auto simp: listener_obj_ok_def)
      then show ?thesis using others [OF that] by auto
    qed
    moreover have "\<not> tcpl_is_closed l \<and> pv_live (?v p) \<and> pv_arg (?v p) = Some a \<and> pv_accept (?v p)"
      if "tcpl_pcb l = Some p" for p using l_ok own that by (auto simp: listener_obj_ok_def)
    ultimately have "listener_obj_ok ?v a ?l" using l_ok pend by (simp add: listener_obj_ok_def)
    then show "a < t \<and> object_ok ?v a x" if "Some (ListenerObject ?l) = Some x" for x
      using that sys_invD(2) [OF inv l] by (auto simp: object_ok_def)
    have sub: "\<exists>k. objs b = Some (ListenerObject k) \<and> set (tcpl_pending m) \<subseteq> set (tcpl_pending k) \<and>
        (distinct (map tcp_this (tcpl_pending k)) \<longrightarrow> distinct (map tcp_this (tcpl_pending m)))"
      if "(objs(a \<mapsto> ListenerObject ?l)) b = Some (ListenerObject m)" for b m
      using that l pend by (cases "b = a") auto
    show "waiting_ok t (objs(a \<mapsto> ListenerObject ?l))"
      unfolding waiting_ok_def
    proof (intro allI impI conjI ballI)
      fix b m assume m: "(objs(a \<mapsto> ListenerObject ?l)) b = Some (ListenerObject m)"
      obtain k where k: "objs b = Some (ListenerObject k)" "set (tcpl_pending m) \<subseteq> set (tcpl_pending k)"
          "distinct (map tcp_this (tcpl_pending k)) \<longrightarrow> distinct (map tcp_this (tcpl_pending m))"
        using sub [OF m] by blast
      note w = waiting_okD [OF sys_invD(4) [OF inv] k(1)]
      show "distinct (map tcp_this (tcpl_pending m))" using k(3) w(1) by simp
      fix d assume "d \<in> set (tcpl_pending m)"
      then have d: "d \<in> set (tcpl_pending k)" using k(2) by blast
      show "tcp_this d < t" by (rule w(2) [OF d])
      have "tcp_this d \<noteq> a" using w(3) [OF d] l by auto
      then show "(objs(a \<mapsto> ListenerObject ?l)) (tcp_this d) = None" using w(3) [OF d] by simp
      fix b2 m2 d2
      assume m2: "(objs(a \<mapsto> ListenerObject ?l)) b2 = Some (ListenerObject m2)" "d2 \<in> set (tcpl_pending m2)"
        "tcp_this d2 = tcp_this d"
      obtain k2 where "objs b2 = Some (ListenerObject k2)" "d2 \<in> set (tcpl_pending k2)"
        using sub [OF m2(1)] m2(2) by blast
      then show "b2 = b" using w(4) [OF d _ _ m2(3)] by blast
    qed
  qed auto
qed

lemma attached_arg [simp]: "attached a (b\<lparr>pv_arg := x\<rparr>) = attached a b"
  by (simp add: attached_def)

lemma accept_ok:
  assumes law: "lwip_law lw regs next_addr" and ok: "sys_ok regs next_addr s"
    and l: "sys_objects s a = Some (ListenerObject l)"
  shows "\<exists>r s'. sys_accept lw a s = Inr (r, s') \<and> sys_ok regs next_addr s'"
proof (cases "tcpl_is_closed l \<or> tcpl_has_error l")
  case True
  then show ?thesis using l ok by (auto simp: sys_accept_def)
next
  case False
  obtain s1 where s1: "sys_poll lw s = Inr s1" "sys_ok regs next_addr s1" using poll_ok [OF law ok] by blast
  obtain l1 where l1: "sys_objects s1 a = Some (ListenerObject l1)" using poll_keeps_kind(2) [OF s1(1) l] by blast
  note inv = s1(2) [unfolded sys_ok_def] and w = waiting_okD [OF sys_invD(4) [OF s1(2) [unfolded sys_ok_def]] l1]
  let ?v = "regs (env (sys_world s1))"
  show ?thesis
  proof (cases "tcpl_pending l1")
    case Nil
    have "sys_objects (put a (ListenerObject l1) (sys_world s1) s1) = sys_objects s1" using l1 by auto
    then have "sys_ok regs next_addr (put a (ListenerObject l1) (sys_world s1) s1)"
      using s1(2) by (simp add: sys_ok_def)
    then show ?thesis using l False s1(1) l1 Nil by (simp add: sys_accept_def tcpl_take_def)
  next
    case (Cons c cs)
    have c: "c \<in> set (tcpl_pending l1)" using Cons by simp
    obtain q where q: "tcp_pcb c = Some q"
      using sys_invD(3) [OF inv l1] c by (auto simp: object_ok_def listener_obj_ok_def)
    note drop = listener_drops [OF inv l1 Cons q]
    let ?l = "l1\<lparr>tcpl_pending := cs\<rparr>"
    let ?objs = "(sys_objects s1)(a \<mapsto> ListenerObject ?l)"
    obtain w' where w': "tcp_attach_callbacks lw c (sys_world s1) = Inr w'"
        "regs (env w') = ?v(q := attached (tcp_this c) (?v q))"
        "next_addr (env w') = next_addr (env (sys_world s1))" "delivered w' = delivered (sys_world s1)"
      using attach_regs [OF law q refl, of "sys_world s1"] by blast
    have addr: "?objs (tcp_this c) = None" using w(3) [OF c] l1 by auto
    have new: "tcp_this d \<noteq> tcp_this c"
      if m: "?objs b = Some (ListenerObject m)" "d \<in> set (tcpl_pending m)" for b m d
    proof (cases "b = a")
      case True
      then have "d \<in> set cs" using m by auto
      then show ?thesis using w(1) Cons by (metis distinct.simps(2) image_eqI image_set list.simps(9))
    next
      case False
      then have "sys_objects s1 b = Some (ListenerObject m)" using m(1) by simp
      then show ?thesis using w(4) [OF c _ m(2)] False by blast
    qed
    have idle: "idle (?v q)" by (rule drop(4))
    have "sys_inv ((?v(q := (?v q)\<lparr>pv_arg := None\<rparr>))(q := attached (tcp_this c) ((?v(q := (?v q)\<lparr>pv_arg := None\<rparr>)) q)))
        (next_addr (env (sys_world s1))) (delivered (sys_world s1)) (?objs(tcp_this c \<mapsto> ConnObject c))"
      by (rule conn_comes [OF drop(1) addr w(2) [OF c] order_refl refl q])
        (use drop(2) idle new in \<open>auto simp: idle_def\<close>)
    then have "sys_ok regs next_addr (put (tcp_this c) (ConnObject c) w' (put a (ListenerObject ?l) w' s1))"
      using w' by (simp add: sys_ok_def)
    moreover have "sys_objects (put (tcp_this c) (ConnObject c) w' (put a (ListenerObject ?l) w' s1)) =
        sys_objects (put (tcp_this c) (ConnObject c) w' (put a (ListenerObject ?l) (sys_world s1) s1))" by simp
    ultimately show ?thesis using l False s1(1) l1 Cons w'(1) by (simp add: sys_accept_def tcpl_take_def)
  qed
qed

text \<open>Closing a listener releases its own block and those of the connections that wait.\<close>

lemma fold_destroy_closed:
  assumes law: "lwip_law lw regs next_addr"
  shows "\<forall>c \<in> set cs. tcp_pcb c = None \<Longrightarrow> fold (tcp_destroy lw) cs w = w"
  by (induction cs) (simp_all add: tcp_closed_quiet)

lemma tcpl_close_regs:
  assumes law: "lwip_law lw regs next_addr" and run: "tcpl_close lw l w = (e, l', w')"
    and p: "tcpl_pcb l = Some p" and pend: "\<forall>c \<in> set (tcpl_pending l). tcp_pcb c \<noteq> None"
  shows "next_addr (env w') = next_addr (env w)" "delivered w' = delivered w"
    "tcpl_this l' = tcpl_this l" "tcpl_pcb l' = None" "tcpl_pending l' = []"
    "\<And>q. regs (env w') q \<noteq> regs (env w) q \<Longrightarrow> q = p \<or> Some q \<in> tcp_pcb ` set (tcpl_pending l)"
    "\<And>q. q \<noteq> p \<Longrightarrow> idle (regs (env w) q) \<Longrightarrow> idle (regs (env w') q)"
    "\<not> pv_accept (regs (env w') p)"
    "\<lbrakk>\<not> pv_recv (regs (env w) p); \<not> pv_err (regs (env w) p); \<not> pv_connecting (regs (env w) p);
      Some p \<notin> tcp_pcb ` set (tcpl_pending l)\<rbrakk> \<Longrightarrow> idle (regs (env w') p)"
proof -
  obtain cs w1 where cw: "close_waiting lw (tcpl_pending l) w = (cs, w1)" by fastforce
  note c = close_waiting_regs [OF law cw pend]
  let ?w3 = "call_void lw (TcpAccept p False) (call_void lw (TcpArg p None) w1)"
  let ?r = "call lw (TcpClose p) ?w3"
  have "fold (tcp_destroy lw) cs w1 = w1" using fold_destroy_closed [OF law] c by blast
  then have w': "w' = (if fst ?r \<noteq> ERR_OK then call_void lw (TcpAbort (Some p)) (snd ?r) else snd ?r)"
    and l': "l' = l\<lparr>tcpl_pending := [], tcpl_pcb := None, tcpl_is_closed := True\<rparr>"
    using run p cw by (auto simp: tcpl_close_def Let_def case_prod_beta split: if_splits)
  show "next_addr (env w') = next_addr (env w)" "delivered w' = delivered w"
    using c by (simp_all add: w' law_call_world [OF law] call_log(2) call_void_log(2))
  show "tcpl_this l' = tcpl_this l" "tcpl_pcb l' = None" "tcpl_pending l' = []" by (simp_all add: l')
  have other: "regs (env w') q = regs (env w1) q" if "q \<noteq> p" for q
    using that by (simp add: w' law_call_world [OF law])
  show "q = p \<or> Some q \<in> tcp_pcb ` set (tcpl_pending l)" if "regs (env w') q \<noteq> regs (env w) q" for q
    using that other [of q] c by metis
  show "idle (regs (env w') q)" if "q \<noteq> p" "idle (regs (env w) q)" for q
    using that other [of q] c by simp
  show acc: "\<not> pv_accept (regs (env w') p)"
    by (auto simp: w' law_call_world [OF law] free_block_def)
  show "idle (regs (env w') p)"
    if "\<not> pv_recv (regs (env w) p)" "\<not> pv_err (regs (env w) p)" "\<not> pv_connecting (regs (env w) p)"
      "Some p \<notin> tcp_pcb ` set (tcpl_pending l)"
  proof -
    have "regs (env w1) p = regs (env w) p" using c that(4) by metis
    then show ?thesis
      using that by (auto simp: w' law_call_world [OF law] idle_def free_block_def)
  qed
qed

lemma listener_closes:
  assumes law: "lwip_law lw regs next_addr" and ok: "sys_ok regs next_addr s"
    and l: "sys_objects s a = Some (ListenerObject l)" and run: "tcpl_close lw l (sys_world s) = (e, l', w')"
    and y: "y = None \<or> y = Some (ListenerObject l')"
  shows "sys_inv (regs (env w')) (next_addr (env w')) (delivered w') ((sys_objects s)(a := y))"
proof -
  note inv = ok [unfolded sys_ok_def]
  let ?v = "regs (env (sys_world s))"
  have l_ok: "listener_obj_ok ?v a l" using sys_invD(3) [OF inv l] by (simp add: object_ok_def)
  have waiting: "\<exists>q. tcp_pcb c = Some q \<and> pv_arg (?v q) = Some a \<and> idle (?v q)" if "c \<in> set (tcpl_pending l)" for c
    using l_ok that unfolding listener_obj_ok_def by blast
  show ?thesis
  proof (cases "tcpl_pcb l")
    case None
    then have run': "l' = l\<lparr>tcpl_is_closed := True\<rparr>" "w' = sys_world s" using run by (auto simp: tcpl_close_def)
    have blocks: "idle (?v q)" if "pv_arg (?v q) = Some a" for q
      using block_okD [OF sys_invD(1) [OF inv, of q]] that l None by (auto simp: idle_def)
    have "object_ok ?v a (ListenerObject l')" using l_ok None run'(1) by (simp add: object_ok_def listener_obj_ok_def)
    then show ?thesis
      unfolding run'(2) using y blocks sys_invD(2) [OF inv l] run'(1)
      by (intro sys_inv_update [OF inv] waiting_ok_same [OF sys_invD(4) [OF inv] order_refl refl])
        (auto simp: l)
  next
    case (Some p)
    have pend: "\<forall>c \<in> set (tcpl_pending l). tcp_pcb c \<noteq> None" using waiting by auto
    note cr = tcpl_close_regs [OF law run Some pend] and blk = listener_block [OF inv l Some]
    have acc: "pv_accept (?v p)" using l_ok Some by (simp add: listener_obj_ok_def)
    have own: "Some p \<notin> tcp_pcb ` set (tcpl_pending l)" using waiting acc by (force dest: idleD)
    have idle_p: "idle (regs (env w') p)" by (rule cr(9) [OF blk(3-5) own])
    have changed: "pv_arg (?v q) = Some a \<and> idle (regs (env w') q)" if "regs (env w') q \<noteq> ?v q" for q
    proof (cases "q = p")
      case False
      then obtain c where "c \<in> set (tcpl_pending l)" "tcp_pcb c = Some q" using cr(6) [of q] \<open>regs (env w') q \<noteq> ?v q\<close> by auto
      then show ?thesis using waiting [of c] cr(7) [OF False] by auto
    qed (use idle_p blk(2) in simp)
    have "sys_inv (regs (env w')) (next_addr (env (sys_world s))) (delivered (sys_world s)) ((sys_objects s)(a := y))"
    proof (rule inv_retire [OF inv l changed])
      show "block_ok (delivered (sys_world s)) ((sys_objects s)(a := y)) q (?v q)"
        if "regs (env w') q = ?v q" "pv_arg (?v q) = Some a" for q
      proof (cases "q = p")
        case False
        then have "idle (?v q)"
          using block_okD [OF sys_invD(1) [OF inv, of q]] that l Some by (auto simp: idle_def)
        then show ?thesis by simp
      qed (use that idle_p in simp)
      show "object_ok (regs (env w')) a z" if "y = Some z" for z
        using that y cr(3-5) l_ok by (auto simp: object_ok_def listener_obj_ok_def)
    qed (use y cr(5) in auto)
    then show ?thesis using cr(1,2) by simp
  qed
qed

lemma close_listener_ok:
  assumes law: "lwip_law lw regs next_addr" and ok: "sys_ok regs next_addr s"
    and l: "sys_objects s a = Some (ListenerObject l)"
  shows "\<exists>e s'. sys_close_listener lw a s = Inr (e, s') \<and> sys_ok regs next_addr s'"
proof -
  obtain e l1 w where w: "tcpl_close lw l (sys_world s) = (e, l1, w)" by (metis prod_cases3)
  have "sys_ok regs next_addr (put a (ListenerObject l1) w s)"
    using listener_closes [OF law ok l w, of "Some (ListenerObject l1)"] by (simp add: sys_ok_def)
  then show ?thesis using l w by (simp add: sys_close_listener_def)
qed

lemma destroy_listener_ok:
  assumes law: "lwip_law lw regs next_addr" and ok: "sys_ok regs next_addr s"
    and l: "sys_objects s a = Some (ListenerObject l)"
  shows "\<exists>s'. sys_destroy_listener lw a s = Inr s' \<and> sys_ok regs next_addr s'"
proof -
  obtain e l1 w where w: "tcpl_close lw l (sys_world s) = (e, l1, w)" by (metis prod_cases3)
  have "tcpl_pcb l1 = None" using w by (auto simp: tcpl_close_def Let_def case_prod_beta split: option.splits if_splits)
  then have "untouched regs next_addr w (tcpl_destroy lw l (sys_world s))"
    by (simp add: tcpl_destroy_def w untouched_def law_call_world [OF law] call_void_log(2))
  then show ?thesis
    using listener_closes [OF law ok l w, of None] l by (simp add: sys_destroy_listener_def sys_ok_def untouched_def)
qed

text \<open>Dials.\<close>

lemma dial_start_ok:
  assumes law: "lwip_law lw regs next_addr" and ok: "sys_ok regs next_addr s"
  shows "sys_ok regs next_addr (snd (sys_dial_start lw net address s))"
proof -
  obtain r w where run: "dial_start lw net address (sys_world s) = (r, w)" by fastforce
  note inv = ok [unfolded sys_ok_def] and dr = dial_start_regs [OF law run]
  show ?thesis
  proof (cases r)
    case (Inl err)
    then show ?thesis using inv_fresh [OF inv] dr run by (auto simp: sys_dial_start_def sys_ok_def)
  next
    case (Inr pat)
    obtain p at where pat: "pat = (p, at)" by fastforce
    let ?v = "regs (env (sys_world s))" and ?x = "DialObject p address new_TcpDialState"
    have d: "\<not> pv_live (?v p)" "regs (env w) = ?v(p := (new_block (Some at))\<lparr>pv_connecting := True\<rparr>)"
        "next_addr (env (sys_world s)) \<le> at" "at < next_addr (env w)"
      using dr(3) Inr pat by auto
    note free = addr_free [OF inv d(3)]
    have "sys_inv (regs (env w)) (next_addr (env w)) (delivered (sys_world s)) ((sys_objects s)(at \<mapsto> ?x))"
    proof (rule inv_new [OF inv free d(4) dr(1)])
      show "\<not> pv_live (?v q) \<or> pv_arg (?v q) = None" if "regs (env w) q \<noteq> ?v q" for q
        using that d(1,2) by (auto split: if_splits)
      show "block_ok (delivered (sys_world s)) ((sys_objects s)(at \<mapsto> ?x)) q (regs (env w) q)"
        if "regs (env w) q \<noteq> ?v q" for q
        using that d(2) by (auto simp: block_ok_def new_block_def new_TcpDialState_def split: if_splits)
      show "object_ok (regs (env w)) at ?x"
        using d(2) by (simp add: object_ok_def new_block_def new_TcpDialState_def)
      show "waiting_ok (next_addr (env w)) ((sys_objects s)(at \<mapsto> ?x))"
        by (rule waiting_ok_same [OF sys_invD(4) [OF inv] dr(1) refl]) (use d in auto)
    qed
    then show ?thesis using run Inr pat dr(2) by (simp add: sys_dial_start_def sys_ok_def)
  qed
qed

lemma dial_gives_up:
  assumes law: "lwip_law lw regs next_addr" and ok: "sys_ok regs next_addr s"
    and d: "sys_objects s a = Some (DialObject p addr st)" and run: "dial_cleanup lw p msg (sys_world s) = (r, w)"
  shows "sys_ok regs next_addr (s\<lparr>sys_world := w, sys_objects := (sys_objects s)(a := None)\<rparr>)"
proof -
  note inv = ok [unfolded sys_ok_def] and dc = dial_cleanup_regs [OF law run]
  obtain b where b: "regs (env w) = (regs (env (sys_world s)))(p := b)" "idle b"
    using dc(4) dial_block(3-5) [OF inv d] by (auto simp: idle_def)
  from dial_goes [OF inv d b(2)] show ?thesis using b(1) dc(2,3) by (simp add: sys_ok_def)
qed

lemma dial_timeout_ok:
  assumes law: "lwip_law lw regs next_addr" and ok: "sys_ok regs next_addr s"
    and d: "sys_objects s a = Some (DialObject p addr st)"
  shows "\<exists>r s'. sys_dial_timeout lw a s = Inr (r, s') \<and> sys_ok regs next_addr s'"
proof -
  obtain r :: "obj result" and w where "dial_cleanup lw p ''tcp connect timeout'' (sys_world s) = (r, w)" by fastforce
  then show ?thesis using d dial_gives_up [OF law ok d] by (simp add: sys_dial_timeout_def)
qed

lemma dial_finish_ok:
  assumes law: "lwip_law lw regs next_addr" and ok: "sys_ok regs next_addr s"
    and d: "sys_objects s a = Some (DialObject p addr st)"
  shows "\<exists>r s'. sys_dial_finish lw a s = Inr (r, s') \<and> sys_ok regs next_addr s'"
proof -
  note inv = ok [unfolded sys_ok_def] and blk = dial_block [OF ok [unfolded sys_ok_def] d]
  obtain r w where run: "dial_finish lw p addr st (sys_world s) = (r, w)" by fastforce
  show ?thesis
  proof (cases "connected_pcb st \<noteq> None \<and> dial_success st")
    case False
    then have clean: "dial_cleanup lw p ''tcp connect failed'' (sys_world s) = (r, w)"
      using run by (auto simp: dial_finish_def split: option.splits)
    have "\<exists>err. r = Inl err" using dial_cleanup_regs(1) [OF law clean] by blast
    then show ?thesis using d run dial_gives_up [OF law ok d clean] by (auto simp: sys_dial_finish_def)
  next
    case True
    then have q: "connected_pcb st = Some p" "dial_success st" "\<not> pv_connecting (regs (env (sys_world s)) p)"
      using blk(6) by auto
    obtain this e where new: "new_object lw (env (sys_world s)) = (this, e)" by fastforce
    note o = law_new_object [OF law new]
    define c where "c = new_TcpConnection this p \<lparr>address_network = ''tcp'', address_ip = local_ip lw (sys_world s),
      address_port = lwip_local_port lw p (env (sys_world s))\<rparr> addr"
    have c: "tcp_this c = this" "tcp_pcb c = Some p" by (simp_all add: c_def)
    obtain w1 where w1: "tcp_attach_callbacks lw c ((sys_world s)\<lparr>env := e\<rparr>) = Inr w1"
        "regs (env w1) = (regs (env (sys_world s)))(p := attached this (regs (env (sys_world s)) p))"
        "next_addr (env w1) = next_addr e" "delivered w1 = delivered (sys_world s)"
      using attach_regs [OF law c(2) refl, of "(sys_world s)\<lparr>env := e\<rparr>"] c(1) o(3) by auto
    have r: "r = Inr c" "w = w1"
      using run q(1,2) w1(1) new by (simp_all add: dial_finish_def on_env_def Let_def c_def)
    let ?v = "regs (env (sys_world s))" and ?objs = "(sys_objects s)(a := None)"
    let ?b = "(?v p)\<lparr>pv_arg := None\<rparr>"
    have idle: "idle ?b" using blk q(3) by (simp add: idle_def)
    have addr: "?objs this = None" using addr_free [OF inv o(1)] by simp
    have new_addr: "tcp_this x \<noteq> this"
      if "?objs b = Some (ListenerObject l)" "x \<in> set (tcpl_pending l)" for b l x
      using that waiting_okD(2) [OF sys_invD(4) [OF inv], of b l x] o(1) by (auto split: if_splits)
    have t: "next_addr (env (sys_world s)) \<le> next_addr e" using o by simp
    have "sys_inv ((?v(p := ?b))(p := attached this ((?v(p := ?b)) p))) (next_addr e) (delivered (sys_world s))
        (?objs(this \<mapsto> ConnObject c))"
      by (rule conn_comes [OF dial_goes [OF inv d idle] addr o(2) t c])
        (use blk idle new_addr in auto)
    then have "sys_ok regs next_addr (put this (ConnObject c) w
        (s\<lparr>sys_world := w, sys_objects := (sys_objects s)(a := None)\<rparr>))"
      using r w1 by (simp add: sys_ok_def)
    then show ?thesis using d run r c(1) by (simp add: sys_dial_finish_def)
  qed
qed

section \<open>Runs\<close>

lemma exec_ok:
  assumes law: "lwip_law lw regs next_addr" and ok: "sys_ok regs next_addr s" and use: "usable op s"
  shows "\<exists>out s'. sys_exec lw net op s = Inr (out, s') \<and> sys_ok regs next_addr s'"
proof (cases op)
  case OpPoll
  then show ?thesis using poll_ok [OF law ok] by auto
next
  case (OpRead a n)
  then show ?thesis using use read_ok [OF law ok] by (fastforce simp: returning_def)
next
  case (OpWrite a bs)
  then show ?thesis using use write_ok [OF law ok] by (fastforce simp: returning_def)
next
  case (OpClose a)
  then show ?thesis using use close_ok [OF law ok] by (fastforce simp: returning_def)
next
  case (OpDestroy a)
  then show ?thesis using use destroy_ok [OF law ok] by fastforce
next
  case (OpListen port)
  then show ?thesis using listen_ok [OF law ok, of net port]
    by (cases "sys_listen lw net port s") (simp add: returning_def)
next
  case (OpAccept a)
  then show ?thesis using use accept_ok [OF law ok] by (fastforce simp: returning_def)
next
  case (OpCloseListener a)
  then show ?thesis using use close_listener_ok [OF law ok] by (fastforce simp: returning_def)
next
  case (OpDestroyListener a)
  then show ?thesis using use destroy_listener_ok [OF law ok] by fastforce
next
  case (OpDial address)
  then show ?thesis using dial_start_ok [OF law ok, of net address]
    by (cases "sys_dial_start lw net address s") (simp add: returning_def)
next
  case (OpDialFinish a)
  then show ?thesis using use dial_finish_ok [OF law ok] by (fastforce simp: returning_def)
next
  case (OpDialTimeout a)
  then show ?thesis using use dial_timeout_ok [OF law ok] by (fastforce simp: returning_def)
qed

lemma start_ok: "sys_start regs s \<Longrightarrow> sys_ok regs next_addr s"
  by (simp add: sys_start_def sys_ok_def sys_inv_def waiting_ok_def)

lemma steps_ok:
  assumes "sys_steps lw net s tr s'" and "lwip_law lw regs next_addr" and "sys_ok regs next_addr s"
  shows "sys_ok regs next_addr s'"
  using assms(1,3)
proof (induction rule: sys_steps.induct)
  case (steps_snoc tr s1 op out s2)
  then show ?case using exec_ok [OF assms(2) _ steps_snoc.hyps(2), of net] by auto
qed simp

lemma reach_sys_ok: "lwip_law lw regs next_addr \<Longrightarrow> sys_reach lw net regs s \<Longrightarrow> sys_ok regs next_addr s"
  using steps_ok start_ok by (fastforce simp: sys_reach_def)

end
