(* ===== verification/Hosted_Client.thy ===== *)
theory Hosted_Client
  imports Mqtt_Client_Laws
begin

text \<open>
  \<^verbatim>\<open>MqttClient\<close> over a connection that lives in a world with others: the contract of \<open>Connection\<close> holds
  as long as the world is in order, and what is in order stays so. The lemmas about a client on a
  connection of its own are carried over to such a client by guarding the connection.
\<close>

section \<open>The contract in a world with others\<close>

text \<open>
  \<open>alive c w\<close>: the connection is there and the world in order. \<open>settled\<close>: the world is in order, for
  a client without a connection. \<open>gone\<close>: what is left when a connection has been destroyed.
\<close>

locale hosted_connection =
  fixes ops :: "('c, 'w) Connection" and pf :: "'w Platform"
    and sent :: "'c \<Rightarrow> 'w \<Rightarrow> u8 list"
    and alive :: "'c \<Rightarrow> 'w \<Rightarrow> bool" and settled :: "'w \<Rightarrow> bool" and gone :: "'w \<Rightarrow> bool"
  assumes write_alive: "alive c w \<Longrightarrow> conn_write ops bs c w = (r, c', w') \<Longrightarrow>
      fault_free r \<and> alive c' w' \<and> (\<forall>n. r = Inr n \<longrightarrow> n \<le> length bs \<and> sent c' w' = sent c w @ take n bs)"
    and read_alive: "alive c w \<Longrightarrow> conn_read_nonblocking ops n c w = (rd, c', w') \<Longrightarrow>
      fault_free rd \<and> alive c' w' \<and> (\<forall>bs. rd = Inr bs \<longrightarrow> length bs \<le> n)"
    and close_gone: "alive c w \<Longrightarrow> conn_close ops c w = (e, c', w') \<Longrightarrow> gone (conn_destroy ops c' w')"
    and settled_gone: "settled w \<Longrightarrow> gone w"
    and clock_alive: "alive c w \<Longrightarrow> alive c (snd (get_absolute_time pf w))"
    and timeout_alive: "alive c w \<Longrightarrow> alive c (snd (make_timeout_time_ms pf ms w))"
    and sleep_alive: "alive c w \<Longrightarrow> alive c (sleep_ms pf ms w)"
    and clock_sent: "sent c (snd (get_absolute_time pf w)) = sent c w"

text \<open>A connection that refuses to read and write when it is not alive meets the contract always.\<close>

definition guard :: "('c \<Rightarrow> 'w \<Rightarrow> bool) \<Rightarrow> ('c, 'w) Connection \<Rightarrow> ('c, 'w) Connection" where
  "guard alive ops = ops\<lparr>
     conn_write := (\<lambda>bs c w. if alive c w then conn_write ops bs c w else (Inl (Error []), c, w)),
     conn_read_nonblocking := (\<lambda>n c w. if alive c w then conn_read_nonblocking ops n c w else (Inl (Error []), c, w))\<rparr>"

lemma guard_sel [simp]:
  "alive c w \<Longrightarrow> conn_write (guard alive ops) bs c w = conn_write ops bs c w"
  "alive c w \<Longrightarrow> conn_read_nonblocking (guard alive ops) n c w = conn_read_nonblocking ops n c w"
  "conn_close (guard alive ops) = conn_close ops" "conn_destroy (guard alive ops) = conn_destroy ops"
  by (simp_all add: guard_def)

sublocale hosted_connection \<subseteq> guarded: timed_mqtt_transport "guard alive ops" sent pf
  by unfold_locales (auto simp: guard_def clock_sent dest: write_alive read_alive split: if_splits;
      (metis write_alive read_alive prod_cases3 fst_conv))+

section \<open>Operations\<close>

text \<open>The public functions, each with its arguments; \<open>None\<close> when the call does not return.\<close>

datatype ClientOp =
    ClConnect Address MqttConnectMessage u32
  | ClPublish string "u8 list" bool | ClPublishString string string bool | ClSubscribe string u8
  | ClPoll | ClNext | ClDisconnect

fun client_exec ::
  "'w Platform \<Rightarrow> ('c, 'w) Connection \<Rightarrow> (Address \<Rightarrow> u32 \<Rightarrow> 'w \<Rightarrow> ('c result \<times> 'w) option) \<Rightarrow>
     ClientOp \<Rightarrow> 'c MqttClient \<Rightarrow> 'w \<Rightarrow> (Error option \<times> 'c MqttClient \<times> 'w) option" where
  "client_exec pf ops dial (ClConnect broker m t) cl w = connect pf ops dial broker m t cl w"
| "client_exec pf ops dial (ClPublish topic payload retain) cl w = Some (publish pf ops topic payload retain cl w)"
| "client_exec pf ops dial (ClPublishString topic s retain) cl w = Some (publish_string pf ops topic s retain cl w)"
| "client_exec pf ops dial (ClSubscribe topic qos) cl w = Some (subscribe pf ops topic qos cl w)"
| "client_exec pf ops dial ClPoll cl w = Some (poll pf ops cl w)"
| "client_exec pf ops dial ClNext cl w =
     (let (r, cl) = next_message cl in Some (case r of Inl err \<Rightarrow> Some err | Inr msg \<Rightarrow> None, cl, w))"
| "client_exec pf ops dial ClDisconnect cl w = Some (disconnect pf ops cl w)"

section \<open>The functions that only close\<close>

lemma guard_cleanup [simp]: "cleanup_connection (guard alive ops) = cleanup_connection ops"
  by (intro ext) (simp add: cleanup_connection_def split: option.split)

lemma guard_fail [simp]: "fail_with (guard alive ops) = fail_with ops" "fail_connect (guard alive ops) = fail_connect ops"
  by (intro ext, simp add: fail_with_def fail_connect_def)+

lemma guard_process [simp]: "process_rx_buffer (guard alive ops) cl w = process_rx_buffer ops cl w"
proof (induction "length (rx_buffer cl)" arbitrary: cl rule: less_induct)
  case less
  show ?case
    by (subst (1 2) process_rx_buffer.simps)
      (use less frame_info_size [of "rx_buffer cl"] in
        \<open>auto simp: Let_def handle_packet_keeps split: option.split sum.split\<close>)
qed

lemma guard_received [simp]: "connect_received pf (guard alive ops) = connect_received pf ops"
  by (intro ext) (simp add: connect_received_def Let_def case_prod_beta split: option.split sum.split)

section \<open>The client stays where it is held\<close>

definition held :: "('c \<Rightarrow> 'w \<Rightarrow> bool) \<Rightarrow> ('w \<Rightarrow> bool) \<Rightarrow> 'c MqttClient \<Rightarrow> 'w \<Rightarrow> bool" where
  "held alive gone cl w = (case conn cl of None \<Rightarrow> gone w | Some c \<Rightarrow> alive c w)"

lemma held_simps [simp]:
  "conn cl = Some c \<Longrightarrow> held alive gone cl w = alive c w" "conn cl = None \<Longrightarrow> held alive gone cl w = gone w"
  by (simp_all add: held_def)


context hosted_connection
begin

abbreviation hosts :: "'c MqttClient \<Rightarrow> 'w \<Rightarrow> bool" where
  "hosts \<equiv> held alive gone"

text \<open>What a guarded function does: what the function does, and it leaves the client held.\<close>

abbreviation same_run :: "'a \<times> 'c MqttClient \<times> 'w \<Rightarrow> 'a \<times> 'c MqttClient \<times> 'w \<Rightarrow> bool" where
  "same_run r r' \<equiv> r' = r \<and> hosts (fst (snd r)) (snd (snd r))"

lemma closed_gone: "alive c w \<Longrightarrow> gone (conn_destroy ops (fst (snd (conn_close ops c w))) (snd (snd (conn_close ops c w))))"
  using close_gone by (metis prod.collapse)

lemma fail_hosts:
  assumes "hosts cl w"
  shows "hosts (fst (snd (fail_with ops err cl w))) (snd (snd (fail_with ops err cl w)))"
    "hosts (fst (snd (fail_connect ops err cl w))) (snd (snd (fail_connect ops err cl w)))"
    "hosts (fst (cleanup_connection ops cl w)) (snd (cleanup_connection ops cl w))"
  using assms
  by (auto simp: fail_with_def fail_connect_def cleanup_connection_def held_def case_prod_beta Let_def
      closed_gone split: option.splits)

lemma send_loop_hosts:
  "hosts cl w \<Longrightarrow> same_run (send_loop ops bytes n cl w) (send_loop (guard alive ops) bytes n cl w)"
proof (induction "length bytes - n" arbitrary: n cl w rule: less_induct)
  case less
  show ?case
  proof (cases "conn cl")
    case None
    then show ?thesis
      using less.prems
      by (simp add: send_loop.simps [of ops bytes n cl w] send_loop.simps [of "guard alive ops" bytes n cl w])
  next
    case (Some c)
    obtain r c1 w1 where wr: "conn_write ops (drop n bytes) c w = (r, c1, w1)" by (metis prod_cases3)
    have alive: "alive c w" "alive c1 w1" using less.prems Some write_alive [OF _ wr] by simp_all
    then have wr': "conn_write (guard alive ops) (drop n bytes) c w = (r, c1, w1)" using wr by simp
    let ?cl = "cl\<lparr>conn := Some c1\<rparr>"
    have IH: "same_run (send_loop ops bytes (n + k) ?cl w1) (send_loop (guard alive ops) bytes (n + k) ?cl w1)"
      if "n < length bytes" "k \<noteq> 0" for k
      using less.hyps [of "n + k" ?cl w1] that alive(2) by simp
    show ?thesis
      using IH alive less.prems Some fail_hosts(1) [of ?cl w1]
      by (auto simp: send_loop_run [OF Some wr] send_loop_run [OF Some wr'] split: sum.split)
  qed
qed

lemma send_encoded_hosts:
  assumes "hosts cl w"
  shows "same_run (send_encoded pf ops packet cl w) (send_encoded pf (guard alive ops) packet cl w)"
proof (cases "conn cl")
  case None
  then show ?thesis using assms fail_hosts(1) [OF assms] by (simp add: send_encoded_def)
next
  case (Some c)
  obtain e cl1 w1 where s: "send_loop ops (packet_bytes packet) 0 cl w = (e, cl1, w1)" by (metis prod_cases3)
  then have s': "send_loop (guard alive ops) (packet_bytes packet) 0 cl w = (e, cl1, w1)" and h: "hosts cl1 w1"
    using send_loop_hosts [OF assms, of "packet_bytes packet" 0] by simp_all
  have "e = None \<Longrightarrow> conn cl1 \<noteq> None"
    using guarded.send_loop_outcome [of cl "packet_bytes packet" 0 w] Some s' by (simp add: keeps_or_closes_def Let_def)
  then show ?thesis
    using h Some clock_alive by (auto simp: send_encoded_def s s' case_prod_beta Let_def held_def split: option.splits)
qed

lemma received_hosts:
  assumes "hosts cl w" and "conn cl = Some c"
  shows "hosts (fst (snd (connect_received pf ops buffer cl w))) (snd (snd (connect_received pf ops buffer cl w)))"
  using assms clock_alive
  by (auto simp: connect_received_def Let_def case_prod_beta intro!: fail_hosts(2) split: option.split sum.split)

lemma process_hosts:
  assumes "hosts cl w" and "conn cl = Some c"
  shows "hosts (fst (snd (process_rx_buffer ops cl w))) (snd (snd (process_rx_buffer ops cl w))) \<and>
    (fst (process_rx_buffer ops cl w) = None \<longrightarrow> conn (fst (snd (process_rx_buffer ops cl w))) = Some c)"
  using assms
proof (induction "length (rx_buffer cl)" arbitrary: cl rule: less_induct)
  case less
  have keeps: "hosts (snd (handle_packet n p cl)) w" "conn (snd (handle_packet n p cl)) = Some c" for n p
    using less.prems by (simp_all add: handle_packet_keeps)
  show ?case
    using less frame_info_size [of "rx_buffer cl"] keeps fail_hosts(1)
    by (subst (1 2 3 4) process_rx_buffer.simps)
      (auto simp: Let_def handle_packet_keeps fail_with_def case_prod_beta split: option.split sum.split)
qed

lemma connect_round_hosts:
  assumes "hosts cl w"
  shows "connect_round pf (guard alive ops) until cl w = connect_round pf ops until cl w \<and>
    (case connect_round pf ops until cl w of
       Inl r \<Rightarrow> hosts (fst (snd r)) (snd (snd r))
     | Inr (cl', w') \<Rightarrow> hosts cl' w')"
proof (cases "conn cl")
  case None
  then show ?thesis using assms by (simp add: connect_round_def)
next
  case (Some c)
  obtain r c1 w1 where rd: "conn_read_nonblocking ops 256 c w = (r, c1, w1)" by (metis prod_cases3)
  have alive: "alive c w" "alive c1 w1" using assms Some read_alive [OF _ rd] by simp_all
  then have rd': "conn_read_nonblocking (guard alive ops) 256 c w = (r, c1, w1)" using rd by simp
  let ?cl = "cl\<lparr>conn := Some c1\<rparr>"
  have h: "hosts ?cl w1" using alive by simp
  show ?thesis
  proof (cases r)
    case (Inl e)
    then show ?thesis using Some rd rd' fail_hosts(1) [OF h] by (simp add: connect_round_def)
  next
    case (Inr buffer)
    define x where "x = (if buffer \<noteq> [] then connect_received pf ops buffer ?cl w1 else (None, ?cl, w1))"
    obtain out cl2 w2 where x: "x = (out, cl2, w2)" by (metis prod_cases3)
    have h2: "hosts cl2 w2" using received_hosts [OF h, of c1 buffer] h x by (auto simp: x_def split: if_splits)
    have live: "\<exists>c2. conn cl2 = Some c2" if "out = None"
    proof (cases "buffer = []")
      case True
      then show ?thesis using x by (auto simp: x_def)
    next
      case False
      then show ?thesis
        using connect_received_progress [of pf w1 ?cl ops buffer] x that
        by (auto simp: x_def connect_progress_def Let_def)
    qed
    have run: "connect_round pf ops' until cl w =
        (let (outcome, cl, w) = x in case outcome of
           Some err \<Rightarrow> Inl (err, cl, w)
         | None \<Rightarrow> let (now, w) = get_absolute_time pf w
             in if absolute_time_diff_us pf now until \<le> 0
                then Inl (fail_with ops (Error ''MQTT CONNACK timeout'') cl w)
                else Inr (cl, sleep_ms pf 10 w))" if "ops' = ops \<or> ops' = guard alive ops" for ops'
    proof -
      have f: "fail_with ops' = fail_with ops" "connect_received pf ops' = connect_received pf ops"
          "conn_read_nonblocking ops' 256 c w = (r, c1, w1)" using that rd rd' by auto
      then show ?thesis unfolding connect_round_def x_def f(1,2) by (simp add: Some Inr Let_def)
    qed
    show ?thesis
    proof (cases out)
      case Err: (Some err)
      then show ?thesis using run x h2 by simp
    next
      case None
      then obtain c2 where c2: "conn cl2 = Some c2" using live by blast
      have tick: "hosts cl2 (snd (get_absolute_time pf w2))" using clock_alive h2 c2 by simp
      then have "hosts cl2 (sleep_ms pf 10 (snd (get_absolute_time pf w2)))" using sleep_alive c2 by simp
      then show ?thesis using run x None tick fail_hosts(1) [OF tick] by (auto simp: case_prod_beta Let_def)
    qed
  qed
qed

lemma await_connack_hosts:
  assumes "await_connack pf ops until cl w = Some r" and "hosts cl w"
  shows "await_connack pf (guard alive ops) until cl w = Some r \<and> hosts (fst (snd r)) (snd (snd r))"
proof -
  have "pf' = pf \<longrightarrow> ops' = ops \<longrightarrow> hosts cl w \<longrightarrow>
      await_connack pf (guard alive ops) until cl w = Some r \<and> hosts (fst (snd r)) (snd (snd r))"
    if "await_connack pf' ops' until cl w = Some r" for pf' ops' until cl w r
    using that
  proof (induction rule: await_connack.raw_induct [rotated, consumes 1, case_names step])
    case (step await pf' ops' until cl w r)
    show ?case
    proof (intro impI)
      assume eq: "pf' = pf" "ops' = ops" and h: "hosts cl w"
      note round = connect_round_hosts [OF h, of until]
      show "await_connack pf (guard alive ops) until cl w = Some r \<and> hosts (fst (snd r)) (snd (snd r))"
      proof (cases "connect_round pf ops until cl w")
        case (Inl x)
        then show ?thesis using step(2) eq round by (simp add: await_connack.simps [of pf "guard alive ops"])
      next
        case (Inr x)
        then obtain cl1 w1 where x: "connect_round pf ops until cl w = Inr (cl1, w1)" by (cases x) simp
        then show ?thesis
          using step(1) [of pf' ops' until cl1 w1 r] step(2) eq round
          by (simp add: await_connack.simps [of pf "guard alive ops" until cl w])
      qed
    qed
  qed
  with assms show ?thesis by blast
qed

section \<open>The public functions\<close>

lemma publish_hosts: "hosts cl w \<Longrightarrow>
    same_run (publish pf ops topic payload retain cl w) (publish pf (guard alive ops) topic payload retain cl w)"
  using send_encoded_hosts by (simp add: publish_def split: sum.split)

lemma subscribe_hosts: "hosts cl w \<Longrightarrow>
    same_run (subscribe pf ops topic qos cl w) (subscribe pf (guard alive ops) topic qos cl w)"
proof -
  assume h: "hosts cl w"
  obtain i cl1 where a: "allocate_packet_identifier cl = (i, cl1)" by fastforce
  then have "conn cl1 = conn cl" by (auto simp: allocate_packet_identifier_def Let_def split: if_splits)
  then have "hosts cl1 w" using h by (simp add: held_def)
  then show ?thesis using h a send_encoded_hosts by (simp add: subscribe_def split: sum.split)
qed

lemma disconnect_hosts: "hosts cl w \<Longrightarrow> same_run (disconnect pf ops cl w) (disconnect pf (guard alive ops) cl w)"
  using send_encoded_hosts fail_hosts(3)
  by (auto simp: disconnect_def encode_disconnect_value Let_def case_prod_beta)

lemma keep_alive_hosts:
  assumes "hosts cl w" and "conn cl = Some c"
  shows "same_run (keep_alive_check pf ops cl w) (keep_alive_check pf (guard alive ops) cl w)"
proof (cases "keep_alive_seconds cl = 0")
  case True
  then show ?thesis using assms by (simp add: keep_alive_check_eq)
next
  case False
  obtain now w1 where t: "get_absolute_time pf w = (now, w1)" by fastforce
  have h1: "hosts cl w1" using clock_alive assms t by (metis held_simps(1) snd_conv)
  define x where "x = (if ping_due pf now cl
      then (let (e, cl, w) = send_encoded pf ops pingreq_packet cl w1
            in (e, if e = None then cl\<lparr>waiting_for_pingresp := True\<rparr> else cl, w))
      else (None, cl, w1))"
  obtain e cl2 w2 where x: "x = (e, cl2, w2)" by (metis prod_cases3)
  note send = send_encoded_hosts [OF h1, of pingreq_packet]
  have h2: "hosts cl2 w2" and live: "e = None \<Longrightarrow> conn cl2 \<noteq> None"
    using x h1 send assms(2) guarded.send_encoded_outcome [of cl pf pingreq_packet w1]
    by (auto simp: x_def Let_def case_prod_beta held_def keeps_or_closes_def split: if_splits)
  obtain now2 w3 where t2: "get_absolute_time pf w2 = (now2, w3)" by fastforce
  have run: "keep_alive_check pf ops' cl w =
      (if e \<noteq> None then (e, cl2, w2)
       else if waiting_for_pingresp cl2
       then (if absolute_time_diff_us pf (last_rx cl2) now2 \<ge> ping_timeout_us cl
             then fail_with ops (Error ''MQTT PINGRESP timeout'') cl2 w3 else (None, cl2, w3))
       else (None, cl2, w2))" if "ops' = ops \<or> ops' = guard alive ops" for ops'
    using that False send x by (auto simp: keep_alive_check_eq t x_def t2 Let_def)
  have h3: "e = None \<Longrightarrow> hosts cl2 w3" using live h2 clock_alive t2 by (auto simp: held_def) (metis snd_conv)
  show ?thesis using run h2 h3 fail_hosts(1) by auto
qed

lemma poll_hosts:
  assumes "hosts cl w"
  shows "same_run (poll pf ops cl w) (poll pf (guard alive ops) cl w)"
proof (cases "client_state cl = CONNECTED \<and> conn cl \<noteq> None")
  case False
  then show ?thesis using assms by (auto simp: poll_def)
next
  case True
  then obtain c where c: "client_state cl = CONNECTED" "conn cl = Some c" by blast
  obtain r c1 w1 where rd: "conn_read_nonblocking ops 256 c w = (r, c1, w1)" by (metis prod_cases3)
  have alive: "alive c w" "alive c1 w1" using assms c read_alive [OF _ rd] by simp_all
  then have rd': "conn_read_nonblocking (guard alive ops) 256 c w = (r, c1, w1)" using rd by simp
  let ?cl = "cl\<lparr>conn := Some c1\<rparr>"
  have h: "hosts ?cl w1" using alive by simp
  show ?thesis
  proof (cases r)
    case (Inl e)
    then show ?thesis using c rd rd' fail_hosts(1) [OF h] by (simp add: poll_def)
  next
    case (Inr buffer)
    obtain now w2 where t: "get_absolute_time pf w1 = (now, w2)" by fastforce
    define x where "x = (if buffer \<noteq> []
      then process_rx_buffer ops (?cl\<lparr>last_rx := now, rx_buffer := rx_buffer ?cl @ buffer\<rparr>) w2
      else (None, ?cl, w1))"
    obtain e cl2 w3 where x: "x = (e, cl2, w3)" by (metis prod_cases3)
    have h2: "alive c1 w2" using clock_alive alive(2) t by (metis snd_conv)
    have "hosts cl2 w3 \<and> (e = None \<longrightarrow> conn cl2 = Some c1)"
      using x alive(2) process_hosts [of "?cl\<lparr>last_rx := now, rx_buffer := rx_buffer ?cl @ buffer\<rparr>" w2] h2
      by (auto simp: x_def split: if_splits)
    moreover have "poll pf ops' cl w = (if e \<noteq> None then (e, cl2, w3) else keep_alive_check pf ops' cl2 w3)"
      if "ops' = ops \<or> ops' = guard alive ops" for ops'
      using that x c rd rd' Inr t by (auto simp: poll_def x_def Let_def split: option.split)
    ultimately show ?thesis using keep_alive_hosts [of cl2 w3 c1] by auto
  qed
qed

text \<open>A dial that starts in a world in order ends in one, with a connection that is alive or an error.\<close>

definition dial_hosted :: "(Address \<Rightarrow> u32 \<Rightarrow> 'w \<Rightarrow> ('c result \<times> 'w) option) \<Rightarrow> bool" where
  "dial_hosted dial \<longleftrightarrow> (\<forall>a t w r w'. settled w \<longrightarrow> dial a t w = Some (r, w') \<longrightarrow>
     (case r of Inl e \<Rightarrow> \<not> is_fault e \<and> settled w' | Inr c \<Rightarrow> alive c w'))"

definition guard_dial :: "(Address \<Rightarrow> u32 \<Rightarrow> 'w \<Rightarrow> ('c result \<times> 'w) option) \<Rightarrow> Address \<Rightarrow> u32 \<Rightarrow> 'w \<Rightarrow> ('c result \<times> 'w) option" where
  "guard_dial dial a t w = (if settled w then dial a t w else Some (Inl (Error []), w))"

lemma guard_dial_safe:
  assumes "dial_hosted dial"
  shows "dial_safe (guard_dial dial)"
  unfolding dial_safe_def
proof (intro allI impI)
  fix a t w r w' assume g: "guard_dial dial a t w = Some (r, w')"
  show "fault_free r"
  proof (cases "settled w")
    case True
    then have "case r of Inl e \<Rightarrow> \<not> is_fault e \<and> settled w' | Inr c \<Rightarrow> alive c w'"
      using assms g unfolding dial_hosted_def guard_dial_def by auto
    then show ?thesis by (cases r) simp_all
  qed (use g in \<open>auto simp: guard_dial_def\<close>)
qed

lemma connect_hosts:
  assumes "connect pf ops dial broker m t cl w = Some r" and "dial_hosted dial" and "client_inv cl"
    and "case conn cl of None \<Rightarrow> settled w | Some c \<Rightarrow> alive c w"
  shows "connect pf (guard alive ops) (guard_dial dial) broker m t cl w = Some r \<and> hosts (fst (snd r)) (snd (snd r))"
proof (cases "client_state cl = CONNECTED")
  case True
  then show ?thesis using assms(1,4) by (auto simp: connect_def held_def settled_gone split: option.splits)
next
  case False
  then have none: "conn cl = None" and settled: "settled w" using assms(3,4) by (auto simp: client_inv_def)
  then have dial: "guard_dial dial broker t w = dial broker t w" by (simp add: guard_dial_def)
  note run = connect_def [of pf _ _ broker m t cl w, simplified False none if_False Let_def option.case]
  obtain d w1 where d: "dial broker t w = Some (d, w1)"
    using assms(1) run by (cases "dial broker t w") auto
  have hosted: "case d of Inl e \<Rightarrow> \<not> is_fault e \<and> settled w1 | Inr c \<Rightarrow> alive c w1"
    using assms(2) settled d unfolding dial_hosted_def by blast
  show ?thesis
  proof (cases d)
    case (Inl e)
    then show ?thesis using assms(1) hosted none d settled_gone by (auto simp: run dial)
  next
    case (Inr c)
    let ?cl = "cl\<lparr>client_state := CONNECTING, conn := Some c, keep_alive_seconds := connect_keep_alive m, rx_buffer := []\<rparr>"
    have h: "hosts ?cl w1" using hosted Inr by simp
    show ?thesis
    proof (cases "encode_connect m")
      case (Inl e)
      then show ?thesis using assms(1) d h none fail_hosts(1) [OF h, of e] by (auto simp: run dial \<open>d = Inr c\<close>)
    next
      case enc: (Inr packet)
      obtain se cl1 w2 where s: "send_encoded pf ops packet ?cl w1 = (se, cl1, w2)" by (metis prod_cases3)
      have s': "send_encoded pf (guard alive ops) packet ?cl w1 = (se, cl1, w2)" and h1: "hosts cl1 w2"
        using send_encoded_hosts [OF h, of packet] s by simp_all
      show ?thesis
      proof (cases se)
        case (Some e)
        then show ?thesis using assms(1) d Inr enc s s' h1 none by (auto simp: run dial)
      next
        case None
        have "conn cl1 \<noteq> None"
          using guarded.send_encoded_outcome [of ?cl pf packet w1] s' None by (simp add: keeps_or_closes_def Let_def)
        then obtain c1 where c1: "conn cl1 = Some c1" by blast
        obtain until w3 where u: "make_timeout_time_ms pf t w2 = (until, w3)" by fastforce
        have h3: "hosts cl1 w3" using timeout_alive h1 c1 u by (metis held_simps(1) snd_conv)
        have "await_connack pf ops until cl1 w3 = Some r" using assms(1) d Inr enc s None u none by (simp add: run)
        from await_connack_hosts [OF this h3] show ?thesis using d Inr enc s' None u none by (simp add: run dial)
      qed
    qed
  qed
qed

text \<open>Every operation: the class invariant, an error that is no fault, and a client that is held.\<close>

lemma exec_hosts:
  assumes run: "client_exec pf ops dial op cl w = Some (e, cl', w')" and "dial_hosted dial" and inv: "client_inv cl"
    and world: "case conn cl of None \<Rightarrow> settled w | Some c \<Rightarrow> alive c w"
  shows "client_inv cl' \<and> safe_outcome e \<and> hosts cl' w'"
proof -
  have h: "hosts cl w" using world settled_gone by (simp add: held_def split: option.splits)
  show ?thesis
  proof (cases op)
    case (ClConnect broker m t)
    have c: "connect pf ops dial broker m t cl w = Some (e, cl', w')" using run ClConnect by simp
    note hosts = connect_hosts [OF c assms(2) inv world]
    show ?thesis
      using guarded.connect_good(1) [OF inv guard_dial_safe [OF assms(2)]] hosts by (fastforce simp: good_run_def)
  next
    case (ClPublish topic payload retain)
    then show ?thesis
      using run guarded.publish_good [OF inv, of pf topic payload retain w] publish_hosts [OF h, of topic payload retain]
      by (simp add: good_run_def)
  next
    case (ClPublishString topic s retain)
    then show ?thesis
      using run guarded.publish_good [OF inv, of pf topic "bytes_of_string s" retain w]
        publish_hosts [OF h, of topic "bytes_of_string s" retain]
      by (simp add: publish_string_def good_run_def)
  next
    case (ClSubscribe topic qos)
    then show ?thesis
      using run guarded.subscribe_good [OF inv, of pf topic qos w] subscribe_hosts [OF h, of topic qos]
      by (simp add: good_run_def)
  next
    case ClPoll
    then show ?thesis using run guarded.poll_good(1) [OF inv, of pf w] poll_hosts [OF h] by (simp add: good_run_def)
  next
    case ClNext
    obtain r cl1 where n: "next_message cl = (r, cl1)" by fastforce
    have "conn cl1 = conn cl" using n by (auto simp: next_message_def split: list.splits)
    then show ?thesis using run ClNext n next_message_good [OF inv n] h by (auto simp: held_def)
  next
    case ClDisconnect
    then show ?thesis using run guarded.disconnect_good [OF inv, of pf w] disconnect_hosts [OF h] by (simp add: good_run_def)
  qed
qed

end

end
