(* ===== verification/Client_System.thy ===== *)
theory Client_System
  imports Tcp_System_Steps Hosted_Client
begin

text \<open>
  \<^verbatim>\<open>MqttClient\<close> among the other TCP objects of a program: its connection is an object of the heap, which
  it reaches through the pointer that \<^verbatim>\<open>Network::dial_tcp\<close> has returned, and a poll by the client runs
  the callbacks of all objects, as theirs run those of the client's connection. The functions of the
  client are those of \<open>Mqtt_Client\<close>, over the virtual functions of a \<^verbatim>\<open>TcpConnection\<close> in the heap.
\<close>

section \<open>The clock\<close>

definition on_sys :: "('e World \<Rightarrow> 'a \<times> 'e World) \<Rightarrow> 'e TcpSystem \<Rightarrow> 'a \<times> 'e TcpSystem" where
  "on_sys f s = (let (x, w) = f (sys_world s) in (x, s\<lparr>sys_world := w\<rparr>))"

definition sys_platform :: "'e Platform \<Rightarrow> 'e TcpSystem Platform" where
  "sys_platform pf =
     \<lparr>nil_time = nil_time pf,
      get_absolute_time = on_sys (get_absolute_time (world_platform pf)),
      make_timeout_time_ms = (\<lambda>ms. on_sys (make_timeout_time_ms (world_platform pf) ms)),
      absolute_time_diff_us = absolute_time_diff_us pf,
      sleep_ms = (\<lambda>ms s. s\<lparr>sys_world := sleep_ms (world_platform pf) ms (sys_world s)\<rparr>)\<rparr>"

section \<open>A connection in the heap\<close>

text \<open>The virtual functions through the pointer; a fault is the result of the call.\<close>

fun called :: "obj \<Rightarrow> 'e TcpSystem \<Rightarrow> ('a result \<times> 'e TcpSystem) result \<Rightarrow> 'a result \<times> obj \<times> 'e TcpSystem" where
  "called a s (Inl fault) = (Inl fault, a, s)"
| "called a s (Inr (r, s')) = (r, a, s')"

fun ended :: "obj \<Rightarrow> 'e TcpSystem \<Rightarrow> (Error option \<times> 'e TcpSystem) result \<Rightarrow> Error option \<times> obj \<times> 'e TcpSystem" where
  "ended a s (Inl fault) = (Some fault, a, s)"
| "ended a s (Inr (err, s')) = (err, a, s')"

definition sys_setting ::
  "(TcpConnection \<Rightarrow> Error option \<times> TcpConnection) \<Rightarrow> obj \<Rightarrow> 'e TcpSystem \<Rightarrow> Error option \<times> obj \<times> 'e TcpSystem" where
  "sys_setting f a s =
     ended a s (bindE (get_conn (sys_objects s) a) (\<lambda>c.
       let (err, c) = f c in Inr (err, put a (ConnObject c) (sys_world s) s)))"

definition sys_blocking_read ::
  "'e Platform \<Rightarrow> 'e Lwip \<Rightarrow> nat \<Rightarrow> obj \<Rightarrow> 'e TcpSystem \<Rightarrow> (u8 list result \<times> obj \<times> 'e TcpSystem) option" where
  "sys_blocking_read pf lw n a s =
     (case get_conn (sys_objects s) a of
        Inl fault \<Rightarrow> Some (Inl fault, a, s)
      | Inr c \<Rightarrow> blocking_read (sys_platform pf) (\<lambda>n a s. called a s (sys_read lw n a s)) (tcp_read_deadline_ms c) n a s)"

text \<open>A destructor has no result; behind a pointer without an object it does nothing here.\<close>

definition heap_ops :: "'e Platform \<Rightarrow> 'e Lwip \<Rightarrow> (obj, 'e TcpSystem) Connection" where
  "heap_ops pf lw =
     \<lparr>conn_destroy = (\<lambda>a s. case sys_destroy lw a s of Inl fault \<Rightarrow> s | Inr s \<Rightarrow> s),
      conn_read = sys_blocking_read pf lw,
      conn_write = (\<lambda>bs a s. called a s (sys_write lw bs a s)),
      conn_close = (\<lambda>a s. ended a s (sys_close lw a s)),
      conn_local_address = (\<lambda>a s. bindE (get_conn (sys_objects s) a) (\<lambda>c. Inr (tcp_local_addr c))),
      conn_remote_address = (\<lambda>a s. bindE (get_conn (sys_objects s) a) (\<lambda>c. Inr (tcp_remote_addr c))),
      conn_set_deadline = (\<lambda>ms. sys_setting (tcp_set_deadline ms)),
      conn_set_read_deadline = (\<lambda>ms. sys_setting (tcp_set_read_deadline ms)),
      conn_set_write_deadline = (\<lambda>ms. sys_setting (tcp_set_write_deadline ms)),
      conn_read_nonblocking = (\<lambda>n a s. called a s (sys_read lw n a s))\<rparr>"

lemma heap_ops_sel [simp]:
  "conn_destroy (heap_ops pf lw) a s = (case sys_destroy lw a s of Inl fault \<Rightarrow> s | Inr s \<Rightarrow> s)"
  "conn_write (heap_ops pf lw) bs a s = called a s (sys_write lw bs a s)"
  "conn_close (heap_ops pf lw) a s = ended a s (sys_close lw a s)"
  "conn_read_nonblocking (heap_ops pf lw) n a s = called a s (sys_read lw n a s)"
  by (simp_all add: heap_ops_def)

section \<open>A dial\<close>

text \<open>
  \<^verbatim>\<open>Network::dial_tcp\<close> from beginning to end: while it waits, its polls run the callbacks of all.
  The loop ends with \<open>True\<close> when its own callback has been run, with \<open>False\<close> when the time is over.
\<close>

partial_function (option) sys_dial_wait ::
  "'e Platform \<Rightarrow> 'e Lwip \<Rightarrow> obj \<Rightarrow> absolute_time_t \<Rightarrow> 'e TcpSystem \<Rightarrow> (bool result \<times> 'e TcpSystem) option" where
  "sys_dial_wait pf lw at until s =
     (case get_dial (sys_objects s) at of
        Inl fault \<Rightarrow> Some (Inl fault, s)
      | Inr (p, address, state) \<Rightarrow>
          if dial_done state then Some (Inr True, s)
          else
            (case sys_poll lw s of
               Inl fault \<Rightarrow> Some (Inl fault, s)
             | Inr s \<Rightarrow>
                 (case get_absolute_time (sys_platform pf) (sleep_ms (sys_platform pf) 10 s) of (now, s) \<Rightarrow>
                    if absolute_time_diff_us (sys_platform pf) now until \<le> 0 then Some (Inr False, s)
                    else sys_dial_wait pf lw at until s)))"

definition sys_dial_tcp ::
  "'e Platform \<Rightarrow> 'e Lwip \<Rightarrow> Network \<Rightarrow> Address \<Rightarrow> u32 \<Rightarrow> 'e TcpSystem \<Rightarrow> (obj result \<times> 'e TcpSystem) option" where
  "sys_dial_tcp pf lw net address timeout_ms s =
     (case sys_dial_start lw net address s of
        (Inl err, s) \<Rightarrow> Some (Inl err, s)
      | (Inr at, s) \<Rightarrow>
          let (until, s) = make_timeout_time_ms (sys_platform pf) timeout_ms s
          in case sys_dial_wait pf lw at until s of
               None \<Rightarrow> None
             | Some (Inl fault, s) \<Rightarrow> Some (Inl fault, s)
             | Some (Inr success, s) \<Rightarrow>
                 (case (if success then sys_dial_finish lw at s else sys_dial_timeout lw at s) of
                    Inl fault \<Rightarrow> Some (Inl fault, s)
                  | Inr (r, s) \<Rightarrow> Some (r, s)))"

section \<open>The client\<close>

abbreviation heap_client ::
  "'e Platform \<Rightarrow> 'e Lwip \<Rightarrow> Network \<Rightarrow> ClientOp \<Rightarrow> obj MqttClient \<Rightarrow> 'e TcpSystem \<Rightarrow>
     (Error option \<times> obj MqttClient \<times> 'e TcpSystem) option" where
  "heap_client pf lw net \<equiv> client_exec (sys_platform pf) (heap_ops pf lw) (sys_dial_tcp pf lw net)"

text \<open>
  A run of a program with a client: operations of the client, and between them operations of others
  on their objects, which are not the client's connection, which it owns, and not a dial of the
  client, which is over when the operation returns. The last operation's results are kept in a log.
  A connection that has been destroyed after the peer has ended its stream leaves a callback with
  lwIP that no one can answer for (shown in \<open>Client_System_Service\<close>); the run is followed
  up to there.
\<close>

definition orphaned :: "'e TcpSystem \<Rightarrow> bool" where
  "orphaned s \<longleftrightarrow> (\<exists>a. sys_objects s a = None \<and> fin_seen a (delivered (sys_world s)))"

fun target :: "TcpOp \<Rightarrow> obj option" where
  "target (OpRead a n) = Some a" | "target (OpWrite a bs) = Some a" | "target (OpClose a) = Some a"
| "target (OpDestroy a) = Some a" | "target op = None"

inductive program_reach ::
  "'e Platform \<Rightarrow> 'e Lwip \<Rightarrow> Network \<Rightarrow> ('e \<Rightarrow> Registrations) \<Rightarrow>
     Error option list \<Rightarrow> obj MqttClient \<Rightarrow> 'e TcpSystem \<Rightarrow> bool"
  for pf lw net regs where
  program_start: "sys_start regs s \<Longrightarrow> program_reach pf lw net regs [] (new_MqttClient (sys_platform pf)) s"
| program_other: "\<lbrakk> program_reach pf lw net regs log cl s; \<not> orphaned s; usable op s;
      target op = None \<or> target op \<noteq> conn cl; sys_exec lw net op s = Inr (out, s') \<rbrakk> \<Longrightarrow>
    program_reach pf lw net regs log cl s'"
| program_client: "\<lbrakk> program_reach pf lw net regs log cl s; \<not> orphaned s;
      heap_client pf lw net op cl s = Some (e, cl', s') \<rbrakk> \<Longrightarrow>
    program_reach pf lw net regs (e # log) cl' s'"

end
