(* ===== verification/Sample_System.thy ===== *)
theory Sample_System
  imports Tcp_System
begin

text \<open>
  A concrete lwIP that keeps its registrations, allocates control blocks and objects in order, and
  runs the callbacks it is given at the next polls as far as they are registered. It satisfies
  the law of callbacks, and the witnesses about several objects run on it.
\<close>

record SampleNet =
  sn_regs :: Registrations
  sn_next :: obj
  sn_pcb :: pcb
  sn_queue :: "LwipEvent list list"
  sn_time :: nat

text \<open>A callback that is not registered is dropped.\<close>

definition sn_step :: "LwipEvent \<Rightarrow> Registrations \<Rightarrow> LwipEvent list \<times> Registrations" where
  "sn_step ev v =
     (case ev of
        TcpRecvEvent arg p buf err \<Rightarrow> (if pv_recv (v p) \<and> pv_arg (v p) = arg then [ev] else [], v)
      | TcpErrEvent arg err \<Rightarrow>
          (case List.find (\<lambda>p. pv_err (v p) \<and> pv_arg (v p) = arg) [1, 2, 3] of
             None \<Rightarrow> ([], v) | Some p \<Rightarrow> ([ev], v(p := free_block)))
      | TcpAcceptEvent arg newpcb err \<Rightarrow>
          (case List.find (\<lambda>p. pv_accept (v p) \<and> pv_arg (v p) = arg) [1, 2, 3] of
             None \<Rightarrow> ([], v)
           | Some p \<Rightarrow>
               (case newpcb of
                  None \<Rightarrow> ([ev], v)
                | Some q \<Rightarrow> if pv_live (v q) then ([], v) else ([ev], v(q := new_block arg))))
      | TcpConnectedEvent arg p err \<Rightarrow>
          if pv_connecting (v p) \<and> pv_arg (v p) = arg then ([ev], v(p := (v p)\<lparr>pv_connecting := False\<rparr>)) else ([], v)
      | UdpRecvEvent arg p buf ip port \<Rightarrow> ([ev], v))"

fun sn_run :: "LwipEvent list \<Rightarrow> Registrations \<Rightarrow> LwipEvent list \<times> Registrations" where
  "sn_run [] v = ([], v)"
| "sn_run (ev # evs) v = (let (now, v) = sn_step ev v; (later, v) = sn_run evs v in (now @ later, v))"

definition system_lwip :: "SampleNet Lwip" where
  "system_lwip =
     \<lparr>lwip_call = (\<lambda>k e. (ERR_OK, e\<lparr>sn_regs := view_call k ERR_OK (sn_regs e)\<rparr>)),
      lwip_poll = (\<lambda>e. case sn_queue e of
         [] \<Rightarrow> ([], e)
       | evs # q \<Rightarrow> (case sn_run evs (sn_regs e) of (evs, v) \<Rightarrow> (evs, e\<lparr>sn_regs := v, sn_queue := q\<rparr>))),
      lwip_tcp_sndbuf = (\<lambda>p e. 5),
      lwip_tcp_new = (\<lambda>e. if pv_live (sn_regs e (sn_pcb e)) then (None, e)
         else (Some (sn_pcb e), e\<lparr>sn_regs := (sn_regs e)(sn_pcb e := new_block None), sn_pcb := sn_pcb e + 1\<rparr>)),
      lwip_tcp_listen = (\<lambda>p n e. (Some p, e)),
      lwip_udp_new = (\<lambda>e. (None, e)),
      lwip_pbuf_alloc = (\<lambda>n e. (True, e)),
      lwip_ticks_ms = (\<lambda>e. (0, e)),
      lwip_input_netif = (\<lambda>e. None),
      lwip_netif_ip = (\<lambda>e. Some (IP4 10 0 0 2)),
      lwip_remote_ip = (\<lambda>p e. IPADDR_TYPE_V4 (IP4 10 0 0 1)),
      lwip_remote_port = (\<lambda>p e. 1883),
      lwip_local_port = (\<lambda>p e. 4000),
      new_object = (\<lambda>e. (sn_next e, e\<lparr>sn_next := sn_next e + 1\<rparr>)),
      lwip_aton = (\<lambda>s. Some (IP4 10 0 0 1)),
      lwip_ntoa = (\<lambda>a. ''10.0.0.1'')\<rparr>"

lemma system_sel [simp]:
  "lwip_call system_lwip k e = (ERR_OK, e\<lparr>sn_regs := view_call k ERR_OK (sn_regs e)\<rparr>)"
  "lwip_tcp_sndbuf system_lwip p e = 5" "lwip_tcp_listen system_lwip p n e = (Some p, e)"
  "new_object system_lwip e = (sn_next e, e\<lparr>sn_next := sn_next e + 1\<rparr>)"
  "lwip_aton system_lwip x = Some (IP4 10 0 0 1)" "lwip_netif_ip system_lwip e = Some (IP4 10 0 0 2)"
  "lwip_ntoa system_lwip y = ''10.0.0.1''" "lwip_local_port system_lwip p e = 4000"
  "lwip_remote_port system_lwip p e = 1883" "lwip_remote_ip system_lwip p e = IPADDR_TYPE_V4 (IP4 10 0 0 1)"
  by (simp_all add: system_lwip_def)

lemma find_holds: "List.find P xs = Some p \<Longrightarrow> P p"
  by (auto simp: find_Some_iff)

lemma sn_step_run:
  assumes "sn_step ev v = (now, v1)" and "lwip_run v1 evs v'"
  shows "lwip_run v (now @ evs) v'"
proof (cases ev)
  case (TcpRecvEvent arg p buf err)
  then show ?thesis using assms run_recv by (auto simp: sn_step_def split: if_splits)
next
  case (TcpErrEvent arg err)
  show ?thesis
  proof (cases "List.find (\<lambda>p. pv_err (v p) \<and> pv_arg (v p) = arg) [1, 2, 3]")
    case None
    then show ?thesis using assms TcpErrEvent by (simp add: sn_step_def)
  next
    case (Some p)
    then have "pv_err (v p)" "pv_arg (v p) = arg" using find_holds [OF Some] by simp_all
    then show ?thesis using assms TcpErrEvent Some run_err [of v p evs v' err] by (auto simp: sn_step_def simp del: find.simps)
  qed
next
  case (TcpConnectedEvent arg p err)
  then show ?thesis using assms run_connected by (auto simp: sn_step_def split: if_splits)
next
  case (TcpAcceptEvent arg newpcb err)
  show ?thesis
  proof (cases "List.find (\<lambda>p. pv_accept (v p) \<and> pv_arg (v p) = arg) [1, 2, 3]")
    case None
    then show ?thesis using assms TcpAcceptEvent by (simp add: sn_step_def)
  next
    case (Some p)
    then have p: "pv_accept (v p)" "pv_arg (v p) = arg" using find_holds [OF Some] by simp_all
    show ?thesis
    proof (cases newpcb)
      case None
      then show ?thesis
        using assms TcpAcceptEvent Some run_refuse [of v p evs v' err] p by (auto simp: sn_step_def)
    next
      case (Some q)
      then show ?thesis
        using assms TcpAcceptEvent \<open>List.find _ _ = Some p\<close> run_accept [of v p q evs v' err] p
        by (auto simp: sn_step_def split: if_splits)
    qed
  qed
next
  case (UdpRecvEvent arg p buf ip port)
  then show ?thesis using assms run_udp by (auto simp: sn_step_def)
qed

lemma sn_run_run: "sn_run evs v = (out, v') \<Longrightarrow> lwip_run v out v'"
proof (induction evs arbitrary: v out)
  case Nil
  then show ?case by (simp add: run_end)
next
  case (Cons ev evs)
  then show ?case using sn_step_run by (auto simp: Let_def split: prod.splits)
qed

lemma system_law: "lwip_law system_lwip sn_regs sn_next"
proof -
  have poll: "lwip_run (sn_regs e) (fst (lwip_poll system_lwip e)) (sn_regs (snd (lwip_poll system_lwip e))) \<and>
      sn_next (snd (lwip_poll system_lwip e)) = sn_next e" for e
    using sn_run_run run_end by (auto simp: system_lwip_def split: list.split prod.split)
  have new: "(case fst (lwip_tcp_new system_lwip e) of
          None \<Rightarrow> sn_regs (snd (lwip_tcp_new system_lwip e)) = sn_regs e
        | Some p \<Rightarrow> \<not> pv_live (sn_regs e p) \<and>
            sn_regs (snd (lwip_tcp_new system_lwip e)) = (sn_regs e)(p := new_block None)) \<and>
        sn_next (snd (lwip_tcp_new system_lwip e)) = sn_next e" for e
    by (simp add: system_lwip_def)
  show ?thesis
    unfolding lwip_law_def by (intro conjI allI) (use poll new in simp_all)
qed

text \<open>A system before anything has been done, with the callbacks of its polls.\<close>

definition fresh_system :: "LwipEvent list list \<Rightarrow> SampleNet TcpSystem" where
  "fresh_system q =
     \<lparr>sys_world = \<lparr>env = \<lparr>sn_regs = (\<lambda>p. free_block), sn_next = 10, sn_pcb = 1, sn_queue = q, sn_time = 0\<rparr>,
        calls = [], delivered = []\<rparr>, sys_objects = Map.empty\<rparr>"

lemma fresh_start: "sys_start sn_regs (fresh_system q)"
  by (simp add: sys_start_def fresh_system_def)

text \<open>Operations one after the other, each as far as it is usable.\<close>

fun sys_run ::
  "'e Lwip \<Rightarrow> Network \<Rightarrow> TcpOp list \<Rightarrow> 'e TcpSystem \<Rightarrow> ((TcpOp \<times> TcpOut) list \<times> 'e TcpSystem) result" where
  "sys_run lw net [] s = Inr ([], s)"
| "sys_run lw net (op # ops) s =
     (if usable op s
      then bindE (sys_exec lw net op s) (\<lambda>(out, s).
        bindE (sys_run lw net ops s) (\<lambda>(tr, s). Inr ((op, out) # tr, s)))
      else Inl NullDeref)"

lemma steps_append:
  "sys_steps lw net s1 tr' s2 \<Longrightarrow> sys_steps lw net s tr s1 \<Longrightarrow> sys_steps lw net s (tr @ tr') s2"
proof (induction rule: sys_steps.induct)
  case (steps_snoc tr' s2 op out s3)
  then show ?case using sys_steps.steps_snoc [of lw net s "tr @ tr'" s2 op out s3] by simp
qed simp

lemma sys_run_steps: "sys_run lw net ops s = Inr (tr, s') \<Longrightarrow> sys_steps lw net s tr s'"
proof (induction ops arbitrary: s tr)
  case Nil
  then show ?case by (simp add: steps_nil)
next
  case (Cons op ops)
  then obtain out s1 tr1 where r: "usable op s" "sys_exec lw net op s = Inr (out, s1)"
      "sys_run lw net ops s1 = Inr (tr1, s')" "tr = (op, out) # tr1"
    by (auto split: if_splits sum.splits simp: bindE_def)
  have "sys_steps lw net s ([] @ [(op, out)]) s1" by (rule steps_snoc [OF steps_nil r(1,2)])
  from steps_append [OF Cons.IH [OF r(3)] this] show ?case by (simp add: r(4))
qed

definition system_network :: Network where
  "system_network = (new_Network 8)\<lparr>is_initialized := True, is_connected_to_station_wifi := True\<rparr>"

text \<open>
  A listener (object 10) that gets two connections at its first poll, which become the objects
  11 and 12; the next poll brings data for both.
\<close>

definition two_arrivals :: "LwipEvent list" where
  "two_arrivals = [TcpAcceptEvent (Some 10) (Some 2) ERR_OK, TcpAcceptEvent (Some 10) (Some 3) ERR_OK]"

definition serving_ops :: "TcpOp list" where
  "serving_ops = [OpListen 80, OpAccept 10, OpAccept 10]"

definition serving :: "LwipEvent list list \<Rightarrow> SampleNet TcpSystem" where
  "serving q = (case sys_run system_lwip system_network serving_ops (fresh_system (two_arrivals # [] # q)) of
     Inl fault \<Rightarrow> fresh_system [] | Inr (tr, s) \<Rightarrow> s)"

lemma system_ready [simp]: "is_initialized system_network" "is_ready system_network"
  by (simp_all add: system_network_def is_ready_def)

lemmas system_eval =
  sys_poll_def arch_poll_def sys_dispatch_def tcp_dispatch_def tcpl_dispatch_def tcp_recv_callback_def
  handle_tcp_recv_def tcp_err_callback_def handle_tcp_err_def tcp_accept_callback_def handle_tcp_accept_def
  sys_listen_def listen_tcp_def tcpl_attach_callbacks_def sys_accept_def tcpl_take_def tcp_attach_callbacks_def
  sys_read_def tcp_take_def sys_write_def tcp_write_def sys_close_def tcp_close_def sys_destroy_def tcp_destroy_def
  returning_def out_object_def call_def call_void_def on_env_def put_def local_ip_def
  get_conn_def get_listener_def get_dial_def new_TcpListener_def new_TcpConnection_def
  sn_step_def new_block_def free_block_def

lemma system_poll_new:
  "lwip_poll system_lwip e = (case sn_queue e of
     [] \<Rightarrow> ([], e)
   | evs # q \<Rightarrow> (case sn_run evs (sn_regs e) of (evs, v) \<Rightarrow> (evs, e\<lparr>sn_regs := v, sn_queue := q\<rparr>)))"
  "lwip_tcp_new system_lwip e = (if pv_live (sn_regs e (sn_pcb e)) then (None, e)
     else (Some (sn_pcb e), e\<lparr>sn_regs := (sn_regs e)(sn_pcb e := new_block None), sn_pcb := sn_pcb e + 1\<rparr>))"
  by (simp_all add: system_lwip_def)

definition sample_end :: "u16 \<Rightarrow> Address" where
  "sample_end port = \<lparr>address_network = ''tcp'', address_ip = ''10.0.0.1'', address_port = port\<rparr>"

definition client :: "obj \<Rightarrow> pcb \<Rightarrow> TcpConnection" where
  "client a p = new_TcpConnection a p (sample_end 4000) (sample_end 1883)"

lemma serving_runs:
  "sys_run system_lwip system_network serving_ops (fresh_system (two_arrivals # [] # q)) =
     Inr ([(OpListen 80, OutObject (Inr (Some 10))), (OpAccept 10, OutObject (Inr (Some 11))),
           (OpAccept 10, OutObject (Inr (Some 12)))], serving q)"
  unfolding serving_def
  by (simp add: serving_ops_def fresh_system_def two_arrivals_def system_eval system_poll_new Let_def)

lemma serving_state:
  "sys_objects (serving q) = [11 \<mapsto> ConnObject (client 11 2),
     10 \<mapsto> ListenerObject (new_TcpListener 10 1 (sample_end 80)), 12 \<mapsto> ConnObject (client 12 3)]"
  "env (sys_world (serving q)) = \<lparr>sn_regs = (\<lambda>p. free_block)(
       1 := (new_block (Some 10))\<lparr>pv_accept := True\<rparr>,
       2 := (new_block (Some 11))\<lparr>pv_recv := True, pv_err := True\<rparr>,
       3 := (new_block (Some 12))\<lparr>pv_recv := True, pv_err := True\<rparr>),
     sn_next = 13, sn_pcb = 2, sn_queue = q, sn_time = 0\<rparr>"
  "delivered (sys_world (serving q)) = two_arrivals"
  "written_on p (calls (sys_world (serving q))) = []"
  unfolding serving_def
  by (simp_all add: serving_ops_def fresh_system_def two_arrivals_def system_eval system_poll_new Let_def
      client_def sample_end_def written_on_def)

lemma serving_reach: "sys_reach system_lwip system_network sn_regs (serving q)"
  using fresh_start sys_run_steps [OF serving_runs] unfolding sys_reach_def by blast

end
