(* ===== verification/Sample_Client.thy ===== *)
theory Sample_Client
  imports Client_System Sample_System Mqtt_Wire
begin

text \<open>
  A client on the concrete lwIP of \<open>Sample_System\<close>, with a clock that runs while it sleeps: it dials a
  broker, sends its CONNECT in pieces of five bytes, and gets the broker's CONNACK. The witnesses
  about a client among other objects start from there.
\<close>

definition ticking_platform :: "SampleNet Platform" where
  "ticking_platform =
     \<lparr>nil_time = 0,
      get_absolute_time = (\<lambda>e. (sn_time e, e)),
      make_timeout_time_ms = (\<lambda>ms e. (sn_time e + 1000 * unat ms, e)),
      absolute_time_diff_us = (\<lambda>a b. int b - int a),
      sleep_ms = (\<lambda>ms e. e\<lparr>sn_time := sn_time e + 1000 * unat ms\<rparr>)\<rparr>"

lemma ticking_sel [simp]:
  "nil_time (sys_platform ticking_platform) = 0"
  "get_absolute_time (sys_platform ticking_platform) s = (sn_time (env (sys_world s)), s)"
  "make_timeout_time_ms (sys_platform ticking_platform) ms s = (sn_time (env (sys_world s)) + 1000 * unat ms, s)"
  "absolute_time_diff_us (sys_platform ticking_platform) a b = int b - int a"
  "sleep_ms (sys_platform ticking_platform) ms s =
     s\<lparr>sys_world := sys_world s\<lparr>env := (env (sys_world s))\<lparr>sn_time := sn_time (env (sys_world s)) + 1000 * unat ms\<rparr>\<rparr>\<rparr>"
  by (simp_all add: ticking_platform_def sys_platform_def on_sys_def world_platform_def on_env_def)

section \<open>The connection to the broker\<close>

text \<open>The one object is the connection 11, on the control block 1.\<close>

definition linked :: "(LwipCall \<times> err_t) list \<Rightarrow> LwipEvent list \<Rightarrow> LwipEvent list list \<Rightarrow> SampleNet TcpSystem" where
  "linked ks evs q =
     \<lparr>sys_world = \<lparr>env = \<lparr>sn_regs = (\<lambda>p. free_block)(1 := (new_block (Some 11))\<lparr>pv_recv := True, pv_err := True\<rparr>),
          sn_next = 12, sn_pcb = 2, sn_queue = q, sn_time = 10000\<rparr>, calls = ks, delivered = evs\<rparr>,
      sys_objects = [11 \<mapsto> ConnObject (client 11 1)]\<rparr>"

definition broker_found :: LwipEvent where
  "broker_found = TcpConnectedEvent (Some 10) 1 ERR_OK"

definition broker_says :: "u8 list \<Rightarrow> LwipEvent" where
  "broker_says bs = TcpRecvEvent (Some 11) 1 (Some bs) ERR_OK"

definition dial_calls :: "(LwipCall \<times> err_t) list" where
  "dial_calls = map (\<lambda>k. (k, ERR_OK))
     [TcpArg 1 (Some 10), TcpConnect 1 (IP4 10 0 0 1) 1883, TcpArg 1 (Some 11), TcpRecv 1 True, TcpErr 1 True]"

lemma dial_run:
  "sys_dial_tcp ticking_platform system_lwip system_network (sample_end 1883) 1000
     (fresh_system ([broker_found] # q)) = Some (Inr 11, linked dial_calls [broker_found] q)"
  by (simp add: sys_dial_tcp_def sys_dial_start_def dial_start_def fresh_system_def system_eval system_poll_new
      sys_dial_wait.simps dial_dispatch_def tcp_dial_connected_callback_def new_TcpDialState_def
      sys_dial_finish_def dial_finish_def Let_def sample_end_def linked_def broker_found_def client_def dial_calls_def)

lemma linked_simps [simp]:
  "sys_objects (linked ks evs q) 11 = Some (ConnObject (client 11 1))"
  "sn_time (env (sys_world (linked ks evs q))) = 10000"
  by (simp_all add: linked_def)

lemma linked_write:
  assumes "bs \<noteq> []"
  shows "sys_write system_lwip bs 11 (linked ks evs q) =
    Inr (Inr (min (length bs) 5),
      linked (ks @ [(TcpWrite 1 (take (min (length bs) 5) bs), ERR_OK), (TcpOutput 1, ERR_OK)]) evs q)"
  using assms by (simp add: system_eval linked_def client_def Let_def)

lemma linked_read:
  assumes "bs \<noteq> []" and "length bs \<le> 256"
  shows "sys_read system_lwip 256 11 (linked ks evs ([broker_says bs] # q)) =
    Inr (Inr bs, linked (ks @ [(TcpRecved 1 (length bs), ERR_OK), (PbufFree bs, ERR_OK)]) (evs @ [broker_says bs]) q)"
  using assms by (simp add: system_eval system_poll_new linked_def client_def broker_says_def Let_def)

section \<open>The client connects\<close>

abbreviation sample_heap :: "(obj, SampleNet TcpSystem) Connection" where
  "sample_heap \<equiv> heap_ops ticking_platform system_lwip"

lemma linked_send:
  assumes "conn cl = Some 11"
  shows "\<exists>ks'. send_loop sample_heap bs n cl (linked ks evs q) = (None, cl, linked ks' evs q) \<and>
    written_on 1 ks' = written_on 1 ks @ drop n bs"
proof (induction "length bs - n" arbitrary: n ks rule: less_induct)
  case less
  show ?case
  proof (cases "n < length bs")
    case False
    then show ?thesis by (intro exI [of _ ks]) (simp add: send_loop.simps [of sample_heap bs n])
  next
    case True
    let ?k = "min (length bs - n) 5"
    let ?ks = "ks @ [(TcpWrite 1 (take ?k (drop n bs)), ERR_OK), (TcpOutput 1, ERR_OK)]"
    have w: "conn_write sample_heap (drop n bs) 11 (linked ks evs q) = (Inr ?k, 11, linked ?ks evs q)"
      using True linked_write [of "drop n bs"] by simp
    have same: "cl\<lparr>conn := Some 11\<rparr> = cl" using assms by simp
    obtain ks' where "send_loop sample_heap bs (n + ?k) cl (linked ?ks evs q) = (None, cl, linked ks' evs q)"
      and "written_on 1 ks' = written_on 1 ?ks @ drop (n + ?k) bs"
      using less.hyps [of "n + ?k" ?ks] True by (meson diff_less_mono2 less_add_same_cancel1 min_less_iff_conj zero_less_diff zero_less_numeral)
    moreover have "take ?k (drop n bs) @ drop (n + ?k) bs = drop n bs"
      by (metis append_take_drop_id drop_drop add.commute)
    ultimately show ?thesis
      using True send_loop_run [OF assms w] same by (auto simp: written_on_def)
  qed
qed

definition client_hello :: MqttConnectMessage where
  "client_hello = \<lparr>connect_clean_session = True, connect_keep_alive = 60, connect_client_id = ''a'',
     connect_will = None, connect_username = None, connect_password = None\<rparr>"

lemma client_hello_encoded: "\<exists>e. encode_connect client_hello = Inr e"
  by (simp add: encode_connect_def client_hello_def connect_body_def connect_flags_def codec_eval)

lemma connack_framed:
  "mqtt_frame_info [0x20, 2, 0, 0] = \<lparr>frame_complete = True, frame_total_size = 4, frame_error = None\<rparr>"
  using frame_info_frame [of "[0, 0]" CONNACK 0 "[]"]
  by (simp add: valid_packet_def validate_fixed_header_flags_def codec_eval)

lemma connack_parsed:
  "parse_control_packet [0x20, 2, 0, 0] = Inr (mk_packet CONNACK 0 [0, 0])"
  "parse_connack (mk_packet CONNACK 0 [0, 0]) =
     Inr \<lparr>connack_session_present = False, connack_return_code = ACCEPTED\<rparr>"
  using parse_frame [of CONNACK 0 "[0, 0]" "[]"]
  by (simp_all add: valid_packet_def validate_fixed_header_flags_def codec_eval parse_connack_iff connack_ok_def connack_body_def)

definition broker_accepts :: "LwipEvent list list" where
  "broker_accepts = [[broker_found], [broker_says [0x20, 2, 0, 0]]]"

text \<open>The client after its CONNACK.\<close>

definition joined :: "obj MqttClient" where
  "joined = (new_MqttClient (sys_platform ticking_platform))
     \<lparr>conn := Some 11, client_state := CONNECTED, keep_alive_seconds := 60, last_tx := 10000, last_rx := 10000\<rparr>"

lemma join_run:
  "\<exists>ks. heap_client ticking_platform system_lwip system_network (ClConnect (sample_end 1883) client_hello 1000)
     (new_MqttClient (sys_platform ticking_platform)) (fresh_system (broker_accepts @ q)) =
     Some (None, joined, linked ks [broker_found, broker_says [0x20, 2, 0, 0]] q)"
proof -
  obtain e where e: "encode_connect client_hello = Inr e" using client_hello_encoded ..
  let ?cl = "(new_MqttClient (sys_platform ticking_platform))
     \<lparr>client_state := CONNECTING, conn := Some 11, keep_alive_seconds := 60, rx_buffer := []\<rparr>"
  let ?s = "\<lambda>ks. linked ks [broker_found] ([broker_says [0x20, 2, 0, 0]] # q)"
  obtain ks where send: "send_loop sample_heap (packet_bytes e) 0 ?cl (?s dial_calls) = (None, ?cl, ?s ks)"
    using linked_send [of ?cl "packet_bytes e" 0 dial_calls] by auto
  have "send_encoded (sys_platform ticking_platform) sample_heap e ?cl (?s dial_calls) =
      (None, ?cl\<lparr>last_tx := 10000\<rparr>, ?s ks)"
    using send by (simp add: send_encoded_def new_MqttClient_def)
  moreover have "connect_round (sys_platform ticking_platform) sample_heap 1010000 (?cl\<lparr>last_tx := 10000\<rparr>) (?s ks) =
      Inl (None, joined, linked (ks @ [(TcpRecved 1 (Suc (Suc (Suc (Suc 0)))), ERR_OK), (PbufFree [0x20, 2, 0, 0], ERR_OK)])
        [broker_found, broker_says [0x20, 2, 0, 0]] q)"
    by (simp add: connect_round_def connect_received_def linked_read new_MqttClient_def joined_def
        connack_framed connack_parsed)
  ultimately show ?thesis
    using dial_run [of "[broker_says [0x20, 2, 0, 0]] # q"] e
    by (intro exI [of _ "ks @ [(TcpRecved 1 (Suc (Suc (Suc (Suc 0)))), ERR_OK), (PbufFree [0x20, 2, 0, 0], ERR_OK)]"])
       (simp add: connect_def new_MqttClient_def broker_accepts_def await_connack.simps client_hello_def)
qed

text \<open>A publish of the sample client, over the connection 11.\<close>

lemma linked_publish:
  "\<exists>ks'. publish (sys_platform ticking_platform) sample_heap ''t'' [7] True joined (linked ks evs q) =
     (None, joined, linked ks' evs q)"
proof -
  have e: "encode_publish \<lparr>publish_dup = False, publish_qos = 0, publish_retain = True,
      publish_topic_name = ''t'', publish_packet_identifier = None, publish_payload = [7]\<rparr>
      = Inr \<lparr>packet_bytes = [0x31, 4, 0, 1, 116, 7]\<rparr>"
    by (simp add: encode_publish_def publish_flags_def codec_eval)
  obtain ks' where "send_loop sample_heap [0x31, 4, 0, 1, 116, 7] 0 joined (linked ks evs q) = (None, joined, linked ks' evs q)"
    using linked_send [of joined "[0x31, 4, 0, 1, 116, 7]" 0 ks evs q] by (auto simp: joined_def)
  then show ?thesis by (intro exI [of _ ks']) (simp add: publish_def e send_encoded_def joined_def new_MqttClient_def)
qed

end
