(* ===== verification/Tcp_System_Service.thy ===== *)
theory Tcp_System_Service
  imports Tcp_System_Steps Sample_System
begin

text \<open>
  The properties of the TCP objects together, over every interleaving of their operations: what
  lwIP calls back is there, a block has one owner, streams do not mix, and what goes wrong when a
  connection whose peer has ended the stream is destroyed.
\<close>

section \<open>What an operation leaves of a connection\<close>

text \<open>The bytes a step has read from a connection, and those it has handed to lwIP for it.\<close>

fun bytes_got :: "obj \<Rightarrow> TcpOp \<times> TcpOut \<Rightarrow> u8 list" where
  "bytes_got a (OpRead b n, OutRead (Inr bs)) = (if b = a then bs else [])"
| "bytes_got a step = []"

fun bytes_put :: "obj \<Rightarrow> TcpOp \<times> TcpOut \<Rightarrow> u8 list" where
  "bytes_put a (OpWrite b bs, OutWritten (Inr n)) = (if b = a then take n bs else [])"
| "bytes_put a step = []"

fun write_failed :: "obj \<Rightarrow> TcpOp \<times> TcpOut \<Rightarrow> bool" where
  "write_failed a (OpWrite b bs, OutWritten (Inl err)) \<longleftrightarrow> b = a"
| "write_failed a step \<longleftrightarrow> False"

definition got_in :: "obj \<Rightarrow> (TcpOp \<times> TcpOut) list \<Rightarrow> u8 list" where
  "got_in a tr = concat (map (bytes_got a) tr)"

definition put_in :: "obj \<Rightarrow> (TcpOp \<times> TcpOut) list \<Rightarrow> u8 list" where
  "put_in a tr = concat (map (bytes_put a) tr)"

lemma got_put_simps [simp]:
  "got_in a [] = []" "got_in a (tr @ [x]) = got_in a tr @ bytes_got a x"
  "put_in a [] = []" "put_in a (tr @ [x]) = put_in a tr @ bytes_put a x"
  by (simp_all add: got_in_def put_in_def)

text \<open>Only a write hands data to lwIP.\<close>

lemma written_on_other: "\<forall>q bs. k \<noteq> TcpWrite q bs \<Longrightarrow> written_on p [(k, e)] = []"
  by (cases k) (auto simp: written_on_def)

lemma written_call [simp]:
  "\<forall>q bs. k \<noteq> TcpWrite q bs \<Longrightarrow> written_on p (calls (call_void lw k w)) = written_on p (calls w)"
  "\<forall>q bs. k \<noteq> TcpWrite q bs \<Longrightarrow> written_on p (calls (snd (call lw k w))) = written_on p (calls w)"
  by (simp_all add: call_log(1) call_void_log(1) written_on_other)

lemma tcp_dispatch_written:
  "written_on p (calls (snd (tcp_dispatch lw ev (c, w)))) = written_on p (calls w)"
  by (auto simp: tcp_dispatch_def tcp_recv_callback_def handle_tcp_recv_def tcp_err_callback_def
      split: LwipEvent.split option.split)

lemma tcpl_dispatch_written:
  "written_on p (calls (snd (tcpl_dispatch lw ev (l, w)))) = written_on p (calls w)"
proof -
  have "written_on p (calls (snd (snd (handle_tcp_accept lw newpcb err l w)))) = written_on p (calls w)" for newpcb err
    by (cases newpcb; cases err)
      (auto simp: handle_tcp_accept_def abort_new_def Let_def case_prod_beta on_env_log)
  then show ?thesis
    by (auto simp: tcpl_dispatch_def tcp_accept_callback_def case_prod_beta split: LwipEvent.split)
qed

lemma dispatch_written:
  assumes "sys_dispatch lw ev s = Inr s'"
  shows "written_on p (calls (sys_world s')) = written_on p (calls (sys_world s))"
  using assms
  by (auto simp: sys_dispatch_def bindE_Inr_iff get_Inr case_prod_beta Let_def tcp_dispatch_written
      tcpl_dispatch_written tcp_recv_callback_def tcp_accept_callback_def abort_new_def
      split: LwipEvent.splits option.splits)

lemma dispatch_all_written:
  "sys_dispatch_all lw evs s = Inr s' \<Longrightarrow> written_on p (calls (sys_world s')) = written_on p (calls (sys_world s))"
proof (induction evs arbitrary: s)
  case (Cons ev evs)
  then obtain s1 where "sys_dispatch lw ev s = Inr s1" "sys_dispatch_all lw evs s1 = Inr s'" by (auto simp: bindE_Inr_iff)
  then show ?case using Cons.IH dispatch_written by metis
qed simp

lemma fold_dispatch_pcb:
  "fold (tcp_dispatch lw) evs (c, w) = (c', w') \<Longrightarrow> tcp_pcb c' = tcp_pcb c \<or> tcp_pcb c' = None"
proof (induction evs arbitrary: c w)
  case (Cons ev evs)
  obtain c1 w1 where d: "tcp_dispatch lw ev (c, w) = (c1, w1)" by fastforce
  have "tcp_pcb c1 = tcp_pcb c \<or> tcp_pcb c1 = None"
    using d by (auto simp: tcp_dispatch_def tcp_recv_callback_def handle_tcp_recv_def tcp_err_callback_def
        handle_tcp_err_def split: LwipEvent.splits if_splits option.splits)
  then show ?case using Cons.IH [of c1 w1] Cons.prems d by auto
qed simp

text \<open>The connection, its stream and its sent data across a step.\<close>

definition conn_step :: "obj \<Rightarrow> TcpOp \<times> TcpOut \<Rightarrow> TcpConnection \<Rightarrow> 'e TcpSystem \<Rightarrow> 'e TcpSystem \<Rightarrow> bool" where
  "conn_step a x c s s' \<longleftrightarrow> (\<exists>c' evs. sys_objects s' a = Some (ConnObject c') \<and>
     delivered (sys_world s') = delivered (sys_world s) @ evs \<and>
     bytes_got a x @ tcp_rx_buffer c' = tcp_rx_buffer c @ stream_of a evs \<and>
     (tcp_pcb c' = tcp_pcb c \<or> tcp_pcb c' = None) \<and>
     (\<forall>p. tcp_pcb c = Some p \<longrightarrow> \<not> write_failed a x \<longrightarrow>
        written_on p (calls (sys_world s')) = written_on p (calls (sys_world s)) @ bytes_put a x))"

lemma poll_conn:
  assumes law: "lwip_law lw regs next_addr" and ok: "sys_ok regs next_addr s"
    and c: "sys_objects s a = Some (ConnObject c)" and run: "sys_poll lw s = Inr s'"
  shows "\<exists>c' evs. sys_objects s' a = Some (ConnObject c') \<and>
     delivered (sys_world s') = delivered (sys_world s) @ evs \<and>
     tcp_rx_buffer c' = tcp_rx_buffer c @ stream_of a evs \<and> (tcp_pcb c' = tcp_pcb c \<or> tcp_pcb c' = None)"
    "written_on p (calls (sys_world s')) = written_on p (calls (sys_world s))"
proof -
  obtain evs w1 where p: "arch_poll lw (sys_world s) = (evs, w1)" by fastforce
  have all: "sys_dispatch_all lw evs (s\<lparr>sys_world := w1\<rparr>) = Inr s'" using run p by (simp add: sys_poll_def)
  have w1: "delivered w1 = delivered (sys_world s) @ evs" "calls w1 = calls (sys_world s)"
    using arch_poll_log [of lw "sys_world s"] p by simp_all
  have own: "tcp_this c = a" by (rule conn_this [OF ok c])
  obtain c' w' where f: "fold (tcp_dispatch lw) evs (c, w1) = (c', w')" by fastforce
  have c': "sys_objects s' a = Some (ConnObject c')"
    using dispatch_all_conn [OF all, of a c w1] c own f by simp
  have "\<exists>s2. sys_poll lw s = Inr s2 \<and> delivered (sys_world s2) = delivered w1"
  proof -
    have "sys_inv (regs (env (sys_world s))) (next_addr (env (sys_world (s\<lparr>sys_world := w1\<rparr>)))) (delivered w1)
        (sys_objects (s\<lparr>sys_world := w1\<rparr>))"
      using sys_inv_mono [OF ok [unfolded sys_ok_def] order_refl, of "delivered w1"] w1
        law_poll(2) [OF law, of "env (sys_world s)"] p by (auto simp: arch_poll_def split: prod.splits)
    from run_dispatch [OF law _ this, of evs "regs (env w1)"] show ?thesis
      using law_poll(1) [OF law, of "env (sys_world s)"] p w1
      by (auto simp: sys_poll_def arch_poll_def dispatched_def split: prod.splits)
  qed
  then have "delivered (sys_world s') = delivered (sys_world s) @ evs" using run w1 by simp
  moreover have "tcp_rx_buffer c' = tcp_rx_buffer c @ stream_of a evs" using tcp_dispatch_all [OF f] own by simp
  ultimately show "\<exists>c' evs. sys_objects s' a = Some (ConnObject c') \<and>
     delivered (sys_world s') = delivered (sys_world s) @ evs \<and>
     tcp_rx_buffer c' = tcp_rx_buffer c @ stream_of a evs \<and> (tcp_pcb c' = tcp_pcb c \<or> tcp_pcb c' = None)"
    using c' fold_dispatch_pcb [OF f] by blast
  show "written_on p (calls (sys_world s')) = written_on p (calls (sys_world s))"
    using dispatch_all_written [OF all] w1(2) by simp
qed

lemma tcp_close_written: "written_on p (calls (snd (snd (tcp_close lw c w)))) = written_on p (calls w)"
  by (auto simp: tcp_close_def Let_def case_prod_beta split: option.split)

lemma tcp_destroy_written: "written_on p (calls (tcp_destroy lw c w)) = written_on p (calls w)"
  using tcp_close_written [of p lw c w] by (auto simp: tcp_destroy_def Let_def case_prod_beta)

lemma close_waiting_written: "written_on p (calls (snd (close_waiting lw cs w))) = written_on p (calls w)"
proof (induction cs arbitrary: w)
  case (Cons c cs)
  have "written_on p (calls (snd (close_waiting lw cs (snd (snd (tcp_close lw c w)))))) = written_on p (calls w)"
    using Cons.IH tcp_close_written by metis
  then show ?case by (simp add: case_prod_beta Let_def)
qed simp

lemma fold_destroy_written: "written_on p (calls (fold (tcp_destroy lw) cs w)) = written_on p (calls w)"
  by (induction cs arbitrary: w) (simp_all add: tcp_destroy_written)

lemma tcpl_close_written: "written_on p (calls (snd (snd (tcpl_close lw l w)))) = written_on p (calls w)"
  by (auto simp: tcpl_close_def Let_def case_prod_beta fold_destroy_written close_waiting_written split: option.split)

lemma tcpl_destroy_written: "written_on p (calls (tcpl_destroy lw l w)) = written_on p (calls w)"
  using tcpl_close_written [of p lw l w] by (auto simp: tcpl_destroy_def Let_def case_prod_beta)

lemma dial_cleanup_written: "written_on p (calls (snd (dial_cleanup lw q msg w))) = written_on p (calls w)"
  by (auto simp: dial_cleanup_def Let_def case_prod_beta)

lemma attach_written: "tcp_attach_callbacks lw c w = Inr w' \<Longrightarrow> written_on p (calls w') = written_on p (calls w)"
  by (auto simp: tcp_attach_callbacks_def Let_def split: option.splits)

lemma dial_start_written: "written_on p (calls (snd (dial_start lw net address w))) = written_on p (calls w)"
  by (auto simp: dial_start_def Let_def case_prod_beta dial_cleanup_written on_env_log split: option.split)

lemma dial_finish_written: "written_on p (calls (snd (dial_finish lw q address st w))) = written_on p (calls w)"
  by (auto simp: dial_finish_def Let_def case_prod_beta dial_cleanup_written on_env_log
      dest: attach_written [where p = p] split: option.split sum.split)

lemma listen_tcp_written: "written_on p (calls (snd (listen_tcp lw net port w))) = written_on p (calls w)"
  by (auto simp: listen_tcp_def tcpl_attach_callbacks_def Let_def case_prod_beta on_env_log split: option.split sum.split)

lemma tcp_write_other:
  "tcp_pcb c \<noteq> Some p \<Longrightarrow> written_on p (calls (snd (snd (tcp_write lw bs c w)))) = written_on p (calls w)"
  by (auto simp: tcp_write_def Let_def case_prod_beta call_log(1) split: option.split)

lemma conn_step_same:
  "sys_objects s' a = Some (ConnObject c) \<Longrightarrow> delivered (sys_world s') = delivered (sys_world s) \<Longrightarrow>
   (\<And>p. written_on p (calls (sys_world s')) = written_on p (calls (sys_world s))) \<Longrightarrow>
   bytes_got a x = [] \<Longrightarrow> bytes_put a x = [] \<Longrightarrow> conn_step a x c s s'"
  by (auto simp: conn_step_def)

lemma read_conn:
  assumes law: "lwip_law lw regs next_addr" and ok: "sys_ok regs next_addr s"
    and c: "sys_objects s a = Some (ConnObject c)" and run: "sys_read lw n b s = Inr (r, s')"
  shows "conn_step a (OpRead b n, OutRead r) c s s'"
proof (cases "n = 0")
  case True
  then show ?thesis using run c by (auto simp: sys_read_def intro!: conn_step_same)
next
  case False
  obtain s1 cb where s1: "sys_poll lw s = Inr s1" "sys_objects s1 b = Some (ConnObject cb)"
    and s': "(r, s') = (fst (tcp_take n cb), put b (ConnObject (snd (tcp_take n cb))) (sys_world s1) s1)"
    using run False by (auto simp: sys_read_def bindE_Inr_iff get_Inr case_prod_beta)
  obtain c1 evs where c1: "sys_objects s1 a = Some (ConnObject c1)"
      "delivered (sys_world s1) = delivered (sys_world s) @ evs"
      "tcp_rx_buffer c1 = tcp_rx_buffer c @ stream_of a evs" "tcp_pcb c1 = tcp_pcb c \<or> tcp_pcb c1 = None"
      "\<And>p. written_on p (calls (sys_world s1)) = written_on p (calls (sys_world s))"
    using poll_conn [OF law ok c s1(1)] by blast
  show ?thesis
  proof (cases "b = a")
    case True
    obtain c2 where take: "tcp_take n c1 = (r, c2)" and s'': "s' = put a (ConnObject c2) (sys_world s1) s1"
      using s' s1(2) c1(1) True by (cases "tcp_take n c1") auto
    have "bytes_got a (OpRead b n, OutRead r) = (case r of Inr bs \<Rightarrow> bs | Inl _ \<Rightarrow> [])"
      using True by (cases r) simp_all
    then show ?thesis
      using c1(2-5) tcp_take_step(1,5) [OF take] by (simp add: conn_step_def s'')
  next
    case False
    then have "bytes_got a (OpRead b n, OutRead r) = []" by (cases r) simp_all
    then show ?thesis using c1 s' False by (simp add: conn_step_def)
  qed
qed

lemma write_conn:
  assumes law: "lwip_law lw regs next_addr" and ok: "sys_ok regs next_addr s"
    and c: "sys_objects s a = Some (ConnObject c)" and run: "sys_write lw bs b s = Inr (r, s')"
  shows "conn_step a (OpWrite b bs, OutWritten r) c s s'"
proof -
  obtain cb where cb: "sys_objects s b = Some (ConnObject cb)"
    using run by (auto simp: sys_write_def bindE_Inr_iff get_Inr)
  obtain r0 c0 w where run0: "tcp_write lw bs cb (sys_world s) = (r0, c0, w)" by (metis prod_cases3)
  have "c0 = cb"
    using tcp_write_untouched(2) [OF law, where w = "sys_world s" and bs = bs and c = cb] run0 by simp
  then have w: "tcp_write lw bs cb (sys_world s) = (r, cb, w)" and s': "s' = put b (ConnObject cb) w s"
    using run cb run0 by (simp_all add: sys_write_def)
  have d: "delivered w = delivered (sys_world s)"
    using tcp_write_untouched(1) [OF law, where w = "sys_world s" and bs = bs and c = cb] w by (simp add: untouched_def)
  have obj: "sys_objects s' a = Some (ConnObject c)" using c cb s' by auto
  have sent: "written_on p (calls w) = written_on p (calls (sys_world s)) @ bytes_put a (OpWrite b bs, OutWritten r)"
    if p: "tcp_pcb c = Some p" and no: "\<not> write_failed a (OpWrite b bs, OutWritten r)" for p
  proof (cases "b = a")
    case True
    then obtain n where n: "r = Inr n" using no by (cases r) auto
    then show ?thesis
      using tcp_write_Inr(3) [of lw bs cb "sys_world s" n cb w] w True c cb p by (simp add: tcp_sent_def)
  next
    case False
    have "tcp_pcb cb \<noteq> Some p"
      using conn_block(2) [OF ok [unfolded sys_ok_def] c p] conn_block(2) [OF ok [unfolded sys_ok_def] cb, of p] False
      by auto
    then have "written_on p (calls w) = written_on p (calls (sys_world s))"
      using tcp_write_other [of cb p lw bs "sys_world s"] w by simp
    then show ?thesis using False by (cases r) simp_all
  qed
  have "bytes_got a (OpWrite b bs, OutWritten r) = []" by simp
  then show ?thesis using obj d sent s' unfolding conn_step_def
    by (intro exI [of _ c] exI [of _ "[]"]) simp
qed

lemma accept_conn:
  assumes law: "lwip_law lw regs next_addr" and ok: "sys_ok regs next_addr s"
    and c: "sys_objects s a = Some (ConnObject c)" and run: "sys_accept lw b s = Inr (r, s')"
  shows "conn_step a (OpAccept b, OutObject r) c s s'"
proof -
  obtain l where l: "sys_objects s b = Some (ListenerObject l)"
    using run by (auto simp: sys_accept_def bindE_Inr_iff get_Inr)
  show ?thesis
  proof (cases "tcpl_is_closed l \<or> tcpl_has_error l")
    case True
    then have "s' = s" using run l by (auto simp: sys_accept_def split: if_splits)
    then show ?thesis using c by (simp add: conn_step_same)
  next
    case False
    then obtain s1 l1 where s1: "sys_poll lw s = Inr s1" "sys_objects s1 b = Some (ListenerObject l1)"
      and rest: "(case tcpl_take lw l1 (sys_world s1) of
             (Inl fault, l, w) \<Rightarrow> Inl fault
           | (Inr None, l, w) \<Rightarrow> Inr (Inr None, put b (ListenerObject l) w s1)
           | (Inr (Some d), l, w) \<Rightarrow>
               Inr (Inr (Some (tcp_this d)), put (tcp_this d) (ConnObject d) w (put b (ListenerObject l) w s1)))
         = Inr (r, s')"
      using run l by (auto simp: sys_accept_def bindE_Inr_iff get_Inr)
    obtain c1 evs where c1: "sys_objects s1 a = Some (ConnObject c1)"
        "delivered (sys_world s1) = delivered (sys_world s) @ evs"
        "tcp_rx_buffer c1 = tcp_rx_buffer c @ stream_of a evs" "tcp_pcb c1 = tcp_pcb c \<or> tcp_pcb c1 = None"
        "\<And>p. written_on p (calls (sys_world s1)) = written_on p (calls (sys_world s))"
      using poll_conn [OF law ok c s1(1)] by blast
    have ba: "b \<noteq> a" using s1(2) c1(1) by auto
    have ok1: "sys_ok regs next_addr s1" using poll_ok [OF law ok] s1(1) by auto
    show ?thesis
    proof (cases "tcpl_pending l1")
      case Nil
      then have "s' = put b (ListenerObject l1) (sys_world s1) s1" using rest by (simp add: tcpl_take_def)
      then show ?thesis using c1 ba by (simp add: conn_step_def)
    next
      case (Cons d ds)
      have d: "d \<in> set (tcpl_pending l1)" using Cons by simp
      obtain q where q: "tcp_pcb d = Some q"
        using sys_invD(3) [OF ok1 [unfolded sys_ok_def] s1(2)] d by (auto simp: object_ok_def listener_obj_ok_def)
      obtain w' where w': "tcp_attach_callbacks lw d (sys_world s1) = Inr w'" "delivered w' = delivered (sys_world s1)"
        using attach_regs [OF law q refl, of "sys_world s1"] by blast
      have "s' = put (tcp_this d) (ConnObject d) w' (put b (ListenerObject (l1\<lparr>tcpl_pending := ds\<rparr>)) w' s1)"
        using rest Cons w'(1) by (simp add: tcpl_take_def)
      moreover have "tcp_this d \<noteq> a"
        using waiting_okD(3) [OF sys_invD(4) [OF ok1 [unfolded sys_ok_def]] s1(2) d] c1(1) by auto
      ultimately show ?thesis using c1 ba w'(2) attach_written [OF w'(1)] by (simp add: conn_step_def)
    qed
  qed
qed

lemma exec_conn:
  assumes law: "lwip_law lw regs next_addr" and ok: "sys_ok regs next_addr s"
    and c: "sys_objects s a = Some (ConnObject c)" and run: "sys_exec lw net op s = Inr (out, s')"
    and live: "op \<noteq> OpDestroy a"
  shows "conn_step a (op, out) c s s'"
proof (cases op)
  case OpPoll
  then have run: "sys_poll lw s = Inr s'" and out: "out = OutDone None" using run by (auto simp: bindE_Inr_iff)
  show ?thesis using poll_conn [OF law ok c run] OpPoll out by (auto simp: conn_step_def)
next
  case (OpRead b n)
  then show ?thesis using run read_conn [OF law ok c] by (auto simp: returning_def bindE_Inr_iff)
next
  case (OpWrite b bs)
  then show ?thesis using run write_conn [OF law ok c] by (auto simp: returning_def bindE_Inr_iff)
next
  case (OpClose b)
  obtain cb where cb: "sys_objects s b = Some (ConnObject cb)"
    using run OpClose by (auto simp: returning_def sys_close_def bindE_Inr_iff get_Inr)
  obtain e c1 w where w: "tcp_close lw cb (sys_world s) = (e, c1, w)" by (metis prod_cases3)
  have s': "s' = put b (ConnObject c1) w s" using run OpClose cb w by (simp add: returning_def sys_close_def)
  have c1: "tcp_rx_buffer c1 = tcp_rx_buffer cb" "tcp_pcb c1 = None" "delivered w = delivered (sys_world s)"
    using w by (auto simp: tcp_close_def Let_def world_simps case_prod_beta split: option.splits if_splits)
  have "written_on p (calls w) = written_on p (calls (sys_world s))" for p
    using tcp_close_written [of p lw cb "sys_world s"] w by simp
  then show ?thesis using OpClose s' c1 c cb by (cases "b = a") (auto simp: conn_step_def)
next
  case (OpDestroy b)
  then have ba: "b \<noteq> a" using live by simp
  obtain cb where cb: "sys_objects s b = Some (ConnObject cb)"
    using run OpDestroy by (auto simp: sys_destroy_def bindE_Inr_iff get_Inr)
  obtain e c1 w where w: "tcp_close lw cb (sys_world s) = (e, c1, w)" by (metis prod_cases3)
  have "delivered w = delivered (sys_world s)"
    using w by (auto simp: tcp_close_def Let_def world_simps case_prod_beta split: option.splits if_splits)
  then have d: "delivered (tcp_destroy lw cb (sys_world s)) = delivered (sys_world s)"
    using tcp_destroy_regs [OF law w] by (simp add: untouched_def)
  have "s' = s\<lparr>sys_world := tcp_destroy lw cb (sys_world s), sys_objects := (sys_objects s)(b := None)\<rparr>"
    using run OpDestroy cb by (simp add: sys_destroy_def)
  then show ?thesis using ba c d OpDestroy tcp_destroy_written by (intro conn_step_same) auto
next
  case (OpListen port)
  obtain r w where w: "listen_tcp lw net port (sys_world s) = (r, w)" by fastforce
  note lr = listen_tcp_regs [OF law w]
  have "sys_objects s' a = Some (ConnObject c)" "sys_world s' = w" "bytes_got a (op, out) = []" "bytes_put a (op, out) = []"
    using run OpListen w c lr sys_invD(2) [OF ok [unfolded sys_ok_def] c]
    by (auto simp: returning_def sys_listen_def split: sum.splits)
  then show ?thesis using lr listen_tcp_written [of _ lw net port "sys_world s"] w by (intro conn_step_same) auto
next
  case (OpAccept b)
  then show ?thesis using run accept_conn [OF law ok c] by (auto simp: returning_def bindE_Inr_iff)
next
  case (OpCloseListener b)
  obtain l where l: "sys_objects s b = Some (ListenerObject l)"
    using run OpCloseListener by (auto simp: returning_def sys_close_listener_def bindE_Inr_iff get_Inr)
  obtain e l1 w where w: "tcpl_close lw l (sys_world s) = (e, l1, w)" by (metis prod_cases3)
  have d: "delivered w = delivered (sys_world s)"
  proof (cases "tcpl_pcb l")
    case None
    then show ?thesis using w by (auto simp: tcpl_close_def)
  next
    case (Some p)
    have "\<forall>c \<in> set (tcpl_pending l). tcp_pcb c \<noteq> None"
      using sys_invD(3) [OF ok [unfolded sys_ok_def] l] by (auto simp: object_ok_def listener_obj_ok_def)
    from tcpl_close_regs(2) [OF law w Some this] show ?thesis .
  qed
  have "s' = put b (ListenerObject l1) w s" "b \<noteq> a"
    using run OpCloseListener l w c by (auto simp: returning_def sys_close_listener_def)
  then show ?thesis
    using c d OpCloseListener tcpl_close_written [of _ lw l "sys_world s"] w by (intro conn_step_same) auto
next
  case (OpDestroyListener b)
  obtain l where l: "sys_objects s b = Some (ListenerObject l)"
    using run OpDestroyListener by (auto simp: sys_destroy_listener_def bindE_Inr_iff get_Inr)
  have d: "delivered (tcpl_destroy lw l (sys_world s)) = delivered (sys_world s)"
  proof -
    obtain e l1 w where w: "tcpl_close lw l (sys_world s) = (e, l1, w)" by (metis prod_cases3)
    have pend: "\<forall>c \<in> set (tcpl_pending l). tcp_pcb c \<noteq> None"
      using sys_invD(3) [OF ok [unfolded sys_ok_def] l] by (auto simp: object_ok_def listener_obj_ok_def)
    have "delivered w = delivered (sys_world s)"
    proof (cases "tcpl_pcb l")
      case None
      then show ?thesis using w by (auto simp: tcpl_close_def)
    next
      case (Some p)
      from tcpl_close_regs(2) [OF law w Some pend] show ?thesis .
    qed
    then show ?thesis by (simp add: tcpl_destroy_def w call_void_log(2))
  qed
  have "s' = s\<lparr>sys_world := tcpl_destroy lw l (sys_world s), sys_objects := (sys_objects s)(b := None)\<rparr>" "b \<noteq> a"
    using run OpDestroyListener l c by (auto simp: sys_destroy_listener_def)
  then show ?thesis using c d OpDestroyListener tcpl_destroy_written by (intro conn_step_same) auto
next
  case (OpDial address)
  obtain r w where w: "dial_start lw net address (sys_world s) = (r, w)" by fastforce
  note dr = dial_start_regs [OF law w]
  have "sys_objects s' a = Some (ConnObject c)" "sys_world s' = w" "bytes_got a (op, out) = []" "bytes_put a (op, out) = []"
    using run OpDial w c dr(3) sys_invD(2) [OF ok [unfolded sys_ok_def] c]
    by (auto simp: returning_def sys_dial_start_def split: sum.splits)
  then show ?thesis
    using dr(2) dial_start_written [of _ lw net address "sys_world s"] w by (intro conn_step_same) auto
next
  case (OpDialFinish b)
  obtain p addr st where b: "sys_objects s b = Some (DialObject p addr st)"
    using run OpDialFinish by (auto simp: returning_def sys_dial_finish_def bindE_Inr_iff get_Inr)
  obtain r w where w: "dial_finish lw p addr st (sys_world s) = (r, w)" by fastforce
  have d: "delivered w = delivered (sys_world s) \<and> (\<forall>c1. r = Inr c1 \<longrightarrow> next_addr (env (sys_world s)) \<le> tcp_this c1)"
  proof (cases "connected_pcb st \<noteq> None \<and> dial_success st")
    case False
    then have clean: "dial_cleanup lw p ''tcp connect failed'' (sys_world s) = (r, w)"
      using w by (auto simp: dial_finish_def split: option.splits)
    then show ?thesis using dial_cleanup_regs(1,3) [OF law clean] by simp
  next
    case True
    then obtain q where q: "connected_pcb st = Some q" "dial_success st" by auto
    obtain this e where new: "new_object lw (env (sys_world s)) = (this, e)" by fastforce
    define c1 where "c1 = new_TcpConnection this q \<lparr>address_network = ''tcp'', address_ip = local_ip lw (sys_world s),
      address_port = lwip_local_port lw q (env (sys_world s))\<rparr> addr"
    have "tcp_pcb c1 = Some q" by (simp add: c1_def)
    from attach_regs [OF law this refl] obtain w1 where
      w1: "tcp_attach_callbacks lw c1 ((sys_world s)\<lparr>env := e\<rparr>) = Inr w1" "delivered w1 = delivered (sys_world s)"
      by (metis World.select_convs(3) World.surjective World.update_convs(1))
    have "r = Inr c1" "w = w1" using w q w1(1) new by (simp_all add: dial_finish_def on_env_def Let_def c1_def)
    then show ?thesis using w1(2) law_new_object(1) [OF law new] by (simp add: c1_def)
  qed
  have ba: "b \<noteq> a" using b c by auto
  have "sys_objects s' a = Some (ConnObject c)" "sys_world s' = w" "bytes_got a (op, out) = []" "bytes_put a (op, out) = []"
    using run OpDialFinish b w c ba d sys_invD(2) [OF ok [unfolded sys_ok_def] c]
    by (auto simp: returning_def sys_dial_finish_def Let_def split: sum.splits)
  then show ?thesis using d dial_finish_written [of _ lw p addr st "sys_world s"] w by (intro conn_step_same) auto
next
  case (OpDialTimeout b)
  obtain p addr st where b: "sys_objects s b = Some (DialObject p addr st)"
    using run OpDialTimeout by (auto simp: returning_def sys_dial_timeout_def bindE_Inr_iff get_Inr)
  obtain r :: "obj result" and w where w: "dial_cleanup lw p ''tcp connect timeout'' (sys_world s) = (r, w)" by fastforce
  have "sys_objects s' a = Some (ConnObject c)" "sys_world s' = w" "bytes_got a (op, out) = []" "bytes_put a (op, out) = []"
    using run OpDialTimeout b w c by (auto simp: returning_def sys_dial_timeout_def)
  moreover have "written_on q (calls w) = written_on q (calls (sys_world s))" for q
    using dial_cleanup_written [of q lw p "''tcp connect timeout''" "sys_world s"] w by (metis snd_conv)
  ultimately show ?thesis using dial_cleanup_regs(3) [OF law w] by (intro conn_step_same) simp_all
qed

lemma steps_conn:
  assumes law: "lwip_law lw regs next_addr" and ok: "sys_ok regs next_addr s"
    and c: "sys_objects s a = Some (ConnObject c)" and run: "sys_steps lw net s tr s'"
    and live: "OpDestroy a \<notin> fst ` set tr"
  shows "\<exists>c' evs. sys_objects s' a = Some (ConnObject c') \<and>
     delivered (sys_world s') = delivered (sys_world s) @ evs \<and>
     got_in a tr @ tcp_rx_buffer c' = tcp_rx_buffer c @ stream_of a evs \<and>
     (tcp_pcb c' = tcp_pcb c \<or> tcp_pcb c' = None) \<and>
     (\<forall>p. tcp_pcb c' = Some p \<longrightarrow> (\<forall>x \<in> set tr. \<not> write_failed a x) \<longrightarrow>
        written_on p (calls (sys_world s')) = written_on p (calls (sys_world s)) @ put_in a tr)"
  using run live
proof (induction rule: sys_steps.induct)
  case steps_nil
  then show ?case using c by simp
next
  case (steps_snoc tr s1 op out s2)
  obtain c1 evs1 where IH: "sys_objects s1 a = Some (ConnObject c1)"
      "delivered (sys_world s1) = delivered (sys_world s) @ evs1"
      "got_in a tr @ tcp_rx_buffer c1 = tcp_rx_buffer c @ stream_of a evs1"
      "tcp_pcb c1 = tcp_pcb c \<or> tcp_pcb c1 = None"
      "\<And>p. tcp_pcb c1 = Some p \<Longrightarrow> \<forall>x \<in> set tr. \<not> write_failed a x \<Longrightarrow>
        written_on p (calls (sys_world s1)) = written_on p (calls (sys_world s)) @ put_in a tr"
    using steps_snoc.IH steps_snoc.prems by auto
  have ok1: "sys_ok regs next_addr s1" by (rule steps_ok [OF steps_snoc.hyps(1) law ok])
  have "op \<noteq> OpDestroy a" using steps_snoc.prems by auto
  from exec_conn [OF law ok1 IH(1) steps_snoc.hyps(3) this] obtain c2 evs2 where
    st: "sys_objects s2 a = Some (ConnObject c2)" "delivered (sys_world s2) = delivered (sys_world s1) @ evs2"
      "bytes_got a (op, out) @ tcp_rx_buffer c2 = tcp_rx_buffer c1 @ stream_of a evs2"
      "tcp_pcb c2 = tcp_pcb c1 \<or> tcp_pcb c2 = None"
      "\<And>p. tcp_pcb c1 = Some p \<Longrightarrow> \<not> write_failed a (op, out) \<Longrightarrow>
         written_on p (calls (sys_world s2)) = written_on p (calls (sys_world s1)) @ bytes_put a (op, out)"
    unfolding conn_step_def by blast
  have stream: "got_in a (tr @ [(op, out)]) @ tcp_rx_buffer c2 = tcp_rx_buffer c @ stream_of a (evs1 @ evs2)"
    using IH(3) st(3) by simp
  have sent: "written_on p (calls (sys_world s2)) = written_on p (calls (sys_world s)) @ put_in a (tr @ [(op, out)])"
    if "tcp_pcb c2 = Some p" "\<forall>x \<in> set (tr @ [(op, out)]). \<not> write_failed a x" for p
  proof -
    have "tcp_pcb c1 = Some p" using that(1) st(4) by auto
    then show ?thesis using st(5) [of p] IH(5) [of p] that(2) by simp
  qed
  show ?case
    using st(1,2,4) IH(2,4) stream sent by (intro exI [of _ c2] exI [of _ "evs1 @ evs2"]) auto
qed

section \<open>A connection alone\<close>

text \<open>The poll of the system and the poll of \<open>Tcp_Connection\<close> have the same callbacks.\<close>

lemma poll_object:
  assumes "sys_poll lw s = Inr s'" and "sys_objects s a = Some (ConnObject c)" and "tcp_this c = a"
  shows "sys_objects s' a = Some (ConnObject (fst (tcp_poll lw c (sys_world s))))"
proof -
  obtain evs w1 where p: "arch_poll lw (sys_world s) = (evs, w1)" by fastforce
  then have "sys_dispatch_all lw evs (s\<lparr>sys_world := w1\<rparr>) = Inr s'" using assms(1) by (simp add: sys_poll_def)
  from dispatch_all_conn [OF this, of a c w1] show ?thesis using assms(2,3) p by (simp add: tcp_poll_def)
qed

lemma read_object:
  assumes "sys_read lw n a s = Inr (r, s')" and "sys_objects s a = Some (ConnObject c)" and "tcp_this c = a"
  shows "\<exists>c' w'. tcp_read_nonblocking lw n c (sys_world s) = (r, c', w') \<and> sys_objects s' a = Some (ConnObject c')"
proof (cases "n = 0")
  case True
  then show ?thesis using assms by (auto simp: sys_read_def tcp_read_nonblocking_def)
next
  case False
  then obtain s1 c1 where s1: "sys_poll lw s = Inr s1" "sys_objects s1 a = Some (ConnObject c1)"
      "(r, s') = (fst (tcp_take n c1), put a (ConnObject (snd (tcp_take n c1))) (sys_world s1) s1)"
    using assms(1) by (auto simp: sys_read_def get_Inr case_prod_beta)
  have "c1 = fst (tcp_poll lw c (sys_world s))" using poll_object [OF s1(1) assms(2,3)] s1(2) by simp
  then show ?thesis
    using s1(3) False by (auto simp: tcp_read_nonblocking_def case_prod_beta)
qed

section \<open>A peer that ends its stream\<close>

lemma fin_dispatch:
  assumes "sys_dispatch lw (TcpRecvEvent (Some a) p None err) s = Inr s1"
    and "sys_objects s a = Some (ConnObject c)" and "tcp_this c = a"
  shows "sys_objects s1 a = Some (ConnObject (c\<lparr>tcp_is_closed := True, tcp_pcb := None\<rparr>))" "sys_world s1 = sys_world s"
  using assms by (auto simp: sys_dispatch_def tcp_dispatch_def tcp_recv_callback_def handle_tcp_recv_def)

lemma dangling_callbacks:
  assumes "sys_objects s a = None"
  shows "sys_dispatch lw (TcpErrEvent (Some a) err) s = Inl NullDeref"
    "sys_dispatch lw (TcpRecvEvent (Some a) p buf err) s = Inl NullDeref"
  using assms by (simp_all add: sys_dispatch_def get_conn_def)

section \<open>Properties\<close>






definition mixed_data :: "LwipEvent list" where
  "mixed_data = [TcpRecvEvent (Some 12) 3 (Some [7, 8]) ERR_OK, TcpRecvEvent (Some 11) 2 (Some [1, 2, 3]) ERR_OK]"

definition mixed_trace :: "(TcpOp \<times> TcpOut) list" where
  "mixed_trace = [(OpRead 11 2, OutRead (Inr [1, 2])), (OpWrite 12 [5, 6], OutWritten (Inr 2)),
     (OpRead 12 1, OutRead (Inr [7]))]"

lemma mixed_run:
  "\<exists>s'. sys_run system_lwip system_network (map fst mixed_trace) (serving [mixed_data, []]) = Inr (mixed_trace, s') \<and>
     delivered (sys_world s') = two_arrivals @ mixed_data \<and>
     sys_objects s' 12 = Some (ConnObject ((client 12 3)\<lparr>tcp_rx_buffer := [8]\<rparr>))"
  by (simp add: system_eval serving_state system_poll_new client_def mixed_data_def mixed_trace_def Let_def)




text \<open>
  When the peer ends the stream, the connection forgets its control block without closing it and
  without taking back its registration. Destroying the connection then calls nothing: the block is
  never closed, lwIP still holds the address of the destroyed object, and its next error or receive
  callback follows it.
\<close>

lemma peer_close_leaves_dangling_callback:
  assumes "lwip_law lw regs next_addr" and "sys_reach lw net regs s"
    and "sys_objects s a = Some (ConnObject c)" and "tcp_pcb c = Some p"
    and "sys_dispatch lw (TcpRecvEvent (Some a) p None ERR_OK) s = Inr s1" and "sys_destroy lw a s1 = Inr s2"
  shows "calls (sys_world s2) = calls (sys_world s) \<and>
    pv_live (regs (env (sys_world s2)) p) \<and> pv_arg (regs (env (sys_world s2)) p) = Some a \<and>
    pv_err (regs (env (sys_world s2)) p) \<and>
    lwip_run (regs (env (sys_world s2))) [TcpErrEvent (Some a) err] ((regs (env (sys_world s2)))(p := free_block)) \<and>
    sys_dispatch lw (TcpErrEvent (Some a) err) s2 = Inl NullDeref"
proof -
  note ok = reach_sys_ok [OF assms(1,2)]
  note fin = fin_dispatch [OF assms(5,3) conn_this [OF ok assms(3)]]
  have s2: "sys_world s2 = sys_world s" "sys_objects s2 a = None"
    using assms(6) fin tcp_closed_quiet(3) [of "c\<lparr>tcp_is_closed := True, tcp_pcb := None\<rparr>" lw "sys_world s"]
    by (auto simp: sys_destroy_def)
  have blk: "pv_live (regs (env (sys_world s)) p)" "pv_arg (regs (env (sys_world s)) p) = Some a"
      "pv_err (regs (env (sys_world s)) p)"
    using sys_invD(3) [OF ok [unfolded sys_ok_def] assms(3)] assms(4) by (simp_all add: object_ok_def)
  have "lwip_run (regs (env (sys_world s))) [TcpErrEvent (pv_arg (regs (env (sys_world s)) p)) err]
      ((regs (env (sys_world s)))(p := free_block))"
    using run_err [where v = "regs (env (sys_world s))" and p = p] blk(3) run_end by blast
  then show ?thesis using blk s2 dangling_callbacks(1) [OF s2(2)] by simp
qed

end
