(* ===== verification/Client_System_Service.thy ===== *)
theory Client_System_Service
  imports Sample_Client Tcp_System_Service
begin

text \<open>
  The client's laws in the heap: \<open>hosted_connection\<close> is interpreted on the heap, and the properties of
  a client among other TCP objects follow.
\<close>

section \<open>The law of the clock\<close>

text \<open>
  Reading the clock and, in the poll architecture, sleeping change nothing of the control blocks and
  allocate nothing.
\<close>

definition clock_quiet :: "'e Platform \<Rightarrow> ('e \<Rightarrow> Registrations) \<Rightarrow> ('e \<Rightarrow> obj) \<Rightarrow> bool" where
  "clock_quiet pf regs next_addr \<longleftrightarrow>
     (\<forall>e. regs (snd (get_absolute_time pf e)) = regs e \<and> next_addr (snd (get_absolute_time pf e)) = next_addr e) \<and>
     (\<forall>ms e. regs (snd (make_timeout_time_ms pf ms e)) = regs e \<and>
        next_addr (snd (make_timeout_time_ms pf ms e)) = next_addr e) \<and>
     (\<forall>ms e. regs (sleep_ms pf ms e) = regs e \<and> next_addr (sleep_ms pf ms e) = next_addr e)"

lemma on_sys_world: "snd (on_sys f s) = s\<lparr>sys_world := snd (f (sys_world s))\<rparr>"
  by (simp add: on_sys_def case_prod_beta)

lemma sys_clock_sel [simp]:
  "get_absolute_time (sys_platform pf) = on_sys (get_absolute_time (world_platform pf))"
  "make_timeout_time_ms (sys_platform pf) ms = on_sys (make_timeout_time_ms (world_platform pf) ms)"
  "sleep_ms (sys_platform pf) ms s = s\<lparr>sys_world := sleep_ms (world_platform pf) ms (sys_world s)\<rparr>"
  by (simp_all add: sys_platform_def)

text \<open>A step of the clock changes the environment only.\<close>

definition clock_step :: "('e \<Rightarrow> Registrations) \<Rightarrow> ('e \<Rightarrow> obj) \<Rightarrow> 'e TcpSystem \<Rightarrow> 'e TcpSystem \<Rightarrow> bool" where
  "clock_step regs next_addr s s' \<longleftrightarrow> sys_objects s' = sys_objects s \<and>
     calls (sys_world s') = calls (sys_world s) \<and> delivered (sys_world s') = delivered (sys_world s) \<and>
     regs (env (sys_world s')) = regs (env (sys_world s)) \<and>
     next_addr (env (sys_world s')) = next_addr (env (sys_world s))"

lemma clock_steps:
  assumes "clock_quiet pf regs next_addr"
  shows "clock_step regs next_addr s (snd (get_absolute_time (sys_platform pf) s))"
    "clock_step regs next_addr s (snd (make_timeout_time_ms (sys_platform pf) ms s))"
    "clock_step regs next_addr s (sleep_ms (sys_platform pf) ms s)"
  using assms
  by (auto simp: clock_quiet_def clock_step_def on_sys_world world_platform_def on_env_def case_prod_beta)

lemma clock_step_ok: "clock_step regs next_addr s s' \<Longrightarrow> sys_ok regs next_addr s' = sys_ok regs next_addr s"
  by (simp add: clock_step_def sys_ok_def)

section \<open>A connection that is hosted\<close>

definition heap_sent :: "obj \<Rightarrow> 'e TcpSystem \<Rightarrow> u8 list" where
  "heap_sent a s = (case sys_objects s a of Some (ConnObject c) \<Rightarrow> tcp_sent c (sys_world s) | _ \<Rightarrow> [])"

definition heap_alive ::
  "'e Platform \<Rightarrow> 'e Lwip \<Rightarrow> ('e \<Rightarrow> Registrations) \<Rightarrow> ('e \<Rightarrow> obj) \<Rightarrow> obj \<Rightarrow> 'e TcpSystem \<Rightarrow> bool" where
  "heap_alive pf lw regs next_addr a s \<longleftrightarrow> lwip_law lw regs next_addr \<and> clock_quiet pf regs next_addr \<and>
     sys_ok regs next_addr s \<and> (\<exists>c. sys_objects s a = Some (ConnObject c))"

definition heap_settled ::
  "'e Platform \<Rightarrow> 'e Lwip \<Rightarrow> ('e \<Rightarrow> Registrations) \<Rightarrow> ('e \<Rightarrow> obj) \<Rightarrow> 'e TcpSystem \<Rightarrow> bool" where
  "heap_settled pf lw regs next_addr s \<longleftrightarrow> lwip_law lw regs next_addr \<and> clock_quiet pf regs next_addr \<and>
     sys_ok regs next_addr s"

definition heap_left ::
  "'e Platform \<Rightarrow> 'e Lwip \<Rightarrow> ('e \<Rightarrow> Registrations) \<Rightarrow> ('e \<Rightarrow> obj) \<Rightarrow> 'e TcpSystem \<Rightarrow> bool" where
  "heap_left pf lw regs next_addr s \<longleftrightarrow> heap_settled pf lw regs next_addr s \<or> orphaned s"

lemma heap_write:
  assumes alive: "heap_alive pf lw regs next_addr a s" and w: "called a s (sys_write lw bs a s) = (r, a', s')"
  shows "fault_free r \<and> heap_alive pf lw regs next_addr a' s' \<and>
    (\<forall>n. r = Inr n \<longrightarrow> n \<le> length bs \<and> heap_sent a' s' = heap_sent a s @ take n bs)"
proof -
  obtain c where law: "lwip_law lw regs next_addr" and ok: "sys_ok regs next_addr s"
    and c: "sys_objects s a = Some (ConnObject c)" using alive by (auto simp: heap_alive_def)
  obtain r1 s1 where s1: "sys_write lw bs a s = Inr (r1, s1)" "sys_ok regs next_addr s1"
    using write_ok [OF law ok c] by blast
  obtain r2 c2 w2 where t: "tcp_write lw bs c (sys_world s) = (r2, c2, w2)" by (metis prod_cases3)
  then have e: "r1 = r2" "s1 = put a (ConnObject c2) w2 s" using s1(1) c by (simp_all add: sys_write_def)
  have same: "a' = a" "s' = s1" "r = r1" using w s1(1) by simp_all
  have "fault_free r2" using tcp_write_fault_free [of lw bs c "sys_world s"] t by simp
  moreover have "n \<le> length bs \<and> heap_sent a s1 = heap_sent a s @ take n bs" if "r2 = Inr n" for n
    using tcp_write_Inr [OF t [unfolded that]] e c by (simp add: heap_sent_def)
  ultimately show ?thesis using alive s1(2) e same by (simp add: heap_alive_def)
qed

lemma heap_read:
  assumes alive: "heap_alive pf lw regs next_addr a s" and rd: "called a s (sys_read lw n a s) = (r, a', s')"
  shows "fault_free r \<and> heap_alive pf lw regs next_addr a' s' \<and> (\<forall>bs. r = Inr bs \<longrightarrow> length bs \<le> n)"
proof -
  obtain c where law: "lwip_law lw regs next_addr" and ok: "sys_ok regs next_addr s"
    and c: "sys_objects s a = Some (ConnObject c)" using alive by (auto simp: heap_alive_def)
  obtain r1 s1 where s1: "sys_read lw n a s = Inr (r1, s1)" "sys_ok regs next_addr s1"
    using read_ok [OF law ok c] by blast
  have same: "a' = a" "s' = s1" "r = r1" using rd s1(1) by simp_all
  have "fault_free r1 \<and> (\<exists>c1. sys_objects s1 a = Some (ConnObject c1)) \<and> (\<forall>bs. r1 = Inr bs \<longrightarrow> length bs \<le> n)"
  proof (cases "n = 0")
    case True
    then show ?thesis using s1(1) c by (auto simp: sys_read_def)
  next
    case False
    then show ?thesis
      using s1(1) tcp_take_step(2,3) [of n]
      by (auto simp: sys_read_def bindE_Inr_iff case_prod_beta Let_def prod_eq_iff)
  qed
  then show ?thesis using alive s1(2) same by (simp add: heap_alive_def)
qed

lemma heap_close:
  assumes alive: "heap_alive pf lw regs next_addr a s" and cl: "ended a s (sys_close lw a s) = (e, a', s')"
  shows "heap_left pf lw regs next_addr (conn_destroy (heap_ops pf lw) a' s')"
proof -
  obtain c where law: "lwip_law lw regs next_addr" and ok: "sys_ok regs next_addr s"
    and c: "sys_objects s a = Some (ConnObject c)" using alive by (auto simp: heap_alive_def)
  obtain e1 s1 where s1: "sys_close lw a s = Inr (e1, s1)" "sys_ok regs next_addr s1"
    using close_ok [OF law ok c] by blast
  have same: "a' = a" "s' = s1" using cl s1(1) by simp_all
  obtain c1 where c1: "sys_objects s1 a = Some (ConnObject c1)"
    using s1(1) c by (auto simp: sys_close_def case_prod_beta Let_def)
  show ?thesis
  proof (cases "fin_seen a (delivered (sys_world s1))")
    case False
    then show ?thesis
      using destroy_ok [OF law s1(2) c1] alive same by (auto simp: heap_left_def heap_settled_def heap_alive_def)
  next
    case True
    have "sys_destroy lw a s1 = Inr (s1\<lparr>sys_world := tcp_destroy lw c1 (sys_world s1),
        sys_objects := (sys_objects s1)(a := None)\<rparr>)" using c1 by (simp add: sys_destroy_def)
    moreover have "delivered (tcp_destroy lw c1 (sys_world s1)) = delivered (sys_world s1)"
      by (simp add: tcp_destroy_def tcp_close_def Let_def case_prod_beta world_simps split: option.split)
    ultimately have "orphaned (conn_destroy (heap_ops pf lw) a s1)" using True by (auto simp: orphaned_def)
    then show ?thesis using same by (simp add: heap_left_def)
  qed
qed

interpretation hosted: hosted_connection "heap_ops pf lw" "sys_platform pf" heap_sent
    "heap_alive pf lw regs next_addr" "heap_settled pf lw regs next_addr" "heap_left pf lw regs next_addr"
  for pf :: "'e Platform" and lw :: "'e Lwip" and regs :: "'e \<Rightarrow> Registrations" and next_addr :: "'e \<Rightarrow> obj"
proof unfold_locales
  fix c w bs r c' w' assume "heap_alive pf lw regs next_addr c w" "conn_write (heap_ops pf lw) bs c w = (r, c', w')"
  then show "fault_free r \<and> heap_alive pf lw regs next_addr c' w' \<and>
      (\<forall>n. r = Inr n \<longrightarrow> n \<le> length bs \<and> heap_sent c' w' = heap_sent c w @ take n bs)"
    using heap_write by simp
next
  fix c w n rd c' w'
  assume "heap_alive pf lw regs next_addr c w" "conn_read_nonblocking (heap_ops pf lw) n c w = (rd, c', w')"
  then show "fault_free rd \<and> heap_alive pf lw regs next_addr c' w' \<and> (\<forall>bs. rd = Inr bs \<longrightarrow> length bs \<le> n)"
    using heap_read by simp
next
  fix c w e c' w' assume "heap_alive pf lw regs next_addr c w" "conn_close (heap_ops pf lw) c w = (e, c', w')"
  then show "heap_left pf lw regs next_addr (conn_destroy (heap_ops pf lw) c' w')"
    using heap_close by (simp del: heap_ops_sel(1))
next
  fix w assume "heap_settled pf lw regs next_addr w"
  then show "heap_left pf lw regs next_addr w" by (simp add: heap_left_def)
next
  have tick: "heap_alive pf lw regs next_addr c s'"
    if "heap_alive pf lw regs next_addr c s" "clock_step regs next_addr s s'" for c s s'
    using that clock_step_ok [OF that(2)] by (simp add: heap_alive_def clock_step_def)
  fix c w ms assume alive: "heap_alive pf lw regs next_addr c w"
  then have quiet: "clock_quiet pf regs next_addr" by (simp add: heap_alive_def)
  show "heap_alive pf lw regs next_addr c (snd (get_absolute_time (sys_platform pf) w))"
    "heap_alive pf lw regs next_addr c (snd (make_timeout_time_ms (sys_platform pf) ms w))"
    "heap_alive pf lw regs next_addr c (sleep_ms (sys_platform pf) ms w)"
    by (rule tick [OF alive clock_steps(1) [OF quiet]], rule tick [OF alive clock_steps(2) [OF quiet]],
        rule tick [OF alive clock_steps(3) [OF quiet]])
next
  fix c and w :: "'e TcpSystem"
  have "calls (snd (get_absolute_time (world_platform pf) v)) = calls v" for v :: "'e World"
    by (simp add: world_platform_def on_env_def case_prod_beta)
  then show "heap_sent c (snd (get_absolute_time (sys_platform pf) w)) = heap_sent c w"
    by (simp add: heap_sent_def on_sys_world tcp_sent_def split: option.split TcpObject.split)
qed

section \<open>A dial of the client\<close>

lemma dial_start_fault: "dial_start lw net address w = (Inl e, w') \<Longrightarrow> \<not> is_fault e"
  by (auto simp: dial_start_def dial_cleanup_def Let_def case_prod_beta split: if_splits option.splits)

lemma dial_finish_fault: "dial_finish lw p address st w = (Inl e, w') \<Longrightarrow> \<not> is_fault e"
  by (auto simp: dial_finish_def dial_cleanup_def tcp_attach_callbacks_def Let_def case_prod_beta
      split: if_splits option.splits)

lemma dial_finish_result:
  assumes "sys_dial_finish lw at s = Inr (r, s')" and "sys_objects s at = Some (DialObject p addr st)"
  shows "case r of Inl e \<Rightarrow> \<not> is_fault e | Inr a \<Rightarrow> \<exists>c. sys_objects s' a = Some (ConnObject c)"
proof -
  obtain x w where x: "dial_finish lw p addr st (sys_world s) = (x, w)" by fastforce
  show ?thesis
  proof (cases x)
    case (Inl e)
    then show ?thesis using assms x dial_finish_fault [OF x [unfolded Inl]] by (auto simp: sys_dial_finish_def)
  next
    case (Inr c)
    then show ?thesis using assms x by (auto simp: sys_dial_finish_def Let_def)
  qed
qed

lemma poll_keeps_dial:
  assumes "sys_poll lw s = Inr s'" and "sys_objects s a = Some (DialObject p addr st)"
  shows "\<exists>p addr st. sys_objects s' a = Some (DialObject p addr st)"
proof -
  have "map_option kind (sys_objects s' a) = Some 2" using poll_kind [OF assms(1), of a] assms(2) by simp
  then obtain x where "sys_objects s' a = Some x" "kind x = 2" by auto
  then show ?thesis by (cases x) auto
qed

lemma dial_wait_hosted:
  assumes "sys_dial_wait pf lw at until s = Some (r, s')" and "heap_settled pf lw regs next_addr s"
    and "\<exists>p addr st. sys_objects s at = Some (DialObject p addr st)"
  shows "(\<exists>b. r = Inr b) \<and> heap_settled pf lw regs next_addr s' \<and>
    (\<exists>p addr st. sys_objects s' at = Some (DialObject p addr st))"
proof -
  have "pf' = pf \<longrightarrow> lw' = lw \<longrightarrow> heap_settled pf lw regs next_addr s \<longrightarrow>
      (\<exists>p addr st. sys_objects s at = Some (DialObject p addr st)) \<longrightarrow>
      (\<exists>b. fst y = Inr b) \<and> heap_settled pf lw regs next_addr (snd y) \<and>
      (\<exists>p addr st. sys_objects (snd y) at = Some (DialObject p addr st))"
    if "sys_dial_wait pf' lw' at until s = Some y" for pf' lw' at until s y
    using that
  proof (induction rule: sys_dial_wait.raw_induct [rotated, consumes 1, case_names step])
    case (step wait pf' lw' at until s y)
    show ?case
    proof (intro impI)
      assume eq: "pf' = pf" "lw' = lw" and settled: "heap_settled pf lw regs next_addr s"
        and "\<exists>p addr st. sys_objects s at = Some (DialObject p addr st)"
      then obtain p addr st where d: "sys_objects s at = Some (DialObject p addr st)" by blast
      have laws: "lwip_law lw regs next_addr" "clock_quiet pf regs next_addr" "sys_ok regs next_addr s"
        using settled by (simp_all add: heap_settled_def)
      show "(\<exists>b. fst y = Inr b) \<and> heap_settled pf lw regs next_addr (snd y) \<and>
          (\<exists>p addr st. sys_objects (snd y) at = Some (DialObject p addr st))"
      proof (cases "dial_done st")
        case True
        then show ?thesis using step(2) d settled by auto
      next
        case False
        obtain s1 where s1: "sys_poll lw s = Inr s1" "sys_ok regs next_addr s1" using poll_ok [OF laws(1,3)] by blast
        define s2 where "s2 = sleep_ms (sys_platform pf) 10 s1"
        obtain now s3 where g: "get_absolute_time (sys_platform pf) s2 = (now, s3)" by fastforce
        have "clock_step regs next_addr s1 s2" "clock_step regs next_addr s2 s3"
          using clock_steps(3) [OF laws(2), of s1 10] clock_steps(1) [OF laws(2), of s2] g by (simp_all add: s2_def)
        then have s3: "heap_settled pf lw regs next_addr s3" "\<exists>p addr st. sys_objects s3 at = Some (DialObject p addr st)"
          using clock_step_ok s1(2) laws poll_keeps_dial [OF s1(1) d]
          by (auto simp: heap_settled_def clock_step_def)
        have run: "(if absolute_time_diff_us (sys_platform pf) now until \<le> 0 then Some (Inr False, s3)
            else wait pf' lw' at until s3) = Some y"
          using step(2) eq d False s1(1) g by (simp add: s2_def)
        show ?thesis
        proof (cases "absolute_time_diff_us (sys_platform pf) now until \<le> 0")
          case True
          then show ?thesis using run s3 by auto
        next
          case False
          then show ?thesis using step(1) [of pf' lw' at until s3 y] run s3 eq by simp
        qed
      qed
    qed
  qed
  from this [OF assms(1)] assms(2,3) show ?thesis by simp
qed

lemma dial_tcp_run:
  assumes "sys_dial_start lw net address s = (Inr at, s1)"
    and "make_timeout_time_ms (sys_platform pf) ms s1 = (until, s2)"
  shows "sys_dial_wait pf lw at until s2 = None \<Longrightarrow> sys_dial_tcp pf lw net address ms s = None"
    "sys_dial_wait pf lw at until s2 = Some (Inr success, s3) \<Longrightarrow>
     (if success then sys_dial_finish lw at s3 else sys_dial_timeout lw at s3) = Inr r \<Longrightarrow>
     sys_dial_tcp pf lw net address ms s = Some r"
  using assms by (simp_all add: sys_dial_tcp_def del: sys_clock_sel)

lemma dial_tcp_refused:
  "sys_dial_start lw net address s = (Inl err, s1) \<Longrightarrow> sys_dial_tcp pf lw net address ms s = Some (Inl err, s1)"
  by (simp only: sys_dial_tcp_def prod.case sum.case)

text \<open>What a dial leaves: an error and a world in order, or a connection that is alive.\<close>

definition dial_leaves ::
  "'e Platform \<Rightarrow> 'e Lwip \<Rightarrow> ('e \<Rightarrow> Registrations) \<Rightarrow> ('e \<Rightarrow> obj) \<Rightarrow> obj result \<Rightarrow> 'e TcpSystem \<Rightarrow> bool" where
  "dial_leaves pf lw regs next_addr r s \<longleftrightarrow>
     (case r of Inl e \<Rightarrow> \<not> is_fault e \<and> heap_settled pf lw regs next_addr s
      | Inr a \<Rightarrow> heap_alive pf lw regs next_addr a s)"

lemma dial_end_leaves:
  assumes settled: "heap_settled pf lw regs next_addr s" and d: "sys_objects s at = Some (DialObject p addr st)"
  shows "\<exists>r s'. (if success then sys_dial_finish lw at s else sys_dial_timeout lw at s) = Inr (r, s') \<and>
    dial_leaves pf lw regs next_addr r s'"
proof -
  have laws: "lwip_law lw regs next_addr" "clock_quiet pf regs next_addr" and ok: "sys_ok regs next_addr s"
    using settled by (simp_all add: heap_settled_def)
  show ?thesis
  proof (cases success)
    case False
    obtain r s' where t: "sys_dial_timeout lw at s = Inr (r, s')" "sys_ok regs next_addr s'"
      using dial_timeout_ok [OF laws(1) ok d] by blast
    have "\<exists>e. r = Inl e \<and> \<not> is_fault e"
      using t(1) d by (auto simp: sys_dial_timeout_def get_dial_def dial_cleanup_def Let_def case_prod_beta)
    then show ?thesis using t laws False by (auto simp: dial_leaves_def heap_settled_def)
  next
    case True
    obtain r s' where t: "sys_dial_finish lw at s = Inr (r, s')" "sys_ok regs next_addr s'"
      using dial_finish_ok [OF laws(1) ok d] by blast
    have "dial_leaves pf lw regs next_addr r s'"
      using dial_finish_result [OF t(1) d] t(2) laws
      by (cases r) (simp_all add: dial_leaves_def heap_settled_def heap_alive_def)
    then show ?thesis using t(1) True by simp
  qed
qed

lemma dial_start_leaves:
  assumes settled: "heap_settled pf lw regs next_addr s"
  shows "(\<exists>e s'. sys_dial_start lw net address s = (Inl e, s') \<and> dial_leaves pf lw regs next_addr (Inl e) s') \<or>
    (\<exists>at s'. sys_dial_start lw net address s = (Inr at, s') \<and> heap_settled pf lw regs next_addr s' \<and>
       (\<exists>p addr st. sys_objects s' at = Some (DialObject p addr st)))"
proof -
  obtain x w where st: "dial_start lw net address (sys_world s) = (x, w)" by fastforce
  have ok: "heap_settled pf lw regs next_addr (snd (sys_dial_start lw net address s))"
    using dial_start_ok [of lw regs next_addr s net address] settled by (simp add: heap_settled_def)
  show ?thesis
  proof (cases x)
    case (Inl e)
    then show ?thesis
      using st ok dial_start_fault [OF st [unfolded Inl]] by (simp add: sys_dial_start_def dial_leaves_def)
  next
    case (Inr pa)
    then show ?thesis using st ok by (cases pa) (simp add: sys_dial_start_def)
  qed
qed

lemma dial_wait_leaves:
  assumes run: "sys_dial_tcp pf lw net address ms s = Some (r, s')"
    and start: "sys_dial_start lw net address s = (Inr at, s1)" "heap_settled pf lw regs next_addr s1"
      "sys_objects s1 at = Some (DialObject p addr st)"
  shows "dial_leaves pf lw regs next_addr r s'"
proof -
  obtain until s2 where u: "make_timeout_time_ms (sys_platform pf) ms s1 = (until, s2)"
    by (cases "make_timeout_time_ms (sys_platform pf) ms s1") (simp del: sys_clock_sel)
  note runs = dial_tcp_run [OF start(1) u]
  have tick: "clock_step regs next_addr s1 s2"
    using clock_steps(2) [of pf regs next_addr s1 ms] start(2) u by (simp add: heap_settled_def del: sys_clock_sel)
  have s2: "heap_settled pf lw regs next_addr s2"
    using start(2) clock_step_ok [OF tick] by (simp add: heap_settled_def)
  have at2: "\<exists>p addr st. sys_objects s2 at = Some (DialObject p addr st)"
    using start(3) tick by (simp add: clock_step_def)
  obtain y where y: "sys_dial_wait pf lw at until s2 = Some y"
    using runs(1) run by (cases "sys_dial_wait pf lw at until s2") simp_all
  obtain b s3 where w: "sys_dial_wait pf lw at until s2 = Some (b, s3)" using y by (cases y) simp
  note waited = dial_wait_hosted [OF w s2 at2]
  obtain success where b: "b = Inr success" using waited by (elim conjE exE)
  obtain q addr3 st3 where d: "sys_objects s3 at = Some (DialObject q addr3 st3)" using waited by (elim conjE exE)
  have s3: "heap_settled pf lw regs next_addr s3" using waited by (elim conjE)
  obtain r1 s4 where e: "(if success then sys_dial_finish lw at s3 else sys_dial_timeout lw at s3) = Inr (r1, s4)"
      "dial_leaves pf lw regs next_addr r1 s4"
    using dial_end_leaves [OF s3 d, of success] by (elim exE conjE)
  show ?thesis using run runs(2) [OF w [unfolded b] e(1)] e(2) by simp
qed

lemma dial_tcp_leaves:
  assumes run: "sys_dial_tcp pf lw net address ms s = Some (r, s')" and settled: "heap_settled pf lw regs next_addr s"
  shows "dial_leaves pf lw regs next_addr r s'"
  using dial_start_leaves [OF settled, of net address]
proof (elim disjE exE conjE)
  fix e s1 assume "sys_dial_start lw net address s = (Inl e, s1)" "dial_leaves pf lw regs next_addr (Inl e) s1"
  then show ?thesis using run dial_tcp_refused [of lw net address s e s1 pf ms] by simp
next
  fix at s1 p addr st
  assume "sys_dial_start lw net address s = (Inr at, s1)" "heap_settled pf lw regs next_addr s1"
    "sys_objects s1 at = Some (DialObject p addr st)"
  then show ?thesis by (rule dial_wait_leaves [OF run])
qed

lemma dial_tcp_hosted: "hosted.dial_hosted pf lw regs next_addr (sys_dial_tcp pf lw net)"
  unfolding hosted.dial_hosted_def using dial_tcp_leaves by (simp add: dial_leaves_def) blast

section \<open>Runs with a client\<close>

lemma orphaned_ok: "heap_left pf lw regs next_addr s \<Longrightarrow> \<not> orphaned s \<Longrightarrow> heap_settled pf lw regs next_addr s"
  by (simp add: heap_left_def)

text \<open>What others do leaves the client's connection alive.\<close>

lemma other_keeps:
  assumes laws: "heap_settled pf lw regs next_addr s" and run: "sys_exec lw net op s = Inr (out, s')"
    and use: "usable op s"
  shows "heap_settled pf lw regs next_addr s'"
    "heap_alive pf lw regs next_addr a s \<Longrightarrow> op \<noteq> OpDestroy a \<Longrightarrow> heap_alive pf lw regs next_addr a s'"
proof -
  have law: "lwip_law lw regs next_addr" and ok: "sys_ok regs next_addr s" using laws by (simp_all add: heap_settled_def)
  show settled: "heap_settled pf lw regs next_addr s'"
    using exec_ok [OF law ok use, of net] run laws by (auto simp: heap_settled_def)
  show "heap_alive pf lw regs next_addr a s'" if alive: "heap_alive pf lw regs next_addr a s" and other: "op \<noteq> OpDestroy a"
  proof -
    obtain c where c: "sys_objects s a = Some (ConnObject c)" using alive unfolding heap_alive_def by blast
    from exec_conn [OF law ok c run other] settled show ?thesis
      by (auto simp: conn_step_def heap_alive_def heap_settled_def)
  qed
qed

lemma program_good:
  assumes "program_reach pf lw net regs log cl s" and "lwip_law lw regs next_addr" and "clock_quiet pf regs next_addr"
  shows "client_inv cl \<and> (\<forall>e \<in> set log. safe_outcome e) \<and>
    held (heap_alive pf lw regs next_addr) (heap_left pf lw regs next_addr) cl s"
  using assms(1)
proof (induction rule: program_reach.induct)
  case (program_start s)
  then have "heap_left pf lw regs next_addr s"
    using start_ok [of regs s next_addr] assms(2,3) by (simp add: heap_left_def heap_settled_def)
  then show ?case using new_client_inv by (simp add: held_def new_MqttClient_def)
next
  case (program_other log cl s op out s')
  show ?case
  proof (cases "conn cl")
    case None
    then have "heap_settled pf lw regs next_addr s" using program_other by (intro orphaned_ok) simp_all
    from other_keeps(1) [OF this program_other.hyps(5,3)] show ?thesis
      using program_other.IH None by (simp add: heap_left_def)
  next
    case (Some a)
    then have a: "heap_alive pf lw regs next_addr a s" using program_other by simp
    then have "heap_settled pf lw regs next_addr s" by (simp add: heap_alive_def heap_settled_def)
    moreover have "op \<noteq> OpDestroy a" using program_other.hyps(4) Some by auto
    ultimately show ?thesis using other_keeps(2) [OF _ program_other.hyps(5,3) a] program_other.IH Some by simp
  qed
next
  case (program_client log cl s op e cl' s')
  have world: "case conn cl of None \<Rightarrow> heap_settled pf lw regs next_addr s | Some a \<Rightarrow> heap_alive pf lw regs next_addr a s"
    using program_client.IH orphaned_ok [OF _ program_client.hyps(2)] by (simp add: held_def split: option.splits)
  show ?case
    using hosted.exec_hosts [OF program_client.hyps(3) dial_tcp_hosted _ world] program_client.IH by simp
qed

section \<open>Sending\<close>

text \<open>Sending through the pointer changes no object, and writes on the connection's block only.\<close>

lemma write_frame:
  assumes "sys_objects s a = Some (ConnObject c)"
  shows "\<exists>r s'. called a s (sys_write lw bs a s) = (r, a, s') \<and> sys_objects s' = sys_objects s \<and>
    (\<forall>q. tcp_pcb c \<noteq> Some q \<longrightarrow> written_on q (calls (sys_world s')) = written_on q (calls (sys_world s)))"
proof -
  obtain r c1 w where w: "tcp_write lw bs c (sys_world s) = (r, c1, w)" by (metis prod_cases3)
  then have "c1 = c" by (auto simp: tcp_write_def Let_def case_prod_beta split: option.splits if_splits)
  then have "called a s (sys_write lw bs a s) = (r, a, put a (ConnObject c) w s)"
    using w assms by (simp add: sys_write_def)
  moreover have "sys_objects (put a (ConnObject c) w s) = sys_objects s" using assms by (auto simp: put_def)
  moreover have "written_on q (calls w) = written_on q (calls (sys_world s))" if "tcp_pcb c \<noteq> Some q" for q
    using tcp_write_other [OF that, of lw bs "sys_world s"] w by simp
  ultimately show ?thesis by auto
qed

lemma send_loop_frame:
  assumes "send_loop (heap_ops pf lw) bytes n cl s = (None, cl', s')" and "conn cl = Some a"
    and c: "sys_objects s a = Some (ConnObject c)"
  shows "cl' = cl \<and> sys_objects s' = sys_objects s \<and>
    (\<forall>q. tcp_pcb c \<noteq> Some q \<longrightarrow> written_on q (calls (sys_world s')) = written_on q (calls (sys_world s)))"
  using assms
proof (induction "length bytes - n" arbitrary: n s rule: less_induct)
  case less
  obtain r s1 where w: "called a s (sys_write lw (drop n bytes) a s) = (r, a, s1)" "sys_objects s1 = sys_objects s"
      "\<And>q. tcp_pcb c \<noteq> Some q \<Longrightarrow> written_on q (calls (sys_world s1)) = written_on q (calls (sys_world s))"
    using write_frame [OF less.prems(3)] by blast
  have "conn_write (heap_ops pf lw) (drop n bytes) a s = (r, a, s1)" using w(1) by simp
  note run = send_loop_run [OF less.prems(2) this]
  have same: "cl\<lparr>conn := Some a\<rparr> = cl" using less.prems(2) by simp
  show ?case
  proof (cases "n < length bytes")
    case False
    then show ?thesis using less.prems(1) run by simp
  next
    case True
    then obtain k where k: "r = Inr k" "k \<noteq> 0" "send_loop (heap_ops pf lw) bytes (n + k) cl s1 = (None, cl', s')"
      using less.prems(1) run same by (auto simp: fail_with_def case_prod_beta Let_def split: sum.splits if_splits)
    from less.hyps [OF _ k(3) less.prems(2)] True k(2) w(2,3) less.prems(3) show ?thesis by simp
  qed
qed

lemma publish_frame:
  assumes "publish (sys_platform pf) (heap_ops pf lw) topic payload retain cl s = (None, cl', s')"
    and "conn cl = Some a" and c: "sys_objects s a = Some (ConnObject c)"
  shows "conn cl' = Some a \<and> sys_objects s' = sys_objects s \<and>
    (\<forall>q. tcp_pcb c \<noteq> Some q \<longrightarrow> written_on q (calls (sys_world s')) = written_on q (calls (sys_world s)))"
proof -
  obtain e where "send_encoded (sys_platform pf) (heap_ops pf lw) e cl s = (None, cl', s')"
    using assms(1) by (auto simp: publish_def split: if_splits sum.splits)
  then obtain cl1 s1 where l: "send_loop (heap_ops pf lw) (packet_bytes e) 0 cl s = (None, cl1, s1)"
      and t: "cl' = cl1\<lparr>last_tx := fst (get_absolute_time (sys_platform pf) s1)\<rparr>" "s' = snd (get_absolute_time (sys_platform pf) s1)"
    using assms(2) by (auto simp: send_encoded_def fail_with_def Let_def case_prod_beta prod_eq_iff split: option.splits)
  have "sys_objects s' = sys_objects s1" "calls (sys_world s') = calls (sys_world s1)"
    using t(2) by (simp_all add: on_sys_world world_platform_def on_env_def case_prod_beta)
  then show ?thesis using send_loop_frame [OF l assms(2) c] t(1) assms(2) by simp
qed

section \<open>A broker that ends the stream\<close>

text \<open>Receive callbacks leave the blocks that have an argument as they are.\<close>

lemma recvs_keep_blocks:
  "lwip_run v evs v' \<Longrightarrow> \<forall>ev \<in> set evs. \<exists>arg p buf err. ev = TcpRecvEvent arg p buf err \<Longrightarrow>
   pv_arg (v b) \<noteq> None \<Longrightarrow> v' b = v b"
proof (induction rule: lwip_run.induct)
  case (run_free v p evs v')
  then have "b \<noteq> p" by auto
  then show ?case using run_free by simp
qed auto

lemma fin_poll:
  assumes law: "lwip_law lw regs next_addr" and ok: "sys_ok regs next_addr s"
    and c: "sys_objects s a = Some (ConnObject c)" "tcp_pcb c = Some p"
    and fin: "arch_poll lw (sys_world s) = ([TcpRecvEvent (Some a) p None ERR_OK], w1)"
  shows "sys_poll lw s = Inr (s\<lparr>sys_world := w1,
      sys_objects := (sys_objects s)(a \<mapsto> ConnObject (c\<lparr>tcp_is_closed := True, tcp_pcb := None\<rparr>))\<rparr>)"
    "calls w1 = calls (sys_world s)" "fin_seen a (delivered w1)" "regs (env w1) p = regs (env (sys_world s)) p"
proof -
  have "tcp_this c = a" by (rule conn_this [OF ok c(1)])
  then show "sys_poll lw s = Inr (s\<lparr>sys_world := w1,
      sys_objects := (sys_objects s)(a \<mapsto> ConnObject (c\<lparr>tcp_is_closed := True, tcp_pcb := None\<rparr>))\<rparr>)"
    using c fin by (simp add: sys_poll_def sys_dispatch_def tcp_dispatch_def tcp_recv_callback_def handle_tcp_recv_def put_def)
  have w1: "w1 = (sys_world s)\<lparr>env := env w1, delivered := delivered (sys_world s) @ [TcpRecvEvent (Some a) p None ERR_OK]\<rparr>"
      and e: "lwip_poll lw (env (sys_world s)) = ([TcpRecvEvent (Some a) p None ERR_OK], env w1)"
    using fin by (auto simp: arch_poll_def case_prod_beta Let_def prod_eq_iff)
  show "calls w1 = calls (sys_world s)" "fin_seen a (delivered w1)"
    by (subst w1, simp)+
  have "pv_arg (regs (env (sys_world s)) p) \<noteq> None"
    using sys_invD(3) [OF ok [unfolded sys_ok_def] c(1)] c(2) by (simp add: object_ok_def)
  then show "regs (env w1) p = regs (env (sys_world s)) p"
    using recvs_keep_blocks [OF law_poll(1) [OF law, of "env (sys_world s)", unfolded e fst_conv snd_conv]] by simp
qed

text \<open>The client's read fails, and its cleanup calls nothing: the connection has no block any more.\<close>

lemma fin_client_poll:
  assumes "sys_poll lw s = Inr (s\<lparr>sys_world := w1,
      sys_objects := (sys_objects s)(a \<mapsto> ConnObject (c\<lparr>tcp_is_closed := True, tcp_pcb := None\<rparr>))\<rparr>)"
    and "conn cl = Some a" and "tcp_rx_buffer c = []" and "client_state cl = CONNECTED"
  shows "\<exists>e cl'. poll (sys_platform pf) (heap_ops pf lw) cl s =
      (Some e, cl', \<lparr>sys_world = w1, sys_objects = (sys_objects s)(a := None)\<rparr>) \<and> conn cl' = None"
proof -
  let ?c = "c\<lparr>tcp_is_closed := True, tcp_pcb := None\<rparr>"
  let ?s = "\<lparr>sys_world = w1, sys_objects = (sys_objects s)(a \<mapsto> ConnObject ?c)\<rparr>"
  have "\<exists>e. tcp_take 256 ?c = (Inl e, ?c)" using assms(3) by (simp add: tcp_take_def)
  then obtain e where "tcp_take 256 ?c = (Inl e, ?c)" ..
  then have "sys_read lw 256 a s = Inr (Inl e, ?s)" using assms(1) by (cases s) (simp add: sys_read_def get_conn_def put_def)
  moreover have "tcp_close lw ?c w1 = (None, ?c, w1)" using tcp_closed_quiet(2) [of ?c lw w1] by simp
  then have "sys_close lw a ?s = Inr (None, ?s)" by (simp add: sys_close_def get_conn_def put_def)
  moreover have "sys_destroy lw a ?s = Inr \<lparr>sys_world = w1, sys_objects = (sys_objects s)(a := None)\<rparr>"
    by (simp add: sys_destroy_def get_conn_def tcp_closed_quiet)
  ultimately show ?thesis using assms(2,4) by (simp add: poll_def fail_with_def cleanup_connection_def)
qed

section \<open>Time\<close>

definition sys_now :: "('e \<Rightarrow> nat) \<Rightarrow> 'e TcpSystem \<Rightarrow> nat" where
  "sys_now now s = now (env (sys_world s))"

lemma sys_now_simps [simp]:
  "sys_now now (put a x w s) = now (env w)" "sys_now now (s\<lparr>sys_world := w\<rparr>) = now (env w)"
  by (simp_all add: sys_now_def)

lemma sys_clock_law: "clock_law pf now \<Longrightarrow> clock_law (sys_platform pf) (sys_now now)"
  by (simp add: clock_law_def on_sys_def sys_platform_def sys_now_def world_platform_def on_env_def case_prod_beta)

lemma tcpl_dispatch_time:
  assumes "lwip_keeps_time lw now"
  shows "now (env w) \<le> now (env (snd (tcpl_dispatch lw ev (l, w))))"
    "now (env w) \<le> now (env (snd (snd (tcp_accept_callback lw x q err w))))"
proof -
  have abort: "now (env w) \<le> now (env (abort_new lw q w))" for q
    using call_void_time [OF assms] by (simp add: abort_new_def split: option.split)
  have accept: "now (env w) \<le> now (env (snd (snd (handle_tcp_accept lw q err l w))))" for q err l
    using abort assms
    by (cases err; cases q) (simp_all add: handle_tcp_accept_def Let_def case_prod_beta world_simps lwip_keeps_time_def)
  show callback: "now (env w) \<le> now (env (snd (snd (tcp_accept_callback lw x q err w))))" for x q err
    using abort accept by (simp add: tcp_accept_callback_def case_prod_beta split: option.split)
  show "now (env w) \<le> now (env (snd (tcpl_dispatch lw ev (l, w))))"
    using accept by (simp add: tcpl_dispatch_def tcp_accept_callback_def case_prod_beta split: LwipEvent.split)
qed

lemma sys_dispatch_time:
  assumes law: "lwip_keeps_time lw now" and run: "sys_dispatch lw ev s = Inr s'"
  shows "sys_now now s \<le> sys_now now s'"
proof -
  have tcp: "now (env w) \<le> now (env (snd (tcp_dispatch lw ev (c, w))))" for c and w :: "'a World"
    by (rule tcp_dispatch_step(8) [OF prod.collapse [symmetric] law])
  show ?thesis
  proof (cases ev)
    case (TcpRecvEvent arg p buf err)
    then show ?thesis using run tcp call_void_time [OF law]
      by (auto simp: sys_dispatch_def bindE_Inr_iff Let_def case_prod_beta sys_now_def tcp_recv_callback_def split: option.splits)
  next
    case (TcpErrEvent arg err)
    then show ?thesis using run tcp
      by (auto simp: sys_dispatch_def bindE_Inr_iff Let_def case_prod_beta sys_now_def split: option.splits)
  next
    case (TcpAcceptEvent arg q err)
    then show ?thesis using run tcpl_dispatch_time [OF law]
      by (auto simp: sys_dispatch_def bindE_Inr_iff Let_def case_prod_beta sys_now_def split: option.splits)
  next
    case (TcpConnectedEvent arg p err)
    then show ?thesis using run
      by (auto simp: sys_dispatch_def bindE_Inr_iff case_prod_beta sys_now_def split: option.splits)
  next
    case (UdpRecvEvent arg p buf ip port)
    then show ?thesis using run by (simp add: sys_dispatch_def)
  qed
qed

lemma dispatch_all_time:
  assumes "lwip_keeps_time lw now"
  shows "sys_dispatch_all lw evs s = Inr s' \<Longrightarrow> sys_now now s \<le> sys_now now s'"
proof (induction evs arbitrary: s)
  case (Cons ev evs)
  then obtain s1 where "sys_dispatch lw ev s = Inr s1" "sys_dispatch_all lw evs s1 = Inr s'"
    by (auto simp: bindE_Inr_iff)
  with sys_dispatch_time [OF assms this(1)] Cons.IH [OF this(2)] show ?case by simp
qed simp

lemma sys_poll_time:
  assumes "lwip_keeps_time lw now" and "sys_poll lw s = Inr s'"
  shows "sys_now now s \<le> sys_now now s'"
  using arch_poll_time [OF assms(1), of "sys_world s"] dispatch_all_time [OF assms(1)] assms(2)
  by (fastforce simp: sys_poll_def case_prod_beta Let_def sys_now_def)

lemma heap_reads_keep_time:
  assumes "lwip_keeps_time lw now"
  shows "reads_keep_time (heap_ops pf lw) (sys_now now)"
  unfolding reads_keep_time_def
proof (intro allI)
  fix n a s
  show "sys_now now s \<le> sys_now now (snd (snd (conn_read_nonblocking (heap_ops pf lw) n a s)))"
  proof (cases "sys_read lw n a s")
    case (Inr r)
    then have "n = 0 \<and> snd r = s \<or> (\<exists>s1. sys_poll lw s = Inr s1 \<and> sys_now now (snd r) = sys_now now s1)"
      by (cases r) (auto simp: sys_read_def bindE_Inr_iff case_prod_beta Let_def sys_now_def split: if_splits)
    then show ?thesis using Inr sys_poll_time [OF assms] by (cases r) auto
  qed simp
qed

lemma sys_dial_wait_returns:
  assumes "clock_law pf now" and "lwip_keeps_time lw now"
  shows "sys_dial_wait pf lw at until s \<noteq> None"
proof (induction "until - sys_now now s" arbitrary: s rule: less_induct)
  case less
  note law = clock_lawD [OF sys_clock_law [OF assms(1)]]
  show ?case
  proof (cases "sys_poll lw s")
    case (Inl fault)
    then show ?thesis by (subst sys_dial_wait.simps) (simp del: not_None_eq split: sum.split)
  next
    case (Inr s1)
    let ?e = "sleep_ms (sys_platform pf) 10 s1"
    let ?now = "fst (get_absolute_time (sys_platform pf) ?e)" and ?s = "snd (get_absolute_time (sys_platform pf) ?e)"
    have t: "sys_now now s1 < ?now" "?now \<le> sys_now now ?s"
        "absolute_time_diff_us (sys_platform pf) ?now until \<le> 0 \<longleftrightarrow> until \<le> ?now"
      using law(5) [of s1 10] law(1,2) [of ?e] law(4) [of ?now until] by (simp_all del: sys_clock_sel)
    have "sys_dial_wait pf lw at until ?s \<noteq> None" if "\<not> until \<le> ?now"
      using sys_poll_time [OF assms(2) Inr] t(1,2) that by (intro less) simp
    then show ?thesis
      using t(3) Inr by (subst sys_dial_wait.simps)
        (simp add: case_prod_beta del: sys_clock_sel not_None_eq split: sum.split)
  qed
qed

lemma sys_dial_tcp_returns:
  assumes "clock_law pf now" and "lwip_keeps_time lw now"
  shows "sys_dial_tcp pf lw net address ms s \<noteq> None"
  using sys_dial_wait_returns [OF assms]
  by (simp add: sys_dial_tcp_def Let_def case_prod_beta del: sys_clock_sel not_None_eq split: sum.split option.split)

lemma heap_client_returns:
  assumes "clock_law pf now" and "lwip_keeps_time lw now"
  shows "heap_client pf lw net op cl s \<noteq> None"
  using connect_returns [OF sys_clock_law [OF assms(1)] heap_reads_keep_time [OF assms(2)] sys_dial_tcp_returns [OF assms]]
  by (cases op) (simp_all add: case_prod_beta)

section \<open>Properties\<close>


lemma ticking_quiet: "clock_quiet ticking_platform sn_regs sn_next"
  by (simp add: clock_quiet_def ticking_platform_def)

lemma joined_reach: "\<exists>ks. program_reach ticking_platform system_lwip system_network sn_regs [None] joined
    (linked ks [broker_found, broker_says [0x20, 2, 0, 0]] q)"
proof -
  let ?s = "fresh_system (broker_accepts @ q)"
  have "\<not> orphaned ?s" by (simp add: orphaned_def fresh_system_def)
  then show ?thesis
    using join_run [of q] program_client [OF program_start [OF fresh_start]] by blast
qed



lemma ticking_time: "clock_law ticking_platform sn_time" "lwip_keeps_time system_lwip sn_time"
  by (simp_all add: clock_law_def ticking_platform_def lwip_keeps_time_def system_lwip_def case_prod_beta split: list.split)




text \<open>
  C24: When the broker ends the stream, the poll of the client that sees it destroys the connection,
  with an error and without any call to lwIP: the control block stays open and keeps the address of
  the destroyed object, and the error callback that lwIP may run at any later poll follows it.
\<close>

theorem client_leaves_dangling_callback:
  assumes "lwip_law lw regs next_addr" and "clock_quiet pf regs next_addr"
    and "program_reach pf lw net regs log cl s" and "conn cl = Some a"
    and "sys_objects s a = Some (ConnObject c)" and "tcp_pcb c = Some p" and "tcp_rx_buffer c = []"
    and "arch_poll lw (sys_world s) = ([TcpRecvEvent (Some a) p None ERR_OK], w)"
  shows "\<exists>e cl' s'. heap_client pf lw net ClPoll cl s = Some (Some e, cl', s') \<and>
    conn cl' = None \<and> sys_objects s' a = None \<and> calls (sys_world s') = calls (sys_world s) \<and>
    pv_live (regs (env (sys_world s')) p) \<and> pv_arg (regs (env (sys_world s')) p) = Some a \<and>
    lwip_run (regs (env (sys_world s'))) [TcpErrEvent (Some a) err] ((regs (env (sys_world s')))(p := free_block)) \<and>
    sys_dispatch lw (TcpErrEvent (Some a) err) s' = Inl NullDeref"
proof -
  note good = program_good [OF assms(3,1,2)]
  have ok: "sys_ok regs next_addr s" using good assms(4) by (simp add: heap_alive_def)
  note fin = fin_poll [OF assms(1) ok assms(5,6,8)]
  let ?c = "c\<lparr>tcp_is_closed := True, tcp_pcb := None\<rparr>"
  let ?s = "\<lparr>sys_world = w, sys_objects = (sys_objects s)(a := None)\<rparr>"
  have "client_state cl = CONNECTED" using good assms(4) by (simp add: client_inv_def)
  then obtain e cl' where run: "heap_client pf lw net ClPoll cl s = Some (Some e, cl', ?s)" "conn cl' = None"
    using fin_client_poll [OF fin(1) assms(4,7), of pf] by auto
  have blk: "pv_live (regs (env w) p)" "pv_arg (regs (env w) p) = Some a" "pv_err (regs (env w) p)"
    using sys_invD(3) [OF ok [unfolded sys_ok_def] assms(5)] assms(6) fin(4) by (simp_all add: object_ok_def)
  have "lwip_run (regs (env w)) [TcpErrEvent (pv_arg (regs (env w) p)) err] ((regs (env w))(p := free_block))"
    using run_err [where v = "regs (env w)" and p = p] blk(3) run_end by blast
  moreover have "sys_dispatch lw (TcpErrEvent (Some a) err) ?s = Inl NullDeref" by (simp add: dangling_callbacks)
  ultimately show ?thesis using run blk fin(2) by auto
qed

theorem client_leaves_dangling_callback_witness:
  "\<exists>ks e cl' s'. heap_client ticking_platform system_lwip system_network ClPoll joined
       (linked ks [broker_found, broker_says [0x20, 2, 0, 0]] [[TcpRecvEvent (Some 11) 1 None ERR_OK]]) =
       Some (Some e, cl', s') \<and> conn cl' = None \<and> sys_objects s' 11 = None \<and>
     sys_dispatch system_lwip (TcpErrEvent (Some 11) ERR_RST) s' = Inl NullDeref"
proof -
  let ?fin = "TcpRecvEvent (Some 11) 1 None ERR_OK"
  obtain ks where r: "program_reach ticking_platform system_lwip system_network sn_regs [None] joined
      (linked ks [broker_found, broker_says [0x20, 2, 0, 0]] [[?fin]])"
    using joined_reach by blast
  have c: "conn joined = Some 11" "tcp_pcb (client 11 1) = Some 1" "tcp_rx_buffer (client 11 1) = []"
    by (simp_all add: joined_def client_def new_TcpConnection_def)
  obtain w where "arch_poll system_lwip (sys_world (linked ks [broker_found, broker_says [0x20, 2, 0, 0]] [[?fin]])) = ([?fin], w)"
    by (simp add: arch_poll_def system_poll_new linked_def sn_step_def new_block_def free_block_def)
  from client_leaves_dangling_callback [OF system_law ticking_quiet r c(1) linked_simps(1) c(2,3) this, of ERR_RST]
  show ?thesis by blast
qed

end
