(* ===== verification/Udp_System.thy ===== *)
theory Udp_System
  imports Network Dns_Service Dhcp_Service
begin

text \<open>
  The UDP side of a program as a whole: its network with the DHCP server in it, the DNS servers and
  the connections of \<^verbatim>\<open>Network::dial_udp\<close> that it has made, over one world. A poll by one of them runs
  the callbacks of all; each goes to the object whose address is its argument, as the \<^verbatim>\<open>static_cast\<close>
  in the callback functions of \<^verbatim>\<open>dhcp_server.cpp\<close>, \<^verbatim>\<open>dns_server.cpp\<close> and \<^verbatim>\<open>udp_connection.cpp\<close> has it,
  and faults when there is no such object. A UDP listener and its connections have a heap of their
  own.
\<close>

section \<open>What lwIP documents of UDP control blocks\<close>

text \<open>
  For each block in use the argument of its receive function, \<open>None\<close> when no function is registered.
\<close>

type_synonym UdpRegs = "pcb \<Rightarrow> obj option option"

fun udp_view :: "LwipCall \<Rightarrow> UdpRegs \<Rightarrow> UdpRegs" where
  "udp_view (UdpRecv p arg) v = (if v p = None then v else v(p := Some arg))"
| "udp_view (UdpRemove p) v = v(p := None)"
| "udp_view k v = v"

text \<open>
  A callback of a poll is that of a block with a registered function and comes with its argument and
  with the address of the sender; a new block is one not in use, without a function; an address
  stands for one object in the whole run.
\<close>

definition udp_event_law :: "UdpRegs \<Rightarrow> LwipEvent \<Rightarrow> bool" where
  "udp_event_law v ev =
     (case ev of UdpRecvEvent arg p buf ip port \<Rightarrow> arg \<noteq> None \<and> v p = Some arg \<and> ip \<noteq> None | _ \<Rightarrow> True)"

definition udp_law :: "'e Lwip \<Rightarrow> ('e \<Rightarrow> UdpRegs) \<Rightarrow> ('e \<Rightarrow> obj) \<Rightarrow> bool" where
  "udp_law lw regs next_addr \<longleftrightarrow>
     (\<forall>k e. regs (snd (lwip_call lw k e)) = udp_view k (regs e) \<and>
        next_addr (snd (lwip_call lw k e)) = next_addr e) \<and>
     (\<forall>e. regs (snd (lwip_poll lw e)) = regs e \<and> next_addr (snd (lwip_poll lw e)) = next_addr e \<and>
        (\<forall>ev \<in> set (fst (lwip_poll lw e)). udp_event_law (regs e) ev)) \<and>
     (\<forall>e. (case fst (lwip_udp_new lw e) of
          None \<Rightarrow> regs (snd (lwip_udp_new lw e)) = regs e
        | Some p \<Rightarrow> regs e p = None \<and> regs (snd (lwip_udp_new lw e)) = (regs e)(p := Some None)) \<and>
        next_addr (snd (lwip_udp_new lw e)) = next_addr e) \<and>
     (\<forall>n e. regs (snd (lwip_pbuf_alloc lw n e)) = regs e \<and> next_addr (snd (lwip_pbuf_alloc lw n e)) = next_addr e) \<and>
     (\<forall>e. regs (snd (lwip_ticks_ms lw e)) = regs e \<and> next_addr (snd (lwip_ticks_ms lw e)) = next_addr e) \<and>
     (\<forall>e. next_addr e \<le> fst (new_object lw e) \<and> fst (new_object lw e) < next_addr (snd (new_object lw e)) \<and>
        regs (snd (new_object lw e)) = regs e)"

section \<open>The objects\<close>

record 'e UdpSystem =
  us_world :: "'e World"
  us_network :: Network
  us_dns :: "obj \<rightharpoonup> DnsServer"
  us_sockets :: "obj \<rightharpoonup> UdpConnection"

abbreviation us_dhcp :: "'e UdpSystem \<Rightarrow> DhcpServer" where
  "us_dhcp s \<equiv> dhcp_server (us_network s)"

definition get_dns :: "(obj \<rightharpoonup> DnsServer) \<Rightarrow> obj \<Rightarrow> DnsServer result" where
  "get_dns objs a = (case objs a of Some d \<Rightarrow> Inr d | None \<Rightarrow> Inl NullDeref)"

definition get_socket :: "(obj \<rightharpoonup> UdpConnection) \<Rightarrow> obj \<Rightarrow> UdpConnection result" where
  "get_socket objs a = (case objs a of Some c \<Rightarrow> Inr c | None \<Rightarrow> Inl NullDeref)"

definition put_socket :: "obj \<Rightarrow> UdpConnection \<Rightarrow> 'e World \<Rightarrow> 'e UdpSystem \<Rightarrow> 'e UdpSystem" where
  "put_socket a c w s = s\<lparr>us_world := w, us_sockets := (us_sockets s)(a \<mapsto> c)\<rparr>"

definition put_dns :: "obj \<Rightarrow> DnsServer \<Rightarrow> 'e World \<Rightarrow> 'e UdpSystem \<Rightarrow> 'e UdpSystem" where
  "put_dns a d w s = s\<lparr>us_world := w, us_dns := (us_dns s)(a \<mapsto> d)\<rparr>"

section \<open>Callbacks\<close>

text \<open>\<open>stack\<close> is what the buffer of the DNS handler holds before.\<close>

definition us_dispatch :: "'e Lwip \<Rightarrow> u8 list \<Rightarrow> LwipEvent \<Rightarrow> 'e UdpSystem \<Rightarrow> 'e UdpSystem result" where
  "us_dispatch lw stack ev s =
     (case ev of
        UdpRecvEvent None p buf ip port \<Rightarrow>
          (case udp_recv_callback lw None buf ip port (us_world s) of (c, w) \<Rightarrow> Inr (s\<lparr>us_world := w\<rparr>))
      | UdpRecvEvent (Some a) p buf ip port \<Rightarrow>
          if a = dhcp_this (us_dhcp s) then
            bindE (dhcp_recv_callback lw (Some (us_dhcp s)) buf (us_world s)) (\<lambda>(d, w).
              case d of
                None \<Rightarrow> Inr (s\<lparr>us_world := w\<rparr>)
              | Some d \<Rightarrow> Inr (s\<lparr>us_world := w, us_network := (us_network s)\<lparr>dhcp_server := d\<rparr>\<rparr>))
          else
            (case us_dns s a of
               Some d \<Rightarrow>
                 (case ip of
                    None \<Rightarrow> Inl NullDeref
                  | Some src \<Rightarrow>
                      bindE (dns_recv_callback lw stack (Some d) buf src port (us_world s))
                        (\<lambda>w. Inr (s\<lparr>us_world := w\<rparr>)))
             | None \<Rightarrow>
                 bindE (get_socket (us_sockets s) a) (\<lambda>c.
                   let (c, w) = udp_dispatch lw ev (c, us_world s) in Inr (put_socket a c w s)))
      | _ \<Rightarrow> Inr s)"

fun us_dispatch_all :: "'e Lwip \<Rightarrow> u8 list \<Rightarrow> LwipEvent list \<Rightarrow> 'e UdpSystem \<Rightarrow> 'e UdpSystem result" where
  "us_dispatch_all lw stack [] s = Inr s"
| "us_dispatch_all lw stack (ev # evs) s = bindE (us_dispatch lw stack ev s) (us_dispatch_all lw stack evs)"

definition us_poll :: "'e Lwip \<Rightarrow> u8 list \<Rightarrow> 'e UdpSystem \<Rightarrow> 'e UdpSystem result" where
  "us_poll lw stack s =
     (let (evs, w) = arch_poll lw (us_world s) in us_dispatch_all lw stack evs (s\<lparr>us_world := w\<rparr>))"

section \<open>Operations\<close>

text \<open>Those of the network on the radio.\<close>

definition us_access_point :: "'e Lwip \<Rightarrow> string \<Rightarrow> string \<Rightarrow> 'e UdpSystem \<Rightarrow> Error option \<times> 'e UdpSystem" where
  "us_access_point lw ssid password s =
     (let (err, net, w) = setup_wifi_access_point lw ssid password (us_network s) (us_world s)
      in (err, s\<lparr>us_network := net, us_world := w\<rparr>))"

definition us_station :: "'e Lwip \<Rightarrow> string \<Rightarrow> string \<Rightarrow> u32 \<Rightarrow> 'e UdpSystem \<Rightarrow> Error option \<times> 'e UdpSystem" where
  "us_station lw ssid password timeout_ms s =
     (let (err, net, w) = connect_to_wifi_station lw ssid password timeout_ms (us_network s) (us_world s)
      in (err, s\<lparr>us_network := net, us_world := w\<rparr>))"

definition us_initialize :: "'e Lwip \<Rightarrow> 'e UdpSystem \<Rightarrow> Error option \<times> 'e UdpSystem" where
  "us_initialize lw s =
     (let (err, net, w) = initialize lw (us_network s) (us_world s)
      in (err, s\<lparr>us_network := net, us_world := w\<rparr>))"

text \<open>DNS servers: made by the user, added to the network, changed, stopped and destroyed.\<close>

definition us_new_dns :: "'e Lwip \<Rightarrow> 'e UdpSystem \<Rightarrow> obj \<times> 'e UdpSystem" where
  "us_new_dns lw s = (let (a, w) = on_env (new_object lw) (us_world s) in (a, put_dns a (new_DnsServer a) w s))"

definition us_add_dns :: "'e Lwip \<Rightarrow> obj \<Rightarrow> 'e UdpSystem \<Rightarrow> (Error option \<times> 'e UdpSystem) result" where
  "us_add_dns lw a s =
     bindE (get_dns (us_dns s) a) (\<lambda>d.
       let (err, d, net, w) = add_dns_server lw d (us_network s) (us_world s)
       in Inr (err, put_dns a d w (s\<lparr>us_network := net\<rparr>)))"

definition us_change_dns :: "'e Lwip \<Rightarrow> dns_command \<Rightarrow> obj \<Rightarrow> 'e UdpSystem \<Rightarrow> 'e UdpSystem result" where
  "us_change_dns lw c a s =
     bindE (get_dns (us_dns s) a) (\<lambda>d. Inr (put_dns a (run_command lw c d) (us_world s) s))"

definition us_set_fallback :: "'e Lwip \<Rightarrow> string \<Rightarrow> obj \<Rightarrow> 'e UdpSystem \<Rightarrow> (Error option \<times> 'e UdpSystem) result" where
  "us_set_fallback lw ip a s =
     bindE (get_dns (us_dns s) a) (\<lambda>d.
       let (err, d) = set_fallback_ip lw ip d in Inr (err, put_dns a d (us_world s) s))"

definition us_clear_fallback :: "obj \<Rightarrow> 'e UdpSystem \<Rightarrow> 'e UdpSystem result" where
  "us_clear_fallback a s =
     bindE (get_dns (us_dns s) a) (\<lambda>d. Inr (put_dns a (clear_fallback_ip d) (us_world s) s))"

definition us_stop_dns :: "'e Lwip \<Rightarrow> obj \<Rightarrow> 'e UdpSystem \<Rightarrow> (Error option \<times> 'e UdpSystem) result" where
  "us_stop_dns lw a s =
     bindE (get_dns (us_dns s) a) (\<lambda>d.
       let (err, d, w) = dns_stop lw d (us_world s) in Inr (err, put_dns a d w s))"

definition us_destroy_dns :: "'e Lwip \<Rightarrow> obj \<Rightarrow> 'e UdpSystem \<Rightarrow> 'e UdpSystem result" where
  "us_destroy_dns lw a s =
     bindE (get_dns (us_dns s) a) (\<lambda>d.
       Inr (s\<lparr>us_world := dns_destroy lw d (us_world s), us_dns := (us_dns s)(a := None)\<rparr>))"

text \<open>Connections.\<close>

definition us_dial :: "'e Lwip \<Rightarrow> Address \<Rightarrow> 'e UdpSystem \<Rightarrow> obj result \<times> 'e UdpSystem" where
  "us_dial lw address s =
     (case dial_udp lw (us_network s) address (us_world s) of
        (Inl err, w) \<Rightarrow> (Inl err, s\<lparr>us_world := w\<rparr>)
      | (Inr c, w) \<Rightarrow> (Inr (udp_this c), put_socket (udp_this c) c w s))"

definition us_read :: "'e Lwip \<Rightarrow> u8 list \<Rightarrow> nat \<Rightarrow> obj \<Rightarrow> 'e UdpSystem \<Rightarrow> (u8 list result \<times> 'e UdpSystem) result" where
  "us_read lw stack n a s =
     (if n = 0 then Inr (Inr [], s)
      else bindE (us_poll lw stack s) (\<lambda>s.
        bindE (get_socket (us_sockets s) a) (\<lambda>c.
          let (r, c) = udp_take n c in Inr (r, put_socket a c (us_world s) s))))"

definition us_write :: "'e Lwip \<Rightarrow> u8 list \<Rightarrow> obj \<Rightarrow> 'e UdpSystem \<Rightarrow> (nat result \<times> 'e UdpSystem) result" where
  "us_write lw bs a s =
     bindE (get_socket (us_sockets s) a) (\<lambda>c.
       let (r, c, w) = udp_write lw bs c (us_world s) in Inr (r, put_socket a c w s))"

definition us_close :: "'e Lwip \<Rightarrow> obj \<Rightarrow> 'e UdpSystem \<Rightarrow> 'e UdpSystem result" where
  "us_close lw a s =
     bindE (get_socket (us_sockets s) a) (\<lambda>c.
       let (removal, c, w) = udp_close lw c (us_world s) in Inr (put_socket a c w s))"

definition us_destroy :: "'e Lwip \<Rightarrow> obj \<Rightarrow> 'e UdpSystem \<Rightarrow> 'e UdpSystem result" where
  "us_destroy lw a s =
     bindE (get_socket (us_sockets s) a) (\<lambda>c.
       let (removal, c, w) = udp_close lw c (us_world s)
       in Inr (s\<lparr>us_world := w, us_sockets := (us_sockets s)(a := None)\<rparr>))"

section \<open>Runs\<close>

datatype UdpOp =
    UdpInitialize | UdpStation string string u32 | UdpAccessPoint string string
  | UdpNewDns | UdpAddDns obj | UdpChangeDns dns_command obj
  | UdpSetFallback string obj | UdpClearFallback obj | UdpStopDns obj | UdpDestroyDns obj
  | UdpDial Address | UdpRead nat obj | UdpWrite "u8 list" obj | UdpClose obj | UdpDestroy obj
  | UdpPoll

datatype UdpOut =
    UdpDone "Error option" | UdpObject "obj result" | UdpGot "u8 list result" | UdpPut "nat result"

definition us_returning :: "('a \<Rightarrow> UdpOut) \<Rightarrow> ('a \<times> 'e UdpSystem) result \<Rightarrow> (UdpOut \<times> 'e UdpSystem) result" where
  "us_returning f r = bindE r (\<lambda>(x, s). Inr (f x, s))"

definition us_silent :: "'e UdpSystem result \<Rightarrow> (UdpOut \<times> 'e UdpSystem) result" where
  "us_silent r = bindE r (\<lambda>s. Inr (UdpDone None, s))"

fun us_exec :: "'e Lwip \<Rightarrow> u8 list \<Rightarrow> UdpOp \<Rightarrow> 'e UdpSystem \<Rightarrow> (UdpOut \<times> 'e UdpSystem) result" where
  "us_exec lw stack UdpInitialize s = us_returning UdpDone (Inr (us_initialize lw s))"
| "us_exec lw stack (UdpStation ssid password t) s = us_returning UdpDone (Inr (us_station lw ssid password t s))"
| "us_exec lw stack (UdpAccessPoint ssid password) s = us_returning UdpDone (Inr (us_access_point lw ssid password s))"
| "us_exec lw stack UdpNewDns s = us_returning (\<lambda>a. UdpObject (Inr a)) (Inr (us_new_dns lw s))"
| "us_exec lw stack (UdpAddDns a) s = us_returning UdpDone (us_add_dns lw a s)"
| "us_exec lw stack (UdpChangeDns c a) s = us_silent (us_change_dns lw c a s)"
| "us_exec lw stack (UdpSetFallback ip a) s = us_returning UdpDone (us_set_fallback lw ip a s)"
| "us_exec lw stack (UdpClearFallback a) s = us_silent (us_clear_fallback a s)"
| "us_exec lw stack (UdpStopDns a) s = us_returning UdpDone (us_stop_dns lw a s)"
| "us_exec lw stack (UdpDestroyDns a) s = us_silent (us_destroy_dns lw a s)"
| "us_exec lw stack (UdpDial address) s = us_returning UdpObject (Inr (us_dial lw address s))"
| "us_exec lw stack (UdpRead n a) s = us_returning UdpGot (us_read lw stack n a s)"
| "us_exec lw stack (UdpWrite bs a) s = us_returning UdpPut (us_write lw bs a s)"
| "us_exec lw stack (UdpClose a) s = us_silent (us_close lw a s)"
| "us_exec lw stack (UdpDestroy a) s = us_silent (us_destroy lw a s)"
| "us_exec lw stack UdpPoll s = us_silent (us_poll lw stack s)"

text \<open>The program uses objects that it has made and not destroyed.\<close>

fun us_usable :: "UdpOp \<Rightarrow> 'e UdpSystem \<Rightarrow> bool" where
  "us_usable (UdpAddDns a) s \<longleftrightarrow> us_dns s a \<noteq> None"
| "us_usable (UdpChangeDns c a) s \<longleftrightarrow> us_dns s a \<noteq> None"
| "us_usable (UdpSetFallback ip a) s \<longleftrightarrow> us_dns s a \<noteq> None"
| "us_usable (UdpClearFallback a) s \<longleftrightarrow> us_dns s a \<noteq> None"
| "us_usable (UdpStopDns a) s \<longleftrightarrow> us_dns s a \<noteq> None"
| "us_usable (UdpDestroyDns a) s \<longleftrightarrow> us_dns s a \<noteq> None"
| "us_usable (UdpRead n a) s \<longleftrightarrow> us_sockets s a \<noteq> None"
| "us_usable (UdpWrite bs a) s \<longleftrightarrow> us_sockets s a \<noteq> None"
| "us_usable (UdpClose a) s \<longleftrightarrow> us_sockets s a \<noteq> None"
| "us_usable (UdpDestroy a) s \<longleftrightarrow> us_sockets s a \<noteq> None"
| "us_usable op s \<longleftrightarrow> True"

text \<open>A program starts with a network and nothing else, in an lwIP without UDP control blocks.\<close>

definition us_start :: "('e \<Rightarrow> UdpRegs) \<Rightarrow> ('e \<Rightarrow> obj) \<Rightarrow> 'e UdpSystem \<Rightarrow> bool" where
  "us_start regs next_addr s \<longleftrightarrow> us_dns s = Map.empty \<and> us_sockets s = Map.empty \<and>
     (\<forall>p. regs (env (us_world s)) p = None) \<and>
     (\<exists>dhcp < next_addr (env (us_world s)). us_network s = new_Network dhcp)"

inductive us_reach ::
  "'e Lwip \<Rightarrow> u8 list \<Rightarrow> ('e \<Rightarrow> UdpRegs) \<Rightarrow> ('e \<Rightarrow> obj) \<Rightarrow> 'e UdpSystem \<Rightarrow> bool" for lw stack regs next_addr where
  us_first: "us_start regs next_addr s \<Longrightarrow> us_reach lw stack regs next_addr s"
| us_step: "us_reach lw stack regs next_addr s \<Longrightarrow> us_usable op s \<Longrightarrow> us_exec lw stack op s = Inr (out, s') \<Longrightarrow>
    us_reach lw stack regs next_addr s'"

end
