(* ===== verification/Udp_System_Laws.thy ===== *)
theory Udp_System_Laws
  imports Udp_System
begin

text \<open>
  The invariant of the UDP objects of a program: the address behind a registered receive function
  is that of the one object that holds the control block, and every operation keeps it that way. All
  that operations do to it is that an object gets a new block or gives its block back
  (\<open>owned_acquire\<close>, \<open>owned_release\<close>).
\<close>

section \<open>Who owns a control block\<close>

definition owned :: "UdpRegs \<Rightarrow> (obj \<rightharpoonup> pcb) \<Rightarrow> bool" where
  "owned v blocks \<longleftrightarrow> (\<forall>p a. v p = Some (Some a) \<longleftrightarrow> blocks a = Some p)"

lemma owned_acquire: "owned v blocks \<Longrightarrow> v p = None \<Longrightarrow> blocks a = None \<Longrightarrow> owned (v(p := Some (Some a))) (blocks(a \<mapsto> p))"
  by (auto simp: owned_def) (metis option.distinct(1))

lemma owned_release: "owned v blocks \<Longrightarrow> blocks a = Some p \<Longrightarrow> owned (v(p := None)) (blocks(a := None))"
  by (auto simp: owned_def) (metis option.inject)

definition block_of :: "'e UdpSystem \<Rightarrow> obj \<Rightarrow> pcb option" where
  "block_of s a =
     (if a = dhcp_this (us_dhcp s) then dhcp_udp (us_dhcp s)
      else case us_dns s a of
        Some d \<Rightarrow> dns_udp d
      | None \<Rightarrow> (case us_sockets s a of Some c \<Rightarrow> udp_pcb c | None \<Rightarrow> None))"

text \<open>Objects are at their addresses, one at each, all of them allocated.\<close>

definition us_shape :: "obj \<Rightarrow> 'e UdpSystem \<Rightarrow> bool" where
  "us_shape next s \<longleftrightarrow>
     dhcp_this (us_dhcp s) < next \<and>
     us_dns s (dhcp_this (us_dhcp s)) = None \<and> us_sockets s (dhcp_this (us_dhcp s)) = None \<and>
     (\<forall>a d. us_dns s a = Some d \<longrightarrow> dns_this d = a \<and> a < next \<and> us_sockets s a = None) \<and>
     (\<forall>a c. us_sockets s a = Some c \<longrightarrow> udp_this c = a \<and> a < next \<and> udp_owns_pcb c \<and> udp_listener_owner c = None)"

definition us_ok :: "('e \<Rightarrow> UdpRegs) \<Rightarrow> ('e \<Rightarrow> obj) \<Rightarrow> 'e UdpSystem \<Rightarrow> bool" where
  "us_ok regs next_addr s \<longleftrightarrow>
     owned (regs (env (us_world s))) (block_of s) \<and> us_shape (next_addr (env (us_world s))) s"

lemma us_start_ok: "us_start regs next_addr s \<Longrightarrow> us_ok regs next_addr s"
  by (auto simp: us_start_def us_ok_def owned_def block_of_def us_shape_def new_Network_def new_DhcpServer_def)

section \<open>The law along worlds\<close>

lemma udp_law_call:
  assumes "udp_law lw regs next_addr"
  shows "regs (env (call_void lw k w)) = udp_view k (regs (env w))"
    "regs (env (snd (call lw k w))) = udp_view k (regs (env w))"
    "next_addr (env (call_void lw k w)) = next_addr (env w)"
    "next_addr (env (snd (call lw k w))) = next_addr (env w)"
  using assms by (simp_all add: udp_law_def world_simps)

lemma udp_law_env:
  assumes "udp_law lw regs next_addr"
  shows "regs (env (snd (on_env (lwip_pbuf_alloc lw n) w))) = regs (env w)"
    "next_addr (env (snd (on_env (lwip_pbuf_alloc lw n) w))) = next_addr (env w)"
    "regs (env (snd (on_env (lwip_ticks_ms lw) w))) = regs (env w)"
    "next_addr (env (snd (on_env (lwip_ticks_ms lw) w))) = next_addr (env w)"
    "regs (env (snd (arch_poll lw w))) = regs (env w)"
    "next_addr (env (snd (arch_poll lw w))) = next_addr (env w)"
    "regs (env (snd (on_env (new_object lw) w))) = regs (env w)"
  using assms by (simp_all add: udp_law_def world_simps arch_poll_def case_prod_beta)

lemma udp_law_new:
  assumes "udp_law lw regs next_addr" and "on_env (lwip_udp_new lw) w = (r, w')"
  shows "next_addr (env w') = next_addr (env w)" "r = None \<Longrightarrow> regs (env w') = regs (env w)"
    "r = Some p \<Longrightarrow> regs (env w) p = None \<and> regs (env w') = (regs (env w))(p := Some None)"
proof -
  have "(case fst (lwip_udp_new lw (env w)) of
          None \<Rightarrow> regs (snd (lwip_udp_new lw (env w))) = regs (env w)
        | Some p \<Rightarrow> regs (env w) p = None \<and> regs (snd (lwip_udp_new lw (env w))) = (regs (env w))(p := Some None)) \<and>
        next_addr (snd (lwip_udp_new lw (env w))) = next_addr (env w)"
    using assms(1) unfolding udp_law_def by (elim conjE) (erule spec)
  moreover have "fst (lwip_udp_new lw (env w)) = r" "snd (lwip_udp_new lw (env w)) = env w'"
    using assms(2) by (auto simp: on_env_def split: prod.splits)
  ultimately show "next_addr (env w') = next_addr (env w)" "r = None \<Longrightarrow> regs (env w') = regs (env w)"
    "r = Some p \<Longrightarrow> regs (env w) p = None \<and> regs (env w') = (regs (env w))(p := Some None)"
    by auto
qed

lemma udp_law_object:
  assumes "udp_law lw regs next_addr" and "on_env (new_object lw) w = (a, w')"
  shows "next_addr (env w) \<le> a" "a < next_addr (env w')" "regs (env w') = regs (env w)"
proof -
  have "next_addr (env w) \<le> fst (new_object lw (env w)) \<and>
      fst (new_object lw (env w)) < next_addr (snd (new_object lw (env w))) \<and>
      regs (snd (new_object lw (env w))) = regs (env w)"
    using assms(1) unfolding udp_law_def by (elim conjE) (erule spec)
  moreover have "fst (new_object lw (env w)) = a" "snd (new_object lw (env w)) = env w'"
    using assms(2) by (auto simp: on_env_def split: prod.splits)
  ultimately show "next_addr (env w) \<le> a" "a < next_addr (env w')" "regs (env w') = regs (env w)" by auto
qed

text \<open>Steps that leave the registrations and the addresses as they are.\<close>

definition same_blocks :: "('e \<Rightarrow> UdpRegs) \<Rightarrow> ('e \<Rightarrow> obj) \<Rightarrow> 'e World \<Rightarrow> 'e World \<Rightarrow> bool" where
  "same_blocks regs next_addr w w' \<longleftrightarrow>
     regs (env w') = regs (env w) \<and> next_addr (env w') = next_addr (env w)"

lemma same_blocks_refl [simp]: "same_blocks regs next_addr w w"
  by (simp add: same_blocks_def)

lemma same_blocks_trans:
  "same_blocks regs next_addr w1 w2 \<Longrightarrow> same_blocks regs next_addr w2 w3 \<Longrightarrow> same_blocks regs next_addr w1 w3"
  by (simp add: same_blocks_def)

lemma same_blocks_call:
  assumes "udp_law lw regs next_addr" and "\<And>v. udp_view k v = v"
  shows "same_blocks regs next_addr w (call_void lw k w)" "same_blocks regs next_addr w (snd (call lw k w))"
  using udp_law_call [OF assms(1)] assms(2) by (simp_all add: same_blocks_def)

section \<open>What handlers leave alone\<close>

lemma find_lease_blocks:
  assumes "udp_law lw regs next_addr"
  shows "same_blocks regs next_addr w (snd (snd (find_lease_loop lw mac i yi ls w)))"
  using assms
proof (induction lw mac i yi ls w rule: find_lease_loop.induct)
  case (1 lw mac i yi ls w)
  have tick: "same_blocks regs next_addr w (snd (on_env (lwip_ticks_ms lw) w))"
    using udp_law_env(3,4) [OF "1.prems"] by (simp add: same_blocks_def)
  show ?case
    by (subst find_lease_loop.simps)
      (use "1.IH" "1.prems" tick same_blocks_trans [OF tick] in \<open>auto simp: Let_def split: prod.split\<close>)
qed

lemma decide_blocks:
  assumes "udp_law lw regs next_addr" and "dhcp_decide lw msg opt t s w = Inr (r, s', w')"
  shows "same_blocks regs next_addr w w'"
proof -
  have tick: "same_blocks regs next_addr w (snd (on_env (lwip_ticks_ms lw) w))"
    using udp_law_env(3,4) [OF assms(1)] by (simp add: same_blocks_def)
  show ?thesis
    using assms(2) tick find_lease_blocks [OF assms(1), of w _ 0 32 "leases s"]
    by (auto simp: dhcp_decide_def find_or_allocate_lease_def Let_def case_prod_beta split: if_splits option.splits)
qed

lemma broadcast_blocks:
  assumes "udp_law lw regs next_addr"
  shows "same_blocks regs next_addr w (dhcp_broadcast lw reply s nif w)"
  using udp_law_call [OF assms] udp_law_env(1,2) [OF assms]
  by (auto simp: dhcp_broadcast_def same_blocks_def Let_def case_prod_beta split: option.split)

lemma dhcp_blocks:
  assumes "udp_law lw regs next_addr" and "dhcp_handle_request lw buf s w = Inr (s', w')"
  shows "same_blocks regs next_addr w w'" "dhcp_this s' = dhcp_this s" "dhcp_udp s' = dhcp_udp s"
    "server_ip s' = server_ip s" "netmask s' = netmask s"
proof -
  have free: "same_blocks regs next_addr w0 (call_void lw (PbufFree bs) w0)" for bs w0
    by (rule same_blocks_call [OF assms(1)]) simp
  have "same_blocks regs next_addr w w' \<and> dhcp_this s' = dhcp_this s \<and> dhcp_udp s' = dhcp_udp s \<and>
      server_ip s' = server_ip s \<and> netmask s' = netmask s"
  proof (cases buf)
    case None
    then show ?thesis using assms(2) by (simp add: dhcp_handle_request_def)
  next
    case (Some bs)
    show ?thesis
    proof (cases "243 \<le> length bs \<and> find_option (dm_options (dhcp_received bs)) 4 DHCP_OPT_MSG_TYPE \<noteq> Inr None")
      case False
      then have "dhcp_handle_request lw buf s w = Inr (s, call_void lw (PbufFree bs) w)"
        using Some dhcp_handle_request_eq [of bs lw s w] by (auto simp: dhcp_handle_request_def)
      then show ?thesis using assms(2) free by auto
    next
      case True
      then obtain t r s1 w1 where d: "dhcp_decide lw (dhcp_message bs s) 4 t s w = Inr (r, s1, w1)"
          "dhcp_finish lw bs (r, s1, w1) = (s', w')"
        using assms(2) Some by (auto simp: dhcp_handle_request_eq split: option.splits)
      have "same_blocks regs next_addr w1 w'"
        using d(2) free same_blocks_trans [OF broadcast_blocks [OF assms(1)] free]
        by (auto simp: dhcp_finish_def split: option.splits prod.splits)
      moreover have "s' = s1" using d(2) by (simp add: dhcp_finish_def)
      ultimately show ?thesis
        using same_blocks_trans [OF decide_blocks [OF assms(1) d(1)]] dhcp_decide_keeps [OF d(1)] by simp
    qed
  qed
  then show "same_blocks regs next_addr w w'" "dhcp_this s' = dhcp_this s" "dhcp_udp s' = dhcp_udp s"
    "server_ip s' = server_ip s" "netmask s' = netmask s" by simp_all
qed

lemma dns_blocks:
  assumes "udp_law lw regs next_addr" and "dns_handle_request lw stack buf src port s w = Inr w'"
    and "length stack = 300"
  shows "same_blocks regs next_addr w w'"
proof -
  have free: "same_blocks regs next_addr w0 (call_void lw (PbufFree bs) w0)" for bs w0
    by (rule same_blocks_call [OF assms(1)]) simp
  have sent: "same_blocks regs next_addr w (dns_sent lw reply src port s w)" for reply
    using udp_law_call [OF assms(1)] udp_law_env(1,2) [OF assms(1)]
    by (auto simp: dns_sent_def same_blocks_def Let_def case_prod_beta split: option.split)
  show ?thesis
  proof (cases buf)
    case None
    then show ?thesis using assms(2) by (simp add: dns_handle_request_def)
  next
    case (Some bs)
    show ?thesis
    proof (cases "\<exists>host e ip. dns_query bs host e \<and> lookup_host s host = Some ip")
      case True
      then obtain host e ip where q: "dns_query bs host e" "lookup_host s host = Some ip" by blast
      show ?thesis
        using assms(2) Some same_blocks_trans [OF sent free] by (auto simp: handle_answered [OF assms(3) q] split: if_splits)
    next
      case False
      then have none: "lookup_host s host = None" if "dns_query bs host e" for host e
        using that by (cases "lookup_host s host") auto
      have "dns_handle_request lw stack (Some bs) src port s w = Inr (call_void lw (PbufFree bs) w)"
        by (rule handle_dropped [OF assms(3) none])
      then show ?thesis using assms(2) Some free by auto
    qed
  qed
qed

lemma socket_blocks:
  assumes "udp_law lw regs next_addr" and "udp_dispatch lw ev (c, w) = (c', w')"
  shows "same_blocks regs next_addr w w'"
  using assms(2) udp_law_call [OF assms(1)]
  by (auto simp: udp_dispatch_def udp_recv_callback_def handle_udp_recv_def same_blocks_def
      split: LwipEvent.splits if_splits option.splits)

section \<open>Faults of the handlers\<close>

text \<open>The only fault of a handler is a read or write outside its message.\<close>

lemma find_option_fault: "find_option opts opt code = Inl f \<Longrightarrow> f = OutOfBounds"
proof -
  have "find_option_loop opts opt code i = Inl f \<Longrightarrow> f = OutOfBounds" for i
  proof (induction opts opt code i rule: find_option_loop.induct)
    case (1 opts opt code i)
    then show ?case
      by (simp add: find_option_loop.simps [of opts opt code i] read_at_def split: if_splits)
  qed
  then show "find_option opts opt code = Inl f \<Longrightarrow> f = OutOfBounds" by (simp add: find_option_def)
qed

lemma bindE_Inl_iff: "bindE m f = Inl e \<longleftrightarrow> m = Inl e \<or> (\<exists>a. m = Inr a \<and> f a = Inl e)"
  by (cases m) simp_all

lemma decide_fault: "dhcp_decide lw msg opt t s w = Inl f \<Longrightarrow> f = OutOfBounds"
  unfolding dhcp_decide_def Let_def case_prod_beta
  by (auto simp: bindE_Inl_iff read_range_def read_at_def dest: find_option_fault split: if_splits option.splits)

lemma dhcp_fault:
  assumes "dhcp_handle_request lw buf s w = Inl f"
  shows "f = OutOfBounds \<and> (\<exists>bs. buf = Some bs \<and> 543 < length bs)"
proof -
  obtain bs where bs: "buf = Some bs" "243 \<le> length bs"
    using assms by (auto simp: dhcp_handle_request_def split: option.splits if_splits)
  have "find_option (dm_options (dhcp_received bs)) 4 DHCP_OPT_MSG_TYPE = Inl f \<or>
      (\<exists>m. read_at (dm_options (dhcp_received bs)) (m + 2) = Inl f) \<or>
      (\<exists>t. dhcp_decide lw (dhcp_message bs s) 4 t s w = Inl f)"
    using assms unfolding bs(1) dhcp_handle_request_eq [OF bs(2)] bindE_Inl_iff
    by (auto simp: bindE_Inl_iff split: option.splits)
  then have "f = OutOfBounds"
    using find_option_fault decide_fault by (auto simp: read_at_def split: if_splits)
  moreover have "543 < length bs"
    using dhcp_handle_request_safe [of bs lw s w] assms bs calculation by (cases "length bs \<le> 543") simp_all
  ultimately show ?thesis using bs by blast
qed

lemma dns_fault:
  assumes "dns_handle_request lw stack buf src port s w = Inl f" and "length stack = 300"
  shows "f = OutOfBounds \<and> (\<exists>bs. buf = Some bs \<and> 284 < length bs)"
proof (cases buf)
  case None
  then show ?thesis using assms(1) by (simp add: dns_handle_request_def)
next
  case (Some bs)
  show ?thesis
  proof (cases "\<exists>host e ip. dns_query bs host e \<and> lookup_host s host = Some ip")
    case True
    then obtain host e ip where q: "dns_query bs host e" "lookup_host s host = Some ip" by blast
    have f: "f = OutOfBounds" "284 < e"
      using assms(1) Some by (auto simp: handle_answered [OF assms(2) q] split: if_splits)
    have "e \<le> length bs"
      using q(1) question_end_le by (force simp: dns_query_def Let_def)
    then show ?thesis using f Some by simp
  next
    case False
    then have none: "lookup_host s host = None" if "dns_query bs host e" for host e
      using that by (cases "lookup_host s host") auto
    have "dns_handle_request lw stack (Some bs) src port s w = Inr (call_void lw (PbufFree bs) w)"
      by (rule handle_dropped [OF assms(2) none])
    then show ?thesis using assms(1) Some by simp
  qed
qed

section \<open>Callbacks\<close>

text \<open>A datagram that the message of its server has room for.\<close>

definition fits :: "'e UdpSystem \<Rightarrow> LwipEvent \<Rightarrow> bool" where
  "fits s ev =
     (case ev of
        UdpRecvEvent (Some a) p (Some bs) ip port \<Rightarrow>
          (a = dhcp_this (us_dhcp s) \<longrightarrow> length bs \<le> 543) \<and> (us_dns s a \<noteq> None \<longrightarrow> length bs \<le> 284)
      | _ \<Rightarrow> True)"

text \<open>What stays as it is when callbacks run.\<close>

definition dispatched_udp :: "('e \<Rightarrow> UdpRegs) \<Rightarrow> ('e \<Rightarrow> obj) \<Rightarrow> 'e UdpSystem \<Rightarrow> 'e UdpSystem \<Rightarrow> bool" where
  "dispatched_udp regs next_addr s s' \<longleftrightarrow>
     us_ok regs next_addr s' \<and> same_blocks regs next_addr (us_world s) (us_world s') \<and>
     us_dns s' = us_dns s \<and> (\<exists>d. us_network s' = (us_network s)\<lparr>dhcp_server := d\<rparr> \<and>
        dhcp_this d = dhcp_this (us_dhcp s) \<and> dhcp_udp d = dhcp_udp (us_dhcp s) \<and>
        server_ip d = server_ip (us_dhcp s) \<and> netmask d = netmask (us_dhcp s))"

lemma dispatched_udp_refl: "us_ok regs next_addr s \<Longrightarrow> dispatched_udp regs next_addr s s"
  unfolding dispatched_udp_def by (intro conjI exI [of _ "us_dhcp s"]) simp_all

lemma dispatched_udp_trans:
  "dispatched_udp regs next_addr s s1 \<Longrightarrow> dispatched_udp regs next_addr s1 s2 \<Longrightarrow> dispatched_udp regs next_addr s s2"
  by (auto simp: dispatched_udp_def same_blocks_def)

lemma fits_dispatched: "dispatched_udp regs next_addr s s' \<Longrightarrow> fits s' ev = fits s ev"
  by (auto simp: fits_def dispatched_udp_def split: LwipEvent.split option.split)

lemma us_ok_world:
  assumes "us_ok regs next_addr s" and "same_blocks regs next_addr (us_world s) w"
  shows "us_ok regs next_addr (s\<lparr>us_world := w\<rparr>)"
proof -
  have "block_of (s\<lparr>us_world := w\<rparr>) = block_of s" by (simp add: block_of_def fun_eq_iff split: option.split)
  then show ?thesis using assms by (simp add: us_ok_def same_blocks_def us_shape_def)
qed

lemma us_ok_dhcp:
  assumes "us_ok regs next_addr s" and "same_blocks regs next_addr (us_world s) w"
    and "dhcp_this d = dhcp_this (us_dhcp s)" and "dhcp_udp d = dhcp_udp (us_dhcp s)"
  shows "us_ok regs next_addr (s\<lparr>us_world := w, us_network := (us_network s)\<lparr>dhcp_server := d\<rparr>\<rparr>)"
proof -
  have "block_of (s\<lparr>us_world := w, us_network := (us_network s)\<lparr>dhcp_server := d\<rparr>\<rparr>) = block_of s"
    using assms(3,4) by (simp add: block_of_def fun_eq_iff split: option.split)
  then show ?thesis using assms by (simp add: us_ok_def same_blocks_def us_shape_def)
qed

lemma us_ok_socket:
  assumes "us_ok regs next_addr s" and "same_blocks regs next_addr (us_world s) w" and "us_sockets s a = Some c"
    and "udp_this c' = udp_this c" "udp_pcb c' = udp_pcb c" "udp_owns_pcb c' = udp_owns_pcb c"
    "udp_listener_owner c' = udp_listener_owner c"
  shows "us_ok regs next_addr (put_socket a c' w s)"
proof -
  have "block_of (put_socket a c' w s) = block_of s"
    using assms(3,5) by (auto simp: block_of_def put_socket_def fun_eq_iff split: option.split)
  moreover have "us_dns s a = None" using assms(1,3) by (metis option.distinct(1) not_None_eq us_ok_def us_shape_def)
  ultimately show ?thesis using assms by (auto simp: us_ok_def same_blocks_def us_shape_def put_socket_def)
qed

text \<open>One callback that lwIP may make, and those of a poll.\<close>

lemma us_dispatch_ok:
  assumes law: "udp_law lw regs next_addr" and stack: "length stack = 300" and ok: "us_ok regs next_addr s"
    and ev: "udp_event_law (regs (env (us_world s))) ev"
  shows "case us_dispatch lw stack ev s of
      Inl f \<Rightarrow> f = OutOfBounds \<and> \<not> fits s ev
    | Inr s' \<Rightarrow> dispatched_udp regs next_addr s s'"
proof (cases "\<exists>arg p buf ip port. ev = UdpRecvEvent arg p buf ip port")
  case False
  then have "us_dispatch lw stack ev s = Inr s" by (cases ev) (simp_all add: us_dispatch_def)
  then show ?thesis using dispatched_udp_refl [OF ok] by simp
next
  case True
  then obtain a p buf src port where e: "ev = UdpRecvEvent (Some a) p buf (Some src) port"
      "regs (env (us_world s)) p = Some (Some a)"
    using ev by (auto simp: udp_event_law_def)
  have block: "block_of s a = Some p" using ok e(2) by (auto simp: us_ok_def owned_def)
  show ?thesis
  proof (cases "a = dhcp_this (us_dhcp s)")
    case dhcp: True
    show ?thesis
    proof (cases "dhcp_handle_request lw buf (us_dhcp s) (us_world s)")
      case (Inl f)
      then show ?thesis using dhcp_fault [OF Inl] e dhcp by (auto simp: us_dispatch_def dhcp_recv_callback_def fits_def)
    next
      case (Inr r)
      obtain d w where r: "r = (d, w)" by fastforce
      note blocks = dhcp_blocks [OF law Inr [unfolded r]]
      have "us_dispatch lw stack ev s = Inr (s\<lparr>us_world := w, us_network := (us_network s)\<lparr>dhcp_server := d\<rparr>\<rparr>)"
        using e(1) dhcp Inr r by (simp add: us_dispatch_def dhcp_recv_callback_def)
      moreover have "dispatched_udp regs next_addr s (s\<lparr>us_world := w, us_network := (us_network s)\<lparr>dhcp_server := d\<rparr>\<rparr>)"
        unfolding dispatched_udp_def
        using us_ok_dhcp [OF ok blocks(1-3)] blocks by (intro conjI exI [of _ d]) simp_all
      ultimately show ?thesis by simp
    qed
  next
    case other: False
    show ?thesis
    proof (cases "us_dns s a")
      case (Some d)
      show ?thesis
      proof (cases "dns_handle_request lw stack buf src port d (us_world s)")
        case (Inl f)
        then show ?thesis
          using dns_fault [OF Inl stack] e other Some by (auto simp: us_dispatch_def dns_recv_callback_def fits_def)
      next
        case (Inr w)
        note blocks = dns_blocks [OF law Inr stack]
        have "us_dispatch lw stack ev s = Inr (s\<lparr>us_world := w\<rparr>)"
          using e(1) other Some Inr by (simp add: us_dispatch_def dns_recv_callback_def)
        moreover have "dispatched_udp regs next_addr s (s\<lparr>us_world := w\<rparr>)"
          unfolding dispatched_udp_def
          using us_ok_world [OF ok blocks] blocks by (intro conjI exI [of _ "us_dhcp s"]) simp_all
        ultimately show ?thesis by simp
      qed
    next
      case None
      then obtain c where c: "us_sockets s a = Some c" using block other by (auto simp: block_of_def split: option.splits)
      obtain c' w where d: "udp_dispatch lw ev (c, us_world s) = (c', w)" by fastforce
      note step = udp_dispatch_step(1) [OF d] and blocks = socket_blocks [OF law d]
      have "us_ok regs next_addr (put_socket a c' w s)"
        by (rule us_ok_socket [OF ok blocks c]) (simp_all add: step)
      moreover have "us_dispatch lw stack ev s = Inr (put_socket a c' w s)"
        using e(1) other None c d by (simp add: us_dispatch_def get_socket_def)
      ultimately show ?thesis
        unfolding dispatched_udp_def
        using blocks by (simp add: put_socket_def) (intro exI [of _ "us_dhcp s"], simp)
    qed
  qed
qed

lemma us_dispatch_all_ok:
  assumes law: "udp_law lw regs next_addr" and stack: "length stack = 300" and ok: "us_ok regs next_addr s"
    and evs: "\<forall>ev \<in> set evs. udp_event_law (regs (env (us_world s))) ev"
  shows "case us_dispatch_all lw stack evs s of
      Inl f \<Rightarrow> f = OutOfBounds \<and> (\<exists>ev \<in> set evs. \<not> fits s ev)
    | Inr s' \<Rightarrow> dispatched_udp regs next_addr s s'"
  using ok evs
proof (induction evs arbitrary: s)
  case Nil
  then show ?case by (simp add: dispatched_udp_refl)
next
  case (Cons ev evs)
  have one: "case us_dispatch lw stack ev s of
      Inl f \<Rightarrow> f = OutOfBounds \<and> \<not> fits s ev
    | Inr s' \<Rightarrow> dispatched_udp regs next_addr s s'"
    using us_dispatch_ok [OF law stack Cons.prems(1)] Cons.prems(2) by simp
  show ?case
  proof (cases "us_dispatch lw stack ev s")
    case (Inl f)
    then show ?thesis using one by auto
  next
    case (Inr s1)
    then have s1: "dispatched_udp regs next_addr s s1" using one by simp
    then have "us_ok regs next_addr s1" "regs (env (us_world s1)) = regs (env (us_world s))"
      by (simp_all add: dispatched_udp_def same_blocks_def)
    then have rest: "case us_dispatch_all lw stack evs s1 of
        Inl f \<Rightarrow> f = OutOfBounds \<and> (\<exists>ev \<in> set evs. \<not> fits s1 ev)
      | Inr s' \<Rightarrow> dispatched_udp regs next_addr s1 s'"
      using Cons.prems(2) by (intro Cons.IH) simp_all
    show ?thesis
    proof (cases "us_dispatch_all lw stack evs s1")
      case (Inl f)
      then show ?thesis using rest fits_dispatched [OF s1] \<open>us_dispatch lw stack ev s = Inr s1\<close> by auto
    next
      case (Inr s2)
      then show ?thesis using rest dispatched_udp_trans [OF s1] \<open>us_dispatch lw stack ev s = Inr s1\<close> by simp
    qed
  qed
qed

lemma poll_events:
  assumes "udp_law lw regs next_addr" and "arch_poll lw w = (evs, w')"
  shows "\<forall>ev \<in> set evs. udp_event_law (regs (env w')) ev" "same_blocks regs next_addr w w'"
proof -
  have "\<forall>ev \<in> set (fst (lwip_poll lw (env w))). udp_event_law (regs (env w)) ev"
    using assms(1) unfolding udp_law_def by (elim conjE) blast
  moreover show "same_blocks regs next_addr w w'"
    using udp_law_env(5,6) [OF assms(1), of w] assms(2) by (simp add: same_blocks_def)
  ultimately show "\<forall>ev \<in> set evs. udp_event_law (regs (env w')) ev"
    using assms(2) by (auto simp: arch_poll_def same_blocks_def split: prod.splits)
qed

lemma us_poll_ok:
  assumes law: "udp_law lw regs next_addr" and stack: "length stack = 300" and ok: "us_ok regs next_addr s"
  shows "case us_poll lw stack s of
      Inl f \<Rightarrow> f = OutOfBounds \<and> (\<exists>ev \<in> set (fst (arch_poll lw (us_world s))). \<not> fits s ev)
    | Inr s' \<Rightarrow> dispatched_udp regs next_addr s s'"
proof -
  obtain evs w where p: "arch_poll lw (us_world s) = (evs, w)" by fastforce
  note w = poll_events(2) [OF law p] and evs = poll_events(1) [OF law p]
  have all: "case us_dispatch_all lw stack evs (s\<lparr>us_world := w\<rparr>) of
      Inl f \<Rightarrow> f = OutOfBounds \<and> (\<exists>ev \<in> set evs. \<not> fits (s\<lparr>us_world := w\<rparr>) ev)
    | Inr s' \<Rightarrow> dispatched_udp regs next_addr (s\<lparr>us_world := w\<rparr>) s'"
    by (intro us_dispatch_all_ok [OF law stack us_ok_world [OF ok w]]) (simp add: evs)
  have "fits (s\<lparr>us_world := w\<rparr>) ev = fits s ev" for ev by (simp add: fits_def split: LwipEvent.split option.split)
  moreover have "dispatched_udp regs next_addr (s\<lparr>us_world := w\<rparr>) s' \<Longrightarrow> dispatched_udp regs next_addr s s'" for s'
    using w by (auto simp: dispatched_udp_def same_blocks_def)
  ultimately show ?thesis using all p by (auto simp: us_poll_def split: sum.splits)
qed

end
