(* ===== verification/Udp_System_Steps.thy ===== *)
theory Udp_System_Steps
  imports Udp_System_Laws
begin

text \<open>
  Every operation of the UDP side of a program keeps the invariant: the servers and the connections
  get a control block, keep it, or give it back.
\<close>

section \<open>Changes of one block\<close>

text \<open>
  The object at \<open>a\<close>, whose block was \<open>b\<close> and is \<open>b'\<close> then, has kept it, got a new one or given it
  back, and nothing else has happened to lwIP's blocks.
\<close>

definition block_change ::
  "('e \<Rightarrow> UdpRegs) \<Rightarrow> ('e \<Rightarrow> obj) \<Rightarrow> obj \<Rightarrow> 'e World \<Rightarrow> 'e World \<Rightarrow> pcb option \<Rightarrow> pcb option \<Rightarrow> bool" where
  "block_change regs next_addr a w w' b b' \<longleftrightarrow>
     next_addr (env w) \<le> next_addr (env w') \<and>
     (b' = b \<and> regs (env w') = regs (env w) \<or>
      b = None \<and> (\<exists>p. b' = Some p \<and> regs (env w) p = None \<and>
        regs (env w') = (regs (env w))(p := Some (Some a))) \<or>
      (\<exists>p. b = Some p \<and> b' = None \<and> regs (env w') = (regs (env w))(p := None)))"

lemma change_none: "same_blocks regs next_addr w w' \<Longrightarrow> block_change regs next_addr a w w' b b"
  by (simp add: same_blocks_def block_change_def)

lemma change_refl [simp]: "block_change regs next_addr a w w b b"
  by (simp add: block_change_def)

lemma change_after:
  "same_blocks regs next_addr w w1 \<Longrightarrow> block_change regs next_addr a w1 w' b b' \<Longrightarrow> block_change regs next_addr a w w' b b'"
  by (simp add: same_blocks_def block_change_def)

lemma owned_change:
  assumes "owned (regs (env w)) blocks" and "block_change regs next_addr a w w' (blocks a) b'"
  shows "owned (regs (env w')) (blocks(a := b'))"
proof -
  consider "b' = blocks a" "regs (env w') = regs (env w)"
    | p where "blocks a = None" "b' = Some p" "regs (env w) p = None" "regs (env w') = (regs (env w))(p := Some (Some a))"
    | p where "blocks a = Some p" "b' = None" "regs (env w') = (regs (env w))(p := None)"
    using assms(2) unfolding block_change_def by blast
  then show ?thesis
  proof cases
    case 1
    then show ?thesis using assms(1) by simp
  next
    case 2
    then show ?thesis using owned_acquire [OF assms(1)] by simp
  next
    case 3
    then show ?thesis using owned_release [OF assms(1)] by simp
  qed
qed

text \<open>Making a block with a receive function, as the servers and \<^verbatim>\<open>dial_udp\<close> do, and removing one.\<close>

lemma bound_change:
  assumes law: "udp_law lw regs next_addr" and new: "on_env (lwip_udp_new lw) w = (Some p, w1)"
    and w2: "w2 = call_void lw (UdpRecv p (Some a)) w1" and k: "\<And>v. udp_view k v = v"
  shows "block_change regs next_addr a w (snd (call lw k w2)) None (Some p)"
    "same_blocks regs next_addr w (call_void lw (UdpRemove p) (snd (call lw k w2)))"
proof -
  note fresh = udp_law_new(1) [OF law new] udp_law_new(3) [OF law new refl]
  have "regs (env (snd (call lw k w2))) = (regs (env w))(p := Some (Some a))"
      "next_addr (env (snd (call lw k w2))) = next_addr (env w)"
    using fresh udp_law_call [OF law] k w2 by simp_all
  then show "block_change regs next_addr a w (snd (call lw k w2)) None (Some p)"
      "same_blocks regs next_addr w (call_void lw (UdpRemove p) (snd (call lw k w2)))"
    using fresh udp_law_call [OF law] by (auto simp: block_change_def same_blocks_def)
qed

lemma removed_change:
  assumes "udp_law lw regs next_addr"
  shows "block_change regs next_addr a w (call_void lw (UdpRemove p) w) (Some p) None"
    "block_change regs next_addr a w (call_void lw (UdpRemove p) (call_void lw (UdpRecv p None) w)) (Some p) None"
  using udp_law_call [OF assms] by (simp_all add: block_change_def)

lemma unmade_same:
  assumes "udp_law lw regs next_addr" and "on_env (lwip_udp_new lw) w = (None, w1)"
  shows "same_blocks regs next_addr w w1"
  using udp_law_new(1,2) [OF assms] by (simp add: same_blocks_def)

section \<open>Servers\<close>

lemma dhcp_start_change:
  assumes law: "udp_law lw regs next_addr" and run: "dhcp_start lw ip nm d w = (e, d', w')"
  shows "block_change regs next_addr (dhcp_this d) w w' (dhcp_udp d) (dhcp_udp d')" "dhcp_this d' = dhcp_this d"
proof -
  have "block_change regs next_addr (dhcp_this d) w w' (dhcp_udp d) (dhcp_udp d') \<and> dhcp_this d' = dhcp_this d"
  proof (cases "dhcp_udp d")
    case (Some q)
    then show ?thesis using run by (simp add: dhcp_start_def block_change_def)
  next
    case none: None
    obtain u w1 where new: "on_env (lwip_udp_new lw) w = (u, w1)" by fastforce
    show ?thesis
    proof (cases u)
      case None
      then show ?thesis using run none new change_none [OF unmade_same [OF law]] by (auto simp: dhcp_start_def)
    next
      case (Some p)
      note made = bound_change [OF law new [unfolded Some] refl, where k = "UdpBind p None PORT_DHCP_SERVER" and a = "dhcp_this d"]
      show ?thesis
        using run none new Some made change_none [OF made(2)]
        by (auto simp: dhcp_start_def case_prod_beta Let_def split: if_splits)
    qed
  qed
  then show "block_change regs next_addr (dhcp_this d) w w' (dhcp_udp d) (dhcp_udp d')" "dhcp_this d' = dhcp_this d"
    by simp_all
qed

lemma dns_start_change:
  assumes law: "udp_law lw regs next_addr" and run: "dns_start lw ip d w = (e, d', w')"
  shows "block_change regs next_addr (dns_this d) w w' (dns_udp d) (dns_udp d')" "dns_this d' = dns_this d"
proof -
  have "block_change regs next_addr (dns_this d) w w' (dns_udp d) (dns_udp d') \<and> dns_this d' = dns_this d"
  proof (cases "dns_udp d")
    case (Some q)
    then show ?thesis using run by (simp add: dns_start_def block_change_def)
  next
    case none: None
    obtain u w1 where new: "on_env (lwip_udp_new lw) w = (u, w1)" by fastforce
    show ?thesis
    proof (cases u)
      case None
      then show ?thesis using run none new change_none [OF unmade_same [OF law]]
        by (auto simp: dns_start_def bind_socket_def)
    next
      case (Some p)
      note made = bound_change [OF law new [unfolded Some] refl, where k = "UdpBind p (Some ip) PORT_DNS_SERVER" and a = "dns_this d"]
      show ?thesis
        using run none new Some made change_none [OF made(2)]
        by (auto simp: dns_start_def bind_socket_def case_prod_beta Let_def split: if_splits)
    qed
  qed
  then show "block_change regs next_addr (dns_this d) w w' (dns_udp d) (dns_udp d')" "dns_this d' = dns_this d"
    by simp_all
qed

lemma dns_stop_change:
  assumes "udp_law lw regs next_addr" and "dns_stop lw d w = (e, d', w')"
  shows "block_change regs next_addr (dns_this d) w w' (dns_udp d) (dns_udp d')" "dns_this d' = dns_this d" "dns_udp d' = None"
  using assms removed_change(1) [OF assms(1)]
  by (auto simp: dns_stop_def block_change_def split: option.splits)

section \<open>Connections\<close>

lemma udp_close_change:
  assumes "udp_law lw regs next_addr" and "udp_close lw c w = (removal, c', w')"
    and "udp_owns_pcb c" and "udp_listener_owner c = None"
  shows "block_change regs next_addr (udp_this c) w w' (udp_pcb c) (udp_pcb c')" "udp_pcb c' = None"
    "udp_this c' = udp_this c" "udp_owns_pcb c'" "udp_listener_owner c' = None"
  using assms removed_change(2) [OF assms(1)]
  by (auto simp: udp_close_def block_change_def Let_def split: option.splits)

lemma udp_write_same:
  assumes "udp_law lw regs next_addr" and "udp_write lw bs c w = (r, c', w')"
  shows "same_blocks regs next_addr w w'" "c' = c"
  using assms(2) udp_law_call [OF assms(1)] udp_law_env(1,2) [OF assms(1)]
  by (auto simp: udp_write_def same_blocks_def Let_def case_prod_beta split: option.splits if_splits)

lemma udp_take_same:
  assumes "udp_take n c = (r, c')"
  shows "udp_this c' = udp_this c" "udp_pcb c' = udp_pcb c" "udp_owns_pcb c' = udp_owns_pcb c"
    "udp_listener_owner c' = udp_listener_owner c"
  using assms by (auto simp: udp_take_def Let_def split: if_splits list.splits)

lemma dial_udp_change:
  assumes law: "udp_law lw regs next_addr" and run: "dial_udp lw net address w = (r, w')"
  shows "case r of
      Inl e \<Rightarrow> same_blocks regs next_addr w w'
    | Inr c \<Rightarrow> next_addr (env w) \<le> udp_this c \<and> udp_this c < next_addr (env w') \<and> udp_owns_pcb c \<and>
        udp_listener_owner c = None \<and> block_change regs next_addr (udp_this c) w w' None (udp_pcb c)"
proof (cases "\<exists>ip. is_initialized net \<and> is_ready net \<and> lwip_aton lw (address_ip address) = Some ip")
  case False
  then have "\<exists>e. r = Inl e \<and> w' = w" using run by (auto simp: dial_udp_def split: if_splits option.splits)
  then show ?thesis by auto
next
  case True
  then obtain ip where go: "is_initialized net" "is_ready net" "lwip_aton lw (address_ip address) = Some ip" by blast
  obtain u w1 where new: "on_env (lwip_udp_new lw) w = (u, w1)" by fastforce
  show ?thesis
  proof (cases u)
    case None
    then show ?thesis using run go new unmade_same [OF law] by (auto simp: dial_udp_def)
  next
    case (Some p)
    note fresh = udp_law_new(1) [OF law new] udp_law_new(3) [OF law new Some]
    let ?k = "UdpConnect p ip (address_port address)"
    obtain err w2 where con: "call lw ?k w1 = (err, w2)" by fastforce
    have w2: "regs (env w2) = (regs (env w))(p := Some None)" "next_addr (env w2) = next_addr (env w)"
      using udp_law_call(2,4) [OF law, of ?k w1] con fresh by simp_all
    show ?thesis
    proof (cases "err = ERR_OK")
      case False
      then have "r = Inl (Error ''udp_connect failed'')" "w' = call_void lw (UdpRemove p) w2"
        using run go new Some con by (simp_all add: dial_udp_def)
      then show ?thesis using udp_law_call [OF law] w2 fresh by (auto simp: same_blocks_def)
    next
      case True
      obtain this w3 where obj: "on_env (new_object lw) w2 = (this, w3)" by fastforce
      note o = udp_law_object [OF law obj]
      have "\<exists>la. r = Inr (new_UdpConnection this (Some p) la address True None) \<and>
          w' = call_void lw (UdpRecv p (Some this)) w3"
        using run go new Some con True obj by (auto simp: dial_udp_def udp_attach_callbacks_def new_UdpConnection_def)
      then show ?thesis
        using udp_law_call [OF law] o w2 fresh by (auto simp: new_UdpConnection_def block_change_def)
    qed
  qed
qed

section \<open>What becomes of the invariant\<close>

lemma us_okD:
  assumes "us_ok regs next_addr s"
  shows "owned (regs (env (us_world s))) (block_of s)" "us_shape (next_addr (env (us_world s))) s"
    "us_dns s a = Some d \<Longrightarrow> dns_this d = a \<and> a \<noteq> dhcp_this (us_dhcp s) \<and> us_sockets s a = None \<and> block_of s a = dns_udp d"
    "us_sockets s a = Some c \<Longrightarrow> udp_this c = a \<and> a \<noteq> dhcp_this (us_dhcp s) \<and> us_dns s a = None \<and>
       udp_owns_pcb c \<and> udp_listener_owner c = None \<and> block_of s a = udp_pcb c"
    "next_addr (env (us_world s)) \<le> b \<Longrightarrow>
       us_dns s b = None \<and> us_sockets s b = None \<and> b \<noteq> dhcp_this (us_dhcp s) \<and> block_of s b = None"
proof -
  show shape: "us_shape (next_addr (env (us_world s))) s" and "owned (regs (env (us_world s))) (block_of s)"
    using assms by (simp_all add: us_ok_def)
  have sep: "us_dns s a = Some d \<Longrightarrow> a \<noteq> dhcp_this (us_dhcp s) \<and> us_sockets s a = None \<and> dns_this d = a \<and> a < next_addr (env (us_world s))"
      "us_sockets s a = Some c \<Longrightarrow> a \<noteq> dhcp_this (us_dhcp s) \<and> us_dns s a = None \<and> udp_this c = a \<and> a < next_addr (env (us_world s))" for a d c
    using shape unfolding us_shape_def by (metis option.distinct(1) not_None_eq)+
  show "us_dns s a = Some d \<Longrightarrow> dns_this d = a \<and> a \<noteq> dhcp_this (us_dhcp s) \<and> us_sockets s a = None \<and> block_of s a = dns_udp d"
    using sep(1) by (simp add: block_of_def)
  show "us_sockets s a = Some c \<Longrightarrow> udp_this c = a \<and> a \<noteq> dhcp_this (us_dhcp s) \<and> us_dns s a = None \<and>
       udp_owns_pcb c \<and> udp_listener_owner c = None \<and> block_of s a = udp_pcb c"
    using sep(2) [of a c] shape by (auto simp: block_of_def us_shape_def)
  show "us_dns s b = None \<and> us_sockets s b = None \<and> b \<noteq> dhcp_this (us_dhcp s) \<and> block_of s b = None"
    if "next_addr (env (us_world s)) \<le> b"
  proof -
    have "us_dns s b = None" "us_sockets s b = None"
      using sep(1) [of b] sep(2) [of b] that by (meson leD not_None_eq)+
    then show ?thesis using shape that by (auto simp: block_of_def us_shape_def)
  qed
qed

text \<open>The invariant after a change of the block at \<open>a\<close>, given the shape of the new state.\<close>

lemma us_ok_change:
  assumes ok: "us_ok regs next_addr s"
    and change: "block_change regs next_addr a (us_world s) (us_world s') (block_of s a) b'"
    and blocks: "block_of s' = (block_of s)(a := b')" and shape: "us_shape (next_addr (env (us_world s'))) s'"
  shows "us_ok regs next_addr s'"
  using owned_change [OF us_okD(1) [OF ok] change] blocks shape by (simp add: us_ok_def)

lemma shape_mono: "us_shape n s \<Longrightarrow> n \<le> m \<Longrightarrow> us_shape m s"
  unfolding us_shape_def by (meson le_less_trans less_le_trans)

lemma network_step_ok:
  assumes ok: "us_ok regs next_addr s"
    and change: "block_change regs next_addr (dhcp_this (us_dhcp s)) (us_world s) w (dhcp_udp (us_dhcp s)) (dhcp_udp (dhcp_server net))"
    and same: "dhcp_this (dhcp_server net) = dhcp_this (us_dhcp s)"
  shows "us_ok regs next_addr (s\<lparr>us_network := net, us_world := w\<rparr>)"
proof (rule us_ok_change [OF ok, where a = "dhcp_this (us_dhcp s)" and b' = "dhcp_udp (dhcp_server net)"])
  show "block_change regs next_addr (dhcp_this (us_dhcp s)) (us_world s) (us_world (s\<lparr>us_network := net, us_world := w\<rparr>))
      (block_of s (dhcp_this (us_dhcp s))) (dhcp_udp (dhcp_server net))"
    using change by (simp add: block_of_def)
  show "block_of (s\<lparr>us_network := net, us_world := w\<rparr>) = (block_of s)(dhcp_this (us_dhcp s) := dhcp_udp (dhcp_server net))"
    using same by (simp add: block_of_def fun_eq_iff split: option.split)
  have "next_addr (env (us_world s)) \<le> next_addr (env w)" using change by (simp add: block_change_def)
  from shape_mono [OF us_okD(2) [OF ok] this]
  show "us_shape (next_addr (env (us_world (s\<lparr>us_network := net, us_world := w\<rparr>)))) (s\<lparr>us_network := net, us_world := w\<rparr>)"
    using same by (simp add: us_shape_def)
qed

text \<open>A DNS server changes, or is made at a new address; the network may have changed but for DHCP.\<close>

lemma dns_step_ok:
  assumes ok: "us_ok regs next_addr s"
    and change: "block_change regs next_addr a (us_world s) w (block_of s a) (dns_udp d)"
    and a: "us_dns s a \<noteq> None \<or> next_addr (env (us_world s)) \<le> a" "a < next_addr (env w)" "dns_this d = a"
    and net: "dhcp_server net = us_dhcp s"
  shows "us_ok regs next_addr (put_dns a d w (s\<lparr>us_network := net\<rparr>))"
proof -
  have sep: "a \<noteq> dhcp_this (us_dhcp s)" "us_sockets s a = None"
    using a(1) us_okD(3) [OF ok] us_okD(5) [OF ok] by blast+
  have le: "next_addr (env (us_world s)) \<le> next_addr (env w)" using change by (simp add: block_change_def)
  show ?thesis
  proof (rule us_ok_change [OF ok, where a = a and b' = "dns_udp d"])
    show "block_change regs next_addr a (us_world s) (us_world (put_dns a d w (s\<lparr>us_network := net\<rparr>))) (block_of s a) (dns_udp d)"
      using change by (simp add: put_dns_def)
    show "block_of (put_dns a d w (s\<lparr>us_network := net\<rparr>)) = (block_of s)(a := dns_udp d)"
      using sep net by (auto simp: block_of_def put_dns_def fun_eq_iff split: option.split)
    show "us_shape (next_addr (env (us_world (put_dns a d w (s\<lparr>us_network := net\<rparr>))))) (put_dns a d w (s\<lparr>us_network := net\<rparr>))"
      using shape_mono [OF us_okD(2) [OF ok] le] sep net a(2,3) by (auto simp: us_shape_def put_dns_def)
  qed
qed

lemma socket_step_ok:
  assumes ok: "us_ok regs next_addr s"
    and change: "block_change regs next_addr a (us_world s) w (block_of s a) (udp_pcb c)"
    and a: "us_sockets s a \<noteq> None \<or> next_addr (env (us_world s)) \<le> a" "a < next_addr (env w)" "udp_this c = a"
      "udp_owns_pcb c" "udp_listener_owner c = None"
  shows "us_ok regs next_addr (put_socket a c w s)"
proof -
  have sep: "a \<noteq> dhcp_this (us_dhcp s)" "us_dns s a = None"
    using a(1) us_okD(4) [OF ok] us_okD(5) [OF ok] by blast+
  have le: "next_addr (env (us_world s)) \<le> next_addr (env w)" using change by (simp add: block_change_def)
  show ?thesis
  proof (rule us_ok_change [OF ok, where a = a and b' = "udp_pcb c"])
    show "block_change regs next_addr a (us_world s) (us_world (put_socket a c w s)) (block_of s a) (udp_pcb c)"
      using change by (simp add: put_socket_def)
    show "block_of (put_socket a c w s) = (block_of s)(a := udp_pcb c)"
      using sep by (auto simp: block_of_def put_socket_def fun_eq_iff split: option.split)
    show "us_shape (next_addr (env (us_world (put_socket a c w s)))) (put_socket a c w s)"
      using shape_mono [OF us_okD(2) [OF ok] le] sep a(2-5) by (auto simp: us_shape_def put_socket_def)
  qed
qed

text \<open>An object without a block is destroyed.\<close>

lemma destroy_dns_ok:
  assumes ok: "us_ok regs next_addr s" and d: "us_dns s a = Some d"
    and change: "block_change regs next_addr a (us_world s) w (dns_udp d) None"
  shows "us_ok regs next_addr (s\<lparr>us_world := w, us_dns := (us_dns s)(a := None)\<rparr>)"
proof (rule us_ok_change [OF ok, where a = a and b' = None])
  note a = us_okD(3) [OF ok d]
  have le: "next_addr (env (us_world s)) \<le> next_addr (env w)" using change by (simp add: block_change_def)
  show "block_change regs next_addr a (us_world s) (us_world (s\<lparr>us_world := w, us_dns := (us_dns s)(a := None)\<rparr>)) (block_of s a) None"
    using change a by simp
  show "block_of (s\<lparr>us_world := w, us_dns := (us_dns s)(a := None)\<rparr>) = (block_of s)(a := None)"
    using a by (auto simp: block_of_def fun_eq_iff split: option.split)
  show "us_shape (next_addr (env (us_world (s\<lparr>us_world := w, us_dns := (us_dns s)(a := None)\<rparr>))))
      (s\<lparr>us_world := w, us_dns := (us_dns s)(a := None)\<rparr>)"
    using shape_mono [OF us_okD(2) [OF ok] le] by (auto simp: us_shape_def)
qed

lemma destroy_socket_ok:
  assumes ok: "us_ok regs next_addr s" and c: "us_sockets s a = Some c"
    and change: "block_change regs next_addr a (us_world s) w (udp_pcb c) None"
  shows "us_ok regs next_addr (s\<lparr>us_world := w, us_sockets := (us_sockets s)(a := None)\<rparr>)"
proof (rule us_ok_change [OF ok, where a = a and b' = None])
  note a = us_okD(4) [OF ok c]
  have le: "next_addr (env (us_world s)) \<le> next_addr (env w)" using change by (simp add: block_change_def)
  show "block_change regs next_addr a (us_world s) (us_world (s\<lparr>us_world := w, us_sockets := (us_sockets s)(a := None)\<rparr>)) (block_of s a) None"
    using change a by simp
  show "block_of (s\<lparr>us_world := w, us_sockets := (us_sockets s)(a := None)\<rparr>) = (block_of s)(a := None)"
    using a by (auto simp: block_of_def fun_eq_iff split: option.split)
  show "us_shape (next_addr (env (us_world (s\<lparr>us_world := w, us_sockets := (us_sockets s)(a := None)\<rparr>))))
      (s\<lparr>us_world := w, us_sockets := (us_sockets s)(a := None)\<rparr>)"
    using shape_mono [OF us_okD(2) [OF ok] le] by (auto simp: us_shape_def)
qed

section \<open>Operations\<close>

text \<open>An operation that polls may fault, on a datagram too long for its server; no other does.\<close>

definition step_ok :: "'e Lwip \<Rightarrow> ('e \<Rightarrow> UdpRegs) \<Rightarrow> ('e \<Rightarrow> obj) \<Rightarrow> 'e UdpSystem \<Rightarrow> ('a \<times> 'e UdpSystem) result \<Rightarrow> bool" where
  "step_ok lw regs next_addr s r \<longleftrightarrow>
     (case r of
        Inl f \<Rightarrow> f = OutOfBounds \<and> (\<exists>ev \<in> set (fst (arch_poll lw (us_world s))). \<not> fits s ev)
      | Inr (out, s') \<Rightarrow> us_ok regs next_addr s')"

lemma radio_ok:
  assumes law: "udp_law lw regs next_addr" and ok: "us_ok regs next_addr s"
  shows "us_ok regs next_addr (snd (us_initialize lw s))" "us_ok regs next_addr (snd (us_station lw ssid password t s))"
    "us_ok regs next_addr (snd (us_access_point lw ssid password s))"
proof -
  let ?a = "dhcp_this (us_dhcp s)"
  note same = udp_law_call [OF law] and call = change_none [of regs next_addr]
  show "us_ok regs next_addr (snd (us_initialize lw s))"
  proof -
    obtain e net w where run: "initialize lw (us_network s) (us_world s) = (e, net, w)" by (metis prod_cases3)
    then have "dhcp_server net = us_dhcp s" "same_blocks regs next_addr (us_world s) w"
      using same by (auto simp: initialize_def same_blocks_def case_prod_beta split: if_splits)
    then show ?thesis using network_step_ok [OF ok, of w net] call run by (simp add: us_initialize_def)
  qed
  show "us_ok regs next_addr (snd (us_station lw ssid password t s))"
  proof -
    obtain e net w where run: "connect_to_wifi_station lw ssid password t (us_network s) (us_world s) = (e, net, w)"
      by (metis prod_cases3)
    then have "dhcp_server net = us_dhcp s" "same_blocks regs next_addr (us_world s) w"
      using same by (auto simp: connect_to_wifi_station_def same_blocks_def Let_def case_prod_beta split: if_splits)
    then show ?thesis using network_step_ok [OF ok, of w net] call run by (simp add: us_station_def)
  qed
  show "us_ok regs next_addr (snd (us_access_point lw ssid password s))"
  proof -
    obtain e net w where run: "setup_wifi_access_point lw ssid password (us_network s) (us_world s) = (e, net, w)"
      by (metis prod_cases3)
    have "block_change regs next_addr ?a (us_world s) w (dhcp_udp (us_dhcp s)) (dhcp_udp (dhcp_server net)) \<and>
        dhcp_this (dhcp_server net) = ?a"
    proof (cases "is_initialized (us_network s) \<and> \<not> is_connected_to_station_wifi (us_network s) \<and>
        \<not> is_access_point_active (us_network s)")
      case False
      then have "net = us_network s" "w = us_world s"
        using run by (auto simp: setup_wifi_access_point_def split: if_splits)
      then show ?thesis by (simp add: change_none)
    next
      case True
      let ?w1 = "call_void lw (Cyw43EnableAp ssid password) (us_world s)"
      have w1: "same_blocks regs next_addr (us_world s) ?w1" using same by (simp add: same_blocks_def)
      obtain e1 d w2 where start: "dhcp_start_string lw ''192.168.4.1'' ''255.255.255.0'' (us_dhcp s) ?w1 = (e1, d, w2)"
        by (metis prod_cases3)
      have "block_change regs next_addr ?a ?w1 w2 (dhcp_udp (us_dhcp s)) (dhcp_udp d) \<and> dhcp_this d = ?a"
        using start dhcp_start_change [OF law]
        by (auto simp: dhcp_start_string_def split: option.splits)
      moreover have "dhcp_server net = d" "w = w2"
        using run True start by (auto simp: setup_wifi_access_point_def Let_def split: option.splits)
      ultimately show ?thesis using change_after [OF w1] by simp
    qed
    then show ?thesis using network_step_ok [OF ok] run by (simp add: us_access_point_def)
  qed
qed

lemma new_dns_ok:
  assumes law: "udp_law lw regs next_addr" and ok: "us_ok regs next_addr s"
  shows "us_ok regs next_addr (snd (us_new_dns lw s))"
proof -
  obtain a w where new: "on_env (new_object lw) (us_world s) = (a, w)" by fastforce
  note o = udp_law_object [OF law new]
  have "us_ok regs next_addr (put_dns a (new_DnsServer a) w (s\<lparr>us_network := us_network s\<rparr>))"
    using o us_okD(5) [OF ok o(1)]
    by (intro dns_step_ok [OF ok]) (simp_all add: block_change_def new_DnsServer_def)
  then show ?thesis using new by (simp add: us_new_dns_def)
qed

lemma below_next: "us_ok regs next_addr s \<Longrightarrow> us_dns s a = Some d \<Longrightarrow> a < next_addr (env (us_world s))"
  "us_ok regs next_addr s \<Longrightarrow> us_sockets s a = Some c \<Longrightarrow> a < next_addr (env (us_world s))"
  by (auto simp: us_ok_def us_shape_def)

lemma add_dns_ok:
  assumes law: "udp_law lw regs next_addr" and ok: "us_ok regs next_addr s" and d: "us_dns s a = Some d"
  shows "step_ok lw regs next_addr s (us_add_dns lw a s)"
proof -
  obtain e d' net w where run: "add_dns_server lw d (us_network s) (us_world s) = (e, d', net, w)" by (metis prod_cases4)
  note a = us_okD(3) [OF ok d]
  have "block_change regs next_addr a (us_world s) w (dns_udp d) (dns_udp d') \<and> dns_this d' = dns_this d \<and>
      dhcp_server net = us_dhcp s"
  proof (cases "\<exists>ip. is_initialized (us_network s) \<and> is_access_point_active (us_network s) \<and>
      lwip_netif_ip lw (env (us_world s)) = Some ip")
    case False
    then have "d' = d" "net = us_network s" "w = us_world s"
      using run by (auto simp: add_dns_server_def split: if_splits option.splits)
    then show ?thesis by (simp add: change_none)
  next
    case True
    then obtain ip where ip: "is_initialized (us_network s)" "is_access_point_active (us_network s)"
        "lwip_netif_ip lw (env (us_world s)) = Some ip" by blast
    obtain e1 d1 w1 where start: "dns_start lw (IPADDR_TYPE_V4 ip) d (us_world s) = (e1, d1, w1)" by (metis prod_cases3)
    have "d' = d1" "w = w1" "dhcp_server net = us_dhcp s"
      using run ip start by (auto simp: add_dns_server_def split: option.splits)
    then show ?thesis using dns_start_change [OF law start] a by simp
  qed
  then have c: "block_change regs next_addr a (us_world s) w (block_of s a) (dns_udp d')" "dns_this d' = a" "dhcp_server net = us_dhcp s"
    using a by simp_all
  have "us_ok regs next_addr (put_dns a d' w (s\<lparr>us_network := net\<rparr>))"
    using below_next(1) [OF ok d] c d by (intro dns_step_ok [OF ok c(1)]) (auto simp: block_change_def)
  then show ?thesis using run d by (simp add: us_add_dns_def get_dns_def step_ok_def)
qed

text \<open>Changes of the records.\<close>

lemma dns_keeps_ok:
  assumes ok: "us_ok regs next_addr s" and d: "us_dns s a = Some d" and "dns_this d' = dns_this d" "dns_udp d' = dns_udp d"
  shows "us_ok regs next_addr (put_dns a d' (us_world s) s)"
proof -
  have "us_ok regs next_addr (put_dns a d' (us_world s) (s\<lparr>us_network := us_network s\<rparr>))"
    using us_okD(3) [OF ok d] below_next(1) [OF ok d] assms d
    by (intro dns_step_ok [OF ok]) (simp_all add: change_none)
  then show ?thesis by simp
qed

lemma run_command_keeps: "dns_this (run_command lw c d) = dns_this d" "dns_udp (run_command lw c d) = dns_udp d"
  by (cases c; simp add: add_record_def remove_record_def clear_records_def split: option.split)+

lemma stop_dns_ok:
  assumes law: "udp_law lw regs next_addr" and ok: "us_ok regs next_addr s" and d: "us_dns s a = Some d"
  shows "step_ok lw regs next_addr s (us_stop_dns lw a s)" "us_ok regs next_addr (s\<lparr>us_world := dns_destroy lw d (us_world s), us_dns := (us_dns s)(a := None)\<rparr>)"
proof -
  obtain e d' w where run: "dns_stop lw d (us_world s) = (e, d', w)" by (metis prod_cases3)
  note a = us_okD(3) [OF ok d] and c = dns_stop_change [OF law run]
  have "us_ok regs next_addr (put_dns a d' w (s\<lparr>us_network := us_network s\<rparr>))"
    using below_next(1) [OF ok d] c a d by (intro dns_step_ok [OF ok]) (auto simp: block_change_def)
  then show "step_ok lw regs next_addr s (us_stop_dns lw a s)"
    using run d by (simp add: us_stop_dns_def get_dns_def step_ok_def)
  show "us_ok regs next_addr (s\<lparr>us_world := dns_destroy lw d (us_world s), us_dns := (us_dns s)(a := None)\<rparr>)"
    using c a run by (intro destroy_dns_ok [OF ok d]) (simp add: dns_destroy_def)
qed

lemma dial_ok:
  assumes law: "udp_law lw regs next_addr" and ok: "us_ok regs next_addr s"
  shows "us_ok regs next_addr (snd (us_dial lw address s))"
proof -
  obtain r w where run: "dial_udp lw (us_network s) address (us_world s) = (r, w)" by fastforce
  note change = dial_udp_change [OF law run]
  show ?thesis
  proof (cases r)
    case (Inl e)
    then show ?thesis using change us_ok_world [OF ok] run by (simp add: us_dial_def)
  next
    case (Inr c)
    then have c: "next_addr (env (us_world s)) \<le> udp_this c" "udp_this c < next_addr (env w)" "udp_owns_pcb c"
        "udp_listener_owner c = None" "block_change regs next_addr (udp_this c) (us_world s) w None (udp_pcb c)"
      using change by simp_all
    have "us_ok regs next_addr (put_socket (udp_this c) c w s)"
      using c us_okD(5) [OF ok c(1)] by (intro socket_step_ok [OF ok]) simp_all
    then show ?thesis using run Inr by (simp add: us_dial_def)
  qed
qed

lemma socket_ops_ok:
  assumes law: "udp_law lw regs next_addr" and ok: "us_ok regs next_addr s" and c: "us_sockets s a = Some c"
  shows "step_ok lw regs next_addr s (us_write lw bs a s)"
    "step_ok lw regs next_addr s (us_silent (us_close lw a s))" "step_ok lw regs next_addr s (us_silent (us_destroy lw a s))"
proof -
  note a = us_okD(4) [OF ok c]
  obtain r c1 w1 where wr: "udp_write lw bs c (us_world s) = (r, c1, w1)" by (metis prod_cases3)
  note same = udp_write_same [OF law wr]
  have "us_ok regs next_addr (put_socket a c1 w1 s)"
    by (rule us_ok_socket [OF ok same(1) c]) (simp_all add: same(2))
  then show "step_ok lw regs next_addr s (us_write lw bs a s)"
    using wr c by (simp add: us_write_def get_socket_def step_ok_def)
  obtain rm c2 w2 where cl: "udp_close lw c (us_world s) = (rm, c2, w2)" by (metis prod_cases3)
  have own: "udp_owns_pcb c" "udp_listener_owner c = None" using a by simp_all
  note ch = udp_close_change [OF law cl own]
  have "us_ok regs next_addr (put_socket a c2 w2 s)"
    using a ch c below_next(2) [OF ok c] by (intro socket_step_ok [OF ok]) (auto simp: block_change_def)
  then show "step_ok lw regs next_addr s (us_silent (us_close lw a s))"
    using cl c by (simp add: us_close_def us_silent_def get_socket_def step_ok_def)
  have "us_ok regs next_addr (s\<lparr>us_world := w2, us_sockets := (us_sockets s)(a := None)\<rparr>)"
    using ch a by (intro destroy_socket_ok [OF ok c]) simp
  then show "step_ok lw regs next_addr s (us_silent (us_destroy lw a s))"
    using cl c by (simp add: us_destroy_def us_silent_def get_socket_def step_ok_def)
qed

text \<open>What a poll does to a connection: what its own callbacks do.\<close>

definition queued :: "'e Lwip \<Rightarrow> LwipEvent list \<Rightarrow> UdpConnection \<Rightarrow> UdpConnection" where
  "queued lw evs c =
     c\<lparr>udp_rx_queue := udp_rx_queue c @ (if udp_is_closed c then [] else datagrams_of lw c evs)\<rparr>"

lemma queued_sel [simp]:
  "udp_this (queued lw evs c) = udp_this c" "udp_is_closed (queued lw evs c) = udp_is_closed c"
  "udp_remote_addr (queued lw evs c) = udp_remote_addr c" "queued lw [] c = c"
  by (simp_all add: queued_def datagrams_of_def)

lemma queued_Cons: "queued lw evs (queued lw [ev] c) = queued lw (ev # evs) c"
  by (simp add: queued_def datagrams_of_def)

lemma queued_other: "event_datagrams lw (udp_this c) (udp_remote_addr c) ev = [] \<Longrightarrow> queued lw [ev] c = c"
  by (simp add: queued_def datagrams_of_def)

lemma queued_own: "udp_dispatch lw ev (c, w) = (c', w') \<Longrightarrow> c' = queued lw [ev] c"
  using udp_dispatch_step(1) [of lw ev c w c' w']
  by (cases "udp_is_closed c") (simp_all add: queued_def datagrams_of_def)

lemma dispatch_socket:
  assumes "us_dispatch lw stack ev s = Inr s'" and "us_sockets s a = Some c" and "udp_this c = a"
    and "us_dns s a = None" "a \<noteq> dhcp_this (us_dhcp s)"
  shows "us_sockets s' a = Some (queued lw [ev] c)"
proof (cases "\<exists>p buf ip port. ev = UdpRecvEvent (Some a) p buf ip port")
  case True
  then show ?thesis
    using assms by (auto simp: us_dispatch_def get_socket_def put_socket_def split: prod.splits dest!: queued_own)
next
  case False
  then have "event_datagrams lw (udp_this c) (udp_remote_addr c) ev = []"
    using assms(3) event_datagrams_other by (cases ev) auto
  then have "queued lw [ev] c = c" by (rule queued_other)
  moreover have "us_sockets s' a = us_sockets s a"
    using assms(1) False
    by (auto simp: us_dispatch_def get_socket_def put_socket_def split: LwipEvent.splits option.splits if_splits prod.splits)
  ultimately show ?thesis using assms(2) by simp
qed

lemma dispatch_sockets:
  assumes law: "udp_law lw regs next_addr" and stack: "length stack = 300" and ok: "us_ok regs next_addr s"
    and evs: "\<forall>ev \<in> set evs. udp_event_law (regs (env (us_world s))) ev"
    and run: "us_dispatch_all lw stack evs s = Inr s'" and c: "us_sockets s a = Some c"
  shows "us_sockets s' a = Some (queued lw evs c)"
  using ok evs run c
proof (induction evs arbitrary: s c)
  case (Cons ev evs)
  obtain s1 where s1: "us_dispatch lw stack ev s = Inr s1" "us_dispatch_all lw stack evs s1 = Inr s'"
    using Cons.prems(3) by auto
  have d: "dispatched_udp regs next_addr s s1"
    using us_dispatch_ok [OF law stack Cons.prems(1), of ev] Cons.prems(2) s1(1) by simp
  have "us_sockets s1 a = Some (queued lw [ev] c)"
    using dispatch_socket [OF s1(1) Cons.prems(4)] us_okD(4) [OF Cons.prems(1,4)] by simp
  then have "us_sockets s' a = Some (queued lw evs (queued lw [ev] c))"
    using Cons.IH [OF _ _ s1(2)] d Cons.prems(2) by (simp add: dispatched_udp_def same_blocks_def)
  then show ?case by (simp add: queued_Cons)
qed simp

lemma poll_sockets:
  assumes law: "udp_law lw regs next_addr" and stack: "length stack = 300" and ok: "us_ok regs next_addr s"
    and run: "us_poll lw stack s = Inr s'" and c: "us_sockets s a = Some c"
  shows "us_sockets s' a = Some (queued lw (fst (arch_poll lw (us_world s))) c)"
proof -
  obtain evs w where p: "arch_poll lw (us_world s) = (evs, w)" by fastforce
  note pe = poll_events [OF law p]
  show ?thesis
    using dispatch_sockets [OF law stack us_ok_world [OF ok pe(2)], of evs s' a c] pe(1) run c p
    by (simp add: us_poll_def)
qed

lemma read_poll_ok:
  assumes law: "udp_law lw regs next_addr" and stack: "length stack = 300" and ok: "us_ok regs next_addr s"
  shows "step_ok lw regs next_addr s (us_silent (us_poll lw stack s))"
    "us_sockets s a = Some c \<Longrightarrow> step_ok lw regs next_addr s (us_read lw stack n a s)"
proof -
  note poll = us_poll_ok [OF law stack ok]
  show "step_ok lw regs next_addr s (us_silent (us_poll lw stack s))"
    using poll by (auto simp: us_silent_def step_ok_def dispatched_udp_def split: sum.splits)
  show "step_ok lw regs next_addr s (us_read lw stack n a s)" if c: "us_sockets s a = Some c"
  proof (cases "n = 0")
    case True
    then show ?thesis using ok by (simp add: us_read_def step_ok_def)
  next
    case False
    show ?thesis
    proof (cases "us_poll lw stack s")
      case (Inl f)
      then show ?thesis using poll False by (simp add: us_read_def step_ok_def)
    next
      case (Inr s1)
      then have d: "us_ok regs next_addr s1" using poll by (simp add: dispatched_udp_def)
      obtain c1 where c1: "us_sockets s1 a = Some c1" using poll_sockets [OF law stack ok Inr c] by blast
      obtain r c2 where t: "udp_take n c1 = (r, c2)" by fastforce
      have "us_ok regs next_addr (put_socket a c2 (us_world s1) s1)"
        by (rule us_ok_socket [OF d same_blocks_refl c1]) (simp_all add: udp_take_same [OF t])
      then show ?thesis using False Inr c1 t by (simp add: us_read_def get_socket_def step_ok_def)
    qed
  qed
qed

lemma us_exec_ok:
  assumes law: "udp_law lw regs next_addr" and stack: "length stack = 300"
    and ok: "us_ok regs next_addr s" and use: "us_usable op s"
  shows "step_ok lw regs next_addr s (us_exec lw stack op s)"
proof -
  have out: "step_ok lw regs next_addr s (us_returning f r) \<longleftrightarrow> step_ok lw regs next_addr s r" for f and r :: "('b \<times> 'a UdpSystem) result"
    by (cases r) (auto simp: us_returning_def step_ok_def split: prod.split)
  have plain: "step_ok lw regs next_addr s (Inr x)" if "us_ok regs next_addr (snd x)" for x :: "'b \<times> 'a UdpSystem"
    using that by (cases x) (simp add: step_ok_def)
  show ?thesis
  proof (cases op)
    case (UdpChangeDns c a)
    then show ?thesis
      using use dns_keeps_ok [OF ok] run_command_keeps [of lw c]
      by (auto simp: us_silent_def us_change_dns_def get_dns_def step_ok_def)
  next
    case (UdpSetFallback ip a)
    then obtain d where d: "us_dns s a = Some d" using use by auto
    have "dns_this (snd (set_fallback_ip lw ip d)) = dns_this d" "dns_udp (snd (set_fallback_ip lw ip d)) = dns_udp d"
      by (simp_all add: set_fallback_ip_def split: option.split)
    from dns_keeps_ok [OF ok d this] show ?thesis
      using UdpSetFallback d
      by (auto simp: us_returning_def us_set_fallback_def get_dns_def step_ok_def split: prod.splits)
  next
    case (UdpClearFallback a)
    then show ?thesis
      using use dns_keeps_ok [OF ok, of a _ "clear_fallback_ip (the (us_dns s a))"]
      by (auto simp: us_silent_def us_clear_fallback_def get_dns_def step_ok_def clear_fallback_ip_def)
  next
    case (UdpAddDns a)
    then show ?thesis using use add_dns_ok [OF law ok] by (auto simp: out)
  next
    case (UdpStopDns a)
    then show ?thesis using use stop_dns_ok(1) [OF law ok] by (auto simp: out)
  next
    case (UdpDestroyDns a)
    then show ?thesis using use stop_dns_ok(2) [OF law ok]
      by (auto simp: us_silent_def us_destroy_dns_def get_dns_def step_ok_def)
  next
    case (UdpRead n a)
    then show ?thesis using use read_poll_ok(2) [OF law stack ok] by (auto simp: out)
  next
    case (UdpWrite bs a)
    then show ?thesis using use socket_ops_ok(1) [OF law ok] by (auto simp: out)
  next
    case (UdpClose a)
    then show ?thesis using use socket_ops_ok(2) [OF law ok] by auto
  next
    case (UdpDestroy a)
    then show ?thesis using use socket_ops_ok(3) [OF law ok] by auto
  next
    case UdpPoll
    then show ?thesis using read_poll_ok(1) [OF law stack ok] by simp
  qed (use radio_ok [OF law ok] new_dns_ok [OF law ok] dial_ok [OF law ok] in \<open>simp_all add: out plain\<close>)
qed

lemma us_reach_ok:
  assumes "us_reach lw stack regs next_addr s" and "udp_law lw regs next_addr" and "length stack = 300"
  shows "us_ok regs next_addr s"
  using assms
proof (induction rule: us_reach.induct)
  case (us_first s)
  then show ?case by (simp add: us_start_ok)
next
  case (us_step s op out s')
  then show ?case using us_exec_ok [of lw regs next_addr stack s op] by (simp add: step_ok_def)
qed

end
