(* ===== verification/Sample_Access_Point.thy ===== *)
theory Sample_Access_Point
  imports Udp_System
begin

text \<open>
  A concrete lwIP that keeps the registrations of its UDP control blocks, allocates blocks and
  objects in order, and at its next polls runs the callbacks it is given as far as they are
  registered. It satisfies the law of UDP control blocks; the witnesses about an access point
  run on it.
\<close>

record SampleUdp =
  su_regs :: UdpRegs
  su_next :: obj
  su_pcb :: pcb
  su_queue :: "LwipEvent list list"

fun su_registered :: "UdpRegs \<Rightarrow> LwipEvent \<Rightarrow> bool" where
  "su_registered v (UdpRecvEvent arg p buf ip port) \<longleftrightarrow> arg \<noteq> None \<and> v p = Some arg \<and> ip \<noteq> None"
| "su_registered v ev \<longleftrightarrow> True"

definition access_lwip :: "SampleUdp Lwip" where
  "access_lwip =
     \<lparr>lwip_call = (\<lambda>k e. (ERR_OK, e\<lparr>su_regs := udp_view k (su_regs e)\<rparr>)),
      lwip_poll = (\<lambda>e. case su_queue e of
         [] \<Rightarrow> ([], e) | evs # q \<Rightarrow> (filter (su_registered (su_regs e)) evs, e\<lparr>su_queue := q\<rparr>)),
      lwip_tcp_sndbuf = (\<lambda>p e. 5),
      lwip_tcp_new = (\<lambda>e. (None, e)),
      lwip_tcp_listen = (\<lambda>p n e. (None, e)),
      lwip_udp_new = (\<lambda>e. if su_regs e (su_pcb e) = None
         then (Some (su_pcb e), e\<lparr>su_regs := (su_regs e)(su_pcb e := Some None), su_pcb := su_pcb e + 1\<rparr>)
         else (None, e)),
      lwip_pbuf_alloc = (\<lambda>n e. (True, e)),
      lwip_ticks_ms = (\<lambda>e. (1000, e)),
      lwip_input_netif = (\<lambda>e. None),
      lwip_netif_ip = (\<lambda>e. Some (IP4 192 168 4 1)),
      lwip_remote_ip = (\<lambda>p e. IPADDR_TYPE_V4 (IP4 192 168 4 16)),
      lwip_remote_port = (\<lambda>p e. 5353),
      lwip_local_port = (\<lambda>p e. 4000),
      new_object = (\<lambda>e. (su_next e, e\<lparr>su_next := su_next e + 1\<rparr>)),
      lwip_aton = (\<lambda>s. if s = ''192.168.4.1'' then Some (IP4 192 168 4 1)
         else if s = ''255.255.255.0'' then Some (IP4 255 255 255 0)
         else if s = ''192.168.4.16'' then Some (IP4 192 168 4 16) else None),
      lwip_ntoa = (\<lambda>a. ''192.168.4.16'')\<rparr>"

lemma access_sel [simp]:
  "lwip_call access_lwip k e = (ERR_OK, e\<lparr>su_regs := udp_view k (su_regs e)\<rparr>)"
  "lwip_pbuf_alloc access_lwip n e = (True, e)" "lwip_ticks_ms access_lwip e = (1000, e)"
  "lwip_netif_ip access_lwip e = Some (IP4 192 168 4 1)"
  "new_object access_lwip e = (su_next e, e\<lparr>su_next := su_next e + 1\<rparr>)"
  "lwip_aton access_lwip h = (if h = ''192.168.4.1'' then Some (IP4 192 168 4 1)
     else if h = ''255.255.255.0'' then Some (IP4 255 255 255 0)
     else if h = ''192.168.4.16'' then Some (IP4 192 168 4 16) else None)"
  "lwip_udp_new access_lwip e = (if su_regs e (su_pcb e) = None
     then (Some (su_pcb e), e\<lparr>su_regs := (su_regs e)(su_pcb e := Some None), su_pcb := su_pcb e + 1\<rparr>) else (None, e))"
  "lwip_poll access_lwip e = (case su_queue e of
     [] \<Rightarrow> ([], e) | evs # q \<Rightarrow> (filter (su_registered (su_regs e)) evs, e\<lparr>su_queue := q\<rparr>))"
  "lwip_ntoa access_lwip y = ''192.168.4.16''" "lwip_local_port access_lwip p e = 4000"
  by (simp_all add: access_lwip_def)

lemma registered_law: "su_registered v ev \<Longrightarrow> udp_event_law v ev"
  by (cases ev) (auto simp: udp_event_law_def)

lemma access_law: "udp_law access_lwip su_regs su_next"
  unfolding udp_law_def by (auto simp: registered_law split: list.split)

lemma access_ticks: "ticks_at access_lwip 1000" and access_buffers: "buffers_available access_lwip"
  by (simp_all add: ticks_at_def buffers_available_def)

section \<open>An access point with a DNS server\<close>

text \<open>A program before its first operation, with the callbacks of its polls; the DHCP server is at 8.\<close>

definition fresh_program :: "LwipEvent list list \<Rightarrow> SampleUdp UdpSystem" where
  "fresh_program q =
     \<lparr>us_world = \<lparr>env = \<lparr>su_regs = Map.empty, su_next = 10, su_pcb = 1, su_queue = q\<rparr>, calls = [], delivered = []\<rparr>,
      us_network = new_Network 8, us_dns = Map.empty, us_sockets = Map.empty\<rparr>"

lemma fresh_program_start: "us_start su_regs su_next (fresh_program q)"
  by (auto simp: us_start_def fresh_program_def intro!: exI [of _ 8])

fun us_run :: "'e Lwip \<Rightarrow> u8 list \<Rightarrow> UdpOp list \<Rightarrow> 'e UdpSystem \<Rightarrow> (UdpOut list \<times> 'e UdpSystem) result" where
  "us_run lw stack [] s = Inr ([], s)"
| "us_run lw stack (op # ops) s =
     (if us_usable op s
      then bindE (us_exec lw stack op s) (\<lambda>(out, s).
        bindE (us_run lw stack ops s) (\<lambda>(outs, s). Inr (out # outs, s)))
      else Inl NullDeref)"

lemma us_run_reach:
  "us_run lw stack ops s = Inr (outs, s') \<Longrightarrow> us_reach lw stack regs next_addr s \<Longrightarrow> us_reach lw stack regs next_addr s'"
proof (induction ops arbitrary: s outs)
  case (Cons op ops)
  then obtain out s1 outs1 where "us_usable op s" "us_exec lw stack op s = Inr (out, s1)"
      "us_run lw stack ops s1 = Inr (outs1, s')"
    by (auto split: if_splits)
  with Cons.IH us_step [OF Cons.prems(2)] show ?case by blast
qed simp

text \<open>The DNS server is made (object 10), started in the access point and given a record; a dial is object 11.\<close>

definition access_ops :: "UdpOp list" where
  "access_ops = [UdpInitialize, UdpAccessPoint ''pico'' ''secret'', UdpNewDns, UdpAddDns 10,
     UdpChangeDns (AddRecord ''ab.c'' ''192.168.4.1'') 10,
     UdpDial \<lparr>address_network = ''udp'', address_ip = ''192.168.4.16'', address_port = 5353\<rparr>]"

definition access_point :: "LwipEvent list list \<Rightarrow> SampleUdp UdpSystem" where
  "access_point q = (case us_run access_lwip (replicate 300 255) access_ops (fresh_program q) of
     Inl fault \<Rightarrow> fresh_program [] | Inr (outs, s) \<Rightarrow> s)"

lemmas access_eval =
  access_ops_def fresh_program_def us_returning_def us_silent_def us_initialize_def us_access_point_def us_new_dns_def
  us_add_dns_def us_change_dns_def us_dial_def get_dns_def put_dns_def put_socket_def
  initialize_def setup_wifi_access_point_def add_dns_server_def dial_udp_def new_Network_def is_ready_def
  dhcp_start_string_def dhcp_start_def new_DhcpServer_def dns_start_def bind_socket_def new_DnsServer_def
  add_record_def dns_parse_ipv4_def new_UdpConnection_def call_def call_void_def on_env_def normalize_literal tolower_def
  local_ip_def udp_attach_callbacks_def

lemma access_run:
  "us_run access_lwip (replicate 300 255) access_ops (fresh_program q) =
     Inr ([UdpDone None, UdpDone None, UdpObject (Inr 10), UdpDone None, UdpDone None, UdpObject (Inr 11)], access_point q)"
  unfolding access_point_def by (simp add: access_eval Let_def)


lemma access_state:
  "us_dhcp (access_point q) = (new_DhcpServer 8)\<lparr>dhcp_udp := Some 1, server_ip := IP4 192 168 4 1,
     netmask := IP4 255 255 255 0\<rparr>"
  "us_dns (access_point q) = [10 \<mapsto> (new_DnsServer 10)\<lparr>dns_udp := Some 2,
     dns_listen_ip := IPADDR_TYPE_V4 (IP4 192 168 4 1), records := [''ab.c'' \<mapsto> IP4 192 168 4 1]\<rparr>]"
  "env (us_world (access_point q)) = \<lparr>su_regs = [1 \<mapsto> Some 8, 2 \<mapsto> Some 10, 3 \<mapsto> Some 11], su_next = 12,
     su_pcb = 4, su_queue = q\<rparr>"
  "us_sockets (access_point q) = [11 \<mapsto> new_UdpConnection 11 (Some 3)
     \<lparr>address_network = ''udp'', address_ip = ''192.168.4.16'', address_port = 4000\<rparr>
     \<lparr>address_network = ''udp'', address_ip = ''192.168.4.16'', address_port = 5353\<rparr> True None]"
  unfolding access_point_def by (simp_all add: access_eval Let_def fun_eq_iff)

lemma access_reach: "us_reach access_lwip (replicate 300 255) su_regs su_next (access_point q)"
  using us_run_reach [OF access_run us_first [OF fresh_program_start]] .

end
