(* ===== verification/Udp_System_Service.thy ===== *)
theory Udp_System_Service
  imports Udp_System_Steps Sample_Access_Point
begin

text \<open>
  The properties of the UDP side of a program as a whole: callbacks reach live objects, the services
  of an access point keep apart though one poll runs all of them, and a client that joins is led
  from DHCP to DNS.
\<close>

section \<open>Leases over a poll\<close>

text \<open>The datagrams of the DHCP server among the callbacks.\<close>

definition dhcp_datagram :: "obj \<Rightarrow> LwipEvent \<Rightarrow> u8 list option" where
  "dhcp_datagram this ev =
     (case ev of UdpRecvEvent arg p buf ip port \<Rightarrow> if arg = Some this then buf else None | _ \<Rightarrow> None)"

text \<open>A lease that is running is its client's still, renewed at most, and that by the client.\<close>

definition lease_kept :: "u32 \<Rightarrow> u8 list list \<Rightarrow> Lease \<Rightarrow> Lease \<Rightarrow> bool" where
  "lease_kept now macs l l' \<longleftrightarrow>
     l' = l \<or> lease_mac l \<in> set macs \<and> l' = \<lparr>lease_mac = lease_mac l, lease_expiry = expiry_of now\<rparr>"

lemma expiry_runs: "\<not> lease_expired (expiry_of t) t"
  using lease_not_expired_early [of 0 t] by simp

definition runs :: "u32 \<Rightarrow> Lease \<Rightarrow> bool" where
  "runs now l \<longleftrightarrow> lease_mac l \<noteq> zero_mac \<and> \<not> lease_expired (lease_expiry l) now"

lemma lease_step_kept: "lease_step now mac l l' \<Longrightarrow> runs now l \<Longrightarrow> lease_kept now [mac] l l'"
  by (auto simp: lease_step_def runs_def lease_kept_def)

lemma lease_kept_runs: "lease_kept now macs l l' \<Longrightarrow> runs now l \<Longrightarrow> runs now l'"
  by (auto simp: lease_kept_def runs_def expiry_runs)

lemma lease_kept_trans:
  "lease_kept now macs l l1 \<Longrightarrow> lease_kept now macs' l1 l2 \<Longrightarrow> lease_kept now (macs @ macs') l l2"
  by (auto simp: lease_kept_def)

definition senders :: "obj \<Rightarrow> LwipEvent list \<Rightarrow> u8 list list" where
  "senders this evs = map sender_mac (List.map_filter (dhcp_datagram this) evs)"

lemma senders_simps [simp]:
  "senders this [] = []"
  "senders this (ev # evs) =
     (case dhcp_datagram this ev of None \<Rightarrow> [] | Some bs \<Rightarrow> [sender_mac bs]) @ senders this evs"
  by (simp_all add: senders_def List.map_filter_simps split: option.split)

lemma dispatch_leases:
  assumes "us_dispatch lw stack ev s = Inr s'" and "leases_ok (us_dhcp s)" and "ticks_at lw now"
  shows "leases_ok (us_dhcp s') \<and> (\<forall>i<32. runs now (leases (us_dhcp s) ! i) \<longrightarrow>
    lease_kept now (senders (dhcp_this (us_dhcp s)) [ev]) (leases (us_dhcp s) ! i) (leases (us_dhcp s') ! i))"
proof (cases "\<exists>p bs ip port. ev = UdpRecvEvent (Some (dhcp_this (us_dhcp s))) p (Some bs) ip port")
  case True
  then obtain bs p ip port where ev: "ev = UdpRecvEvent (Some (dhcp_this (us_dhcp s))) p (Some bs) ip port" by blast
  obtain d w where h: "dhcp_handle_request lw (Some bs) (us_dhcp s) (us_world s) = Inr (d, w)" "us_dhcp s' = d"
    using assms(1) by (auto simp: ev us_dispatch_def dhcp_recv_callback_def)
  from handle_leases [OF h(1) assms(2,3)] show ?thesis
    using lease_step_kept by (simp add: ev h(2) dhcp_datagram_def)
next
  case False
  then have "us_dhcp s' = us_dhcp s"
    using assms(1)
    by (auto simp: us_dispatch_def put_socket_def dhcp_recv_callback_def dhcp_handle_request_def case_prod_beta Let_def
        split: LwipEvent.splits option.splits if_splits)
  then show ?thesis using assms(2) by (simp add: lease_kept_def)
qed

lemma dispatch_all_leases:
  assumes law: "udp_law lw regs next_addr" and stack: "length stack = 300" and ticks: "ticks_at lw now"
    and ok: "us_ok regs next_addr s" and evs: "\<forall>ev \<in> set evs. udp_event_law (regs (env (us_world s))) ev"
    and run: "us_dispatch_all lw stack evs s = Inr s'" and l: "leases_ok (us_dhcp s)"
  shows "leases_ok (us_dhcp s') \<and> (\<forall>i<32. runs now (leases (us_dhcp s) ! i) \<longrightarrow>
    lease_kept now (senders (dhcp_this (us_dhcp s)) evs) (leases (us_dhcp s) ! i) (leases (us_dhcp s') ! i))"
  using ok evs run l
proof (induction evs arbitrary: s)
  case Nil
  then show ?case by (simp add: lease_kept_def)
next
  case (Cons ev evs)
  obtain s1 where s1: "us_dispatch lw stack ev s = Inr s1" "us_dispatch_all lw stack evs s1 = Inr s'"
    using Cons.prems(3) by auto
  have d: "dispatched_udp regs next_addr s s1"
    using us_dispatch_ok [OF law stack Cons.prems(1), of ev] Cons.prems(2) s1(1) by simp
  note one = dispatch_leases [OF s1(1) Cons.prems(4) ticks]
  have same: "dhcp_this (us_dhcp s1) = dhcp_this (us_dhcp s)" using d by (auto simp: dispatched_udp_def)
  have rest: "leases_ok (us_dhcp s') \<and> (\<forall>i<32. runs now (leases (us_dhcp s1) ! i) \<longrightarrow>
      lease_kept now (senders (dhcp_this (us_dhcp s)) evs) (leases (us_dhcp s1) ! i) (leases (us_dhcp s') ! i))"
    using Cons.IH [OF _ _ s1(2)] d Cons.prems(2) one same by (simp add: dispatched_udp_def same_blocks_def)
  have "lease_kept now (senders (dhcp_this (us_dhcp s)) (ev # evs)) (leases (us_dhcp s) ! i) (leases (us_dhcp s') ! i)"
    if "i < 32" "runs now (leases (us_dhcp s) ! i)" for i
  proof -
    have a: "lease_kept now (senders (dhcp_this (us_dhcp s)) [ev]) (leases (us_dhcp s) ! i) (leases (us_dhcp s1) ! i)"
      using one that by blast
    have "lease_kept now (senders (dhcp_this (us_dhcp s)) evs) (leases (us_dhcp s1) ! i) (leases (us_dhcp s') ! i)"
      using rest that(1) lease_kept_runs [OF a that(2)] by blast
    from lease_kept_trans [OF a this] show ?thesis by simp
  qed
  then show ?case using rest by blast
qed

lemma poll_leases:
  assumes law: "udp_law lw regs next_addr" and stack: "length stack = 300" and ticks: "ticks_at lw now"
    and ok: "us_ok regs next_addr s" and run: "us_poll lw stack s = Inr s'" and l: "leases_ok (us_dhcp s)"
  shows "\<forall>i<32. runs now (leases (us_dhcp s) ! i) \<longrightarrow>
    lease_kept now (senders (dhcp_this (us_dhcp s)) (fst (arch_poll lw (us_world s))))
      (leases (us_dhcp s) ! i) (leases (us_dhcp s') ! i)"
proof -
  obtain evs w where p: "arch_poll lw (us_world s) = (evs, w)" by fastforce
  note pe = poll_events [OF law p]
  show ?thesis
    using dispatch_all_leases [OF law stack ticks us_ok_world [OF ok pe(2)], of evs s'] pe(1) run l p
    by (simp add: us_poll_def)
qed

section \<open>Addresses\<close>

text \<open>The address that DHCP hands out for DNS, and the one that DNS listens on.\<close>

definition addresses_ok :: "ip4_addr_t \<Rightarrow> 'e UdpSystem \<Rightarrow> bool" where
  "addresses_ok ip s \<longleftrightarrow> (dhcp_udp (us_dhcp s) \<noteq> None \<longrightarrow> server_ip (us_dhcp s) = ip) \<and>
     (\<forall>a d. us_dns s a = Some d \<longrightarrow> dns_udp d \<noteq> None \<longrightarrow> dns_listen_ip d = IPADDR_TYPE_V4 ip)"

lemma dispatched_addresses: "dispatched_udp regs next_addr s s' \<Longrightarrow> addresses_ok ip s \<Longrightarrow> addresses_ok ip s'"
  by (auto simp: dispatched_udp_def addresses_ok_def)

lemma put_addresses:
  "addresses_ok ip s \<Longrightarrow> addresses_ok ip (put_socket a c w s)"
  "addresses_ok ip s \<Longrightarrow> addresses_ok ip (s\<lparr>us_world := w\<rparr>)"
  "addresses_ok ip s \<Longrightarrow> (dns_udp d \<noteq> None \<Longrightarrow> dns_listen_ip d = IPADDR_TYPE_V4 ip) \<Longrightarrow> addresses_ok ip (put_dns a d w s)"
  "addresses_ok ip s \<Longrightarrow> (dhcp_udp (dhcp_server net) \<noteq> None \<Longrightarrow> server_ip (dhcp_server net) = ip) \<Longrightarrow>
     addresses_ok ip (s\<lparr>us_network := net\<rparr>)"
  by (auto simp: addresses_ok_def put_socket_def put_dns_def)

lemma dhcp_start_address:
  assumes "dhcp_start_string lw addr nm d w = (e, d', w')" and "lwip_aton lw addr = Some ip"
    and "dhcp_udp d \<noteq> None \<Longrightarrow> server_ip d = ip" and "dhcp_udp d' \<noteq> None"
  shows "server_ip d' = ip"
  using assms by (auto simp: dhcp_start_string_def dhcp_start_def Let_def case_prod_beta split: option.splits if_splits)

lemma dns_start_address:
  assumes "dns_start lw (IPADDR_TYPE_V4 ip) d w = (e, d', w')"
    and "dns_udp d \<noteq> None \<Longrightarrow> dns_listen_ip d = IPADDR_TYPE_V4 ip" and "dns_udp d' \<noteq> None"
  shows "dns_listen_ip d' = IPADDR_TYPE_V4 ip"
  using assms by (auto simp: dns_start_def bind_socket_def Let_def case_prod_beta split: option.splits if_splits)

lemma step_addresses:
  assumes law: "udp_law lw regs next_addr" and stack: "length stack = 300" and ok: "us_ok regs next_addr s"
    and ip: "lwip_aton lw ''192.168.4.1'' = Some ip" "\<And>e. lwip_netif_ip lw e = Some ip"
    and run: "us_exec lw stack op s = Inr (out, s')" and addr: "addresses_ok ip s"
  shows "addresses_ok ip s'"
proof (cases op)
  case UdpInitialize
  obtain e net w where r: "initialize lw (us_network s) (us_world s) = (e, net, w)" by (metis prod_cases3)
  then have "dhcp_server net = us_dhcp s" by (auto simp: initialize_def case_prod_beta split: if_splits)
  then show ?thesis using run r addr UdpInitialize
    by (auto simp: us_returning_def us_initialize_def addresses_ok_def)
next
  case (UdpStation ssid password t)
  obtain e net w where r: "connect_to_wifi_station lw ssid password t (us_network s) (us_world s) = (e, net, w)"
    by (metis prod_cases3)
  then have "dhcp_server net = us_dhcp s"
    by (auto simp: connect_to_wifi_station_def Let_def case_prod_beta split: if_splits)
  then show ?thesis using run r addr UdpStation
    by (auto simp: us_returning_def us_station_def addresses_ok_def)
next
  case (UdpAccessPoint ssid password)
  obtain e net w where r: "setup_wifi_access_point lw ssid password (us_network s) (us_world s) = (e, net, w)"
    by (metis prod_cases3)
  have "dhcp_udp (dhcp_server net) \<noteq> None \<Longrightarrow> server_ip (dhcp_server net) = ip"
  proof -
    assume up: "dhcp_udp (dhcp_server net) \<noteq> None"
    obtain e1 d w1 where st: "dhcp_start_string lw ''192.168.4.1'' ''255.255.255.0'' (us_dhcp s)
        (call_void lw (Cyw43EnableAp ssid password) (us_world s)) = (e1, d, w1)" by (metis prod_cases3)
    have "dhcp_server net = us_dhcp s \<or> dhcp_server net = d"
      using r st by (auto simp: setup_wifi_access_point_def Let_def split: if_splits option.splits)
    then show "server_ip (dhcp_server net) = ip"
      using dhcp_start_address [OF st ip(1)] addr up by (auto simp: addresses_ok_def)
  qed
  then show ?thesis using run r addr UdpAccessPoint
    by (auto simp: us_returning_def us_access_point_def addresses_ok_def)
next
  case UdpNewDns
  then show ?thesis using run addr
    by (auto simp: us_returning_def us_new_dns_def new_DnsServer_def addresses_ok_def put_dns_def
        split: prod.splits if_splits)
next
  case (UdpAddDns a)
  then obtain d where d: "us_dns s a = Some d"
    using run by (cases "us_dns s a") (auto simp: us_returning_def us_add_dns_def get_dns_def)
  obtain e d' net w where r: "add_dns_server lw d (us_network s) (us_world s) = (e, d', net, w)" by (metis prod_cases4)
  obtain e1 d1 w1 where st: "dns_start lw (IPADDR_TYPE_V4 ip) d (us_world s) = (e1, d1, w1)" by (metis prod_cases3)
  have "(d' = d \<or> d' = d1) \<and> dhcp_server net = us_dhcp s"
    using r st ip(2) by (auto simp: add_dns_server_def split: if_splits option.splits)
  then have "dhcp_server net = us_dhcp s" "dns_udp d' \<noteq> None \<Longrightarrow> dns_listen_ip d' = IPADDR_TYPE_V4 ip"
    using dns_start_address [OF st] addr d by (auto simp: addresses_ok_def)
  then show ?thesis using run UdpAddDns r d addr
    by (auto simp: us_returning_def us_add_dns_def get_dns_def addresses_ok_def put_dns_def
        split: if_splits)
next
  case (UdpChangeDns c a)
  have "dns_listen_ip (run_command lw c d) = dns_listen_ip d" for d
    by (cases c) (auto simp: add_record_def remove_record_def clear_records_def split: option.split)
  then show ?thesis using run addr UdpChangeDns run_command_keeps [of lw c]
    by (auto simp: us_silent_def us_change_dns_def get_dns_def addresses_ok_def put_dns_def
        split: option.splits if_splits)
next
  case (UdpSetFallback x a)
  then show ?thesis using run addr
    by (auto simp: us_returning_def us_set_fallback_def get_dns_def addresses_ok_def put_dns_def set_fallback_ip_def
        split: option.splits if_splits)
next
  case (UdpClearFallback a)
  then show ?thesis using run addr
    by (auto simp: us_silent_def us_clear_fallback_def get_dns_def addresses_ok_def put_dns_def clear_fallback_ip_def
        split: option.splits if_splits)
next
  case (UdpStopDns a)
  then show ?thesis using run addr
    by (auto simp: us_returning_def us_stop_dns_def get_dns_def addresses_ok_def put_dns_def dns_stop_def
        split: option.splits if_splits)
next
  case (UdpDestroyDns a)
  then show ?thesis using run addr
    by (auto simp: us_silent_def us_destroy_dns_def get_dns_def addresses_ok_def split: option.splits if_splits)
next
  case (UdpDial x)
  then show ?thesis using run addr put_addresses(1,2)
    by (auto simp: us_returning_def us_dial_def split: prod.splits sum.splits)
next
  case (UdpRead n a)
  show ?thesis
  proof (cases "n = 0")
    case True
    then show ?thesis using run addr UdpRead by (auto simp: us_returning_def us_read_def)
  next
    case False
    then obtain s1 where s1: "us_poll lw stack s = Inr s1"
      using run UdpRead by (cases "us_poll lw stack s") (auto simp: us_returning_def us_read_def)
    have "addresses_ok ip s1"
      using us_poll_ok [OF law stack ok] s1 addr by (auto intro: dispatched_addresses)
    then show ?thesis using run UdpRead False s1 put_addresses(1)
      by (auto simp: us_returning_def us_read_def case_prod_beta Let_def)
  qed
next
  case (UdpWrite bs a)
  then show ?thesis using run addr put_addresses(1)
    by (auto simp: us_returning_def us_write_def case_prod_beta Let_def)
next
  case (UdpClose a)
  then show ?thesis using run addr put_addresses(1)
    by (auto simp: us_silent_def us_close_def case_prod_beta Let_def)
next
  case (UdpDestroy a)
  then show ?thesis using run addr
    by (auto simp: us_silent_def us_destroy_def case_prod_beta Let_def addresses_ok_def)
next
  case UdpPoll
  then show ?thesis using run addr us_poll_ok [OF law stack ok]
    by (auto simp: us_silent_def intro: dispatched_addresses)
qed

lemma reach_addresses:
  assumes "us_reach lw stack regs next_addr s" and "udp_law lw regs next_addr" and "length stack = 300"
    and "lwip_aton lw ''192.168.4.1'' = Some ip" and "\<And>e. lwip_netif_ip lw e = Some ip"
  shows "addresses_ok ip s"
  using assms(1)
proof (induction rule: us_reach.induct)
  case (us_first s)
  then show ?case by (auto simp: us_start_def addresses_ok_def new_Network_def new_DhcpServer_def)
next
  case (us_step s op out s')
  show ?case
    by (rule step_addresses [OF assms(2,3) us_reach_ok [OF us_step(1) assms(2,3)] assms(4,5) us_step(3,4)])
qed

section \<open>The lease table\<close>

text \<open>It stays well-formed whatever the clock shows, in every operation.\<close>

lemma find_lease_table:
  assumes "find_lease_loop lw mac i chosen ls w = (j, ls', w')"
    and "length ls = 32" and "\<forall>l \<in> set ls. length (lease_mac l) = 6"
  shows "length ls' = 32 \<and> (\<forall>l \<in> set ls'. length (lease_mac l) = 6)"
  using assms
proof (induction lw mac i chosen ls w rule: find_lease_loop.induct)
  case (1 lw mac i chosen ls w)
  obtain now w1 where tick: "on_env (lwip_ticks_ms lw) w = (now, w1)" by fastforce
  have cleared: "\<forall>l \<in> set (ls[i := (ls ! i)\<lparr>lease_mac := zero_mac\<rparr>]). length (lease_mac l) = 6"
    using "1.prems"(3) by (auto dest: set_update_subset_insert [THEN subsetD])
  show ?case
    using "1.prems"(1) [unfolded find_lease_loop.simps [of lw mac i chosen ls w]] "1.prems"(2,3) tick cleared
      "1.IH"(1) [OF _ _ _ refl tick [symmetric] refl] "1.IH"(2) [OF _ _ _ refl tick [symmetric] refl] "1.IH"(3)
    by (simp add: Let_def split: if_splits)
qed

lemma decide_table:
  assumes "dhcp_decide lw msg opt t s w = Inr (r, s', w')" and "leases_ok s" and "length (take 6 (dm_chaddr msg)) = 6"
  shows "leases_ok s'"
proof (cases "t = DHCPDISCOVER")
  case True
  obtain j ls w1 where f: "find_or_allocate_lease lw (take 6 (dm_chaddr msg)) (leases s) w = (j, ls, w1)"
    by (metis prod_cases3)
  have "leases_ok (s\<lparr>leases := ls\<rparr>)"
    using find_lease_table [OF f [unfolded find_or_allocate_lease_def]] assms(2) by (simp add: leases_ok_def)
  then show ?thesis using assms(1) f True by (auto simp: dhcp_decide_def Let_def split: if_splits)
next
  case False
  then show ?thesis
    using assms leases_ok_update [OF assms(2)]
    by (auto simp: dhcp_decide_def Let_def case_prod_beta split: if_splits option.splits)
qed

lemma handle_table:
  assumes "dhcp_handle_request lw (Some bs) s w = Inr (s', w')" and "leases_ok s"
  shows "leases_ok s'"
proof (cases "\<exists>t. has_type bs t")
  case True
  then obtain t where t: "has_type bs t" by blast
  then have len: "243 \<le> length bs" by (simp add: has_type_def)
  obtain r where d: "dhcp_decide lw (dhcp_message bs s) 4 t s w = Inr r" and r: "dhcp_finish lw bs r = (s', w')"
    using assms(1) unfolding handle_typed [OF t] by auto
  have "fst (snd r) = s'" using r finish_leases [of lw bs r] by simp
  then obtain q w1 where "dhcp_decide lw (dhcp_message bs s) 4 t s w = Inr (q, s', w1)"
    using d by (cases r) auto
  moreover have "length (take 6 (dm_chaddr (dhcp_message bs s))) = 6" by (simp only: sender_mac_message [OF len])
  ultimately show ?thesis using decide_table assms(2) by blast
next
  case False
  have "s' = s"
  proof (cases "length bs < 243")
    case True
    then show ?thesis using assms(1) by (simp add: dhcp_handle_request_def)
  next
    case len: False
    then show ?thesis
      using assms(1) False by (auto simp: dhcp_handle_request_eq has_type_def split: option.splits)
  qed
  then show ?thesis using assms(2) by simp
qed

lemma request_table: "dhcp_handle_request lw p s w = Inr (s', w') \<Longrightarrow> leases_ok s \<Longrightarrow> leases_ok s'"
  by (cases p) (auto simp: dhcp_handle_request_def [of lw None] intro: handle_table)

lemma dispatch_table:
  assumes "us_dispatch lw stack ev s = Inr s'" and "leases_ok (us_dhcp s)"
  shows "leases_ok (us_dhcp s')"
  using assms
  by (auto simp: us_dispatch_def dhcp_recv_callback_def put_socket_def case_prod_beta Let_def
      dest!: request_table split: LwipEvent.splits option.splits if_splits)

lemma dispatch_all_table: "us_dispatch_all lw stack evs s = Inr s' \<Longrightarrow> leases_ok (us_dhcp s) \<Longrightarrow> leases_ok (us_dhcp s')"
  by (induction evs arbitrary: s) (auto dest: dispatch_table)

lemma poll_table: "us_poll lw stack s = Inr s' \<Longrightarrow> leases_ok (us_dhcp s) \<Longrightarrow> leases_ok (us_dhcp s')"
  by (auto simp: us_poll_def case_prod_beta dest: dispatch_all_table)

lemma no_leases_ok: "leases s = no_leases \<Longrightarrow> leases_ok s"
  by (simp add: leases_ok_def no_leases_def)

lemma dhcp_start_table:
  "dhcp_start_string lw addr nm d w = (e, d', w') \<Longrightarrow> leases_ok d \<Longrightarrow> leases_ok d'"
  by (auto simp: dhcp_start_string_def dhcp_start_def Let_def case_prod_beta no_leases_ok
      split: option.splits if_splits)

lemma access_point_table:
  assumes "setup_wifi_access_point lw ssid password net w = (e, net', w')" and "leases_ok (dhcp_server net)"
  shows "leases_ok (dhcp_server net')"
proof -
  obtain e1 d w1 where st: "dhcp_start_string lw ''192.168.4.1'' ''255.255.255.0'' (dhcp_server net)
      (call_void lw (Cyw43EnableAp ssid password) w) = (e1, d, w1)" by (metis prod_cases3)
  have "dhcp_server net' = dhcp_server net \<or> dhcp_server net' = d"
    using assms(1) st by (auto simp: setup_wifi_access_point_def Let_def split: if_splits option.splits)
  then show ?thesis using dhcp_start_table [OF st assms(2)] assms(2) by auto
qed

lemma radio_dhcp:
  "initialize lw net w = (e, net', w') \<Longrightarrow> dhcp_server net' = dhcp_server net"
  "connect_to_wifi_station lw ssid password t net w = (e, net', w') \<Longrightarrow> dhcp_server net' = dhcp_server net"
  "add_dns_server lw d net w = (e, d', net', w') \<Longrightarrow> dhcp_server net' = dhcp_server net"
  by (auto simp: initialize_def connect_to_wifi_station_def add_dns_server_def Let_def case_prod_beta
      split: if_splits option.splits)

lemma step_table:
  assumes run: "us_exec lw stack op s = Inr (out, s')" and ok: "leases_ok (us_dhcp s)"
  shows "leases_ok (us_dhcp s')"
proof (cases op)
  case UdpInitialize
  then show ?thesis using run ok
    by (auto simp: us_returning_def us_initialize_def split: prod.splits dest: radio_dhcp(1))
next
  case (UdpStation ssid password t)
  then show ?thesis using run ok
    by (auto simp: us_returning_def us_station_def split: prod.splits dest: radio_dhcp(2))
next
  case (UdpAccessPoint ssid password)
  then show ?thesis using run ok
    by (auto simp: us_returning_def us_access_point_def split: prod.splits dest: access_point_table)
next
  case UdpNewDns
  then show ?thesis using run ok
    by (auto simp: us_returning_def us_new_dns_def put_dns_def split: prod.splits)
next
  case (UdpAddDns a)
  have "dhcp_server (fst (snd (snd (add_dns_server lw d (us_network s) (us_world s))))) = us_dhcp s" for d
    using radio_dhcp(3) by (metis prod.collapse)
  then show ?thesis using run ok UdpAddDns
    by (auto simp: us_returning_def us_add_dns_def put_dns_def case_prod_beta Let_def)
next
  case (UdpSetFallback ip a)
  then show ?thesis using run ok
    by (auto simp: us_returning_def us_set_fallback_def put_dns_def case_prod_beta Let_def)
next
  case (UdpStopDns a)
  then show ?thesis using run ok
    by (auto simp: us_returning_def us_stop_dns_def put_dns_def case_prod_beta Let_def)
next
  case (UdpDial x)
  then show ?thesis using run ok
    by (auto simp: us_returning_def us_dial_def put_socket_def split: prod.splits sum.splits)
next
  case (UdpRead n a)
  then show ?thesis using run ok
    by (auto simp: us_returning_def us_read_def put_socket_def case_prod_beta Let_def split: if_splits dest!: poll_table)
next
  case UdpPoll
  then show ?thesis using run ok by (auto simp: us_silent_def dest!: poll_table)
qed (use run ok in \<open>auto simp: us_returning_def us_silent_def us_change_dns_def us_clear_fallback_def us_destroy_dns_def
    us_write_def us_close_def us_destroy_def put_dns_def put_socket_def case_prod_beta Let_def\<close>)

lemma reach_table: "us_reach lw stack regs next_addr s \<Longrightarrow> leases_ok (us_dhcp s)"
proof (induction rule: us_reach.induct)
  case (us_first s)
  then show ?case by (auto simp: us_start_def new_Network_def new_DhcpServer_def no_leases_ok)
next
  case (us_step s op out s')
  then show ?case using step_table by blast
qed

section \<open>A client of the access point\<close>

lemma dispatch_dhcp:
  assumes "dhcp_handle_request lw (Some bs) (us_dhcp s) (us_world s) = Inr (d, w)"
  shows "us_dispatch lw stack (UdpRecvEvent (Some (dhcp_this (us_dhcp s))) p (Some bs) ip port) s =
    Inr (s\<lparr>us_world := w, us_network := (us_network s)\<lparr>dhcp_server := d\<rparr>\<rparr>)"
  using assms by (simp add: us_dispatch_def dhcp_recv_callback_def)

lemma dispatch_dns:
  assumes "us_dns s a = Some d" and "a \<noteq> dhcp_this (us_dhcp s)"
    and "dns_handle_request lw stack (Some bs) src port d (us_world s) = Inr w"
  shows "us_dispatch lw stack (UdpRecvEvent (Some a) p (Some bs) (Some src) port) s = Inr (s\<lparr>us_world := w\<rparr>)"
  using assms by (simp add: us_dispatch_def dns_recv_callback_def)

lemma four_bytes: "length xs = 4 \<Longrightarrow> \<exists>a b c d. xs = [a, b, c, d]"
  by (auto simp: numeral_eq_Suc length_Suc_conv)

text \<open>What a client finds in a reply, which has no padding.\<close>

lemma reply_option:
  assumes "240 \<le> length bs"
  shows "option_value (drop 236 (dhcp_reply bs host t s)) DHCP_OPT_DNS = Inr (Some (ip4_bytes (server_ip s)))"
    "option_value (drop 236 (dhcp_reply bs host t s)) DHCP_OPT_MSG_TYPE = Inr (Some [t])"
    "take 4 (drop 16 (dhcp_reply bs host t s)) = take 3 (ip4_bytes (server_ip s)) @ [host]"
proof -
  obtain a b c d where ip: "server_ip s = IP4 a b c d" by (cases "server_ip s")
  obtain a' b' c' d' where nm: "netmask s = IP4 a' b' c' d'" by (cases "netmask s")
  have "length (take 4 (drop 236 bs)) = 4" using assms by simp
  then obtain x y z u where cookie: "take 4 (drop 236 bs) = [x, y, z, u]" using four_bytes by blast
  have opts: "drop 236 (dhcp_reply bs host t s) = [x, y, z, u] @ reply_options t s"
    using assms cookie by (simp add: dhcp_reply_def ip drop_take)
  note eval = opts option_value_def find_option_def find_option_loop.simps read_at_def read_range_def reply_options_def ip nm
  show "option_value (drop 236 (dhcp_reply bs host t s)) DHCP_OPT_DNS = Inr (Some (ip4_bytes (server_ip s)))"
    "option_value (drop 236 (dhcp_reply bs host t s)) DHCP_OPT_MSG_TYPE = Inr (Some [t])"
    by (simp_all add: eval)
  show "take 4 (drop 16 (dhcp_reply bs host t s)) = take 3 (ip4_bytes (server_ip s)) @ [host]"
    using assms by (simp add: dhcp_reply_def ip)
qed

lemma dns_query_calls:
  assumes "length stack = 300" and "dns_query bs host e" and "lookup_host d host = Some x" and "e \<le> 284"
    and "dns_udp d = Some q" and "buffers_available lw"
  shows "\<exists>w' e1 e2 e3. dns_handle_request lw stack (Some bs) dest port d w = Inr w' \<and>
    calls w' = calls w @ [(UdpSendto q (dns_response bs e x) dest port, e1),
      (PbufFree (dns_response bs e x), e2), (PbufFree bs, e3)]"
  using sent_calls [OF assms(5,6), of "dns_response bs e x" dest port w] assms(4)
  by (auto simp: handle_answered [OF assms(1-3)] world_simps)

section \<open>A sample client\<close>

text \<open>It joins the sample access point, and asks its DNS server (object 10) for \<open>ab.c\<close>.\<close>

definition joining_request :: "u8 list" where
  "joining_request = sample_datagram [53, 1, 3, 50, 4, 192, 168, 4, 16, 255]"

definition joining :: "LwipEvent list" where
  "joining = [UdpRecvEvent (Some 8) 1 (Some sample_discover) (Some (IPADDR_TYPE_V4 (IP4 0 0 0 0))) 68,
     UdpRecvEvent (Some 8) 1 (Some joining_request) (Some (IPADDR_TYPE_V4 (IP4 0 0 0 0))) 68,
     UdpRecvEvent (Some 10) 2 (Some sample_query) (Some (IPADDR_TYPE_V4 (IP4 192 168 4 16))) 5000]"

lemma joining_request_facts:
  "has_type joining_request DHCPREQUEST" "sender_mac joining_request = sender_mac sample_discover"
  "requests_address (dm_options (dhcp_received joining_request)) [192, 168, 4, 16]"
  by (simp_all add: has_type_def requests_address_def joining_request_def sample_discover_def option_eval)

lemma joining_polled:
  "fst (arch_poll access_lwip (us_world (access_point ((joining @ evs) # q)))) =
     joining @ filter (su_registered [1 \<mapsto> Some 8, 2 \<mapsto> Some 10, 3 \<mapsto> Some 11]) evs"
  by (simp add: arch_poll_def access_state joining_def)

lemma fits_joining: "ev \<in> set joining \<Longrightarrow> fits (access_point q) ev"
  by (auto simp: joining_def fits_def access_state new_DhcpServer_def sample_discover_def joining_request_def
      sample_query_def sample_datagram_facts)

lemma fits_other: "fits (access_point q) (UdpRecvEvent (Some 11) p buf ip port)"
  by (auto simp: fits_def access_state new_DhcpServer_def split: option.split)

lemma access_lookup:
  "lookup_host ((new_DnsServer 10)\<lparr>dns_udp := Some 2, dns_listen_ip := x, records := [''ab.c'' \<mapsto> ip]\<rparr>) ''ab.c'' = Some ip"
  by (simp add: lookup_host_def new_DnsServer_def normalize_literal tolower_def)

lemma access_offered: "offered_lease now [1, 2, 3, 4, 5, 6] (leases (us_dhcp (access_point q))) = 0"
  using sample_offered by (simp add: access_state sample_server_def new_DhcpServer_def)

section \<open>Properties\<close>



text \<open>
  C19: The services keep apart though one poll runs the callbacks of all: a connection has queued the
  datagrams of its own peer, in order, and nothing else has changed of it, the DNS servers are as
  they were, and a lease that was running is still its client's, at most renewed by that client.
\<close>

theorem services_keep_apart:
  assumes "udp_law lw regs next_addr" and "length stack = 300" and "us_reach lw stack regs next_addr s"
    and "ticks_at lw now" and "us_poll lw stack s = Inr s'" and "evs = fst (arch_poll lw (us_world s))"
  shows "us_dns s' = us_dns s \<and>
    (\<forall>a c. us_sockets s a = Some c \<longrightarrow> us_sockets s' a = Some (queued lw evs c)) \<and>
    (\<forall>i<32. runs now (leases (us_dhcp s) ! i) \<longrightarrow>
       runs now (leases (us_dhcp s') ! i) \<and>
       lease_kept now (senders (dhcp_this (us_dhcp s)) evs) (leases (us_dhcp s) ! i) (leases (us_dhcp s') ! i))"
proof -
  have ok: "us_ok regs next_addr s" by (rule us_reach_ok [OF assms(3,1,2)])
  have "us_dns s' = us_dns s"
    using us_poll_ok [OF assms(1,2) ok] assms(5) by (simp add: dispatched_udp_def)
  then show ?thesis
    using poll_sockets [OF assms(1,2) ok assms(5)] poll_leases [OF assms(1,2,4) ok assms(5) reach_table [OF assms(3)]]
      lease_kept_runs assms(6) by blast
qed

theorem services_keep_apart_witness:
  "\<exists>s'. us_poll access_lwip (replicate 300 255) (access_point [joining @ [UdpRecvEvent (Some 11) 3 (Some [1, 2])
       (Some (IPADDR_TYPE_V4 (IP4 192 168 4 16))) 5353]]) = Inr s' \<and>
     us_dns s' = us_dns (access_point []) \<and> (\<exists>c. us_sockets s' 11 = Some c \<and> map dg_data (udp_rx_queue c) = [[1, 2]])"
proof -
  let ?ev = "UdpRecvEvent (Some 11) 3 (Some [1, 2]) (Some (IPADDR_TYPE_V4 (IP4 192 168 4 16))) 5353"
  let ?s = "access_point [joining @ [?ev]]"
  obtain s' where run: "us_poll access_lwip (replicate 300 255) ?s = Inr s'"
    using us_poll_ok [OF access_law _ us_reach_ok [OF access_reach access_law], of "replicate 300 255" "[joining @ [?ev]]"]
    by (cases "us_poll access_lwip (replicate 300 255) ?s") (auto simp: joining_polled fits_joining fits_other)
  note apart = services_keep_apart [OF access_law _ access_reach access_ticks run refl]
  obtain c where c: "us_sockets ?s 11 = Some c" "udp_this c = 11" "udp_rx_queue c = []" "\<not> udp_is_closed c"
      "address_ip (udp_remote_addr c) = ''192.168.4.16''" "address_port (udp_remote_addr c) = 5353"
    by (simp add: access_state new_UdpConnection_def)
  have "us_sockets s' 11 = Some (queued access_lwip (joining @ [?ev]) c)"
    using apart c(1) by (simp add: joining_polled)
  then show ?thesis
    using apart run c by (simp add: access_state queued_def datagrams_of_def from_peer_def sender_ip_def joining_def)
qed

text \<open>
  C5: An access point serves a client that joins: in one poll that brings its DISCOVER, its REQUEST of the
  offered address and a DNS query, the client is offered the address and has it acknowledged in
  broadcasts, holds its lease, and gets the answer to the query. The acknowledgement names as the
  client's address the one asked for and as its DNS server the address that the DNS server of the
  network listens on, and the answer comes from that server's socket.
\<close>

theorem access_point_serves_client:
  assumes "udp_law lw regs next_addr" and "length stack = 300" and "us_reach lw stack regs next_addr s"
    and "lwip_aton lw ''192.168.4.1'' = Some ip" "\<And>e. lwip_netif_ip lw e = Some ip"
    and "ticks_at lw now" "buffers_available lw"
    and "dhcp_udp (us_dhcp s) = Some p" and "us_dns s a = Some d" "dns_udp d = Some q"
    and "has_type discover DHCPDISCOVER" and "has_type request DHCPREQUEST"
    and "sender_mac request = sender_mac discover"
    and yi: "yi = offered_lease now (sender_mac discover) (leases (us_dhcp s))" "yi \<noteq> 32"
    and "requests_address (dm_options (dhcp_received request)) (take 3 (ip4_bytes ip) @ [of_nat (16 + yi)])"
    and "dns_query query host e" "e \<le> 284" "lookup_host d host = Some x"
    and "fst (arch_poll lw (us_world s)) =
      [UdpRecvEvent (Some (dhcp_this (us_dhcp s))) p (Some discover) src1 port1,
       UdpRecvEvent (Some (dhcp_this (us_dhcp s))) p (Some request) src2 port2,
       UdpRecvEvent (Some a) q (Some query) (Some client) port3]"
  shows "\<exists>s' w1 w2 offer ack e1 e2 e3. us_poll lw stack s = Inr s' \<and>
    answered p discover offer (snd (arch_poll lw (us_world s))) w1 \<and> answered p request ack w1 w2 \<and>
    calls (us_world s') = calls w2 @ [(UdpSendto q (dns_response query e x) client port3, e1),
      (PbufFree (dns_response query e x), e2), (PbufFree query, e3)] \<and>
    option_value (drop 236 offer) DHCP_OPT_MSG_TYPE = Inr (Some [DHCPOFFER]) \<and>
    take 4 (drop 16 offer) = take 3 (ip4_bytes ip) @ [of_nat (16 + yi)] \<and>
    option_value (drop 236 ack) DHCP_OPT_MSG_TYPE = Inr (Some [DHCPACK]) \<and>
    take 4 (drop 16 ack) = take 3 (ip4_bytes ip) @ [of_nat (16 + yi)] \<and>
    option_value (drop 236 ack) DHCP_OPT_DNS = Inr (Some (ip4_bytes ip)) \<and>
    dns_listen_ip d = IPADDR_TYPE_V4 ip \<and>
    leases (us_dhcp s') ! yi = \<lparr>lease_mac = sender_mac discover, lease_expiry = expiry_of now\<rparr>"
proof -
  let ?s = "us_dhcp s" and ?w = "snd (arch_poll lw (us_world s))" and ?h = "of_nat (16 + yi) :: u8"
  have ok: "us_ok regs next_addr s" and table: "leases_ok ?s" and addr: "addresses_ok ip s"
    using us_reach_ok [OF assms(3,1,2)] reach_table [OF assms(3)] reach_addresses [OF assms(3,1,2,4,5)] by blast+
  have ip: "server_ip ?s = ip" "dns_listen_ip d = IPADDR_TYPE_V4 ip"
    using addr assms(8-10) by (auto simp: addresses_ok_def)
  have sep: "a \<noteq> dhcp_this ?s" using us_okD(3) [OF ok assms(9)] by simp
  have len: "240 \<le> length discover" "240 \<le> length request" using assms(11,12) by (auto simp: has_type_def)
  obtain s1 w1 where d: "dhcp_handle_request lw (Some discover) ?s ?w = Inr (s1, w1)"
    and o: "answered p discover (dhcp_reply discover ?h DHCPOFFER ?s) ?w w1"
      "lease_mac (leases s1 ! yi) = sender_mac discover \<or> lease_mac (leases s1 ! yi) = zero_mac"
    and k: "server_ip s1 = server_ip ?s" "netmask s1 = netmask ?s" "dhcp_udp s1 = dhcp_udp ?s"
    using handle_discover [OF assms(11) table assms(6,8,7) yi(1), of ?w] yi(2) by auto
  have t1: "leases_ok s1" by (rule handle_table [OF d table])
  have this1: "dhcp_this s1 = dhcp_this ?s" by (rule dhcp_blocks(2) [OF assms(1) d])
  have yi32: "yi < 32"
    using offered_lease_le [of "leases ?s" now "sender_mac discover"] table yi by (simp add: leases_ok_def)
  have udp1: "dhcp_udp s1 = Some p" and req: "requests_address (dm_options (dhcp_received request))
      (take 3 (ip4_bytes (server_ip s1)) @ [of_nat (16 + yi)])" using k ip assms(8,16) by simp_all
  obtain s2 w2 where r: "dhcp_handle_request lw (Some request) s1 w1 = Inr (s2, w2)"
    and ack: "answered p request (dhcp_reply request ?h DHCPACK s1) w1 w2"
    and s2: "s2 = s1\<lparr>leases := (leases s1)[yi := \<lparr>lease_mac = sender_mac request, lease_expiry = expiry_of now\<rparr>]\<rparr>"
    using handle_request [OF assms(12,6) udp1 assms(7) req yi32, of w1] o(2) assms(13) by auto
  obtain w3 e1 e2 e3 where n: "dns_handle_request lw stack (Some query) client port3 d w2 = Inr w3"
    and c: "calls w3 = calls w2 @ [(UdpSendto q (dns_response query e x) client port3, e1),
      (PbufFree (dns_response query e x), e2), (PbufFree query, e3)]"
    using dns_query_calls [OF assms(2,17,19,18,10,7)] by blast
  have run: "us_poll lw stack s = Inr (s\<lparr>us_world := w3, us_network := (us_network s)\<lparr>dhcp_server := s2\<rparr>\<rparr>)"
    using assms(20) d r n sep assms(9) this1 dhcp_blocks(2) [OF assms(1) r]
    by (simp add: us_poll_def case_prod_beta us_dispatch_def dhcp_recv_callback_def dns_recv_callback_def)
  show ?thesis
    using run o(1) ack c reply_option [OF len(1), of ?h DHCPOFFER ?s] reply_option [OF len(2), of ?h DHCPACK s1]
      k ip s2 yi32 t1 assms(13)
    by (intro exI [of _ "s\<lparr>us_world := w3, us_network := (us_network s)\<lparr>dhcp_server := s2\<rparr>\<rparr>"] exI [of _ w1] exI [of _ w2]
        exI [of _ "dhcp_reply discover ?h DHCPOFFER ?s"] exI [of _ "dhcp_reply request ?h DHCPACK s1"]
        exI [of _ e1] exI [of _ e2] exI [of _ e3]) (simp add: leases_ok_def)
qed

theorem access_point_serves_client_witness:
  "\<exists>s' ack. \<exists>w1 w2 :: SampleUdp World. us_poll access_lwip (replicate 300 255) (access_point [joining]) = Inr s' \<and>
     answered 1 joining_request ack w1 w2 \<and>
     option_value (drop 236 ack) DHCP_OPT_DNS = Inr (Some [192, 168, 4, 1]) \<and>
     leases (us_dhcp s') ! 0 = \<lparr>lease_mac = [1, 2, 3, 4, 5, 6], lease_expiry = expiry_of 1000\<rparr> \<and>
     UdpSendto 2 (dns_response sample_query 22 (IP4 192 168 4 1)) (IPADDR_TYPE_V4 (IP4 192 168 4 16)) 5000
       \<in> fst ` set (calls (us_world s'))"
proof -
  let ?s = "access_point [joining]"
  let ?d = "(new_DnsServer 10)\<lparr>dns_udp := Some 2, dns_listen_ip := IPADDR_TYPE_V4 (IP4 192 168 4 1),
    records := [''ab.c'' \<mapsto> IP4 192 168 4 1]\<rparr>"
  have this8: "dhcp_this (us_dhcp ?s) = 8" by (simp add: access_state new_DhcpServer_def)
  have yi: "0 = offered_lease 1000 (sender_mac sample_discover) (leases (us_dhcp ?s))"
    by (simp only: sample_senders access_offered)
  have req: "requests_address (dm_options (dhcp_received joining_request))
      (take 3 (ip4_bytes (IP4 192 168 4 1)) @ [of_nat (16 + 0)])" using joining_request_facts(3) by simp
  have evs: "fst (arch_poll access_lwip (us_world ?s)) =
      [UdpRecvEvent (Some (dhcp_this (us_dhcp ?s))) 1 (Some sample_discover) (Some (IPADDR_TYPE_V4 (IP4 0 0 0 0))) 68,
       UdpRecvEvent (Some (dhcp_this (us_dhcp ?s))) 1 (Some joining_request) (Some (IPADDR_TYPE_V4 (IP4 0 0 0 0))) 68,
       UdpRecvEvent (Some 10) 2 (Some sample_query) (Some (IPADDR_TYPE_V4 (IP4 192 168 4 16))) 5000]"
    using joining_polled [of "[]" "[]"] by (simp only: this8) (simp add: joining_def)
  have ip: "lwip_aton access_lwip ''192.168.4.1'' = Some (IP4 192 168 4 1)" "\<And>e. lwip_netif_ip access_lwip e = Some (IP4 192 168 4 1)"
    by simp_all
  have d: "dhcp_udp (us_dhcp ?s) = Some 1" "us_dns ?s 10 = Some ?d" "dns_udp ?d = Some 2"
    by (simp_all add: access_state)
  have n: "(0 :: nat) \<noteq> 32" "22 \<le> (284 :: nat)" "length (replicate 300 (255 :: u8)) = 300" by simp_all
  obtain s' ack e1 e2 e3 and w1 w2 :: "SampleUdp World" where "us_poll access_lwip (replicate 300 255) ?s = Inr s'"
      "answered 1 joining_request ack w1 w2"
      "calls (us_world s') = calls w2 @ [(UdpSendto 2 (dns_response sample_query 22 (IP4 192 168 4 1))
         (IPADDR_TYPE_V4 (IP4 192 168 4 16)) 5000, e1), (PbufFree (dns_response sample_query 22 (IP4 192 168 4 1)), e2),
         (PbufFree sample_query, e3)]"
      "option_value (drop 236 ack) DHCP_OPT_DNS = Inr (Some (ip4_bytes (IP4 192 168 4 1)))"
      "leases (us_dhcp s') ! 0 = \<lparr>lease_mac = sender_mac sample_discover, lease_expiry = expiry_of 1000\<rparr>"
    using access_point_serves_client [OF access_law n(3) access_reach ip access_ticks access_buffers d
        sample_discover_type joining_request_facts(1,2) yi n(1) req sample_query_ok n(2) access_lookup evs]
    by - (elim exE conjE, rule that, assumption+)
  then show ?thesis by (intro exI [of _ s'] exI [of _ ack] exI [of _ w1] exI [of _ w2]) (simp add: sample_senders)
qed

end
