(* ===== verification/Example_Program.thy ===== *)
theory Example_Program
  imports Network_Service
begin

text \<open>
  The example program (\<^verbatim>\<open>pico_net/examples/simple_tcp_connection.cpp\<close>): a station that dials a
  TCP server, sends a line, prints what comes back and closes. What it prints is returned as a list,
  one string for each \<^verbatim>\<open>printf\<close>, beside its exit code. The destructors that run when \<^verbatim>\<open>main\<close> is left
  are part of it: the connection's first and then the network's. A read without a deadline need not
  return, and neither need the program.
\<close>

section \<open>The program\<close>

definition println :: "string \<Rightarrow> string" where
  "println s = s @ [CHR 0x0A]"

definition WIFI_SSID :: string where
  "WIFI_SSID = ''YOUR_WIFI_SSID''"

definition WIFI_PASSWORD :: string where
  "WIFI_PASSWORD = ''YOUR_WIFI_PASSWORD''"

definition example_address :: Address where
  "example_address = \<lparr>address_network = ''tcp'', address_ip = ''192.168.1.17'', address_port = 12345\<rparr>"

definition example_message :: string where
  "example_message = println ''Hello from Pico!''"

text \<open>\<^verbatim>\<open>%s\<close> of a buffer: the characters before the terminator, which has to be inside the buffer.\<close>

definition c_string :: "u8 list \<Rightarrow> string result" where
  "c_string buffer =
     (if 0 \<in> set buffer then Inr (string_of_bytes (takeWhile (\<lambda>b. b \<noteq> 0) buffer)) else Inl OutOfBounds)"

text \<open>An early return with an error; a fault is no error to print and ends the run.\<close>

definition example_failed :: "string \<Rightarrow> Error \<Rightarrow> string list \<Rightarrow> (int \<times> string list) result" where
  "example_failed what err out =
     (case err of Error msg \<Rightarrow> Inr (-1, out @ [println (what @ msg)]) | fault \<Rightarrow> Inl fault)"

text \<open>What is printed of the bytes read into \<open>buffer\<close>, an array on the stack with unknown contents.\<close>

definition example_received :: "u8 list \<Rightarrow> u8 list \<Rightarrow> string result" where
  "example_received buffer bs =
     bindE (write_range buffer 0 bs) (\<lambda>buffer.
       if length bs > 0 then
         bindE (write_at buffer (length bs) 0) (\<lambda>buffer.
         bindE (c_string buffer) (\<lambda>s. Inr (println (''Received: '' @ s))))
       else Inr (println ''Connection closed by peer''))"

text \<open>The part with the connection.\<close>

definition example_talk ::
  "'e Platform \<Rightarrow> 'e Lwip \<Rightarrow> u8 list \<Rightarrow> string list \<Rightarrow> TcpConnection \<Rightarrow> 'e World \<Rightarrow>
     ((int \<times> string list) result \<times> TcpConnection \<times> 'e World) option" where
  "example_talk pf lw buffer out c w =
     (case conn_write (tcp_ops pf lw) (bytes_of_string example_message) c w of
        (Inl err, c, w) \<Rightarrow> Some (example_failed ''Write failed: '' err out, c, w)
      | (Inr written, c, w) \<Rightarrow>
          let out = out @ [''Sent: '' @ example_message]
          in case conn_read (tcp_ops pf lw) (256 - 1) c w of
               None \<Rightarrow> None
             | Some (Inl err, c, w) \<Rightarrow> Some (example_failed ''Read failed: '' err out, c, w)
             | Some (Inr bs, c, w) \<Rightarrow>
                 (case example_received buffer bs of
                    Inl fault \<Rightarrow> Some (Inl fault, c, w)
                  | Inr line \<Rightarrow>
                      let (e, c, w) = conn_close (tcp_ops pf lw) c w
                      in Some (Inr (0, out @ [line, println ''Done'']), c, w)))"

text \<open>Leaving \<^verbatim>\<open>main\<close>: there is no DNS server in this program.\<close>

definition example_leave ::
  "'e Lwip \<Rightarrow> Network \<Rightarrow> (int \<times> string list) result \<Rightarrow> 'e World \<Rightarrow> (int \<times> string list \<times> 'e World) result" where
  "example_leave lw net r w =
     bindE r (\<lambda>(code, out). bindE (network_destroy lw net Map.empty w) (\<lambda>(servers, w). Inr (code, out, w)))"

definition example_main ::
  "'e Platform \<Rightarrow> 'e Lwip \<Rightarrow> u8 list \<Rightarrow> 'e World \<Rightarrow> (int \<times> string list \<times> 'e World) result option" where
  "example_main pf lw buffer w =
     (let w = sleep_ms (world_platform pf) 5000 w;
          (dhcp, w) = on_env (new_object lw) w;
          net = new_Network dhcp
      in case initialize lw net w of
           (Some err, net, w) \<Rightarrow> Some (example_leave lw net (example_failed ''Network init failed: '' err []) w)
         | (None, net, w) \<Rightarrow>
             let out = [println ''Connecting to WiFi...'']
             in case connect_to_wifi_station lw WIFI_SSID WIFI_PASSWORD 10000 net w of
                  (Some err, net, w) \<Rightarrow>
                    Some (example_leave lw net (example_failed ''WiFi connection failed: '' err out) w)
                | (None, net, w) \<Rightarrow>
                    let out = out @ [println ''WiFi connected'',
                          println (''Dialing TCP '' @ address_ip example_address @ '':'' @
                            decimal (unat (address_port example_address)) @ ''...'')]
                    in case dial_tcp pf lw net example_address 10000 w of
                         None \<Rightarrow> None
                       | Some (Inl err, w) \<Rightarrow>
                           Some (example_leave lw net (example_failed ''TCP dial failed: '' err out) w)
                       | Some (Inr c, w) \<Rightarrow>
                           (case example_talk pf lw buffer (out @ [println ''TCP connection established'']) c w of
                              None \<Rightarrow> None
                            | Some (r, c, w) \<Rightarrow>
                                Some (example_leave lw net r (conn_destroy (tcp_ops pf lw) c w))))"

section \<open>What the program does to lwIP and the driver\<close>

text \<open>The two kinds of calls that matter outside: what is sent, and switching off the driver.\<close>

fun acts_outside :: "LwipCall \<Rightarrow> bool" where
  "acts_outside (TcpWrite p bs) = True"
| "acts_outside Cyw43Deinit = True"
| "acts_outside k = False"

definition acts :: "'e World \<Rightarrow> LwipCall list" where
  "acts w = filter acts_outside (map fst (calls w))"

lemma acts_call [simp]:
  "acts (call_void lw k w) = acts w @ (if acts_outside k then [k] else [])"
  "acts (snd (call lw k w)) = acts w @ (if acts_outside k then [k] else [])"
  "acts (w\<lparr>env := e\<rparr>) = acts w" "acts (w\<lparr>delivered := d\<rparr>) = acts w"
  by (simp_all add: acts_def world_simps)

lemma acts_on_env [simp]: "acts (snd (on_env f w)) = acts w"
  by (simp add: acts_def world_simps)

lemma acts_poll [simp]: "acts (snd (arch_poll lw w)) = acts w"
  by (simp add: acts_def world_simps)

lemma acts_dispatch: "acts (snd (fold (tcp_dispatch lw) evs (c, w))) = acts w"
proof (induction evs arbitrary: c w)
  case (Cons ev evs)
  have "acts (snd (tcp_dispatch lw ev (c, w))) = acts w"
    by (auto simp: tcp_dispatch_def tcp_recv_callback_def handle_tcp_recv_def tcp_err_callback_def
        split: LwipEvent.split option.split)
  then show ?case using Cons.IH [of "fst (tcp_dispatch lw ev (c, w))" "snd (tcp_dispatch lw ev (c, w))"] by simp
qed simp

lemma acts_read:
  assumes "tcp_read_nonblocking lw n c w = (r, c', w')"
  shows "acts w' = acts w"
  using assms acts_dispatch [of lw "fst (arch_poll lw w)" c "snd (arch_poll lw w)"]
  by (auto simp: tcp_read_nonblocking_def tcp_poll_def split: if_splits prod.splits)

lemma acts_close: "acts (snd (snd (tcp_close lw c w))) = acts w"
  by (auto simp: tcp_close_def Let_def case_prod_beta split: option.split)

lemma acts_destroy: "acts (tcp_destroy lw c w) = acts w"
  using acts_close [of lw c w] by (auto simp: tcp_destroy_def split: prod.split)

lemma acts_write:
  assumes "tcp_write lw bs c w = (r, c', w')"
  shows "acts w' = acts w \<or> (\<exists>q n. acts w' = acts w @ [TcpWrite q (take n bs)])"
  using assms by (auto simp: tcp_write_def Let_def case_prod_beta split: option.splits if_splits)

lemma acts_dial:
  assumes "dial_tcp pf lw net address timeout w = Some (r, w')" and "connects_with_argument lw"
  shows "acts w' = acts w"
  using dial_tcp_outcome [OF assms]
  by (auto simp: dial_outcome_def acts_def give_up_calls_def attach_calls_def split: sum.splits)

lemma acts_station:
  "connect_to_wifi_station lw ssid password t net w = (e, net', w') \<Longrightarrow> acts w' = acts w"
  "initialize lw net w = (e, net', w') \<Longrightarrow> acts w' = acts w"
  by (auto simp: connect_to_wifi_station_def initialize_def Let_def case_prod_beta split: if_splits)

text \<open>A read that returns without an error has bytes.\<close>

lemma read_result:
  assumes "tcp_read pf lw n c w = Some (r, c', w')" and "n > 0"
  shows "acts w' = acts w" "fault_free r" "\<And>bs. r = Inr bs \<Longrightarrow> bs \<noteq> [] \<and> length bs \<le> n"
proof -
  let ?Q = "\<lambda>r. fault_free r \<and> (\<forall>bs. r = Inr bs \<longrightarrow> bs \<noteq> [] \<and> length bs \<le> n)"
  have Q: "?Q r" if "tcp_read_nonblocking lw n c w = (r, c', w')" "r \<noteq> Inr []" for c w r c' w'
    using that tcp_read_fault_free [of lw n c w] tcp_read_length [of lw n c w] by auto
  have loop: "acts w' = acts w1 \<and> ?Q r"
    if "read_loop (world_platform pf) (tcp_read_nonblocking lw) n until c w1 = Some (r, c', w')" for until w1
  proof (rule read_loop_result [OF that, where I = "\<lambda>c w. acts w = acts w1" and Q = ?Q])
    fix c r c' and w2 w3 :: "'a World"
    assume "acts w2 = acts w1" and run: "tcp_read_nonblocking lw n c w2 = (r, c', w3)"
    then show "acts w3 = acts w1 \<and> (r \<noteq> Inr [] \<longrightarrow> ?Q r)" using acts_read [OF run] Q [OF run] by metis
  qed simp_all
  obtain until w1 where start: "acts w1 = acts w"
      "read_loop (world_platform pf) (tcp_read_nonblocking lw) n until c w1 = Some (r, c', w')"
    using assms by (auto simp: tcp_read_def blocking_read_def split: option.splits prod.splits)
      (metis acts_on_env snd_conv)
  from loop [OF start(2)] start(1)
  show "acts w' = acts w" "fault_free r" "\<And>bs. r = Inr bs \<Longrightarrow> bs \<noteq> [] \<and> length bs \<le> n" by simp_all
qed

lemma received_line:
  assumes "length buffer = 256" and "bs \<noteq> []" and "length bs \<le> 255"
  shows "example_received buffer bs = Inr (println (''Received: '' @ string_of_bytes (takeWhile (\<lambda>b. b \<noteq> 0) bs)))"
proof -
  have "write_range buffer 0 bs = Inr (bs @ drop (length bs) buffer)"
    using assms by (simp add: write_range_def)
  moreover have "write_at (bs @ drop (length bs) buffer) (length bs) 0 = Inr (bs @ 0 # drop (Suc (length bs)) buffer)"
    using assms by (simp add: write_at_range write_range_def drop_Suc drop_tl)
  moreover have "c_string (bs @ 0 # drop (Suc (length bs)) buffer) = Inr (string_of_bytes (takeWhile (\<lambda>b. b \<noteq> 0) bs))"
    by (simp add: c_string_def takeWhile_tail)
  ultimately show ?thesis using assms(2) by (simp add: example_received_def)
qed

lemma failed_line: "\<not> is_fault err \<Longrightarrow> example_failed what err out = Inr (-1, out @ [println (what @ message err)])"
  by (cases err) (simp_all add: example_failed_def)

text \<open>How the part with the connection ends.\<close>

definition talk_outcome :: "string list \<Rightarrow> (int \<times> string list) result \<Rightarrow> bool" where
  "talk_outcome out r \<longleftrightarrow>
     (\<exists>msg. r = Inr (-1, out @ [println (''Write failed: '' @ msg)])) \<or>
     (\<exists>msg. r = Inr (-1, out @ [''Sent: '' @ example_message, println (''Read failed: '' @ msg)])) \<or>
     (\<exists>bs. bs \<noteq> [] \<and> length bs \<le> 255 \<and>
        r = Inr (0, out @ [''Sent: '' @ example_message,
              println (''Received: '' @ string_of_bytes (takeWhile (\<lambda>b. b \<noteq> 0) bs)), println ''Done'']))"

lemma talk_runs:
  assumes run: "example_talk pf lw buffer out c w = Some (r, c', w')" and buf: "length buffer = 256"
  shows "talk_outcome out r"
    "acts w' = acts w \<or> (\<exists>q n. acts w' = acts w @ [TcpWrite q (take n (bytes_of_string example_message))])"
proof -
  let ?msg = "bytes_of_string example_message"
  obtain wr c1 w1 where w1: "tcp_write lw ?msg c w = (wr, c1, w1)" by (metis prod_cases3)
  have sent: "acts w1 = acts w \<or> (\<exists>q n. acts w1 = acts w @ [TcpWrite q (take n ?msg)])"
    using acts_write [OF w1] .
  have both: "talk_outcome out r \<and> acts w' = acts w1"
  proof (cases wr)
    case (Inl err)
    have "\<not> is_fault err" using tcp_write_fault_free [of lw ?msg c w] w1 Inl by simp
    then show ?thesis using run w1 Inl by (auto simp: example_talk_def Let_def talk_outcome_def failed_line)
  next
    case (Inr written)
    obtain rr c2 w2 where w2: "tcp_read pf lw 255 c1 w1 = Some (rr, c2, w2)"
      using run w1 Inr by (auto simp: example_talk_def Let_def split: option.splits)
    note rd = read_result [OF w2, simplified]
    show ?thesis
    proof (cases rr)
      case l: (Inl err)
      have "\<not> is_fault err" using rd(2) l by simp
      then show ?thesis
        using run w1 w2 Inr l rd(1) by (auto simp: example_talk_def Let_def talk_outcome_def failed_line)
    next
      case r: (Inr bs)
      have bs: "bs \<noteq> []" "length bs \<le> 255" using rd(3) r by simp_all
      obtain e c3 w3 where w3: "tcp_close lw c2 w2 = (e, c3, w3)" by (metis prod_cases3)
      have "acts w3 = acts w1" using acts_close [of lw c2 w2] rd(1) w3 by simp
      then show ?thesis
        using run w1 w2 w3 Inr r received_line [OF buf bs] bs by (auto simp: example_talk_def Let_def talk_outcome_def)
    qed
  qed
  then show "talk_outcome out r"
    "acts w' = acts w \<or> (\<exists>q n. acts w' = acts w @ [TcpWrite q (take n ?msg)])"
    using sent by simp_all
qed

section \<open>The whole program\<close>

text \<open>
  The network of the program: there is no access point and no DNS server, and it is a station once it
  has joined.
\<close>

definition plain :: "bool \<Rightarrow> Network \<Rightarrow> bool" where
  "plain joined net \<longleftrightarrow> \<not> is_access_point_active net \<and> attached_dns_server net = None \<and>
     (is_connected_to_station_wifi net \<longleftrightarrow> joined)"

lemma plain_start:
  assumes "initialize lw (new_Network dhcp) w = (e, net', w')"
  shows "plain False net'" "\<And>err. e = Some err \<Longrightarrow> \<not> is_fault err"
  using assms by (auto simp: initialize_def new_Network_def plain_def Let_def case_prod_beta split: if_splits)

lemma plain_join:
  assumes "connect_to_wifi_station lw ssid password t net w = (e, net', w')" and "plain False net"
  shows "plain (e = None) net'" "\<And>err. e = Some err \<Longrightarrow> \<not> is_fault err"
  using assms by (auto simp: connect_to_wifi_station_def plain_def Let_def case_prod_beta split: if_splits)

lemma leave_runs:
  assumes "plain joined net"
  shows "\<exists>w'. example_leave lw net (Inr (code, out)) w = Inr (code, out, w') \<and>
      acts w' = acts w @ (if joined then [Cyw43Deinit] else [])"
  using assms
  by (auto simp: example_leave_def network_destroy_def dhcp_destroy_def dhcp_stop_def plain_def Let_def
      split: option.split)

lemma failed_runs:
  assumes "r = example_leave lw net (example_failed what err out) w" and "plain joined net" and "\<not> is_fault err"
  shows "\<exists>w'. r = Inr (-1, out @ [println (what @ message err)], w') \<and>
      acts w' = acts w @ (if joined then [Cyw43Deinit] else [])"
  unfolding assms(1) failed_line [OF assms(3)] by (rule leave_runs [OF assms(2)])

text \<open>The lines printed before the dial, and once there is a connection.\<close>

abbreviation joined_lines :: "string list" where
  "joined_lines \<equiv> [println ''Connecting to WiFi...'', println ''WiFi connected'',
     println ''Dialing TCP 192.168.1.17:12345...'']"

abbreviation connected_lines :: "string list" where
  "connected_lines \<equiv> joined_lines @ [println ''TCP connection established'']"

lemma dialling_line:
  "address_ip example_address = ''192.168.1.17''" "decimal (unat (address_port example_address)) = ''12345''"
proof -
  have "decimal 12345 = map char_of [49, 50, 51, 52, 53 :: nat]" by (simp add: decimal.simps)
  also have "\<dots> = ''12345''" by code_simp
  finally show "decimal (unat (address_port example_address)) = ''12345''" by (simp add: example_address_def)
qed (simp add: example_address_def)

text \<open>
  The outcome of a run that ends: the exit code and the lines, and what was done outside, first what
  was sent and then the driver switched off.
\<close>

definition main_outcome :: "'e World \<Rightarrow> int \<times> string list \<times> 'e World \<Rightarrow> bool" where
  "main_outcome w = (\<lambda>(code, out, w').
     (acts w' = acts w \<and> code = -1 \<and>
        ((\<exists>msg. out = [println (''Network init failed: '' @ msg)]) \<or>
         (\<exists>msg. out = [println ''Connecting to WiFi...'', println (''WiFi connection failed: '' @ msg)]))) \<or>
     (acts w' = acts w @ [Cyw43Deinit] \<and> code = -1 \<and> (\<exists>msg. out = joined_lines @ [println (''TCP dial failed: '' @ msg)])) \<or>
     ((acts w' = acts w @ [Cyw43Deinit] \<or>
       (\<exists>q n. acts w' = acts w @ [TcpWrite q (take n (bytes_of_string example_message)), Cyw43Deinit])) \<and>
      talk_outcome connected_lines (Inr (code, out))))"

lemma main_runs:
  assumes run: "example_main pf lw buffer w = Some r" and lw: "connects_with_argument lw" and buf: "length buffer = 256"
  shows "\<exists>y. r = Inr y \<and> main_outcome w y"
proof -
  let ?w0 = "w\<lparr>env := sleep_ms pf 5000 (env w)\<rparr>"
  obtain dhcp w1 where w1: "on_env (new_object lw) ?w0 = (dhcp, w1)" by fastforce
  obtain e2 net2 w2 where w2: "initialize lw (new_Network dhcp) w1 = (e2, net2, w2)" by (metis prod_cases3)
  have "acts w1 = acts w" using w1 by (metis acts_on_env acts_call(3) snd_conv)
  then have a2: "acts w2 = acts w" using acts_station(2) [OF w2] by simp
  note net2 = plain_start [OF w2]
  note eval = example_main_def w1 w2 Let_def
  show ?thesis
  proof (cases e2)
    case (Some err)
    have "r = example_leave lw net2 (example_failed ''Network init failed: '' err []) w2"
      using run Some by (simp add: eval)
    from failed_runs [OF this net2(1) net2(2) [OF Some]] a2 show ?thesis by (auto simp: main_outcome_def)
  next
    case None
    obtain e3 net3 w3 where w3: "connect_to_wifi_station lw WIFI_SSID WIFI_PASSWORD 10000 net2 w2 = (e3, net3, w3)"
      by (metis prod_cases3)
    have a3: "acts w3 = acts w" using acts_station(1) [OF w3] a2 by simp
    note net3 = plain_join [OF w3 net2(1)]
    show ?thesis
    proof (cases e3)
      case (Some err)
      have "r = example_leave lw net3 (example_failed ''WiFi connection failed: '' err [println ''Connecting to WiFi...'']) w3"
        using run None Some w3 by (simp add: eval)
      from failed_runs [OF this net3(1) net3(2) [OF Some]] a3 Some show ?thesis by (auto simp: main_outcome_def)
    next
      case joined: None
      have net: "plain True net3" using net3(1) joined by simp
      obtain dr w4 where w4: "dial_tcp pf lw net3 example_address 10000 w3 = Some (dr, w4)"
        using run None joined w3 by (auto simp: eval split: option.splits)
      have a4: "acts w4 = acts w" using acts_dial [OF w4 lw] a3 by simp
      show ?thesis
      proof (cases dr)
        case (Inl err)
        have fault: "\<not> is_fault err" using dial_tcp_outcome [OF w4 lw] Inl by (simp add: dial_outcome_def)
        have "r = example_leave lw net3 (example_failed ''TCP dial failed: '' err joined_lines) w4"
          using run None joined w3 w4 Inl by (simp add: eval dialling_line)
        from failed_runs [OF this net fault] a4 show ?thesis by (auto simp: main_outcome_def)
      next
        case (Inr c)
        obtain tr c5 w5 where w5: "example_talk pf lw buffer connected_lines c w4 = Some (tr, c5, w5)"
          and r: "r = example_leave lw net3 tr (tcp_destroy lw c5 w5)"
          using run None joined w3 w4 Inr by (auto simp: eval dialling_line split: option.splits)
        note talk = talk_runs [OF w5 buf]
        obtain code out where tr: "tr = Inr (code, out)" using talk(1) by (auto simp: talk_outcome_def)
        obtain w' where w': "example_leave lw net3 tr (tcp_destroy lw c5 w5) = Inr (code, out, w')"
            "acts w' = acts w5 @ [Cyw43Deinit]"
          using leave_runs [OF net, of lw code out "tcp_destroy lw c5 w5"] tr by (auto simp: acts_destroy)
        have "acts w' = acts w @ [Cyw43Deinit] \<or>
            (\<exists>q n. acts w' = acts w @ [TcpWrite q (take n (bytes_of_string example_message)), Cyw43Deinit])"
          using talk(2) w'(2) a4 by auto
        then show ?thesis using r w'(1) talk(1) tr unfolding main_outcome_def by auto
      qed
    qed
  qed
qed

section \<open>A sample run\<close>

text \<open>An lwIP that runs one callback in each poll and accepts five bytes at a time.\<close>

definition stepwise_lwip :: "sample_env Lwip" where
  "stepwise_lwip = sample_lwip\<lparr>
     lwip_poll := (\<lambda>(t, evs). case filter carries_argument evs of [] \<Rightarrow> ([], (t, [])) | ev # evs \<Rightarrow> ([ev], (t, evs))),
     lwip_aton := (\<lambda>s. Some (IP4 192 168 1 17))\<rparr>"

lemma stepwise_law: "connects_with_argument stepwise_lwip"
proof -
  have "carries_argument x" if "filter carries_argument evs = x # xs" for evs x xs
    using that by (auto simp: filter_eq_Cons_iff)
  from this [of _ "TcpConnectedEvent None p err" for p err] show ?thesis
    by (auto simp: connects_with_argument_def stepwise_lwip_def carries_argument_def
        split: prod.split list.split)
qed

definition answering_peer :: "sample_env World" where
  "answering_peer = sample_world 0 [TcpConnectedEvent (Some 7) 1 ERR_OK,
     TcpRecvEvent (Some 7) 1 (Some [72, 105, 0, 1]) ERR_OK]"

lemma sample_received:
  "example_received (replicate 256 255) [72, 105, 0, 1] = Inr (println ''Received: Hi'')"
proof -
  have "string_of_bytes [72, 105] = ''Hi''" by code_simp
  then show ?thesis by (simp add: received_line)
qed

lemma sample_main_run:
  "\<exists>w'. example_main sample_platform stepwise_lwip (replicate 256 255) answering_peer =
     Some (Inr (0, connected_lines @ [''Sent: '' @ example_message, println ''Received: Hi'', println ''Done''], w')) \<and>
     acts w' = [TcpWrite 1 (take 5 (bytes_of_string example_message)), Cyw43Deinit]"
  by (simp add: example_main_def initialize_def connect_to_wifi_station_def new_Network_def answering_peer_def
      sample_world_def stepwise_lwip_def sample_lwip_def on_env_def call_def call_void_def Let_def dialling_line
      dial_tcp_def dial_start_def is_ready_def dial_wait.simps new_TcpDialState_def arch_poll_def carries_argument_def
      dial_dispatch_def tcp_dial_connected_callback_def dial_finish_def tcp_attach_callbacks_def new_TcpConnection_def
      example_talk_def tcp_write_def example_message_def println_def tcp_read_def blocking_read_def read_loop.simps
      tcp_read_nonblocking_def tcp_poll_def tcp_dispatch_def tcp_recv_callback_def handle_tcp_recv_def tcp_take_def
      sample_received tcp_close_def tcp_destroy_def example_leave_def network_destroy_def dhcp_destroy_def
      dhcp_stop_def new_DhcpServer_def acts_def)

section \<open>Property\<close>



end
