(* ===== verification/Spec2Isabelle.thy ===== *)
theory Spec2Isabelle
  imports Mqtt_Wire Mqtt_Delivery Dhcp_Service Dns_Service Network_Service Client_System_Service
    Udp_System_Service Example_Program
begin

text \<open>
  Verification of \<^verbatim>\<open>pico_toolkit\<close>, a C++ library for the Raspberry Pi Pico W: an MQTT 3.1.1
  client (\<^verbatim>\<open>pico_mqtt\<close>), the network layer below it over lwIP and the cyw43 radio driver
  (\<^verbatim>\<open>pico_net\<close>), and the error type both share (\<^verbatim>\<open>pico_core\<close>).

  \<^bold>\<open>The program.\<close> \<^verbatim>\<open>Network\<close> brings the radio up and makes connections and listeners.
  \<^verbatim>\<open>TcpConnection\<close> and \<^verbatim>\<open>UdpConnection\<close> implement \<^verbatim>\<open>Connection\<close>, \<^verbatim>\<open>TcpListener\<close> and \<^verbatim>\<open>UdpListener\<close>
  implement \<^verbatim>\<open>Listener\<close>; they register themselves as the argument of lwIP's callbacks, which run
  inside \<^verbatim>\<open>cyw43_arch_poll\<close>. \<^verbatim>\<open>DhcpServer\<close> and \<^verbatim>\<open>DnsServer\<close> answer datagrams from such callbacks.
  \<^verbatim>\<open>MqttClient\<close> dials, and runs the protocol over \<^verbatim>\<open>Connection\<close> with \<^verbatim>\<open>MqttEncoder\<close> and \<^verbatim>\<open>MqttParser\<close>.

  \<^bold>\<open>Conventions\<close> (\<open>Toolkit_Prelude\<close>, \<open>Net_Interface\<close>, \<open>Lwip\<close>, \<open>Sample_Environment\<close>).
  A function that returns \<^verbatim>\<open>std::tuple<T, std::optional<Error>>\<close> returns \<open>Error + 'a\<close>, one that
  returns \<^verbatim>\<open>std::optional<Error>\<close> returns an option. \<open>Error\<close> has two constructors that no code returns:
  \<open>OutOfBounds\<close> and \<open>NullDeref\<close> stand for reading or writing outside a buffer and for following a
  null or dangling pointer, so that memory safety is the statement that they are never reached.
  Integers of fixed width are words, \<^verbatim>\<open>size_t\<close> is \<open>nat\<close>, bytes are \<open>u8\<close>. Objects are records passed
  along and returned updated; \<open>this\<close> is a number where the object's address is observable.
  lwIP, the driver and the clock are not in the repository. They are the parameters \<open>Lwip\<close> and
  \<open>Platform\<close> over an environment \<open>'e\<close> nobody looks into; a \<open>World\<close> adds the log of the calls made,
  with their results, and of the callbacks received, which is what properties speak about.
  Laws of theirs are hypotheses by name, all documented behaviour: \<open>clock_law\<close> (the clock runs and
  sleeping takes its time), \<open>clock_quiet\<close> (neither changes what lwIP holds), \<open>lwip_keeps_time\<close> (lwIP
  does not turn the clock back), \<open>connects_with_argument\<close> (a connected callback gets the argument of
  its control block), \<open>buffers_available\<close> (packet buffers can be allocated), \<open>ticks_at\<close> (the
  millisecond counter shows a given time), \<open>lwip_law\<close> and \<open>udp_law\<close> (below). \<open>Sample_Environment\<close>,
  \<open>Sample_System\<close> with \<open>Sample_Client\<close>, and \<open>Sample_Access_Point\<close> satisfy them, and the witnesses run
  on these.

  \<^bold>\<open>Messages and codecs\<close> (\<open>Mqtt_Message\<close>, \<open>Mqtt_Encoder\<close>, \<open>Mqtt_Parser\<close>; \<^verbatim>\<open>mqtt_message.hpp\<close>,
  \<^verbatim>\<open>mqtt_encoder.cpp\<close>, \<^verbatim>\<open>mqtt_parser.cpp\<close>): every struct, encoder and parser, with the parser's
  reads of the packet as partial reads. \<open>Mqtt_Codec\<close> and \<open>Mqtt_Fields\<close> state a codec as a locale
  and show the fields (integers, strings, remaining length, lists of topics) to be instances;
  \<open>Mqtt_Roundtrip\<close> interprets the locale for each message, \<open>Mqtt_Safety\<close> shows that no input makes
  a parser read outside it. \<open>Mqtt_Wire\<close> has the properties: what is parsed is exactly what the
  encoder makes of a message that fits its length fields, in both directions.

  \<^bold>\<open>The client\<close> (\<open>Mqtt_Client\<close>, \<open>Mqtt_Client_Laws\<close>, \<open>Mqtt_Frame\<close>; \<^verbatim>\<open>mqtt_client.cpp\<close>): the state
  record, framing of the received stream (\<open>mqtt_frame_info\<close>, \<open>process_rx_buffer\<close>), sending
  (\<open>send_encoded\<close>), \<open>connect\<close>, \<open>publish\<close>, \<open>subscribe\<close>, \<open>poll\<close> with the keep-alive, \<open>next_message\<close>,
  \<open>disconnect\<close>. The laws are proved in the locale \<open>mqtt_transport\<close> over the contract \<open>connection\<close> of
  \<^verbatim>\<open>connection.hpp\<close>; \<open>Mqtt_Over_Tcp\<close> interprets it on \<^verbatim>\<open>TcpConnection\<close>, and \<open>Network_Service\<close> closes
  the circle with \<open>dial_tcp\<close>; \<open>Mqtt_Delivery\<close> follows the stream from lwIP's callbacks through both
  buffers to the queue, over any number of polls. They show the client's invariant, that a publish or subscribe puts
  exactly one packet with its meaning on the wire, that the stream is cut into the packets sent
  however it arrives, that the keep-alive works, that identifiers cycle, and that \<open>connect\<close> returns.

  \<^bold>\<open>Connections and listeners\<close> (\<open>Tcp_Connection\<close>, \<open>Udp_Connection\<close>, \<open>Tcp_Listener\<close>, \<open>Udp_Listener\<close>,
  \<open>Udp_Listener_Laws\<close>, \<open>Udp_Service\<close>; the files of the same names): the callbacks, the virtual
  functions and the destructors. A read or an accept that blocks is a loop that the two
  implementations share (\<open>read_loop\<close>, \<open>accept_loop\<close> of \<open>Net_Interface\<close>); it need not return, so it
  is a partial function into option, and a read with a deadline is shown to return. TCP: the
  reads are the stream, a write is a prefix, connections are accepted in order, closing is
  complete. UDP: a listener and its connections point to each other, so they live in a heap
  (\<open>UdpHeap\<close>) with the listener, the connections and the next free address; \<open>listener_ok\<close> ties the
  listener's table to the objects, every step keeps it (\<open>udp_step\<close>, \<open>udp_reach\<close>), so no operation
  meets a dangling pointer while the listener lives, and datagrams go to their peer's queue.
  The contracts are the locales \<open>connection\<close>, \<open>timed_connection\<close> and \<open>listener\<close>.

  \<^bold>\<open>The TCP objects of a program together\<close> (\<open>Lwip_Callbacks\<close>, \<open>Tcp_System\<close>, \<open>Tcp_System_Laws\<close>,
  \<open>Tcp_System_Steps\<close>, \<open>Tcp_System_Service\<close>): lwIP keeps one registration per control block, and a
  poll by any object runs the callbacks of all. Connections, listeners and dials that are under way
  are therefore one heap (\<open>TcpSystem\<close>) over one world; \<open>sys_dispatch\<close> sends a callback to the object
  behind its argument and faults when there is none, and the operations of the classes are those of
  the theories above on the object at an address (\<open>sys_read\<close>, \<open>sys_accept\<close>, and so on). The split of a
  nonblocking read into the poll and \<open>tcp_take\<close>, of an accept into the poll and \<open>tcpl_take\<close>, and of a
  dial into \<open>dial_start\<close>, its loop and \<open>dial_finish\<close> is what lets both models share every line.
  \<open>Lwip_Callbacks\<close> states what lwIP documents of its callbacks as \<open>lwip_law\<close>: a view \<open>regs\<close> of the
  blocks and their registrations, how each call changes it, and that a poll is a sequence of
  callbacks that the view allows, each with the argument that is registered then (\<open>lwip_run\<close>). It
  leaves out that the address of a freed object is used again, and that lwIP frees a block which has
  an argument and no error function without a word (a peer that resets a connection which waits in
  a listener, or one that is being dialled; two of the findings). Under that law, for runs
  (\<open>sys_steps\<close>) of any usable operations, the invariant \<open>sys_ok\<close> ties registrations to objects: no
  callback meets a dangling pointer, blocks have one owner, streams do not mix, and one connection
  among others behaves as in its own theory. An operation is usable on an object that exists; the
  one restriction beyond that, no destructor after the peer has ended the stream, is needed:
  \<open>peer_close_leaves_dangling_callback\<close> shows what happens without it.

  \<^bold>\<open>The client among them\<close> (\<open>Hosted_Client\<close>, \<open>Client_System\<close>, \<open>Sample_Client\<close>, \<open>Client_System_Service\<close>):
  an \<^verbatim>\<open>MqttClient\<close> whose connection is an object of that heap. \<open>heap_ops\<close> are the virtual functions of
  \<^verbatim>\<open>Connection\<close> through the pointer, \<open>sys_dial_tcp\<close> is \<open>Network::dial_tcp\<close> whose polls run the callbacks
  of all objects, and the functions of the client are those of \<open>Mqtt_Client\<close>, unchanged, over these.
  The contract of a connection then holds only while the heap is in order: \<open>hosted_connection\<close> states it
  so, and carries the lemmas of \<open>mqtt_transport\<close> over by guarding the connection (\<open>guard\<close>). The
  properties are about runs (\<open>program_reach\<close>) in which functions of the client alternate with
  operations of others on their own objects: nothing faults and every function of the client
  returns; its publish reaches its own control block and no other; and when the broker ends the
  stream the client itself runs into the dangling callback.

  \<^bold>\<open>Network\<close> (\<open>Network\<close>, \<open>Network_Service\<close>; \<^verbatim>\<open>network.cpp\<close>): the modes of the radio as reachable
  states, the dial with its state on the stack and its waiting loop, which returns because the
  clock passes the deadline, and what dialling and listening leave behind in lwIP.

  \<^bold>\<open>DHCP and DNS\<close> (\<open>Dhcp_Server\<close>, \<open>Dhcp_Laws\<close>, \<open>Dhcp_Service\<close>; \<open>Dns_Server\<close>, \<open>Dns_Laws\<close>,
  \<open>Dns_Service\<close>; \<^verbatim>\<open>dhcp_server.cpp\<close>, \<^verbatim>\<open>dns_server.cpp\<close>): the handlers over the message structure or
  buffer with bounds, the leases and their expiry on the wrapping 32-bit millisecond counter,
  the records. They show what is answered and what is dropped, that a running lease is not
  taken from its client, the exact bounds of lease times and of safe datagrams, and that a
  name is read as it is encoded; the locale \<open>name_table\<close> is the contract of the records.

  \<^bold>\<open>The UDP side of a program as a whole\<close> (\<open>Udp_System\<close>, \<open>Udp_System_Laws\<close>, \<open>Udp_System_Steps\<close>,
  \<open>Udp_System_Service\<close>, \<open>Sample_Access_Point\<close>): one network with its DHCP server, the DNS servers
  and the connections of \<^verbatim>\<open>dial_udp\<close>, over one world (\<open>UdpSystem\<close>). A poll by one of them runs the
  callbacks of all; \<open>us_dispatch\<close> sends each to the object behind its argument with the handlers of the
  theories above, and the operations (\<open>us_exec\<close>) are those of the classes. \<open>udp_law\<close> is what lwIP
  documents: a block keeps the argument it was given, a callback brings the argument that is
  registered and the sender's address, a new block is one not in use, and, as for TCP, an address
  stands for one object in the whole run. For all runs (\<open>us_reach\<close>) the invariant \<open>us_ok\<close> ties the
  registered arguments to the objects, so no callback meets a dangling pointer and the one fault
  left is a datagram too long for its server; the lease table stays well-formed; a poll does to each
  connection what its own datagrams do to it alone; and a client that joins the access point gets an
  address, a lease and an answer from the DNS server that its acknowledgement names. What the stack
  array of the DNS handler holds before is the parameter \<open>stack\<close>, of the 300 bytes of that array.

  \<^bold>\<open>The example\<close> (\<open>Example_Program\<close>; \<^verbatim>\<open>examples/simple_tcp_connection.cpp\<close>): \<^verbatim>\<open>main\<close> with what it
  prints, its early returns and the destructors it ends with, and all the ways it can go.

  \<^bold>\<open>Termination.\<close> Loops that end are functions with a measure (the rest of the buffer, of the
  packet or of the options). Loops that wait are partial functions into option; \<open>None\<close> is not
  returning. There is no fuel.

  \<^bold>\<open>Not modelled.\<close> lwIP, the driver, the SDK and the C++ library, beyond what is used of them;
  \<^verbatim>\<open>printf\<close> in the library; the lock of \<^verbatim>\<open>cyw43_arch_lwip_begin\<close> and \<^verbatim>\<open>end\<close>, since in the poll architecture nothing
  runs concurrently; allocation failure of \<^verbatim>\<open>new\<close> and of the containers; null buffers handed in by
  a caller. In the theories of the single classes a poll dispatches the callbacks of the object, or
  of the UDP heap, that polls; what it does to objects elsewhere is in \<open>Tcp_System\<close> for TCP and in
  \<open>Udp_System\<close> for the network, its servers and UDP connections. A UDP listener keeps the heap of its own
  theory, and the TCP and the UDP side are not put together: they share no object but the
  network, which no callback of TCP touches. \<^verbatim>\<open>lwipopts.h\<close> configures lwIP, and \<^verbatim>\<open>docs\<close> is generated.
  Where the sources do not compile (a local that is not declared in \<^verbatim>\<open>decode_remaining_length\<close>,
  \<^verbatim>\<open>assign\<close> on a span in \<^verbatim>\<open>publish\<close>, declarations repeated after the class in \<^verbatim>\<open>mqtt_client.hpp\<close>) the
  model takes the evident reading, which the text at the definition names.
\<close>

end
